(* ===== verification/Prelude.thy ===== *)
theory Prelude
  imports Main "HOL-Library.AList" "HOL-Library.Sublist" "HOL-Library.Monad_Syntax"
begin

text \<open>
  Shared vocabulary of the development. Rust strings are lists of bytes (their UTF-8
  encoding), so \<open>length\<close> is \<open>str::len\<close>; \<open>utf8_chars\<close> groups the bytes of each scalar
  value, which is what \<open>str::chars\<close>, \<open>trim\<close> and \<open>split_whitespace\<close> work on. A
  \<open>HashMap\<close> or \<open>serde_json::Map\<close> is an association list with distinct keys; \<open>Result\<close>
  is a sum whose left side is the error. The \<open>named_theorems\<close> collections at the
  front gather the unfoldings the component theories feed to \<open>simp\<close>.
\<close>

named_theorems model_defs
named_theorems step_simps

section \<open>Results and options\<close>

abbreviation is_Ok :: "'e + 'a \<Rightarrow> bool" where
  "is_Ok r \<equiv> \<exists>v. r = Inr v"

fun find_map :: "('a \<Rightarrow> 'b option) \<Rightarrow> 'a list \<Rightarrow> 'b option" where
  "find_map f [] = None"
| "find_map f (x # xs) = (case f x of None \<Rightarrow> find_map f xs | Some y \<Rightarrow> Some y)"

lemma find_map_None_iff: "find_map f xs = None \<longleftrightarrow> (\<forall>x \<in> set xs. f x = None)"
  by (induction xs) (auto split: option.splits)

lemma find_map_SomeD: "find_map f xs = Some y \<Longrightarrow> \<exists>x \<in> set xs. f x = Some y"
  by (induction xs) (auto split: option.splits)

definition or_opt :: "'a option \<Rightarrow> 'a option \<Rightarrow> 'a option" where
  "or_opt a b = (case a of None \<Rightarrow> b | Some x \<Rightarrow> Some x)"

lemma or_opt_simps [simp]:
  "or_opt None b = b" "or_opt (Some x) b = Some x" "or_opt a None = a"
  by (simp_all add: or_opt_def split: option.splits)

lemma or_opt_assoc: "or_opt (or_opt a b) c = or_opt a (or_opt b c)"
  by (simp add: or_opt_def split: option.splits)

abbreviation the_or :: "'a \<Rightarrow> 'a option \<Rightarrow> 'a" where
  "the_or d x \<equiv> case_option d id x"

section \<open>Association lists\<close>

text \<open>\<open>HashMap::insert\<close>, \<open>HashMap::remove\<close> and \<open>contains_key\<close>.\<close>

definition al_put :: "'k \<Rightarrow> 'v \<Rightarrow> ('k \<times> 'v) list \<Rightarrow> ('k \<times> 'v) list" where
  "al_put k v m = AList.update k v m"

definition al_del :: "'k \<Rightarrow> ('k \<times> 'v) list \<Rightarrow> ('k \<times> 'v) list" where
  "al_del k m = filter (\<lambda>p. fst p \<noteq> k) m"

definition al_has :: "'k \<Rightarrow> ('k \<times> 'v) list \<Rightarrow> bool" where
  "al_has k m = (map_of m k \<noteq> None)"

abbreviation al_ok :: "('k \<times> 'v) list \<Rightarrow> bool" where
  "al_ok m \<equiv> distinct (map fst m)"

lemma map_of_al_put [simp]: "map_of (al_put k v m) k' = (if k' = k then Some v else map_of m k')"
  by (simp add: al_put_def update_conv')

lemma map_of_filter_ne: "map_of (filter (\<lambda>p. fst p \<noteq> k) m) k' = (if k' = k then None else map_of m k')"
  by (induction m) auto

lemma map_of_al_del [simp]: "map_of (al_del k m) k' = (if k' = k then None else map_of m k')"
  by (simp add: al_del_def map_of_filter_ne)

lemma al_ok_put [simp]: "al_ok m \<Longrightarrow> al_ok (al_put k v m)"
  by (simp add: al_put_def distinct_update)

lemma al_ok_filter [simp]: "al_ok m \<Longrightarrow> al_ok (filter P m)"
  by (induction m) auto

lemma al_ok_del [simp]: "al_ok m \<Longrightarrow> al_ok (al_del k m)"
  by (simp add: al_del_def)

lemma set_al_del: "set (al_del k m) = {p \<in> set m. fst p \<noteq> k}"
  by (auto simp: al_del_def)

lemma keys_al_put: "set (map fst (al_put k v m)) = insert k (set (map fst m))"
  by (induction m) (auto simp: al_put_def)

lemma al_put_fresh: "\<not> al_has k m \<Longrightarrow> al_put k v m = m @ [(k, v)]"
  unfolding al_put_def al_has_def by (induction m) (auto split: if_splits)

lemma find_append_None: "find P xs = None \<Longrightarrow> find P (xs @ ys) = find P ys"
  by (induction xs) (auto split: if_splits)

lemma set_al_put: "set (al_put k v m) \<subseteq> insert (k, v) (set m)"
  unfolding al_put_def by (induction m) auto

lemma length_al_put: "length (al_put k v m) \<le> Suc (length m)"
  unfolding al_put_def by (induction m) auto

lemma length_al_put_fresh: "k \<notin> fst ` set m \<Longrightarrow> length (al_put k v m) = Suc (length m)"
  unfolding al_put_def by (induction m) auto

lemma length_al_del: "length (al_del k m) \<le> length m"
  by (simp add: al_del_def)

lemma map_of_filter_snd:
  "al_ok m \<Longrightarrow> map_of (filter (\<lambda>(k, v). P k v) m) k =
     (case map_of m k of None \<Rightarrow> None | Some v \<Rightarrow> if P k v then Some v else None)"
  by (induction m) (auto split: option.splits simp: map_of_eq_None_iff image_iff rev_image_eqI)

section \<open>Bytes and strings\<close>

abbreviation code :: "char \<Rightarrow> nat" where
  "code c \<equiv> of_char c"

definition in_range :: "nat \<Rightarrow> nat \<Rightarrow> char \<Rightarrow> bool" where
  "in_range lo hi c = (lo \<le> code c \<and> code c \<le> hi)"

abbreviation is_digit_char :: "char \<Rightarrow> bool" where
  "is_digit_char \<equiv> in_range 48 57"

definition is_ascii_alnum :: "char \<Rightarrow> bool" where
  "is_ascii_alnum c = (is_digit_char c \<or> in_range 65 90 c \<or> in_range 97 122 c)"

definition is_hex_digit :: "char \<Rightarrow> bool" where
  "is_hex_digit c = (is_digit_char c \<or> in_range 65 70 c \<or> in_range 97 102 c)"

text \<open>\<open>str::to_ascii_lowercase\<close> and \<open>to_ascii_uppercase\<close>.\<close>

definition lower_char :: "char \<Rightarrow> char" where
  "lower_char c = (if in_range 65 90 c then char_of (code c + 32) else c)"

definition upper_char :: "char \<Rightarrow> char" where
  "upper_char c = (if in_range 97 122 c then char_of (code c - 32) else c)"

abbreviation ascii_lower :: "string \<Rightarrow> string" where
  "ascii_lower \<equiv> map lower_char"

abbreviation ascii_upper :: "string \<Rightarrow> string" where
  "ascii_upper \<equiv> map upper_char"

lemma lower_char_idem [simp]: "lower_char (lower_char c) = lower_char c"
  by (auto simp: lower_char_def in_range_def)

lemma ascii_lower_idem [simp]: "ascii_lower (ascii_lower s) = ascii_lower s"
  by simp

text \<open>\<open>str::contains\<close> with a string pattern, \<open>starts_with\<close> and \<open>ends_with\<close>.\<close>

fun str_contains :: "string \<Rightarrow> string \<Rightarrow> bool" where
  "str_contains [] p = (p = [])"
| "str_contains (c # cs) p = (prefix p (c # cs) \<or> str_contains cs p)"

lemma str_contains_iff: "str_contains s p \<longleftrightarrow> (\<exists>u v. s = u @ p @ v)"
proof (induction s)
  case Nil
  then show ?case by auto
next
  case step: (Cons c cs)
  show ?case
  proof
    assume "str_contains (c # cs) p"
    then consider "prefix p (c # cs)" | "str_contains cs p" by auto
    then show "\<exists>u v. c # cs = u @ p @ v"
    proof cases
      case 1
      then show ?thesis by (metis append_Nil prefixE)
    next
      case 2
      with step.IH show ?thesis by (metis append_Cons)
    qed
  next
    assume "\<exists>u v. c # cs = u @ p @ v"
    then obtain u v where "c # cs = u @ p @ v" by blast
    show "str_contains (c # cs) p"
    proof (cases u)
      case Nil
      then have "prefix p (c # cs)" using \<open>c # cs = u @ p @ v\<close> by (simp add: prefix_def)
      then show ?thesis by simp
    next
      case (Cons d u')
      then have "cs = u' @ p @ v" using \<open>c # cs = u @ p @ v\<close> by simp
      then show ?thesis using step.IH by auto
    qed
  qed
qed

fun join_str :: "string \<Rightarrow> string list \<Rightarrow> string" where
  "join_str sep [] = []"
| "join_str sep [x] = x"
| "join_str sep (x # y # ys) = x @ sep @ join_str sep (y # ys)"

text \<open>\<open>str::split\<close> at every character that satisfies a predicate: one more piece than
  there are separators.\<close>

fun split_at :: "(char \<Rightarrow> bool) \<Rightarrow> string \<Rightarrow> string list" where
  "split_at p [] = [[]]"
| "split_at p (c # cs) =
     (if p c then [] # split_at p cs
      else (case split_at p cs of [] \<Rightarrow> [[c]] | x # xs \<Rightarrow> (c # x) # xs))"

lemma split_at_nonempty [simp]: "split_at p s \<noteq> []"
  by (induction s) (auto split: list.splits)

lemma split_at_pieces: "x \<in> set (split_at p s) \<Longrightarrow> c \<in> set x \<Longrightarrow> \<not> p c"
  by (induction s arbitrary: x) (fastforce split: if_splits list.splits)+

lemma split_at_append:
  "p c \<Longrightarrow> split_at p (a @ c # b) = split_at p a @ split_at p b"
proof (induction a)
  case Nil
  then show ?case by simp
next
  case (Cons x xs)
  obtain y ys where "split_at p xs = y # ys" using split_at_nonempty list.exhaust by meson
  with Cons show ?case by simp
qed

lemma split_at_none: "\<forall>c \<in> set s. \<not> p c \<Longrightarrow> split_at p s = [s]"
  by (induction s) auto

lemma split_at_join:
  "p d \<Longrightarrow> \<forall>q \<in> set ps. \<forall>c \<in> set q. \<not> p c \<Longrightarrow> ps \<noteq> [] \<Longrightarrow> split_at p (join_str [d] ps) = ps"
proof (induction "[d]" ps rule: join_str.induct)
  case 1
  then show ?case by simp
next
  case (2 x)
  then show ?case by (simp add: split_at_none)
next
  case (3 x y ys)
  then show ?case using split_at_append [of p d x] by (simp add: split_at_none)
qed

lemma join_str_append:
  "a \<noteq> [] \<Longrightarrow> b \<noteq> [] \<Longrightarrow> join_str sep (a @ b) = join_str sep a @ sep @ join_str sep b"
proof (induction sep a rule: join_str.induct)
  case (2 sep x)
  then show ?case by (cases b) simp_all
qed simp_all

text \<open>\<open>split_once\<close> and \<open>rsplit_once\<close> at one character.\<close>

fun split_once_at :: "char \<Rightarrow> string \<Rightarrow> (string \<times> string) option" where
  "split_once_at d [] = None"
| "split_once_at d (c # cs) =
     (if c = d then Some ([], cs)
      else (case split_once_at d cs of None \<Rightarrow> None | Some (a, b) \<Rightarrow> Some (c # a, b)))"

lemma split_once_at_Some: "split_once_at d s = Some (a, b) \<Longrightarrow> s = a @ d # b \<and> d \<notin> set a"
  by (induction s arbitrary: a b) (fastforce split: if_splits option.splits)+

lemma split_once_at_None: "split_once_at d s = None \<longleftrightarrow> d \<notin> set s"
  by (induction s) (auto split: option.splits)

definition rsplit_once_at :: "char \<Rightarrow> string \<Rightarrow> (string \<times> string) option" where
  "rsplit_once_at d s =
     (case split_once_at d (rev s) of None \<Rightarrow> None | Some (b, a) \<Rightarrow> Some (rev a, rev b))"

lemma rsplit_once_at_Some:
  assumes "rsplit_once_at d s = Some (a, b)"
  shows "s = a @ d # b \<and> d \<notin> set b"
proof -
  obtain b' a' where h: "split_once_at d (rev s) = Some (b', a')" "a = rev a'" "b = rev b'"
    using assms by (auto simp: rsplit_once_at_def split: option.splits)
  then have "rev s = b' @ d # a' \<and> d \<notin> set b'"
    using split_once_at_Some by blast
  then have "s = rev (b' @ d # a')" and "d \<notin> set b'" by (metis rev_rev_ident)+
  then show ?thesis using h(2,3) by simp
qed

lemma rsplit_once_at_append:
  assumes "d \<notin> set b"
  shows "rsplit_once_at d (a @ d # b) = Some (a, b)"
proof -
  have "split_once_at d (rev b @ d # rev a) = Some (rev b, rev a)" if "d \<notin> set b" for b
    using that by (induction b rule: rev_induct) auto
  then show ?thesis using assms by (simp add: rsplit_once_at_def)
qed

subsection \<open>UTF-8 scalar values as byte groups\<close>

definition is_cont :: "char \<Rightarrow> bool" where
  "is_cont c = in_range 128 191 c"

function utf8_chars :: "string \<Rightarrow> string list" where
  "utf8_chars [] = []"
| "utf8_chars (c # cs) = (c # takeWhile is_cont cs) # utf8_chars (dropWhile is_cont cs)"
  by pat_completeness auto
termination
  by (relation "measure length") (auto simp: le_imp_less_Suc length_dropWhile_le)

lemma concat_utf8_chars [simp]: "concat (utf8_chars s) = s"
  by (induction s rule: utf8_chars.induct) auto

lemma utf8_chars_nonempty: "g \<in> set (utf8_chars s) \<Longrightarrow> g \<noteq> []"
  by (induction s rule: utf8_chars.induct) auto

definition bytes :: "nat list \<Rightarrow> string" where
  "bytes ns = map char_of ns"

text \<open>\<open>char::is_whitespace\<close>: the Unicode \<open>White_Space\<close> property, by encoding.\<close>

definition is_ws :: "string \<Rightarrow> bool" where
  "is_ws g \<longleftrightarrow> map of_char g \<in> set (
     map (\<lambda>n. [n]) [9::nat, 10, 11, 12, 13, 32]
     @ [[194, 133], [194, 160], [225, 154, 128]]
     @ map (\<lambda>n. [226, 128, n]) [128, 129, 130, 131, 132, 133, 134, 135, 136, 137, 138, 168, 169, 175]
     @ [[226, 129, 159], [227, 128, 128]])"

definition trim_str :: "string \<Rightarrow> string" where
  "trim_str s = concat (rev (dropWhile is_ws (rev (dropWhile is_ws (utf8_chars s)))))"

fun split_ws_groups :: "string list \<Rightarrow> string \<Rightarrow> string list" where
  "split_ws_groups [] acc = (if acc = [] then [] else [acc])"
| "split_ws_groups (g # gs) acc =
     (if is_ws g then (if acc = [] then split_ws_groups gs [] else acc # split_ws_groups gs [])
      else split_ws_groups gs (acc @ g))"

definition split_whitespace :: "string \<Rightarrow> string list" where
  "split_whitespace s = split_ws_groups (utf8_chars s) []"

subsection \<open>Numbers in text\<close>

fun digits_value :: "string \<Rightarrow> nat \<Rightarrow> nat option" where
  "digits_value [] acc = Some acc"
| "digits_value (c # cs) acc =
     (if is_digit_char c then digits_value cs (acc * 10 + (code c - 48)) else None)"

text \<open>\<open>str::parse\<close> for an unsigned type with the given maximum: an optional \<open>+\<close>, then at
  least one digit, refused when the value does not fit.\<close>

definition parse_unsigned :: "nat \<Rightarrow> string \<Rightarrow> nat option" where
  "parse_unsigned limit s =
     (let ds = (case s of c # cs \<Rightarrow> (if c = CHR ''+'' then cs else s) | [] \<Rightarrow> [])
      in if ds = [] then None
         else (case digits_value ds 0 of None \<Rightarrow> None
               | Some n \<Rightarrow> if n \<le> limit then Some n else None))"

abbreviation u64_max :: nat where "u64_max \<equiv> 18446744073709551615"
abbreviation u32_max :: nat where "u32_max \<equiv> 4294967295"
abbreviation u16_max :: nat where "u16_max \<equiv> 65535"

fun show_nat :: "nat \<Rightarrow> string" where
  "show_nat n = (if n < 10 then [char_of (48 + n)]
                 else show_nat (n div 10) @ [char_of (48 + n mod 10)])"

declare show_nat.simps [simp del]

lemma show_nat_digits: "c \<in> set (show_nat n) \<Longrightarrow> is_digit_char c"
proof (induction n rule: show_nat.induct)
  case (1 n)
  have "is_digit_char (char_of (48 + n mod 10))" "n < 10 \<Longrightarrow> is_digit_char (char_of (48 + n))"
    by (simp_all add: in_range_def)
  then show ?case using 1 show_nat.simps [of n] by (auto split: if_splits)
qed

lemma show_nat_nonempty: "show_nat n \<noteq> []"
  by (subst show_nat.simps) simp

lemma digits_value_append:
  "digits_value (a @ b) acc = Option.bind (digits_value a acc) (digits_value b)"
  by (induction a arbitrary: acc) auto

lemma digits_value_show: "digits_value (show_nat n) 0 = Some n"
proof (induction n rule: show_nat.induct)
  case (1 n)
  show ?case
  proof (cases "n < 10")
    case True
    then show ?thesis by (subst show_nat.simps) (simp add: in_range_def)
  next
    case False
    then have "digits_value (show_nat (n div 10)) 0 = Some (n div 10)" using 1 by simp
    moreover have "is_digit_char (char_of (48 + n mod 10))" by (simp add: in_range_def)
    ultimately show ?thesis
      using False by (subst show_nat.simps) (simp add: digits_value_append)
  qed
qed

lemma parse_show: "n \<le> limit \<Longrightarrow> parse_unsigned limit (show_nat n) = Some n"
proof -
  assume "n \<le> limit"
  obtain d ds where d: "show_nat n = d # ds" using show_nat_nonempty list.exhaust by meson
  then have "is_digit_char d" using show_nat_digits [of d n] by simp
  then have "d \<noteq> CHR ''+''" by (auto simp: in_range_def)
  then show ?thesis using d digits_value_show [of n] \<open>n \<le> limit\<close> by (simp add: parse_unsigned_def)
qed

text \<open>Saturating arithmetic on an unsigned type of the given maximum.\<close>

definition sat_add :: "nat \<Rightarrow> nat \<Rightarrow> nat \<Rightarrow> nat" where
  "sat_add limit a b = min limit (a + b)"

definition sat_mul :: "nat \<Rightarrow> nat \<Rightarrow> nat \<Rightarrow> nat" where
  "sat_mul limit a b = min limit (a * b)"

end
