(* ===== verification/Ipc.thy ===== *)
theory Ipc
  imports Prelude
begin

text \<open>
  The error type every command fails with (\<open>src-tauri/src/ipc.rs\<close>): the closed list of
  codes, the reader-facing sentence of each, and \<open>CommandError::from_anyhow\<close>, which
  classifies whatever failure reaches the command layer. Errors of third-party crates
  are data here: a source of the chain records which variant it is and the text it
  displays. An \<open>anyhow::Error\<close> is the list of context values put around it (outermost
  first), the error it was made from and that error's own \<open>source()\<close> chain;
  \<open>downcast_ref\<close> sees the context values and the error, a walk of \<open>chain()\<close> sees the
  error and its sources, as documented for that crate.
\<close>

section \<open>Codes and messages\<close>

datatype (plugins only: code) error_code =
    AuthFailed
  | ConnectionRefused
  | HostNotFound
  | TimedOut
  | HostKeyMismatch
  | InvalidCertificate
  | TlsNegotiationFailed
  | SshNegotiationFailed
  | ProxyFailed
  | NotFound
  | PermissionDenied
  | Cancelled
  | IntegrityMismatch
  | CleanupIncomplete
  | NetworkUnreachable
  | ConnectionLost
  | InvalidInput
  | ResourceLimit
  | StorageFull
  | KeyUnreadable
  | CredentialFileMissing
  | NetworkPathNotChosen
  | Busy
  | FileInUse
  | VaultLocked
  | VaultAuthFailed
  | VaultUnreadable
  | SavedSecretUnreadable
  | AlreadyExists
  | ReplaceUnsupported
  | ReplaceInterrupted
  | StagingLeft
  | CreateUnsupported
  | ActiveModeFailed
  | LinkNotFollowed
  | NoRecycleBin
  | StoreNewer
  | StoreUnreadable
  | StoreNotWritable
  | SourceChanged
  | RemoteChanged
  | InvalidFileName
  | InsideSource
  | WebdavRedirect
  | CleartextSignIn
  | EditsRetained
  | ResumeExpired
  | ProgramUnavailable
  | SecretNotProtected
  | ServerRefused
  | Internal

record command_error =
  ce_code :: error_code
  ce_message :: string
  ce_details :: "string option"

definition command_error_new :: "error_code \<Rightarrow> string \<Rightarrow> command_error" where
  "command_error_new c m = \<lparr>ce_code = c, ce_message = m, ce_details = None\<rparr>"

text \<open>\<open>protocol::fail\<close>, a failure the application itself decides on.\<close>

abbreviation fail :: "error_code \<Rightarrow> string \<Rightarrow> command_error" where
  "fail \<equiv> command_error_new"

lemma command_error_new_simps [simp]:
  "ce_code (command_error_new c m) = c"
  "ce_message (command_error_new c m) = m"
  "ce_details (command_error_new c m) = None"
  by (simp_all add: command_error_new_def)

lemma command_error_new_inject [simp]:
  "command_error_new c m = command_error_new c' m' \<longleftrightarrow> c = c' \<and> m = m'"
  by (simp add: command_error_new_def)

primrec safe_message :: "error_code \<Rightarrow> string" where
  "safe_message AuthFailed = ''Authentication failed''"
| "safe_message ConnectionRefused = ''Connection refused''"
| "safe_message HostNotFound = ''Server not found''"
| "safe_message TimedOut = ''Operation timed out''"
| "safe_message HostKeyMismatch = ''Server host key changed''"
| "safe_message InvalidCertificate = ''Server certificate is invalid''"
| "safe_message TlsNegotiationFailed = ''TLS negotiation failed''"
| "safe_message SshNegotiationFailed = ''SSH negotiation failed''"
| "safe_message ProxyFailed = ''Proxy connection failed''"
| "safe_message NotFound = ''File or folder not found''"
| "safe_message PermissionDenied = ''Permission denied''"
| "safe_message Cancelled = ''Operation cancelled''"
| "safe_message CleanupIncomplete = ''Cleanup incomplete; unverified objects retained''"
| "safe_message IntegrityMismatch = ''Integrity verification failed''"
| "safe_message NetworkUnreachable = ''Network is unreachable''"
| "safe_message ConnectionLost = ''Connection lost''"
| "safe_message InvalidInput = ''Invalid input''"
| "safe_message ResourceLimit = ''Resource limit exceeded''"
| "safe_message StorageFull = ''Not enough storage space''"
| "safe_message KeyUnreadable = ''The private key could not be read''"
| "safe_message CredentialFileMissing = ''The key or certificate file was not found''"
| "safe_message NetworkPathNotChosen = ''Network paths require native-dialog confirmation''"
| "safe_message Busy = ''Another operation is using this location''"
| "safe_message FileInUse = ''The file is in use by another process''"
| "safe_message VaultLocked = ''Vault is locked''"
| "safe_message VaultAuthFailed = ''Vault authentication failed or temporarily unavailable''"
| "safe_message VaultUnreadable = ''The password vault could not be read or saved''"
| "safe_message SavedSecretUnreadable = ''The saved password could not be read''"
| "safe_message AlreadyExists = ''A file or folder with that name already exists''"
| "safe_message ReplaceUnsupported = ''The server did not allow the existing file to be replaced''"
| "safe_message ReplaceInterrupted = ''The connection was lost while the file was being replaced; its previous version will be put back on the next connection''"
| "safe_message StagingLeft = ''The temporary file could not be deleted from the server''"
| "safe_message Internal = ''Command failed''"
| "safe_message CreateUnsupported = ''The FTP server does not support creating new files''"
| "safe_message ActiveModeFailed = ''The server could not connect back in FTP active mode''"
| "safe_message LinkNotFollowed = ''The path goes through a link, which is not followed''"
| "safe_message NoRecycleBin = ''This location has no Recycle Bin; nothing was deleted''"
| "safe_message StoreNewer = ''The data was saved by a newer version of FTPeach''"
| "safe_message StoreUnreadable = ''The data file cannot be read, so it is not overwritten''"
| "safe_message StoreNotWritable = ''The data folder cannot be written''"
| "safe_message SourceChanged = ''The file changed while it was uploading''"
| "safe_message RemoteChanged = ''The file on the server changed while it was downloading''"
| "safe_message InvalidFileName = ''Windows doesn't allow this name''"
| "safe_message InsideSource = ''A folder can't be copied or moved into itself''"
| "safe_message WebdavRedirect = ''The server redirects to another address''"
| "safe_message CleartextSignIn = ''The server asks for a password over an unencrypted connection''"
| "safe_message EditsRetained = ''Too many edits weren't uploaded''"
| "safe_message ResumeExpired = ''This paused transfer can't be resumed''"
| "safe_message ProgramUnavailable = ''The program wasn't found or can't be run''"
| "safe_message SecretNotProtected = ''The password couldn't be encrypted''"
| "safe_message ServerRefused = ''The server refused''"

definition with_safe_message :: "error_code \<Rightarrow> string \<Rightarrow> command_error" where
  "with_safe_message c d = \<lparr>ce_code = c, ce_message = safe_message c, ce_details = Some d\<rparr>"

text \<open>\<open>vault_locked\<close>: the refusal of every vault-backed read and write.\<close>

definition vault_locked_error :: command_error where
  "vault_locked_error = command_error_new VaultLocked ''Vault is locked''"

section \<open>The failures that reach the command layer\<close>

datatype platform = Windows | Unix

datatype io_kind =
    KTimedOut | KConnectionRefused | KConnectionReset | KConnectionAborted | KBrokenPipe
  | KNotConnected | KUnexpectedEof | KNotFound | KPermissionDenied | KAlreadyExists
  | KStorageFull | KResourceBusy | KInvalidFilename | KNetworkDown | KNetworkUnreachable
  | KHostUnreachable | KInterrupted | KUncategorized

text \<open>\<open>std::io::Error\<close>; \<open>io_reply_too_large\<close> says that the error it wraps is the FTP
  crate's \<open>ReplyTooLarge\<close>.\<close>

record io_error =
  io_os_code :: "int option"
  io_kind_of :: io_kind
  io_reply_too_large :: bool
  io_text :: string

datatype sftp_status =
  SftpNoSuchFile | SftpPermissionDenied | SftpConnectionLost | SftpNoConnection | SftpOtherStatus

datatype source =
    STyped command_error
  | SReqwest bool string                      \<comment> \<open>whether it is a timeout\<close>
  | SElapsed string
  | SFtpUnexpected nat string string          \<comment> \<open>reply code, reply body, display text\<close>
  | SFtpConnection io_error string
  | SFtpOther string
  | SSftpStatus sftp_status string string     \<comment> \<open>status, its message, display text\<close>
  | SSftpUnexpected string string             \<comment> \<open>\<open>UnexpectedBehavior\<close> text, display text\<close>
  | SSftpOther string
  | SIo io_error
  | SOther string

fun source_text :: "source \<Rightarrow> string" where
  "source_text (STyped e) = ce_message e"
| "source_text (SReqwest _ t) = t"
| "source_text (SElapsed t) = t"
| "source_text (SFtpUnexpected _ _ t) = t"
| "source_text (SFtpConnection _ t) = t"
| "source_text (SFtpOther t) = t"
| "source_text (SSftpStatus _ _ t) = t"
| "source_text (SSftpUnexpected _ t) = t"
| "source_text (SSftpOther t) = t"
| "source_text (SIo e) = io_text e"
| "source_text (SOther t) = t"

datatype err_context = CtxTyped command_error | CtxText string

record anyhow_error =
  ae_contexts :: "err_context list"
  ae_root :: source
  ae_causes :: "source list"

fun context_text :: "err_context \<Rightarrow> string" where
  "context_text (CtxTyped e) = ce_message e"
| "context_text (CtxText t) = t"

definition plain_error :: "source \<Rightarrow> anyhow_error" where
  "plain_error s = \<lparr>ae_contexts = [], ae_root = s, ae_causes = []\<rparr>"

definition with_context :: "err_context \<Rightarrow> anyhow_error \<Rightarrow> anyhow_error" where
  "with_context c e = e\<lparr>ae_contexts := c # ae_contexts e\<rparr>"

text \<open>What \<open>error.chain()\<close> can be downcast from, and the text of \<open>{error:#}\<close>.\<close>

definition chain :: "anyhow_error \<Rightarrow> source list" where
  "chain e = ae_root e # ae_causes e"

definition render :: "anyhow_error \<Rightarrow> string" where
  "render e = join_str '': '' (map context_text (ae_contexts e) @ map source_text (chain e))"

text \<open>\<open>error.downcast_ref::<CommandError>()\<close>: the outermost typed context, else the error.\<close>

fun ctx_typed :: "err_context \<Rightarrow> command_error option" where
  "ctx_typed (CtxTyped e) = Some e"
| "ctx_typed (CtxText _) = None"

fun source_typed :: "source \<Rightarrow> command_error option" where
  "source_typed (STyped e) = Some e"
| "source_typed _ = None"

definition downcast_command :: "anyhow_error \<Rightarrow> command_error option" where
  "downcast_command e = or_opt (find_map ctx_typed (ae_contexts e)) (source_typed (ae_root e))"

section \<open>Classification\<close>

fun is_timeout_source :: "source \<Rightarrow> bool" where
  "is_timeout_source (SReqwest t _) = t"
| "is_timeout_source (SElapsed _) = True"
| "is_timeout_source _ = False"

subsection \<open>\<open>String::from_utf8_lossy\<close>\<close>

text \<open>The ranges of the bytes that must follow a lead byte; none for a byte that cannot
  lead. An incomplete or invalid sequence becomes one replacement character.\<close>

definition utf8_follow :: "nat \<Rightarrow> (nat \<times> nat) list option" where
  "utf8_follow b =
     (if b < 128 then Some []
      else if 194 \<le> b \<and> b \<le> 223 then Some [(128, 191)]
      else if b = 224 then Some [(160, 191), (128, 191)]
      else if b = 237 then Some [(128, 159), (128, 191)]
      else if 225 \<le> b \<and> b \<le> 239 then Some [(128, 191), (128, 191)]
      else if b = 240 then Some [(144, 191), (128, 191), (128, 191)]
      else if 241 \<le> b \<and> b \<le> 243 then Some [(128, 191), (128, 191), (128, 191)]
      else if b = 244 then Some [(128, 143), (128, 191), (128, 191)]
      else None)"

fun take_follow :: "(nat \<times> nat) list \<Rightarrow> string \<Rightarrow> string \<times> bool \<times> string" where
  "take_follow [] s = ([], True, s)"
| "take_follow (r # rs) [] = ([], False, [])"
| "take_follow ((lo, hi) # rs) (c # cs) =
     (if in_range lo hi c
      then (case take_follow rs cs of (m, ok, rest) \<Rightarrow> (c # m, ok, rest))
      else ([], False, c # cs))"

lemma take_follow_length: "take_follow rs s = (m, ok, rest) \<Longrightarrow> length rest \<le> length s"
  by (induction rs s arbitrary: m ok rest rule: take_follow.induct)
     (force split: if_splits prod.splits)+

definition replacement_char :: string where
  "replacement_char = bytes [239, 191, 189]"

function from_utf8_lossy :: "string \<Rightarrow> string" where
  "from_utf8_lossy [] = []"
| "from_utf8_lossy (c # cs) =
     (case utf8_follow (code c) of
        None \<Rightarrow> replacement_char @ from_utf8_lossy cs
      | Some rs \<Rightarrow> (case take_follow rs cs of (m, ok, rest) \<Rightarrow>
          (if ok then c # m else replacement_char) @ from_utf8_lossy rest))"
  by pat_completeness auto
termination
  by (relation "measure length") (auto intro!: le_imp_less_Suc dest!: take_follow_length [OF sym])

subsection \<open>Server replies\<close>

definition names_full_storage :: "string \<Rightarrow> bool" where
  "names_full_storage lower \<longleftrightarrow>
     str_contains lower ''no space left'' \<or> str_contains lower ''disk full''
     \<or> str_contains lower ''quota exceeded'' \<or> str_contains lower ''insufficient storage''"

definition ftp_reply_code :: "nat \<Rightarrow> string \<Rightarrow> error_code option" where
  "ftp_reply_code status body =
     (let text = ascii_lower (from_utf8_lossy body);
          too_many = str_contains text ''too many'' \<or> str_contains text ''(the maximum)''
      in if status \<in> {421, 530} \<and> too_many then Some ResourceLimit
         else if status = 530 then Some AuthFailed
         else if status = 421 then Some ConnectionLost
         else if status \<in> {452, 552} then Some StorageFull
         else if status = 451 \<and> str_contains text ''failure writing'' then Some StorageFull
         else if status = 553 \<and> str_contains text ''site encoding'' then Some InvalidInput
         else if status = 553 then Some PermissionDenied
         else if status = 550 \<and> (str_contains text ''no such'' \<or> str_contains text ''not found''
                 \<or> str_contains text ''not exist'' \<or> str_contains text ''doesn't exist'')
           then Some NotFound
         else if status = 550 \<and> (str_contains text ''permission'' \<or> str_contains text ''denied''
                 \<or> str_contains text ''not permitted'')
           then Some PermissionDenied
         else None)"

fun code_for_server_reply :: "source \<Rightarrow> error_code option" where
  "code_for_server_reply (SFtpConnection e _) =
     (if io_reply_too_large e then Some ResourceLimit else None)"
| "code_for_server_reply (SIo e) = (if io_reply_too_large e then Some ResourceLimit else None)"
| "code_for_server_reply (SFtpUnexpected status body _) = ftp_reply_code status body"
| "code_for_server_reply (SSftpStatus st m _) =
     (case st of
        SftpNoSuchFile \<Rightarrow> Some NotFound
      | SftpPermissionDenied \<Rightarrow> Some PermissionDenied
      | SftpConnectionLost \<Rightarrow> Some ConnectionLost
      | SftpNoConnection \<Rightarrow> Some ConnectionLost
      | SftpOtherStatus \<Rightarrow>
          (if names_full_storage (ascii_lower m) then Some StorageFull else None))"
| "code_for_server_reply (SSftpUnexpected text _) =
     (if text \<in> {''sender dropped'', ''session closed''} then Some ConnectionLost else None)"
| "code_for_server_reply _ = None"

definition one_line :: "string \<Rightarrow> string option" where
  "one_line text =
     (let line = join_str '' '' (split_whitespace text)
      in if line = [] then None else Some (concat (take 200 (utf8_chars line))))"

fun server_reply_text :: "source \<Rightarrow> string option" where
  "server_reply_text (SFtpUnexpected _ body _) = one_line (from_utf8_lossy body)"
| "server_reply_text (SSftpStatus _ m _) = one_line m"
| "server_reply_text _ = None"

subsection \<open>I/O errors and message text\<close>

definition name_lookup_texts :: "string list" where
  "name_lookup_texts = [''Name or service not known'', ''nodename nor servname provided'',
     ''No address associated with hostname'', ''Temporary failure in name resolution'']"

definition code_for_os :: "platform \<Rightarrow> io_error \<Rightarrow> error_code option" where
  "code_for_os p e =
     (case p of
        Windows \<Rightarrow>
          (case io_os_code e of
             None \<Rightarrow> None
           | Some n \<Rightarrow>
               if n \<in> {32, 33} then Some FileInUse
               else if n \<in> {15, 21, 53, 67} then Some NotFound
               else if n \<in> {11001, 11004} then Some HostNotFound
               else None)
      | Unix \<Rightarrow>
          (if io_os_code e = None \<and> (\<exists>known \<in> set name_lookup_texts. str_contains (io_text e) known)
           then Some HostNotFound else None))"

fun code_for_io_kind :: "io_kind \<Rightarrow> error_code option" where
  "code_for_io_kind KTimedOut = Some TimedOut"
| "code_for_io_kind KConnectionRefused = Some ConnectionRefused"
| "code_for_io_kind KConnectionReset = Some ConnectionLost"
| "code_for_io_kind KConnectionAborted = Some ConnectionLost"
| "code_for_io_kind KBrokenPipe = Some ConnectionLost"
| "code_for_io_kind KNotConnected = Some ConnectionLost"
| "code_for_io_kind KUnexpectedEof = Some ConnectionLost"
| "code_for_io_kind KNotFound = Some NotFound"
| "code_for_io_kind KPermissionDenied = Some PermissionDenied"
| "code_for_io_kind KAlreadyExists = Some AlreadyExists"
| "code_for_io_kind KStorageFull = Some StorageFull"
| "code_for_io_kind KResourceBusy = Some FileInUse"
| "code_for_io_kind KInvalidFilename = Some InvalidInput"
| "code_for_io_kind KNetworkDown = Some NetworkUnreachable"
| "code_for_io_kind KNetworkUnreachable = Some NetworkUnreachable"
| "code_for_io_kind KHostUnreachable = Some NetworkUnreachable"
| "code_for_io_kind KInterrupted = Some Cancelled"
| "code_for_io_kind KUncategorized = None"

definition code_for_io_error :: "platform \<Rightarrow> io_error \<Rightarrow> error_code option" where
  "code_for_io_error p e = or_opt (code_for_os p e) (code_for_io_kind (io_kind_of e))"

definition code_for_message :: "string \<Rightarrow> error_code" where
  "code_for_message details =
     (let lower = ascii_lower details; has = str_contains lower
      in if has ''host_key_mismatch'' \<or> has ''host key mismatch'' then HostKeyMismatch
         else if has ''530 '' \<or> has ''login incorrect'' \<or> has ''auth fail'' \<or> has ''401''
           then AuthFailed
         else if has ''10061'' \<or> has ''connection refused'' then ConnectionRefused
         else if has ''timed out'' \<or> has ''timeout'' \<or> has ''10060'' then TimedOut
         else if has ''certificate'' \<or> has ''cert_'' then InvalidCertificate
         else if has ''tls handshake failed'' \<or> has ''tls negotiation''
                 \<or> (has ''protocol version'' \<and> has ''tls'')
           then TlsNegotiationFailed
         else if has ''ssh handshake failed'' \<or> has ''ssh negotiation''
                 \<or> (has ''no common'' \<and> has ''algorithm'')
           then SshNegotiationFailed
         else if has ''proxy handshake failed'' \<or> has ''could not connect to proxy''
                 \<or> has ''proxy rejected'' \<or> has ''socks proxy''
           then ProxyFailed
         else if has ''permission denied'' \<or> has ''(os error 5)'' \<or> has ''403''
           then PermissionDenied
         else if has ''not found'' \<or> has ''(os error 2)'' \<or> has ''(os error 3)'' then NotFound
         else if has ''cancel'' then Cancelled
         else if has ''integrity'' \<or> has ''checksum'' \<or> has ''hash mismatch''
           then IntegrityMismatch
         else if has ''10050'' \<or> has ''10051'' \<or> has ''10065'' then NetworkUnreachable
         else if has ''10052'' \<or> has ''10053'' \<or> has ''10054'' \<or> has ''connection closed''
                 \<or> has ''connection reset'' \<or> has ''broken pipe'' \<or> has ''unexpected eof''
                 \<or> has ''socket''
           then ConnectionLost
         else if names_full_storage lower then StorageFull
         else Internal)"

subsection \<open>\<open>CommandError::from_anyhow\<close>\<close>

fun source_io :: "source \<Rightarrow> io_error option" where
  "source_io (SIo e) = Some e"
| "source_io _ = None"

definition untyped_code :: "platform \<Rightarrow> anyhow_error \<Rightarrow> error_code" where
  "untyped_code p e =
     (case or_opt (find_map code_for_server_reply (chain e))
             (case find_map source_io (chain e) of
                None \<Rightarrow> None | Some io \<Rightarrow> code_for_io_error p io) of
        Some c \<Rightarrow> c
      | None \<Rightarrow> code_for_message (render e))"

definition from_anyhow :: "platform \<Rightarrow> anyhow_error \<Rightarrow> command_error" where
  "from_anyhow p e =
     (if \<exists>s \<in> set (chain e). is_timeout_source s then with_safe_message TimedOut (render e)
      else case downcast_command e of
        Some ce \<Rightarrow>
          (if ce_details ce = None \<and> render e \<noteq> ce_message ce
           then ce\<lparr>ce_details := Some (render e)\<rparr> else ce)
      | None \<Rightarrow>
          (let c = untyped_code p e
           in case (if c = Internal then find_map server_reply_text (chain e) else None) of
                Some reply \<Rightarrow>
                  \<lparr>ce_code = ServerRefused, ce_message = reply, ce_details = Some (render e)\<rparr>
              | None \<Rightarrow> with_safe_message c (render e)))"

definition at_path :: "platform \<Rightarrow> anyhow_error \<Rightarrow> string \<Rightarrow> anyhow_error" where
  "at_path p e place =
     (let typed = from_anyhow p e;
          inner = (case ce_details typed of None \<Rightarrow> ce_message typed | Some d \<Rightarrow> d)
      in plain_error (STyped (typed\<lparr>ce_details := Some (place @ '': '' @ inner)\<rparr>)))"

definition unexplained :: "platform \<Rightarrow> anyhow_error \<Rightarrow> bool" where
  "unexplained p e = (ce_code (from_anyhow p e) \<in> {Internal, ServerRefused})"

section \<open>What the classification guarantees\<close>

text \<open>Well-formed UTF-8, as every Rust \<open>String\<close> is.\<close>

function valid_utf8 :: "string \<Rightarrow> bool" where
  "valid_utf8 [] = True"
| "valid_utf8 (c # cs) =
     (case utf8_follow (code c) of
        None \<Rightarrow> False
      | Some rs \<Rightarrow> (case take_follow rs cs of (m, ok, rest) \<Rightarrow> ok \<and> valid_utf8 rest))"
  by pat_completeness auto
termination
  by (relation "measure length") (auto intro!: le_imp_less_Suc dest!: take_follow_length [OF sym])

lemma utf8_follow_ranges:
  "utf8_follow b = Some rs \<Longrightarrow> (lo, hi) \<in> set rs \<Longrightarrow> 128 \<le> lo \<and> hi \<le> 191"
  by (auto simp: utf8_follow_def split: if_splits)

lemma take_follow_ok:
  "take_follow rs s = (m, True, rest) \<Longrightarrow> s = m @ rest \<and> take_follow rs (m @ t) = (m, True, t)"
  by (induction rs s arbitrary: m rest rule: take_follow.induct)
     (force split: if_splits prod.splits)+

lemma take_follow_cont:
  "take_follow rs s = (m, ok, rest) \<Longrightarrow> \<forall>(lo, hi) \<in> set rs. 128 \<le> lo \<and> hi \<le> 191
   \<Longrightarrow> \<forall>c \<in> set m. is_cont c"
  by (induction rs s arbitrary: m ok rest rule: take_follow.induct)
     (fastforce split: if_splits prod.splits simp: is_cont_def in_range_def)+

lemma cont_cannot_lead: "is_cont c \<Longrightarrow> utf8_follow (code c) = None"
  by (simp add: is_cont_def in_range_def utf8_follow_def)

lemma from_utf8_lossy_valid: "valid_utf8 s \<Longrightarrow> from_utf8_lossy s = s"
proof (induction s rule: valid_utf8.induct)
  case 1
  then show ?case by simp
next
  case (2 c cs)
  then show ?case
    by (fastforce split: option.splits prod.splits dest: take_follow_ok)
qed

lemma valid_utf8_append: "valid_utf8 s \<Longrightarrow> valid_utf8 (s @ t) = valid_utf8 t"
proof (induction s rule: valid_utf8.induct)
  case 1
  then show ?case by simp
next
  case (2 c cs)
  then obtain rs m rest where f: "utf8_follow (code c) = Some rs"
    and tk: "take_follow rs cs = (m, True, rest)" and v: "valid_utf8 rest"
    by (auto split: option.splits prod.splits)
  have "take_follow rs (cs @ t) = (m, True, rest @ t)"
    using take_follow_ok [OF tk] by simp
  with 2 f tk v show ?case by simp
qed

lemma valid_replacement [simp]: "valid_utf8 replacement_char"
  by (simp add: replacement_char_def bytes_def utf8_follow_def in_range_def)

lemma from_utf8_lossy_is_valid: "valid_utf8 (from_utf8_lossy s)"
proof (induction s rule: from_utf8_lossy.induct)
  case 1
  then show ?case by simp
next
  case (2 c cs)
  show ?case
  proof (cases "utf8_follow (code c)")
    case None
    with 2 show ?thesis by (simp add: valid_utf8_append)
  next
    case (Some rs)
    obtain m ok rest where tk: "take_follow rs cs = (m, ok, rest)" by (cases "take_follow rs cs")
    have rest: "valid_utf8 (from_utf8_lossy rest)" using 2(2) [OF Some tk [symmetric] refl] .
    have "ok \<Longrightarrow> valid_utf8 (c # m)"
      using Some take_follow_ok [of rs cs m rest "[]"] tk by simp
    then have "valid_utf8 ((c # m) @ from_utf8_lossy rest)" if ok
      using that rest by (simp only: valid_utf8_append)
    with Some tk rest show ?thesis by (auto simp: valid_utf8_append)
  qed
qed

text \<open>In well-formed text an ASCII character is a scalar value of its own.\<close>

lemma valid_utf8_groups:
  "valid_utf8 s \<Longrightarrow> g \<in> set (utf8_chars s) \<Longrightarrow> c \<in> set g \<Longrightarrow> code c < (128::nat) \<Longrightarrow> g = [c]"
proof (induction s rule: valid_utf8.induct)
  case 1
  then show ?case by simp
next
  case (2 d cs)
  then obtain rs m rest where f: "utf8_follow (code d) = Some rs"
    and tk: "take_follow rs cs = (m, True, rest)" and v: "valid_utf8 rest"
    by (auto split: option.splits prod.splits)
  have cs: "cs = m @ rest" using take_follow_ok [OF tk] by simp
  have m: "\<forall>c \<in> set m. is_cont c"
    using take_follow_cont [OF tk] utf8_follow_ranges [OF f] by auto
  have rest: "takeWhile is_cont rest = []"
    using v cont_cannot_lead by (cases rest) (auto split: option.splits)
  have gs: "utf8_chars (d # cs) = (d # m) # utf8_chars rest"
    using m rest cs by (simp add: takeWhile_append2 dropWhile_append2 dropWhile_eq_self_iff)
       (metis takeWhile_dropWhile_id append_self_conv2)
  show ?case
  proof (cases "g = d # m")
    case True
    moreover have "c \<notin> set m" using 2(4) m \<open>code c < (128::nat)\<close>
      by (auto simp: is_cont_def in_range_def)
    ultimately have "c = d" using 2(4) by auto
    then have "rs = []" using f \<open>code c < (128::nat)\<close> by (simp add: utf8_follow_def)
    then show ?thesis using tk True \<open>c = d\<close> by simp
  next
    case False
    then have "g \<in> set (utf8_chars rest)" using 2(3) gs by simp
    with 2(1) [OF f tk [symmetric] refl] v 2(4,5) show ?thesis by simp
  qed
qed

subsection \<open>Pieces of a reply line\<close>

lemma split_ws_groups_pieces:
  assumes "\<forall>g \<in> set gs. P g \<or> is_ws g" and "acc = [] \<or> Q acc"
    and step: "\<And>a g. a = [] \<or> Q a \<Longrightarrow> P g \<Longrightarrow> \<not> is_ws g \<Longrightarrow> Q (a @ g)"
    and "w \<in> set (split_ws_groups gs acc)"
  shows "Q w"
  using assms(1,2,4)
proof (induction gs acc rule: split_ws_groups.induct)
  case (1 acc)
  then show ?case by (simp split: if_splits)
next
  case (2 g gs acc)
  show ?case
  proof (cases "is_ws g")
    case True
    with 2 show ?thesis by (auto split: if_splits)
  next
    case False
    with 2 have "Q (acc @ g)" by (intro step) auto
    with 2 False show ?thesis by auto
  qed
qed

definition is_break :: "char \<Rightarrow> bool" where
  "is_break c = in_range 9 13 c"

lemma break_is_ws: "is_break c \<Longrightarrow> is_ws [c]"
  by (auto simp: is_break_def in_range_def is_ws_def)

lemma split_whitespace_no_break:
  assumes "valid_utf8 s" and "w \<in> set (split_whitespace s)" and "c \<in> set w"
  shows "\<not> is_break c"
proof -
  have groups: "\<forall>g \<in> set (utf8_chars s). (\<forall>c \<in> set g. \<not> is_break c) \<or> is_ws g"
  proof
    fix g assume g: "g \<in> set (utf8_chars s)"
    show "(\<forall>c \<in> set g. \<not> is_break c) \<or> is_ws g"
    proof (rule disjCI)
      assume "\<not> is_ws g"
      show "\<forall>c \<in> set g. \<not> is_break c"
      proof
        fix c assume c: "c \<in> set g"
        show "\<not> is_break c"
        proof
          assume b: "is_break c"
          then have "code c < (128::nat)" by (simp add: is_break_def in_range_def)
          with valid_utf8_groups [OF assms(1) g c] have "g = [c]" by simp
          with break_is_ws [OF b] \<open>\<not> is_ws g\<close> show False by simp
        qed
      qed
    qed
  qed
  have "\<forall>c \<in> set w. \<not> is_break c"
  proof (rule split_ws_groups_pieces [OF groups])
    show "w \<in> set (split_ws_groups (utf8_chars s) [])"
      using assms(2) by (simp add: split_whitespace_def)
  qed auto
  with assms(3) show ?thesis by blast
qed

lemma set_join_str: "c \<in> set (join_str sep ws) \<Longrightarrow> c \<in> set sep \<or> (\<exists>w \<in> set ws. c \<in> set w)"
  by (induction sep ws rule: join_str.induct) auto

lemma utf8_chars_prefix: "length (utf8_chars (concat (take n (utf8_chars s)))) \<le> n"
proof (induction s arbitrary: n rule: utf8_chars.induct)
  case 1
  then show ?case by simp
next
  case (2 c cs)
  show ?case
  proof (cases n)
    case 0
    then show ?thesis by simp
  next
    case (Suc k)
    let ?rest = "concat (take k (utf8_chars (dropWhile is_cont cs)))"
    have "takeWhile is_cont ?rest = []"
    proof (cases "dropWhile is_cont cs")
      case Nil
      show ?thesis unfolding Nil by simp
    next
      case (Cons d ds)
      then have "\<not> is_cont d" by (metis hd_dropWhile list.sel(1) list.distinct(1))
      then show ?thesis unfolding Cons by (cases k) auto
    qed
    moreover have "takeWhile is_cont (takeWhile is_cont cs @ ?rest)
        = takeWhile is_cont cs @ takeWhile is_cont ?rest"
      by (rule takeWhile_append2) (auto dest: set_takeWhileD)
    moreover have "dropWhile is_cont (takeWhile is_cont cs @ ?rest) = dropWhile is_cont ?rest"
      by (rule dropWhile_append2) (auto dest: set_takeWhileD)
    moreover have "dropWhile is_cont ?rest = ?rest"
      using calculation(1) by (metis append_Nil takeWhile_dropWhile_id)
    ultimately show ?thesis using 2 [of k] Suc by simp
  qed
qed

lemma concat_take_subset: "c \<in> set (concat (take n gs)) \<Longrightarrow> c \<in> set (concat gs)"
  by (auto dest: in_set_takeD)

lemma untyped_code_not_refused: "untyped_code p e \<noteq> ServerRefused"
proof -
  have reply: "code_for_server_reply s \<noteq> Some ServerRefused" for s
    by (cases s) (auto simp: ftp_reply_code_def Let_def split: if_splits sftp_status.splits)
  have io: "code_for_io_error p io \<noteq> Some ServerRefused" for io
    by (cases "io_kind_of io"; cases p)
       (auto simp: code_for_io_error_def code_for_os_def or_opt_def split: if_splits option.splits)
  have msg: "code_for_message t \<noteq> ServerRefused" for t
    by (simp add: code_for_message_def Let_def)
  show ?thesis
    using reply io msg
    by (auto simp: untyped_code_def or_opt_def split: option.splits dest!: find_map_SomeD)
qed

lemma downcast_with_text: "downcast_command (with_context (CtxText t) e) = downcast_command e"
  by (simp add: downcast_command_def with_context_def)

section \<open>Properties\<close>

text \<open>C12: Naming the place a failure happened at (\<open>at_path\<close>) never changes how it is
  classified: the error it makes classifies to the same code and message as the original,
  and the place is put in front of the original's details (its message when it has none).\<close>

theorem at_path_keeps_verdict:
  "from_anyhow p (at_path p e place) =
     (from_anyhow p e)\<lparr>ce_details := Some (place @ '': '' @
        (case ce_details (from_anyhow p e) of None \<Rightarrow> ce_message (from_anyhow p e) | Some d \<Rightarrow> d))\<rparr>"
proof -
  have "from_anyhow p (plain_error (STyped ce)) = ce" if "ce_details ce \<noteq> None" for ce
    using that by (simp add: from_anyhow_def plain_error_def chain_def downcast_command_def)
  then show ?thesis by (simp add: at_path_def Let_def)
qed

text \<open>A typed failure keeps its code and message however many lines of context a
  driver puts around it, provided nothing in its chain is a timeout; the first context
  survives in the details for the log.\<close>

theorem context_keeps_typed_code:
  assumes "downcast_command e = Some ce" and "\<not> (\<exists>s \<in> set (chain e). is_timeout_source s)"
  shows "ce_code (from_anyhow p (foldr (with_context \<circ> CtxText) ts e)) = ce_code ce
       \<and> ce_message (from_anyhow p (foldr (with_context \<circ> CtxText) ts e)) = ce_message ce"
proof -
  have "chain (foldr (with_context \<circ> CtxText) ts e) = chain e"
    by (induction ts) (simp_all add: chain_def with_context_def)
  moreover have "downcast_command (foldr (with_context \<circ> CtxText) ts e) = downcast_command e"
    by (induction ts) (simp_all add: downcast_with_text)
  moreover note assms
  ultimately show ?thesis by (simp add: from_anyhow_def)
qed

theorem context_keeps_typed_code_witness:
  "ce_code (from_anyhow Windows (foldr (with_context \<circ> CtxText) [''opening the file'']
     (plain_error (STyped (fail Busy ''in use''))))) = Busy"
proof -
  have d: "downcast_command (plain_error (STyped (fail Busy ''in use''))) = Some (fail Busy ''in use'')"
    by (simp add: plain_error_def downcast_command_def)
  have t: "\<not> (\<exists>s \<in> set (chain (plain_error (STyped (fail Busy ''in use'')))). is_timeout_source s)"
    by (simp add: plain_error_def chain_def)
  show ?thesis
    using context_keeps_typed_code [OF d t, of Windows "[''opening the file'']"] by simp
qed

text \<open>When nothing typed or timed out explains a failure but a server said something,
  the verdict is never the uninformative \<open>Internal\<close>: either a code names it, or it is
  \<open>ServerRefused\<close> with the server's own words as the message.\<close>

theorem server_words_are_shown:
  assumes "downcast_command e = None" and "\<not> (\<exists>s \<in> set (chain e). is_timeout_source s)"
    and "find_map server_reply_text (chain e) = Some reply"
  shows "ce_code (from_anyhow p e) \<noteq> Internal
    \<and> (ce_code (from_anyhow p e) = ServerRefused \<longleftrightarrow> untyped_code p e = Internal)
    \<and> (ce_code (from_anyhow p e) = ServerRefused \<longrightarrow> ce_message (from_anyhow p e) = reply)"
  using assms untyped_code_not_refused [of p e]
  by (auto simp: from_anyhow_def with_safe_message_def Let_def)

theorem server_words_are_shown_witness:
  "ce_code (from_anyhow Windows (plain_error (SFtpUnexpected 500 ''Unknown command'' ''x''))) \<noteq> Internal"
proof -
  let ?e = "plain_error (SFtpUnexpected 500 ''Unknown command'' ''x'')"
  have d: "downcast_command ?e = None" by (simp add: plain_error_def downcast_command_def)
  have t: "\<not> (\<exists>s \<in> set (chain ?e). is_timeout_source s)" by (simp add: plain_error_def chain_def)
  have r: "find_map server_reply_text (chain ?e) = Some ''Unknown command''" by code_simp
  show ?thesis using server_words_are_shown [OF d t r, of Windows] by blast
qed

text \<open>The words of a server shown to the user are one line of at most 200 characters,
  whatever bytes the FTP reply held: never empty, no tab, line feed, carriage return or other
  ASCII line break.\<close>

theorem reply_line_bounded:
  assumes "server_reply_text (SFtpUnexpected status body shown) = Some reply"
  shows "reply \<noteq> [] \<and> length (utf8_chars reply) \<le> 200 \<and> (\<forall>c \<in> set reply. \<not> is_break c)"
proof -
  define line where "line = join_str '' '' (split_whitespace (from_utf8_lossy body))"
  from assms have ne: "line \<noteq> []" and reply: "reply = concat (take 200 (utf8_chars line))"
    by (auto simp: one_line_def line_def Let_def split: if_splits)
  obtain c cs where line: "line = c # cs" using ne by (cases line) auto
  have "reply \<noteq> []" unfolding reply line by simp
  moreover have "\<not> is_break d" if "d \<in> set reply" for d
  proof -
    have "d \<in> set line"
      using concat_take_subset [of d 200 "utf8_chars line"] that reply by simp
    then consider "d \<in> set '' ''" | w where "w \<in> set (split_whitespace (from_utf8_lossy body))" "d \<in> set w"
      unfolding line_def by (meson set_join_str)
    then show ?thesis
    proof cases
      case 1
      then show ?thesis by (simp add: is_break_def in_range_def)
    next
      case 2
      then show ?thesis by (rule split_whitespace_no_break [OF from_utf8_lossy_is_valid])
    qed
  qed
  ultimately show ?thesis by (simp add: reply utf8_chars_prefix)
qed

theorem reply_line_bounded_witness:
  "length (utf8_chars ''550 No such file'') \<le> 200"
proof -
  have "server_reply_text (SFtpUnexpected 550 ''550  No such file'' ''x'') = Some ''550 No such file''"
    by code_simp
  from reply_line_bounded [OF this] show ?thesis by blast
qed

end
