(* ===== verification/ConcurrencyLimiter.thy ===== *)
theory ConcurrencyLimiter
  imports Ipc
begin

text \<open>
  The limit on transfers at work at once (\<open>src-tauri/src/transfer/concurrency_limiter.rs\<close>):
  a pair of the limit (zero is unlimited) and the number of live permits. A \<open>Permit\<close> is
  given back when its last owner drops it. \<open>slots\<close> is the contract the transfer pools use
  it through.
\<close>

section \<open>The limiter\<close>

record limiter =
  lim_limit :: nat
  lim_active :: nat

definition set_limit :: "nat \<Rightarrow> limiter \<Rightarrow> limiter" where
  "set_limit n l = l\<lparr>lim_limit := n\<rparr>"

definition try_acquire :: "limiter \<Rightarrow> limiter option" where
  "try_acquire l =
     (if lim_limit l \<noteq> 0 \<and> lim_limit l \<le> lim_active l then None
      else Some (l\<lparr>lim_active := Suc (lim_active l)\<rparr>))"

text \<open>\<open>Drop for Permit\<close>. A permit exists only after a \<open>try_acquire\<close>, so the count is positive.\<close>

definition drop_permit :: "limiter \<Rightarrow> limiter" where
  "drop_permit l = l\<lparr>lim_active := lim_active l - 1\<rparr>"

text \<open>\<open>acquire\<close>: tries again at every wakeup, over the limiter states it finds there, and
  returns at the first that has room; with no such state it is still waiting.\<close>

fun acquire :: "limiter list \<Rightarrow> (nat \<times> limiter) option" where
  "acquire [] = None"
| "acquire (l # later) =
     (case try_acquire l of
        Some l' \<Rightarrow> Some (0, l')
      | None \<Rightarrow> map_option (\<lambda>(n, l'). (Suc n, l')) (acquire later))"

section \<open>The contract of a bounded supply of slots\<close>

locale slots =
  fixes cap :: "'s \<Rightarrow> nat" and used :: "'s \<Rightarrow> nat"
    and take_slot :: "'s \<Rightarrow> 's option" and give_slot :: "'s \<Rightarrow> 's"
  assumes take_some: "take_slot s = Some t \<Longrightarrow>
      used t = Suc (used s) \<and> cap t = cap s \<and> (cap s \<noteq> 0 \<longrightarrow> used t \<le> cap s)"
    and take_none: "take_slot s = None \<longleftrightarrow> cap s \<noteq> 0 \<and> cap s \<le> used s"
    and give: "used (give_slot s) = used s - 1 \<and> cap (give_slot s) = cap s"
begin

fun use_slots :: "bool list \<Rightarrow> 's \<Rightarrow> 's" where
  "use_slots [] s = s"
| "use_slots (b # bs) s =
     use_slots bs (if b then (case take_slot s of None \<Rightarrow> s | Some t \<Rightarrow> t) else give_slot s)"

lemma give_repeatedly: "used ((give_slot ^^ n) s) = used s - n \<and> cap ((give_slot ^^ n) s) = cap s"
  by (induction n) (auto simp: give)

lemma never_over_cap:
  "cap s \<noteq> 0 \<Longrightarrow> used s \<le> cap s \<Longrightarrow> used (use_slots bs s) \<le> cap s \<and> cap (use_slots bs s) = cap s"
proof (induction bs arbitrary: s)
  case Nil
  then show ?case by simp
next
  case (Cons b bs)
  define t where "t = (if b then (case take_slot s of None \<Rightarrow> s | Some t \<Rightarrow> t) else give_slot s)"
  have "cap t = cap s \<and> used t \<le> cap s"
    using Cons.prems take_some [of s] give [of s]
    by (auto simp: t_def split: option.splits)
  with Cons.IH [of t] Cons.prems show ?case by (simp add: t_def)
qed

lemma room_after_giving_back:
  "take_slot s = None \<Longrightarrow> 0 < n \<Longrightarrow> used s = cap s \<Longrightarrow> take_slot ((give_slot ^^ n) s) \<noteq> None"
  using give_repeatedly [of n s] by (auto simp: take_none)

end

interpretation limiter_slots: slots lim_limit lim_active try_acquire drop_permit
  by unfold_locales (auto simp: try_acquire_def drop_permit_def split: if_splits)

lemma acquire_first_room:
  "acquire ls = Some (n, l') \<longleftrightarrow>
     n < length ls \<and> try_acquire (ls ! n) = Some l' \<and> (\<forall>i < n. try_acquire (ls ! i) = None)"
proof (induction ls arbitrary: n)
  case Nil
  then show ?case by simp
next
  case (Cons l ls)
  show ?case
  proof (cases "try_acquire l")
    case None
    with Cons show ?thesis by (cases n) (auto simp: All_less_Suc2)
  next
    case (Some t)
    then show ?thesis by (cases n) auto
  qed
qed

end
