(* ===== verification/TransferPool.thy ===== *)
theory TransferPool
  imports ConcurrencyLimiter "HOL-Library.Multiset"
begin

text \<open>
  One connection's worker pool (\<open>src-tauri/src/transfer/transfer_pool.rs\<close>). Every
  definition is one section of the code between a lock and its release; \<open>PoolSystem\<close>
  interleaves them. A caller waiting on a \<open>oneshot\<close> is a ticket, issued when the call
  enters the pool; an operation returns the pool it leaves, the answers it sends, and the
  permits it drops. A backend is a number, and so is a \<open>CancellationToken\<close>: it is the
  generation its task was dispatched at. Time is in milliseconds.
\<close>

type_synonym task_id = string
type_synonym pool_result = "command_error + unit"
type_synonym answer = "nat \<times> pool_result"

definition cancelled_cap :: nat where "cancelled_cap = 256"
definition growth_retry_delay :: nat where "growth_retry_delay = 5000"

section \<open>State\<close>

datatype pool_size = Fixed nat | Capped nat | Unlimited

fun satisfied :: "pool_size \<Rightarrow> nat \<Rightarrow> nat \<Rightarrow> bool" where
  "satisfied (Fixed n) current needed = (n \<le> current)"
| "satisfied (Capped n) current needed = (min needed n \<le> current)"
| "satisfied Unlimited current needed = (needed \<le> current)"

record queued_task =
  q_ticket :: nat
  q_id :: task_id
  q_permit :: "nat option"

text \<open>A task taken off the queue, with the locals of the future spawned for it.\<close>

record spawned_task =
  t_ticket :: nat
  t_id :: task_id
  t_backend :: nat
  t_gen :: nat
  t_permit :: "nat option"
  t_started :: bool
  t_result :: "pool_result option"

text \<open>The locals of a running \<open>grow_workers\<close>, which holds the growing gate.\<close>

record growth =
  g_spare :: nat
  g_connecting :: nat
  g_error :: "command_error option"
  g_asked :: bool

record pool =
  p_size :: pool_size
  p_workers :: "nat list"
  p_queue :: "queued_task list"
  p_active :: "(task_id \<times> nat) list"
  p_tokens :: "nat list"
  p_tasks :: "spawned_task list"
  p_cancelled_ids :: "task_id list"
  p_cancelled_order :: "task_id list"
  p_destroyed :: bool
  p_retry_after :: "nat option"
  p_growth :: "growth option"
  p_growth_cancelled :: bool
  p_generation :: nat

definition pool_new :: "pool_size \<Rightarrow> pool" where
  "pool_new sz = \<lparr>p_size = sz, p_workers = [], p_queue = [], p_active = [], p_tokens = [],
     p_tasks = [], p_cancelled_ids = [], p_cancelled_order = [], p_destroyed = False,
     p_retry_after = None, p_growth = None, p_growth_cancelled = False, p_generation = 0\<rparr>"

section \<open>Stopping\<close>

text \<open>\<open>mark_cancelled\<close>: remembers a Stop that came before its task, the latest 256 of them.\<close>

fun trim_cancelled :: "task_id list \<Rightarrow> task_id list \<Rightarrow> task_id list \<times> task_id list" where
  "trim_cancelled ids [] = (ids, [])"
| "trim_cancelled ids (oldest # order) =
     (if cancelled_cap < length (oldest # order)
      then trim_cancelled (removeAll oldest ids) order else (ids, oldest # order))"

definition mark_cancelled :: "task_id \<Rightarrow> pool \<Rightarrow> pool" where
  "mark_cancelled i p =
     (if i \<in> set (p_cancelled_ids p) then p
      else (case trim_cancelled (i # p_cancelled_ids p) (p_cancelled_order p @ [i]) of
              (ids, order) \<Rightarrow> p\<lparr>p_cancelled_ids := ids, p_cancelled_order := order\<rparr>))"

definition canceled_by_user :: command_error where
  "canceled_by_user = fail Cancelled ''Canceled by user''"

definition pool_closed_error :: command_error where
  "pool_closed_error = fail ConnectionLost ''Transfer pool is closed''"

definition already_running_error :: command_error where
  "already_running_error = fail InvalidInput ''Transfer attempt is already running''"

text \<open>Removes the first queued task with an id, as \<open>position\<close> and \<open>remove\<close> do.\<close>

fun take_queued :: "task_id \<Rightarrow> queued_task list \<Rightarrow> (queued_task \<times> queued_task list) option" where
  "take_queued i [] = None"
| "take_queued i (q # qs) =
     (if q_id q = i then Some (q, qs)
      else map_option (\<lambda>(x, rest). (x, q # rest)) (take_queued i qs))"

definition permits_of :: "nat option list \<Rightarrow> nat list" where
  "permits_of os = concat (map (\<lambda>x. case x of None \<Rightarrow> [] | Some n \<Rightarrow> [n]) os)"

type_synonym pool_effect = "pool \<times> answer list \<times> nat list"

definition cancel :: "task_id \<Rightarrow> pool \<Rightarrow> pool_effect" where
  "cancel i p =
     (case take_queued i (p_queue p) of
        Some (item, rest) \<Rightarrow>
          (p\<lparr>p_queue := rest\<rparr>, [(q_ticket item, Inl canceled_by_user)], permits_of [q_permit item])
      | None \<Rightarrow>
          (case map_of (p_active p) i of
             Some token \<Rightarrow> (p\<lparr>p_tokens := token # p_tokens p\<rparr>, [], [])
           | None \<Rightarrow> (mark_cancelled i p, [], [])))"

text \<open>\<open>cancel_all\<close> and \<open>destroy\<close>: both close the pool, stop what runs, answer what waits
  and let the idle connections go; \<open>destroy\<close> also logs them out, which no state records.\<close>

definition close_pool :: "pool \<Rightarrow> pool_effect" where
  "close_pool p =
     (p\<lparr>p_growth_cancelled := True, p_destroyed := True,
        p_tokens := map snd (p_active p) @ p_tokens p, p_queue := [], p_workers := []\<rparr>,
      map (\<lambda>q. (q_ticket q, Inl canceled_by_user)) (p_queue p),
      permits_of (map q_permit (p_queue p)))"

section \<open>Running a task\<close>

definition forget_cancelled :: "task_id \<Rightarrow> pool \<Rightarrow> pool" where
  "forget_cancelled i p =
     p\<lparr>p_cancelled_ids := removeAll i (p_cancelled_ids p),
       p_cancelled_order := remove1 i (p_cancelled_order p)\<rparr>"

text \<open>The first section of \<open>run_notified\<close>, under ticket \<open>t\<close>.\<close>

definition run_notified :: "nat \<Rightarrow> task_id \<Rightarrow> pool \<Rightarrow> pool_effect" where
  "run_notified t i p =
     (if p_destroyed p then (p, [(t, Inl pool_closed_error)], [])
      else if al_has i (p_active p) \<or> i \<in> set (map q_id (p_queue p))
        then (p, [(t, Inl already_running_error)], [])
      else if i \<in> set (p_cancelled_ids p)
        then (forget_cancelled i p, [(t, Inl canceled_by_user)], [])
      else (p\<lparr>p_queue := p_queue p @ [\<lparr>q_ticket = t, q_id = i, q_permit = None\<rparr>]\<rparr>, [], []))"

text \<open>Its section after growth: a task still queued with nobody to run it is given up.\<close>

definition give_up_waiting :: "task_id \<Rightarrow> pool \<Rightarrow> pool_effect" where
  "give_up_waiting i p =
     (if p_workers p = [] \<and> p_active p = []
      then (case take_queued i (p_queue p) of
              Some (item, rest) \<Rightarrow>
                (p\<lparr>p_queue := rest\<rparr>,
                 [(q_ticket item, Inl (fail ConnectionLost
                    ''Failed to establish a connection for the file transfer''))],
                 permits_of [q_permit item])
            | None \<Rightarrow> (p, [], []))
      else (p, [], []))"

text \<open>\<open>drain\<close>: the last idle worker takes the first queued task.\<close>

definition drain :: "pool \<Rightarrow> pool" where
  "drain p =
     (case p_queue p of
        [] \<Rightarrow> p
      | item # rest \<Rightarrow>
          if p_workers p = [] then p
          else p\<lparr>p_workers := butlast (p_workers p), p_queue := rest,
                 p_generation := Suc (p_generation p),
                 p_active := al_put (q_id item) (p_generation p) (p_active p),
                 p_tasks := p_tasks p @
                   [\<lparr>t_ticket = q_ticket item, t_id = q_id item, t_backend = last (p_workers p),
                     t_gen = p_generation p, t_permit = q_permit item,
                     t_started = False, t_result = None\<rparr>]\<rparr>)"

definition set_task :: "nat \<Rightarrow> (spawned_task \<Rightarrow> spawned_task) \<Rightarrow> pool \<Rightarrow> pool" where
  "set_task g f p = p\<lparr>p_tasks := map (\<lambda>t. if t_gen t = g then f t else t) (p_tasks p)\<rparr>"

definition task_at :: "nat \<Rightarrow> pool \<Rightarrow> spawned_task option" where
  "task_at g p = find (\<lambda>t. t_gen t = g) (p_tasks p)"

text \<open>The spawned future starts its task once it holds a permit.\<close>

definition start_task :: "nat \<Rightarrow> nat \<Rightarrow> pool \<Rightarrow> pool" where
  "start_task g permit = set_task g (\<lambda>t. t\<lparr>t_permit := Some permit, t_started := True\<rparr>)"

text \<open>The biased \<open>select!\<close>: a cancelled token wins over a result ready at the same poll.\<close>

definition resolve_task :: "nat \<Rightarrow> pool_result \<Rightarrow> pool \<Rightarrow> pool" where
  "resolve_task g res p =
     set_task g (\<lambda>t. t\<lparr>t_result :=
       Some (if g \<in> set (p_tokens p) then Inl canceled_by_user else res)\<rparr>) p"

text \<open>The last section: the entry leaves \<open>active\<close> if it is still this dispatch's, and a
  connection that is still good goes back to the idle workers of an open pool.\<close>

definition settle_task :: "spawned_task \<Rightarrow> bool \<Rightarrow> pool \<Rightarrow> pool_effect" where
  "settle_task t connected p =
     (let still_connected = (t_gen t \<notin> set (p_tokens p) \<and> connected)
      in (p\<lparr>p_active := (if map_of (p_active p) (t_id t) = Some (t_gen t)
                         then al_del (t_id t) (p_active p) else p_active p),
            p_workers := (if still_connected \<and> \<not> p_destroyed p
                          then p_workers p @ [t_backend t] else p_workers p),
            p_tasks := filter (\<lambda>u. t_gen u \<noteq> t_gen t) (p_tasks p)\<rparr>,
          (case t_result t of None \<Rightarrow> [] | Some r \<Rightarrow> [(t_ticket t, r)]),
          permits_of [t_permit t]))"

definition release_idle :: "nat \<Rightarrow> pool \<Rightarrow> pool" where
  "release_idle generation p =
     (if p_destroyed p \<or> p_active p \<noteq> [] \<or> p_queue p \<noteq> [] \<or> p_generation p \<noteq> generation
      then p else p\<lparr>p_workers := []\<rparr>)"

section \<open>Growing\<close>

definition try_push_worker :: "nat \<Rightarrow> pool \<Rightarrow> pool option" where
  "try_push_worker b p = (if p_destroyed p then None else Some (p\<lparr>p_workers := p_workers p @ [b]\<rparr>))"

definition cooling :: "nat \<Rightarrow> pool \<Rightarrow> bool" where
  "cooling now p = (case p_retry_after p of None \<Rightarrow> False | Some until \<Rightarrow> now < until)"

definition need_more :: "nat \<Rightarrow> nat \<Rightarrow> growth \<Rightarrow> pool \<Rightarrow> bool" where
  "need_more now transfer_limit g p =
     (let total = length (p_workers p) + length (p_active p) + g_connecting g;
          needed = length (p_queue p) + length (p_active p) + g_spare g;
          cooling_down = (0 < total \<and> cooling now p);
          probe_available = (p_retry_after p = None \<or> g_connecting g = 0)
      in \<not> p_destroyed p \<and> \<not> cooling_down \<and> g_error g = None
         \<and> \<not> satisfied (p_size p) total needed
         \<and> (transfer_limit = 0 \<or> total < max transfer_limit (g_spare g))
         \<and> probe_available)"

definition grow_begin :: "nat \<Rightarrow> pool \<Rightarrow> pool option" where
  "grow_begin spare p =
     (case p_growth p of
        Some _ \<Rightarrow> None
      | None \<Rightarrow> Some (p\<lparr>p_growth :=
          Some \<lparr>g_spare = spare, g_connecting = 0, g_error = None, g_asked = False\<rparr>\<rparr>))"

definition grow_spawn :: "nat \<Rightarrow> nat \<Rightarrow> pool \<Rightarrow> pool option" where
  "grow_spawn now transfer_limit p =
     (case p_growth p of
        Some g \<Rightarrow>
          (if need_more now transfer_limit g p
           then Some (p\<lparr>p_growth := Some (g\<lparr>g_connecting := Suc (g_connecting g)\<rparr>)\<rparr>) else None)
      | None \<Rightarrow> None)"

text \<open>What happens when the loop ends: with nothing left to run the queue, every waiting
  transfer gets the reason, and the pool stays open.\<close>

definition grow_end :: "growth \<Rightarrow> pool \<Rightarrow> pool_effect" where
  "grow_end g p =
     (let q = p\<lparr>p_growth := None\<rparr>
      in case g_error g of
           None \<Rightarrow> (q, [], [])
         | Some e \<Rightarrow>
             if \<not> p_destroyed p \<and> p_workers p = [] \<and> p_active p = []
             then (q\<lparr>p_queue := []\<rparr>,
                   map (\<lambda>i. (q_ticket i, Inl (fail (ce_code e)
                          (''Transfer worker replacement failed: '' @ ce_message e)))) (p_queue p),
                   permits_of (map q_permit (p_queue p)))
             else (q, [], []))"

definition login_ok :: "nat \<Rightarrow> growth \<Rightarrow> pool \<Rightarrow> pool_effect" where
  "login_ok b g p =
     (case try_push_worker b p of
        None \<Rightarrow> grow_end g p
      | Some q \<Rightarrow> (q\<lparr>p_growth := Some (g\<lparr>g_connecting := g_connecting g - 1\<rparr>)\<rparr>, [], []))"

definition login_failed :: "nat \<Rightarrow> command_error \<Rightarrow> growth \<Rightarrow> pool \<Rightarrow> pool" where
  "login_failed now failure g p =
     (let g' = g\<lparr>g_connecting := g_connecting g - 1\<rparr>
      in if ce_code failure = ResourceLimit \<and> \<not> g_asked g
         then p\<lparr>p_growth := Some (g'\<lparr>g_asked := True\<rparr>)\<rparr>
         else p\<lparr>p_growth := Some (g'\<lparr>g_error := Some failure\<rparr>),
                p_retry_after := Some (now + growth_retry_delay)\<rparr>)"

text \<open>The loop is left when the session closes, or when no login is pending and none is
  needed.\<close>

definition grow_step_end :: "nat \<Rightarrow> nat \<Rightarrow> growth \<Rightarrow> pool \<Rightarrow> pool_effect option" where
  "grow_step_end now transfer_limit g p =
     (if p_growth_cancelled p then Some (grow_end g p)
      else if g_connecting g = 0 \<and> \<not> need_more now transfer_limit g p then Some (grow_end g p)
      else None)"

section \<open>Admitting a relay\<close>

definition one_connection_error :: command_error where
  "one_connection_error = fail ResourceLimit
     ''Copying within one server needs two connections to it, and only one is available''"

definition leg_ready :: "nat \<Rightarrow> task_id \<Rightarrow> nat \<Rightarrow> pool \<Rightarrow> command_error + bool" where
  "leg_ready now i need p =
     (if p_destroyed p then Inl pool_closed_error
      else if i \<in> set (p_cancelled_ids p) then Inl canceled_by_user
      else if al_has i (p_active p) \<or> i \<in> set (map q_id (p_queue p)) then Inl already_running_error
      else if p_queue p \<noteq> [] then Inr False
      else if need \<le> length (p_workers p) then Inr True
      else (let refused = (p_workers p \<noteq> [] \<and> cooling now p)
            in if p_active p = [] \<and> (refused \<or> satisfied (p_size p) (length (p_workers p)) need)
               then Inl one_connection_error else Inr False))"

definition push_leg :: "nat \<Rightarrow> task_id \<Rightarrow> nat \<Rightarrow> pool \<Rightarrow> pool" where
  "push_leg t i permit p =
     p\<lparr>p_queue := p_queue p @ [\<lparr>q_ticket = t, q_id = i, q_permit = Some permit\<rparr>]\<rparr>"

section \<open>What every operation conserves\<close>

text \<open>The tickets and the permits a pool holds, and its well-formedness: \<open>active\<close> lists
  exactly the spawned tasks, ids are unique among queued and running work, a closed pool
  is empty and has stopped what it ran, a capped pool is within its cap, and the
  remembered stops are bounded.\<close>

definition tickets :: "pool \<Rightarrow> nat multiset" where
  "tickets p = mset (map q_ticket (p_queue p)) + mset (map t_ticket (p_tasks p))"

definition permits :: "pool \<Rightarrow> nat multiset" where
  "permits p = mset (permits_of (map q_permit (p_queue p))) + mset (permits_of (map t_permit (p_tasks p)))"

fun size_cap :: "pool_size \<Rightarrow> nat option" where
  "size_cap (Fixed n) = Some n"
| "size_cap (Capped n) = Some n"
| "size_cap Unlimited = None"

definition pending_logins :: "pool \<Rightarrow> nat" where
  "pending_logins p = (case p_growth p of None \<Rightarrow> 0 | Some g \<Rightarrow> g_connecting g)"

definition connections :: "pool \<Rightarrow> nat" where
  "connections p = length (p_workers p) + length (p_active p) + pending_logins p"

definition ids_ok :: "pool \<Rightarrow> bool" where
  "ids_ok p \<longleftrightarrow> distinct (map q_id (p_queue p) @ map t_id (p_tasks p))
     \<and> distinct (map t_gen (p_tasks p)) \<and> (\<forall>t \<in> set (p_tasks p). t_gen t < p_generation p)
     \<and> p_active p = map (\<lambda>t. (t_id t, t_gen t)) (p_tasks p)
     \<and> (\<forall>t \<in> set (p_tasks p). t_started t \<longrightarrow> t_permit t \<noteq> None)"

definition closed_ok :: "pool \<Rightarrow> bool" where
  "closed_ok p \<longleftrightarrow> (p_destroyed p \<longrightarrow> p_queue p = [] \<and> p_workers p = [] \<and> p_growth_cancelled p
     \<and> (\<forall>t \<in> set (p_tasks p). t_gen t \<in> set (p_tokens p)))"

definition cap_ok :: "pool \<Rightarrow> bool" where
  "cap_ok p \<longleftrightarrow> (\<forall>n. size_cap (p_size p) = Some n \<longrightarrow> connections p \<le> n)"

definition stops_ok :: "pool \<Rightarrow> bool" where
  "stops_ok p \<longleftrightarrow> set (p_cancelled_ids p) = set (p_cancelled_order p)
     \<and> distinct (p_cancelled_order p) \<and> length (p_cancelled_order p) \<le> cancelled_cap"

definition pool_ok :: "pool \<Rightarrow> bool" where
  "pool_ok p \<longleftrightarrow> ids_ok p \<and> closed_ok p \<and> cap_ok p \<and> stops_ok p"

lemmas pool_ok_defs = pool_ok_def ids_ok_def closed_ok_def cap_ok_def stops_ok_def
  connections_def pending_logins_def

definition conserves :: "nat multiset \<Rightarrow> pool \<Rightarrow> pool_effect \<Rightarrow> bool" where
  "conserves issued p e \<longleftrightarrow> (case e of (q, as, ps) \<Rightarrow>
     pool_ok q \<and> p_size q = p_size p
     \<and> tickets q + mset (map fst as) = tickets p + issued
     \<and> permits q + mset ps = permits p)"

lemma pool_new_ok: "pool_ok (pool_new sz) \<and> tickets (pool_new sz) = {#} \<and> permits (pool_new sz) = {#}"
  by (auto simp: pool_new_def pool_ok_defs tickets_def permits_def permits_of_def)

lemma permits_of_simps [simp]:
  "permits_of [] = []" "permits_of (None # os) = permits_of os"
  "permits_of (Some n # os) = n # permits_of os" "permits_of (os @ os') = permits_of os @ permits_of os'"
  by (simp_all add: permits_of_def)

lemma permits_of_Cons: "mset (permits_of (x # xs)) = mset (permits_of [x]) + mset (permits_of xs)"
  by (cases x) auto

lemma take_queued_Some:
  "take_queued i qs = Some (item, rest) \<Longrightarrow> q_id item = i \<and> mset qs = add_mset item (mset rest)
     \<and> (\<exists>us vs. qs = us @ item # vs \<and> rest = us @ vs)"
proof (induction qs arbitrary: item rest)
  case Nil
  then show ?case by simp
next
  case (Cons q qs)
  show ?case
  proof (cases "q_id q = i")
    case True
    with Cons.prems show ?thesis by (auto intro: exI [of _ "[]"])
  next
    case False
    with Cons obtain r where r: "take_queued i qs = Some (item, r)" "rest = q # r" by auto
    then obtain us vs where "qs = us @ item # vs" "r = us @ vs" using Cons.IH [OF r(1)] by blast
    then have "q # qs = (q # us) @ item # vs \<and> rest = (q # us) @ vs" using r(2) by simp
    moreover have "q_id item = i \<and> mset (q # qs) = add_mset item (mset rest)"
      using Cons.IH [OF r(1)] r(2) by simp
    ultimately show ?thesis by blast
  qed
qed

lemma take_queued_None: "take_queued i qs = None \<longleftrightarrow> i \<notin> set (map q_id qs)"
  by (induction qs) auto

lemma trim_cancelled_ok:
  assumes "trim_cancelled ids order = (ids', order')" and "set ids = set order" and "distinct order"
  shows "set ids' = set order' \<and> distinct order' \<and> length order' \<le> cancelled_cap"
  using assms
  by (induction ids order arbitrary: ids' order' rule: trim_cancelled.induct)
     (auto split: if_splits simp: cancelled_cap_def)

lemma mark_cancelled_ok: "pool_ok p \<Longrightarrow> pool_ok (mark_cancelled i p)"
  using trim_cancelled_ok [of "i # p_cancelled_ids p" "p_cancelled_order p @ [i]"]
  by (auto simp: mark_cancelled_def pool_ok_defs split: prod.splits)

lemma mark_cancelled_frame:
  "p_queue (mark_cancelled i p) = p_queue p \<and> p_tasks (mark_cancelled i p) = p_tasks p
   \<and> p_size (mark_cancelled i p) = p_size p \<and> p_active (mark_cancelled i p) = p_active p
   \<and> p_destroyed (mark_cancelled i p) = p_destroyed p"
  by (simp add: mark_cancelled_def split: prod.split)

text \<open>Losing one queued item keeps the invariants; tickets and permits leave with it.\<close>

lemma drop_item_conserves:
  assumes "pool_ok p" and "take_queued i (p_queue p) = Some (item, rest)"
  shows "conserves {#} p (p\<lparr>p_queue := rest\<rparr>, [(q_ticket item, r)], permits_of [q_permit item])"
proof -
  from take_queued_Some [OF assms(2)] obtain us vs
    where split: "p_queue p = us @ item # vs" "rest = us @ vs" by blast
  have "pool_ok (p\<lparr>p_queue := rest\<rparr>)"
    using assms(1) split by (auto simp: pool_ok_defs)
  then show ?thesis
    using split permits_of_Cons [of "q_permit item" "map q_permit vs"]
    by (simp add: conserves_def tickets_def permits_def)
qed

lemma conserves_refl: "pool_ok p \<Longrightarrow> conserves {#} p (p, [], [])"
  by (simp add: conserves_def)

lemma cancel_conserves:
  assumes "pool_ok p"
  shows "conserves {#} p (cancel i p)"
proof (cases "take_queued i (p_queue p)")
  case (Some a)
  with assms show ?thesis
    by (cases a) (simp add: cancel_def drop_item_conserves)
next
  case None
  have "pool_ok (p\<lparr>p_tokens := token # p_tokens p\<rparr>)" for token
    using assms by (auto simp: pool_ok_defs)
  with None assms show ?thesis
    using mark_cancelled_frame [of i p]
    by (auto simp: cancel_def conserves_def tickets_def permits_def mark_cancelled_ok split: option.splits)
qed

lemma fst_answers [simp]: "image_mset fst {#(f q, h q). q \<in># M#} = image_mset f M"
  by (simp add: image_mset.compositionality comp_def)

lemma close_pool_conserves:
  assumes "pool_ok p"
  shows "conserves {#} p (close_pool p)"
proof -
  let ?q = "fst (close_pool p)"
  have "ids_ok ?q" using assms by (simp add: close_pool_def pool_ok_def ids_ok_def)
  moreover have "closed_ok ?q"
    using assms by (auto simp: close_pool_def closed_ok_def pool_ok_def ids_ok_def)
  moreover have "cap_ok ?q"
    using assms by (fastforce simp: close_pool_def pool_ok_def cap_ok_def connections_def pending_logins_def)
  moreover have "stops_ok ?q" using assms by (simp add: close_pool_def pool_ok_def stops_ok_def)
  ultimately show ?thesis
    by (simp add: close_pool_def conserves_def pool_ok_def tickets_def permits_def comp_def)
qed

lemma run_notified_conserves: "pool_ok p \<Longrightarrow> conserves {#t#} p (run_notified t i p)"
proof -
  assume ok: "pool_ok p"
  have "pool_ok (forget_cancelled i p)"
    using ok by (auto simp: forget_cancelled_def pool_ok_defs length_remove1)
  moreover have "pool_ok (p\<lparr>p_queue := p_queue p @ [\<lparr>q_ticket = t, q_id = i, q_permit = None\<rparr>]\<rparr>)"
    if "\<not> p_destroyed p" "\<not> al_has i (p_active p)" "i \<notin> set (map q_id (p_queue p))"
    using ok that by (auto simp: pool_ok_defs al_has_def map_of_eq_None_iff image_image)
  ultimately show ?thesis
    using ok by (auto simp: run_notified_def conserves_def tickets_def permits_def forget_cancelled_def)
qed

lemma give_up_conserves: "pool_ok p \<Longrightarrow> conserves {#} p (give_up_waiting i p)"
  by (auto simp: give_up_waiting_def drop_item_conserves conserves_refl split: option.splits)

text \<open>Dispatching moves an item from the queue to the spawned tasks, under a new generation.\<close>

lemma drain_conserves:
  assumes "pool_ok p"
  shows "conserves {#} p (drain p, [], [])"
proof (cases "p_queue p = [] \<or> p_workers p = []")
  case True
  then have "drain p = p" by (auto simp: drain_def split: list.splits)
  with assms show ?thesis by (simp add: conserves_refl)
next
  case False
  then obtain item rest where q: "p_queue p = item # rest" and w: "p_workers p \<noteq> []"
    by (cases "p_queue p") auto
  have ids: "ids_ok p" and closed: "closed_ok p" and cap: "cap_ok p" and stops: "stops_ok p"
    using assms by (auto simp: pool_ok_def)
  have fresh: "\<not> al_has (q_id item) (p_active p)"
    using ids q by (auto simp: ids_ok_def al_has_def map_of_eq_None_iff image_image)
  have act: "al_put (q_id item) (p_generation p) (p_active p) = p_active p @ [(q_id item, p_generation p)]"
    by (rule al_put_fresh [OF fresh])
  have "ids_ok (drain p)"
    using ids q w act by (auto simp: drain_def ids_ok_def less_Suc_eq)
  moreover have "closed_ok (drain p)"
    using closed q by (auto simp: drain_def closed_ok_def)
  moreover have "Suc (length (p_workers p) - Suc 0) = length (p_workers p)"
    using w by (cases "p_workers p") auto
  then have "connections (drain p) = connections p"
    using q w act by (simp add: drain_def connections_def pending_logins_def)
  then have "cap_ok (drain p)"
    using cap q w by (simp add: drain_def cap_ok_def)
  moreover have "stops_ok (drain p)"
    using stops q w by (simp add: drain_def stops_ok_def)
  ultimately have "pool_ok (drain p)" by (simp add: pool_ok_def)
  then show ?thesis
    using q w permits_of_Cons [of "q_permit item" "map q_permit rest"]
      permits_of_Cons [of "q_permit item" "[]"]
    by (simp add: conserves_def drain_def tickets_def permits_def)
qed

lemma set_task_frame:
  assumes "\<And>t. t_ticket (f t) = t_ticket t \<and> t_id (f t) = t_id t \<and> t_gen (f t) = t_gen t"
  shows "map t_ticket (p_tasks (set_task g f p)) = map t_ticket (p_tasks p)"
    and "map t_id (p_tasks (set_task g f p)) = map t_id (p_tasks p)"
    and "map t_gen (p_tasks (set_task g f p)) = map t_gen (p_tasks p)"
    and "map (\<lambda>t. (t_id t, t_gen t)) (p_tasks (set_task g f p)) = map (\<lambda>t. (t_id t, t_gen t)) (p_tasks p)"
  using assms by (simp_all add: set_task_def)

lemma set_task_ok:
  assumes ok: "pool_ok p"
    and keep: "\<And>t. t_ticket (f t) = t_ticket t \<and> t_id (f t) = t_id t \<and> t_gen (f t) = t_gen t"
    and permit: "\<And>t. t \<in> set (p_tasks p) \<Longrightarrow> t_gen t = g \<Longrightarrow> t_started (f t) \<Longrightarrow> t_permit (f t) \<noteq> None"
  shows "pool_ok (set_task g f p)"
proof -
  have gens: "t_gen ` set (p_tasks (set_task g f p)) = t_gen ` set (p_tasks p)"
    by (metis keep list.set_map set_task_frame(3))
  have ids: "ids_ok p" using ok by (simp add: pool_ok_def)
  have "ids_ok (set_task g f p)"
    unfolding ids_ok_def
  proof (intro conjI)
    show "distinct (map q_id (p_queue (set_task g f p)) @ map t_id (p_tasks (set_task g f p)))"
      using ids unfolding set_task_frame(2) [of f, OF keep] by (simp add: ids_ok_def set_task_def)
    show "distinct (map t_gen (p_tasks (set_task g f p)))"
      using ids unfolding set_task_frame(3) [of f, OF keep] by (simp add: ids_ok_def)
    show "\<forall>t \<in> set (p_tasks (set_task g f p)). t_gen t < p_generation (set_task g f p)"
      using ids keep by (auto simp: ids_ok_def set_task_def)
    show "p_active (set_task g f p) = map (\<lambda>t. (t_id t, t_gen t)) (p_tasks (set_task g f p))"
      using ids unfolding set_task_frame(4) [of f, OF keep] by (simp add: ids_ok_def set_task_def)
    show "\<forall>t \<in> set (p_tasks (set_task g f p)). t_started t \<longrightarrow> t_permit t \<noteq> None"
      using ids permit by (auto simp: ids_ok_def set_task_def split: if_splits)
  qed
  moreover have "closed_ok (set_task g f p)"
    using ok keep by (auto simp: pool_ok_def closed_ok_def set_task_def)
  moreover have "cap_ok (set_task g f p)"
    using ok by (simp add: pool_ok_def cap_ok_def connections_def pending_logins_def set_task_def)
  moreover have "stops_ok (set_task g f p)"
    using ok by (simp add: pool_ok_def stops_ok_def set_task_def)
  ultimately show ?thesis by (simp add: pool_ok_def)
qed

lemma resolve_conserves:
  assumes "pool_ok p"
  shows "conserves {#} p (resolve_task g res p, [], [])"
proof -
  let ?f = "\<lambda>t. t\<lparr>t_result := Some (if g \<in> set (p_tokens p) then Inl canceled_by_user else res)\<rparr>"
  have "pool_ok (set_task g ?f p)"
    by (rule set_task_ok [OF assms]) (use assms in \<open>auto simp: pool_ok_def ids_ok_def\<close>)
  moreover have "map t_ticket (p_tasks (set_task g ?f p)) = map t_ticket (p_tasks p)"
    by (rule set_task_frame) simp
  moreover have "map t_permit (p_tasks (set_task g ?f p)) = map t_permit (p_tasks p)"
    by (simp add: set_task_def)
  ultimately show ?thesis
    by (simp add: resolve_task_def conserves_def tickets_def permits_def flip: mset_map)
       (simp add: set_task_def)
qed

text \<open>The one spawned task of a generation.\<close>

lemma task_at_split:
  assumes "ids_ok p" and "task_at g p = Some t"
  shows "\<exists>us vs. p_tasks p = us @ t # vs \<and> t_gen t = g \<and> (\<forall>u \<in> set us \<union> set vs. t_gen u \<noteq> g)"
proof -
  from assms(2) have t: "t \<in> set (p_tasks p)" "t_gen t = g"
    by (auto simp: task_at_def find_Some_iff)
  then obtain us vs where split: "p_tasks p = us @ t # vs" by (meson split_list)
  moreover have "distinct (map t_gen (us @ t # vs))"
    using assms(1) split by (simp add: ids_ok_def)
  then have "g \<notin> t_gen ` set us" "g \<notin> t_gen ` set vs" using t(2) by auto
  then have "\<forall>u \<in> set us \<union> set vs. t_gen u \<noteq> g" by auto
  ultimately show ?thesis using t(2) by blast
qed

lemma set_task_split:
  assumes "p_tasks p = us @ t # vs" and "t_gen t = g" and "\<forall>u \<in> set us \<union> set vs. t_gen u \<noteq> g"
  shows "p_tasks (set_task g f p) = us @ f t # vs"
  using assms by (auto simp: set_task_def intro!: map_idI)

lemma start_permits:
  assumes "pool_ok p" and "task_at g p = Some t"
  shows "pool_ok (start_task g n p) \<and> tickets (start_task g n p) = tickets p
     \<and> p_size (start_task g n p) = p_size p
     \<and> permits (start_task g n p) + mset (permits_of [t_permit t]) = permits p + {#n#}"
proof -
  let ?f = "\<lambda>t. t\<lparr>t_permit := Some n, t_started := True\<rparr>"
  obtain us vs where split: "p_tasks p = us @ t # vs" "t_gen t = g"
      "\<forall>u \<in> set us \<union> set vs. t_gen u \<noteq> g"
    using task_at_split [of p g t] assms by (auto simp: pool_ok_def)
  have tasks: "p_tasks (set_task g ?f p) = us @ ?f t # vs"
    by (rule set_task_split [OF split])
  have "pool_ok (set_task g ?f p)" by (rule set_task_ok [OF assms(1)]) auto
  moreover have "p_queue (set_task g ?f p) = p_queue p" "p_size (set_task g ?f p) = p_size p"
    by (simp_all add: set_task_def)
  ultimately show ?thesis
    using tasks split(1) permits_of_Cons [of "t_permit t" "map t_permit vs"]
    by (simp add: start_task_def tickets_def permits_def)
qed

lemma settle_conserves:
  assumes "pool_ok p" and "task_at g p = Some t" and "t_result t = Some r"
  shows "conserves {#} p (settle_task t connected p)"
proof -
  obtain us vs where split: "p_tasks p = us @ t # vs" "t_gen t = g"
      "\<forall>u \<in> set us \<union> set vs. t_gen u \<noteq> g"
    using task_at_split [of p g t] assms by (auto simp: pool_ok_def)
  have ids: "ids_ok p" and closed: "closed_ok p" and cap: "cap_ok p" and stops: "stops_ok p"
    using assms by (auto simp: pool_ok_def)
  have tasks: "filter (\<lambda>u. t_gen u \<noteq> t_gen t) (p_tasks p) = us @ vs"
    using split by (auto simp: filter_id_conv)
  have "al_ok (p_active p)" using ids by (auto simp: ids_ok_def comp_def)
  moreover have "(t_id t, t_gen t) \<in> set (p_active p)" using ids split(1) by (simp add: ids_ok_def)
  ultimately have entry: "map_of (p_active p) (t_id t) = Some (t_gen t)" by simp
  have "t_id t \<notin> t_id ` set us" "t_id t \<notin> t_id ` set vs"
    using ids split(1) by (simp_all add: ids_ok_def)
  then have "filter (\<lambda>u. t_id u \<noteq> t_id t) us = us" "filter (\<lambda>u. t_id u \<noteq> t_id t) vs = vs"
    by (metis (mono_tags, lifting) filter_True image_eqI)+
  then have act: "al_del (t_id t) (p_active p) = map (\<lambda>t. (t_id t, t_gen t)) (us @ vs)"
    using ids split(1) by (simp add: ids_ok_def al_del_def comp_def filter_map)
  let ?q = "fst (settle_task t connected p)"
  have q: "p_tasks ?q = us @ vs" "p_active ?q = map (\<lambda>t. (t_id t, t_gen t)) (us @ vs)"
      "p_queue ?q = p_queue p" "p_size ?q = p_size p"
    using tasks entry act by (auto simp: settle_task_def Let_def)
  have "ids_ok ?q"
    using ids split(1) q by (auto simp: ids_ok_def settle_task_def Let_def)
  moreover have "closed_ok ?q"
    using closed split(1) q by (auto simp: closed_ok_def settle_task_def Let_def)
  moreover have "length (p_active p) = Suc (length us + length vs)"
    using ids split(1) by (simp add: ids_ok_def)
  then have "connections ?q \<le> connections p"
    using q by (auto simp: connections_def pending_logins_def settle_task_def Let_def)
  then have "cap_ok ?q" using cap q(4) by (auto simp: cap_ok_def)
  moreover have "stops_ok ?q" using stops by (simp add: stops_ok_def settle_task_def Let_def)
  ultimately have "pool_ok ?q" by (simp add: pool_ok_def)
  then show ?thesis
    using q split(1) assms(3) permits_of_Cons [of "t_permit t" "map t_permit vs"]
    by (auto simp: conserves_def settle_task_def Let_def tickets_def permits_def)
qed

text \<open>Growth, idle release and a relay's leg.\<close>

lemma release_idle_conserves:
  assumes "pool_ok p"
  shows "conserves {#} p (release_idle g p, [], [])"
proof -
  have "pool_ok (p\<lparr>p_workers := []\<rparr>)" if "p_active p = []"
    using assms that
    by (fastforce simp: pool_ok_def ids_ok_def closed_ok_def cap_ok_def stops_ok_def connections_def
        pending_logins_def)
  with assms show ?thesis
    by (auto simp: release_idle_def conserves_def tickets_def permits_def)
qed

definition set_growth :: "growth option \<Rightarrow> nat list \<Rightarrow> nat option \<Rightarrow> pool \<Rightarrow> pool" where
  "set_growth g ws retry p = p\<lparr>p_growth := g, p_workers := ws, p_retry_after := retry\<rparr>"

lemma set_growth_conserves:
  assumes "pool_ok p" and "p_destroyed p \<longrightarrow> ws = []"
    and "length ws + (case g of None \<Rightarrow> 0 | Some g \<Rightarrow> g_connecting g)
           \<le> length (p_workers p) + pending_logins p
         \<or> (\<forall>n. size_cap (p_size p) = Some n \<longrightarrow>
              length ws + length (p_active p) + (case g of None \<Rightarrow> 0 | Some g \<Rightarrow> g_connecting g) \<le> n)"
  shows "conserves {#} p (set_growth g ws retry p, [], [])"
proof -
  have "ids_ok (set_growth g ws retry p)" "stops_ok (set_growth g ws retry p)"
    using assms(1) by (simp_all add: pool_ok_def ids_ok_def stops_ok_def set_growth_def)
  moreover have "closed_ok (set_growth g ws retry p)"
    using assms(1,2) by (simp add: pool_ok_def closed_ok_def set_growth_def)
  moreover have "cap_ok (set_growth g ws retry p)"
    using assms(1,3)
    by (force simp: pool_ok_def cap_ok_def connections_def pending_logins_def set_growth_def)
  ultimately show ?thesis
    by (simp add: conserves_def pool_ok_def tickets_def permits_def set_growth_def)
qed

lemma set_growth_self:
  "p\<lparr>p_growth := g\<rparr> = set_growth g (p_workers p) (p_retry_after p) p"
  "p\<lparr>p_growth := g, p_retry_after := r\<rparr> = set_growth g (p_workers p) r p"
  "p\<lparr>p_workers := ws, p_growth := g\<rparr> = set_growth g ws (p_retry_after p) p"
  by (simp_all add: set_growth_def)

lemma grow_begin_conserves:
  assumes "pool_ok p" and "grow_begin spare p = Some q"
  shows "conserves {#} p (q, [], [])"
  using assms
  by (auto simp: grow_begin_def set_growth_self closed_ok_def pool_ok_def pending_logins_def
      intro!: set_growth_conserves split: option.splits)

lemma need_more_room:
  "need_more now lim g p \<Longrightarrow> size_cap (p_size p) = Some n
   \<Longrightarrow> length (p_workers p) + length (p_active p) + g_connecting g < n"
  by (cases "p_size p") (auto simp: need_more_def Let_def)

lemma grow_spawn_conserves:
  assumes "pool_ok p" and "grow_spawn now lim p = Some q"
  shows "conserves {#} p (q, [], [])"
proof -
  from assms(2) obtain g where g: "p_growth p = Some g" "need_more now lim g p"
    and q: "q = set_growth (Some (g\<lparr>g_connecting := Suc (g_connecting g)\<rparr>)) (p_workers p) (p_retry_after p) p"
    by (auto simp: grow_spawn_def set_growth_self split: option.splits if_splits)
  show ?thesis unfolding q
    using assms(1) need_more_room [OF g(2)]
    by (intro set_growth_conserves) (auto simp: pool_ok_def closed_ok_def)
qed

lemma grow_end_conserves:
  assumes "pool_ok p"
  shows "conserves {#} p (grow_end g p)"
proof -
  have end0: "conserves {#} p (p\<lparr>p_growth := None\<rparr>, [], [])"
    unfolding set_growth_self using assms
    by (intro set_growth_conserves) (auto simp: pool_ok_def closed_ok_def)
  have "pool_ok (p\<lparr>p_growth := None, p_queue := []\<rparr>)"
    using end0 by (auto simp: conserves_def pool_ok_defs)
  then show ?thesis
    using end0 by (simp add: grow_end_def conserves_def tickets_def permits_def Let_def comp_def split: option.split)
qed

lemma login_ok_conserves:
  assumes "pool_ok p" and "p_growth p = Some g" and "0 < g_connecting g"
  shows "conserves {#} p (login_ok b g p)"
proof (cases "p_destroyed p")
  case True
  then show ?thesis using assms by (simp add: login_ok_def try_push_worker_def grow_end_conserves)
next
  case False
  let ?g = "g\<lparr>g_connecting := g_connecting g - 1\<rparr>"
  have "conserves {#} p (set_growth (Some ?g) (p_workers p @ [b]) (p_retry_after p) p, [], [])"
    using assms False by (intro set_growth_conserves) (auto simp: pending_logins_def)
  moreover have "login_ok b g p = (set_growth (Some ?g) (p_workers p @ [b]) (p_retry_after p) p, [], [])"
    using False by (cases p) (simp add: login_ok_def try_push_worker_def set_growth_def)
  ultimately show ?thesis by simp
qed

lemma login_failed_conserves:
  assumes "pool_ok p" and "p_growth p = Some g"
  shows "conserves {#} p (login_failed now e g p, [], [])"
proof -
  have "conserves {#} p (set_growth (Some h) (p_workers p) r p, [], [])"
    if "g_connecting h \<le> g_connecting g" for h r
    using assms that
    by (intro set_growth_conserves) (auto simp: pending_logins_def pool_ok_def closed_ok_def)
  from this [of "g\<lparr>g_connecting := g_connecting g - 1, g_asked := True\<rparr>" "p_retry_after p"]
       this [of "g\<lparr>g_connecting := g_connecting g - 1, g_error := Some e\<rparr>" "Some (now + growth_retry_delay)"]
  show ?thesis by (cases p) (simp add: login_failed_def Let_def set_growth_def)
qed

lemma grow_step_end_conserves:
  "pool_ok p \<Longrightarrow> grow_step_end now lim g p = Some e \<Longrightarrow> conserves {#} p e"
  by (auto simp: grow_step_end_def grow_end_conserves split: if_splits)

lemma push_leg_conserves:
  assumes "pool_ok p" and "\<not> p_destroyed p" and "i \<notin> set (map q_id (p_queue p))"
    and "\<not> al_has i (p_active p)"
  shows "pool_ok (push_leg t i n p) \<and> p_size (push_leg t i n p) = p_size p
     \<and> tickets (push_leg t i n p) = tickets p + {#t#} \<and> permits (push_leg t i n p) = permits p + {#n#}"
proof -
  have "ids_ok (push_leg t i n p)"
    using assms by (auto simp: push_leg_def pool_ok_def ids_ok_def al_has_def map_of_eq_None_iff image_image)
  moreover have "closed_ok (push_leg t i n p)" "cap_ok (push_leg t i n p)" "stops_ok (push_leg t i n p)"
    using assms
    by (simp_all add: push_leg_def pool_ok_def closed_ok_def cap_ok_def stops_ok_def connections_def
        pending_logins_def)
  ultimately show ?thesis by (simp add: pool_ok_def push_leg_def tickets_def permits_def)
qed

lemma leg_ready_true:
  "leg_ready now i need p = Inr True \<Longrightarrow>
     \<not> p_destroyed p \<and> p_queue p = [] \<and> \<not> al_has i (p_active p) \<and> need \<le> length (p_workers p)"
  by (auto simp: leg_ready_def Let_def split: if_splits)

section \<open>Properties of one pool\<close>

text \<open>The inner loop of \<open>grow_workers\<close>: logins are started while \<open>need_more\<close> says so.\<close>

definition growth_goal :: "growth \<Rightarrow> pool \<Rightarrow> nat" where
  "growth_goal g p = max (length (p_queue p) + length (p_active p) + g_spare g)
     (case p_size p of Fixed n \<Rightarrow> n | _ \<Rightarrow> 0)"

lemma need_more_goal:
  "need_more now lim g p \<Longrightarrow> length (p_workers p) + length (p_active p) + g_connecting g < growth_goal g p"
  by (cases "p_size p") (auto simp: need_more_def Let_def growth_goal_def)

function grow_fill :: "nat \<Rightarrow> nat \<Rightarrow> pool \<Rightarrow> growth \<Rightarrow> growth" where
  "grow_fill now lim p g =
     (if need_more now lim g p then grow_fill now lim p (g\<lparr>g_connecting := Suc (g_connecting g)\<rparr>) else g)"
  by pat_completeness auto
termination
  by (relation "measure (\<lambda>(now, lim, p, g). growth_goal g p
        - (length (p_workers p) + length (p_active p) + g_connecting g))")
     (auto dest: need_more_goal simp: growth_goal_def)

declare grow_fill.simps [simp del]

text \<open>The loop that starts logins ends, leaves no login it still needs unstarted, and never
  starts one beyond what the queue, the running work and the relays ask for, or a fixed
  size; the pool is never past its cap because of it.\<close>

theorem grow_fill_bounds:
  "\<not> need_more now lim (grow_fill now lim p g) p
   \<and> g_connecting g \<le> g_connecting (grow_fill now lim p g)
   \<and> length (p_workers p) + length (p_active p) + g_connecting (grow_fill now lim p g)
       \<le> max (length (p_workers p) + length (p_active p) + g_connecting g) (growth_goal g p)
   \<and> g_error (grow_fill now lim p g) = g_error g"
proof (induction now lim p g rule: grow_fill.induct)
  case (1 now lim p g)
  show ?case
  proof (cases "need_more now lim g p")
    case True
    have "growth_goal (g\<lparr>g_connecting := Suc (g_connecting g)\<rparr>) p = growth_goal g p"
      by (simp add: growth_goal_def)
    then show ?thesis
      using 1 [OF True] need_more_goal [OF True] True
      by (simp add: grow_fill.simps [of now lim p g] max_def split: if_splits)
  next
    case False
    then show ?thesis by (simp add: grow_fill.simps [of now lim p g])
  qed
qed

definition dispatchable :: "nat \<Rightarrow> pool \<Rightarrow> nat" where
  "dispatchable n p = min n (min (length (p_queue p)) (length (p_workers p)))"

text \<open>Dispatch is first in, first out: draining any number of times hands the oldest queued
  tasks, in order, to the idle workers, the last one first, until either runs out.\<close>

theorem drain_is_fifo:
  "p_queue ((drain ^^ n) p) = drop (dispatchable n p) (p_queue p)
   \<and> p_workers ((drain ^^ n) p) = take (length (p_workers p) - dispatchable n p) (p_workers p)
   \<and> map t_ticket (p_tasks ((drain ^^ n) p)) = map t_ticket (p_tasks p) @ map q_ticket (take (dispatchable n p) (p_queue p))
   \<and> map t_backend (p_tasks ((drain ^^ n) p)) = map t_backend (p_tasks p) @ take (dispatchable n p) (rev (p_workers p))
   \<and> p_generation ((drain ^^ n) p) = p_generation p + dispatchable n p"
proof (induction n arbitrary: p)
  case 0
  then show ?case by (simp add: dispatchable_def)
next
  case (Suc n)
  have unfold: "(drain ^^ Suc n) p = (drain ^^ n) (drain p)" by (simp add: funpow_swap1)
  show ?case
  proof (cases "p_queue p = [] \<or> p_workers p = []")
    case True
    then have "drain p = p" by (auto simp: drain_def split: list.splits)
    with True Suc.IH [of p] show ?thesis unfolding unfold by (auto simp: dispatchable_def)
  next
    case False
    then obtain q qs ws w where q: "p_queue p = q # qs" and w: "p_workers p = ws @ [w]"
      by (metis append_butlast_last_id list.exhaust)
    have step: "p_queue (drain p) = qs" "p_workers (drain p) = ws"
        "map t_ticket (p_tasks (drain p)) = map t_ticket (p_tasks p) @ [q_ticket q]"
        "map t_backend (p_tasks (drain p)) = map t_backend (p_tasks p) @ [w]"
        "p_generation (drain p) = Suc (p_generation p)"
      using q w by (simp_all add: drain_def)
    have "dispatchable (Suc n) p = Suc (dispatchable n (drain p))"
      using q w step by (simp add: dispatchable_def)
    moreover have "dispatchable n (drain p) \<le> length ws" using step by (simp add: dispatchable_def)
    ultimately show ?thesis
      using Suc.IH [of "drain p"] q w step unfolding unfold
      by (simp add: Suc_diff_le)
  qed
qed

lemma trim_cancelled_order:
  "snd (trim_cancelled ids order) = drop (length order - cancelled_cap) order"
proof (induction ids order rule: trim_cancelled.induct)
  case (1 ids)
  then show ?case by simp
next
  case (2 ids oldest order)
  then show ?case by (auto simp: Suc_diff_le)
qed

lemma mark_cancelled_keeps:
  assumes "stops_ok p" and "p_cancelled_order p = us @ i # vs" and "Suc (length vs) < cancelled_cap"
  shows "stops_ok (mark_cancelled j p) \<and> (\<exists>us' vs'. p_cancelled_order (mark_cancelled j p) = us' @ i # vs'
     \<and> length vs' \<le> Suc (length vs))"
proof (cases "j \<in> set (p_cancelled_ids p)")
  case True
  then show ?thesis using assms by (simp add: mark_cancelled_def) (metis le_SucI order_refl)
next
  case False
  obtain ids order where trim: "trim_cancelled (j # p_cancelled_ids p) (p_cancelled_order p @ [j]) = (ids, order)"
    by fastforce
  then have m: "mark_cancelled j p = p\<lparr>p_cancelled_ids := ids, p_cancelled_order := order\<rparr>"
    using False by (simp add: mark_cancelled_def)
  have "order = drop (length (p_cancelled_order p @ [j]) - cancelled_cap) (p_cancelled_order p @ [j])"
    using trim_cancelled_order [of "j # p_cancelled_ids p" "p_cancelled_order p @ [j]"] trim by simp
  also have "\<dots> = drop (length us + length vs + 2 - cancelled_cap) us @ i # (vs @ [j])"
    using assms(2,3) by (simp add: drop_append)
  finally have "order = drop (length us + length vs + 2 - cancelled_cap) us @ i # (vs @ [j])" .
  moreover have "set ids = set order \<and> distinct order \<and> length order \<le> cancelled_cap"
    using trim_cancelled_ok [OF trim] assms(1) False by (simp add: stops_ok_def)
  ultimately have "stops_ok (mark_cancelled j p) \<and> p_cancelled_order (mark_cancelled j p)
      = drop (length us + length vs + 2 - cancelled_cap) us @ i # (vs @ [j])"
    by (simp add: m stops_ok_def)
  moreover have "length (vs @ [j]) \<le> Suc (length vs)" by simp
  ultimately show ?thesis by blast
qed

lemma marks_keep:
  assumes "stops_ok p" and "p_cancelled_order p = us @ i # vs" and "length vs + length js < cancelled_cap"
  shows "i \<in> set (p_cancelled_ids (fold mark_cancelled js p))"
  using assms
proof (induction js arbitrary: p us vs)
  case Nil
  then show ?case by (simp add: stops_ok_def)
next
  case (Cons j js)
  then have "Suc (length vs) < cancelled_cap" by simp
  then obtain us' vs' where later: "stops_ok (mark_cancelled j p)"
      "p_cancelled_order (mark_cancelled j p) = us' @ i # vs'" "length vs' \<le> Suc (length vs)"
    using mark_cancelled_keeps [OF Cons.prems(1,2)] by blast
  have "length vs' + length js < cancelled_cap" using later(3) Cons.prems(3) by simp
  from Cons.IH [OF later(1,2) this] show ?case by simp
qed

text \<open>Stops of tasks the pool does not know yet are only remembered.\<close>

definition unknown :: "task_id \<Rightarrow> pool \<Rightarrow> bool" where
  "unknown i p \<longleftrightarrow> i \<notin> set (map q_id (p_queue p)) \<and> \<not> al_has i (p_active p)"

definition stop_all :: "task_id list \<Rightarrow> pool \<Rightarrow> pool" where
  "stop_all is p = fold (\<lambda>i q. fst (cancel i q)) is p"

lemma stop_all_unknown:
  "\<forall>i \<in> set is. unknown i p \<Longrightarrow> stop_all is p = fold mark_cancelled is p"
proof (induction "is" arbitrary: p)
  case Nil
  then show ?case by (simp add: stop_all_def)
next
  case (Cons i js)
  have "fst (cancel i p) = mark_cancelled i p"
    using Cons.prems by (simp add: cancel_def unknown_def take_queued_None [THEN iffD2] al_has_def split: option.split)
  moreover have "\<forall>j \<in> set js. unknown j (mark_cancelled i p)"
    using Cons.prems mark_cancelled_frame [of i p] by (simp add: unknown_def)
  ultimately show ?case using Cons.IH [of "mark_cancelled i p"] by (simp add: stop_all_def)
qed

lemma marks_frame:
  "p_queue (fold mark_cancelled is p) = p_queue p \<and> p_active (fold mark_cancelled is p) = p_active p
   \<and> p_destroyed (fold mark_cancelled is p) = p_destroyed p"
  by (induction "is" arbitrary: p) (simp_all add: mark_cancelled_frame)

text \<open>A Stop that overtakes its transfer is not lost: the transfer that arrives later under
  that id is answered as cancelled, and is not queued, even after up to 255 further stops
  of transfers the pool does not know.\<close>

theorem early_stop_is_kept:
  assumes "pool_ok p" and "\<not> p_destroyed p" and "\<forall>j \<in> set (i # js). unknown j p"
    and "i \<notin> set (p_cancelled_ids p)" and "length js < cancelled_cap"
  shows "let q = stop_all (i # js) p; (r, answers, dropped) = run_notified t i q
    in answers = [(t, Inl canceled_by_user)] \<and> dropped = [] \<and> p_queue r = p_queue p
     \<and> i \<notin> set (p_cancelled_ids r)"
proof -
  have stops: "stops_ok p" using assms(1) by (simp add: pool_ok_def)
  obtain ids order where trim: "trim_cancelled (i # p_cancelled_ids p) (p_cancelled_order p @ [i]) = (ids, order)"
    by fastforce
  then have m: "mark_cancelled i p = p\<lparr>p_cancelled_ids := ids, p_cancelled_order := order\<rparr>"
    using assms(4) by (simp add: mark_cancelled_def)
  have "order = drop (length (p_cancelled_order p @ [i]) - cancelled_cap) (p_cancelled_order p @ [i])"
    using trim_cancelled_order [of "i # p_cancelled_ids p" "p_cancelled_order p @ [i]"] trim by simp
  then obtain us where "order = us @ i # []" by (auto simp: cancelled_cap_def drop_append)
  moreover have "stops_ok (mark_cancelled i p)"
    using mark_cancelled_ok [OF assms(1)] by (simp add: pool_ok_def)
  ultimately have mem: "i \<in> set (p_cancelled_ids (fold mark_cancelled js (mark_cancelled i p)))"
    using marks_keep [of "mark_cancelled i p" us i "[]" js] assms(5) by (simp add: m)
  have q: "stop_all (i # js) p = fold mark_cancelled js (mark_cancelled i p)"
    using stop_all_unknown [OF assms(3)] by simp
  show ?thesis
    using mem assms(2,3) marks_frame [of js "mark_cancelled i p"] mark_cancelled_frame [of i p]
    by (simp add: q Let_def run_notified_def unknown_def forget_cancelled_def)
qed

theorem early_stop_is_kept_witness:
  "snd (run_notified 9 ''x'' (stop_all [''x'', ''y''] (pool_new Unlimited)))
     = ([(9, Inl canceled_by_user)], [])"
  using early_stop_is_kept [of "pool_new Unlimited" "''x''" "[''y'']" 9] pool_new_ok
  by (simp add: pool_new_def unknown_def al_has_def cancelled_cap_def split: prod.splits)

text \<open>When the last pending login fails and nothing else can run the queue, every waiting
  transfer is answered with that failure, code and words, in queue order; the queue is
  empty, its permits go back, and the pool stays open for a retry after the delay.\<close>

theorem growth_failure_answers_queue:
  assumes "p_growth p = Some g" and "g_connecting g = 1"
    and "ce_code e \<noteq> ResourceLimit \<or> g_asked g"
    and "\<not> p_destroyed p" and "p_workers p = []" and "p_active p = []"
  shows "\<exists>h q. p_growth (login_failed now e g p) = Some h
     \<and> grow_step_end now lim h (login_failed now e g p) =
        Some (q, map (\<lambda>i. (q_ticket i, Inl (fail (ce_code e)
                   (''Transfer worker replacement failed: '' @ ce_message e)))) (p_queue p),
              permits_of (map q_permit (p_queue p)))
     \<and> p_queue q = [] \<and> p_growth q = None \<and> \<not> p_destroyed q
     \<and> p_retry_after q = Some (now + growth_retry_delay)"
  using assms
  by (auto simp: login_failed_def Let_def grow_step_end_def grow_end_def need_more_def)

theorem growth_failure_answers_queue_witness:
  "\<exists>q. grow_step_end 100 0
     \<lparr>g_spare = 0, g_connecting = 0, g_error = Some (fail AuthFailed ''530 no''), g_asked = False\<rparr>
     (login_failed 100 (fail AuthFailed ''530 no'')
        \<lparr>g_spare = 0, g_connecting = 1, g_error = None, g_asked = False\<rparr>
        (pool_new Unlimited\<lparr>p_queue := [\<lparr>q_ticket = 4, q_id = ''a'', q_permit = None\<rparr>],
           p_growth := Some \<lparr>g_spare = 0, g_connecting = 1, g_error = None, g_asked = False\<rparr>\<rparr>))
   = Some (q, [(4, Inl (fail AuthFailed ''Transfer worker replacement failed: 530 no''))], [])"
  using growth_failure_answers_queue
    [of "pool_new Unlimited\<lparr>p_queue := [\<lparr>q_ticket = 4, q_id = ''a'', q_permit = None\<rparr>],
           p_growth := Some \<lparr>g_spare = 0, g_connecting = 1, g_error = None, g_asked = False\<rparr>\<rparr>"
        "\<lparr>g_spare = 0, g_connecting = 1, g_error = None, g_asked = False\<rparr>"
        "fail AuthFailed ''530 no''" 100 0]
  by (auto simp: pool_new_def login_failed_def command_error_new_def Let_def)

end
