(* ===== verification/PoolSystem.thy ===== *)
theory PoolSystem
  imports TransferPool
begin

text \<open>
  Several transfer pools over the one shared limiter, as \<open>session_service.rs\<close> sets them
  up: the callers of \<open>run_notified\<close> and \<open>run_pair\<close>, the spawned futures, the growing
  loops and the timers, interleaved at every point where the code releases a lock. An
  event is one section of the code; \<open>sys_step\<close> is \<open>None\<close> where the code could not be
  there. \<open>reachable\<close> holds of every state some interleaving leads to.
\<close>

section \<open>State\<close>

text \<open>A relay waiting in \<open>run_pair\<close>: its two pools, and each leg's task id and ticket.\<close>

record relay =
  l_from :: nat
  l_to :: nat
  l_id_a :: task_id
  l_id_b :: task_id
  l_ticket_a :: nat
  l_ticket_b :: nat

text \<open>\<open>s_refs\<close> lists the live \<open>Arc<Permit>\<close> references, by permit.\<close>

record sys =
  s_now :: nat
  s_limiter :: limiter
  s_refs :: "nat list"
  s_next_ticket :: nat
  s_next_permit :: nat
  s_pools :: "pool list"
  s_line :: "relay list"
  s_answers :: "answer list"

definition sys_new :: "nat \<Rightarrow> pool_size list \<Rightarrow> sys" where
  "sys_new lim sizes = \<lparr>s_now = 0, s_limiter = \<lparr>lim_limit = lim, lim_active = 0\<rparr>, s_refs = [],
     s_next_ticket = 0, s_next_permit = 0, s_pools = map pool_new sizes, s_line = [], s_answers = []\<rparr>"

text \<open>\<open>pool_size\<close> of \<open>session_service.rs\<close>: one connection is left for browsing.\<close>

definition site_pool_size :: "nat option \<Rightarrow> pool_size" where
  "site_pool_size max_connections =
     (case max_connections of
        Some limit \<Rightarrow> if 2 \<le> limit then Capped (limit - 1) else Unlimited
      | None \<Rightarrow> Unlimited)"

text \<open>Dropping references: the permit goes back to the limiter with its last one.\<close>

fun drop_refs :: "nat list \<Rightarrow> sys \<Rightarrow> sys" where
  "drop_refs [] s = s"
| "drop_refs (n # ns) s =
     (let refs = remove1 n (s_refs s)
      in drop_refs ns (s\<lparr>s_refs := refs,
           s_limiter := (if n \<in> set refs then s_limiter s else drop_permit (s_limiter s))\<rparr>))"

definition apply_effect :: "nat \<Rightarrow> pool_effect \<Rightarrow> sys \<Rightarrow> sys" where
  "apply_effect k e s =
     (case e of (p, as, ps) \<Rightarrow>
        drop_refs ps (s\<lparr>s_pools := (s_pools s)[k := p], s_answers := s_answers s @ as\<rparr>))"

abbreviation quiet :: "pool \<Rightarrow> pool_effect" where
  "quiet p \<equiv> (p, [], [])"

section \<open>Relays\<close>

text \<open>\<open>pair_turn\<close> is a fair lock of the source pool: a relay has its turn when no earlier
  one in the line has the same source.\<close>

definition has_turn :: "nat \<Rightarrow> relay list \<Rightarrow> bool" where
  "has_turn n ls = (\<forall>m < n. l_from (ls ! m) \<noteq> l_from (ls ! n))"

definition drop_nth :: "nat \<Rightarrow> 'a list \<Rightarrow> 'a list" where
  "drop_nth n xs = take n xs @ drop (Suc n) xs"

definition pair_fails :: "nat \<Rightarrow> command_error \<Rightarrow> sys \<Rightarrow> sys" where
  "pair_fails n e s =
     (let r = s_line s ! n
      in s\<lparr>s_line := drop_nth n (s_line s),
           s_answers := s_answers s @ [(l_ticket_a r, Inl e), (l_ticket_b r, Inl e)]\<rparr>)"

definition pair_enter :: "nat \<Rightarrow> limiter \<Rightarrow> sys \<Rightarrow> sys" where
  "pair_enter n lim s =
     (let r = s_line s ! n; m = s_next_permit s;
          pools = (s_pools s)[l_from r := push_leg (l_ticket_a r) (l_id_a r) m (s_pools s ! l_from r)]
      in s\<lparr>s_line := drop_nth n (s_line s), s_limiter := lim, s_refs := [m, m] @ s_refs s,
           s_next_permit := Suc m,
           s_pools := pools[l_to r := push_leg (l_ticket_b r) (l_id_b r) m (pools ! l_to r)]\<rparr>)"

text \<open>One check of a waiting relay. Before its turn it only looks for a stop or a closed
  source pool; on its turn both legs and a permit are taken together, or nothing is.\<close>

definition pair_poll :: "nat \<Rightarrow> sys \<Rightarrow> sys" where
  "pair_poll n s =
     (let r = s_line s ! n; source = s_pools s ! l_from r; target = s_pools s ! l_to r;
          need = (if l_from r = l_to r then 2 else 1)
      in if \<not> has_turn n (s_line s)
         then (case leg_ready (s_now s) (l_id_a r) need source of
                 Inl e \<Rightarrow> pair_fails n e s | Inr _ \<Rightarrow> s)
         else (case leg_ready (s_now s) (l_id_a r) need source of
                 Inl e \<Rightarrow> pair_fails n e s
               | Inr False \<Rightarrow> s
               | Inr True \<Rightarrow>
                   (case leg_ready (s_now s) (l_id_b r) need target of
                      Inl e \<Rightarrow> pair_fails n e s
                    | Inr False \<Rightarrow> s
                    | Inr True \<Rightarrow>
                        (case try_acquire (s_limiter s) of
                           None \<Rightarrow> s
                         | Some lim \<Rightarrow> pair_enter n lim s))))"

text \<open>What the caller of a relay gets from its two legs.\<close>

definition relay_result :: "pool_result \<Rightarrow> pool_result \<Rightarrow> pool_result" where
  "relay_result a b = (case a of Inl e \<Rightarrow> Inl e | Inr _ \<Rightarrow> b)"

section \<open>Events\<close>

datatype event =
    Run nat task_id
  | Drain nat
  | Start nat nat
  | Resolve nat nat pool_result
  | Settle nat nat bool
  | Cancel nat task_id
  | Close nat
  | GrowBegin nat nat
  | GrowSpawn nat
  | LoginOk nat nat
  | LoginErr nat command_error
  | GrowEnd nat
  | GiveUp nat task_id
  | IdleRelease nat nat
  | PairAsk nat nat task_id task_id
  | PairPoll nat
  | SetLimit nat
  | Tick nat

definition pool_event :: "nat \<Rightarrow> sys \<Rightarrow> (pool \<Rightarrow> pool_effect option) \<Rightarrow> sys option" where
  "pool_event k s f =
     (if k < length (s_pools s)
      then map_option (\<lambda>e. apply_effect k e s) (f (s_pools s ! k)) else None)"

definition start_event :: "nat \<Rightarrow> nat \<Rightarrow> sys \<Rightarrow> sys option" where
  "start_event k g s =
     (if length (s_pools s) \<le> k then None
      else (case task_at g (s_pools s ! k) of
              None \<Rightarrow> None
            | Some t \<Rightarrow>
                if t_started t \<or> t_result t \<noteq> None \<or> g \<in> set (p_tokens (s_pools s ! k)) then None
                else (case t_permit t of
                        Some n \<Rightarrow> Some (s\<lparr>s_pools := (s_pools s)[k := start_task g n (s_pools s ! k)]\<rparr>)
                      | None \<Rightarrow>
                          (case try_acquire (s_limiter s) of
                             None \<Rightarrow> None
                           | Some lim \<Rightarrow>
                               Some (s\<lparr>s_limiter := lim, s_refs := s_next_permit s # s_refs s,
                                 s_next_permit := Suc (s_next_permit s),
                                 s_pools := (s_pools s)
                                   [k := start_task g (s_next_permit s) (s_pools s ! k)]\<rparr>)))))"

fun sys_step :: "event \<Rightarrow> sys \<Rightarrow> sys option" where
  "sys_step (Run k i) s =
     pool_event k (s\<lparr>s_next_ticket := Suc (s_next_ticket s)\<rparr>)
       (\<lambda>p. Some (run_notified (s_next_ticket s) i p))"
| "sys_step (Drain k) s = pool_event k s (\<lambda>p. Some (quiet (drain p)))"
| "sys_step (Start k g) s = start_event k g s"
| "sys_step (Resolve k g r) s =
     pool_event k s (\<lambda>p. case task_at g p of
         None \<Rightarrow> None
       | Some t \<Rightarrow> if t_result t = None \<and> (t_started t \<or> g \<in> set (p_tokens p))
                   then Some (quiet (resolve_task g r p)) else None)"
| "sys_step (Settle k g connected) s =
     pool_event k s (\<lambda>p. case task_at g p of
         None \<Rightarrow> None
       | Some t \<Rightarrow> if t_result t = None then None else Some (settle_task t connected p))"
| "sys_step (Cancel k i) s = pool_event k s (\<lambda>p. Some (cancel i p))"
| "sys_step (Close k) s = pool_event k s (\<lambda>p. Some (close_pool p))"
| "sys_step (GrowBegin k spare) s = pool_event k s (\<lambda>p. map_option quiet (grow_begin spare p))"
| "sys_step (GrowSpawn k) s =
     pool_event k s (\<lambda>p. map_option quiet (grow_spawn (s_now s) (lim_limit (s_limiter s)) p))"
| "sys_step (LoginOk k b) s =
     pool_event k s (\<lambda>p. case p_growth p of
         None \<Rightarrow> None
       | Some g \<Rightarrow> if 0 < g_connecting g then Some (login_ok b g p) else None)"
| "sys_step (LoginErr k e) s =
     pool_event k s (\<lambda>p. case p_growth p of
         None \<Rightarrow> None
       | Some g \<Rightarrow> if 0 < g_connecting g then Some (quiet (login_failed (s_now s) e g p)) else None)"
| "sys_step (GrowEnd k) s =
     pool_event k s (\<lambda>p. case p_growth p of
         None \<Rightarrow> None
       | Some g \<Rightarrow> grow_step_end (s_now s) (lim_limit (s_limiter s)) g p)"
| "sys_step (GiveUp k i) s = pool_event k s (\<lambda>p. Some (give_up_waiting i p))"
| "sys_step (IdleRelease k g) s = pool_event k s (\<lambda>p. Some (quiet (release_idle g p)))"
| "sys_step (PairAsk a b ia ib) s =
     (if a < length (s_pools s) \<and> b < length (s_pools s) \<and> (a = b \<longrightarrow> ia \<noteq> ib)
      then Some (s\<lparr>s_line := s_line s @ [\<lparr>l_from = a, l_to = b, l_id_a = ia, l_id_b = ib,
               l_ticket_a = s_next_ticket s, l_ticket_b = Suc (s_next_ticket s)\<rparr>],
             s_next_ticket := Suc (Suc (s_next_ticket s))\<rparr>)
      else None)"
| "sys_step (PairPoll n) s = (if n < length (s_line s) then Some (pair_poll n s) else None)"
| "sys_step (SetLimit n) s = Some (s\<lparr>s_limiter := set_limit n (s_limiter s)\<rparr>)"
| "sys_step (Tick d) s = Some (s\<lparr>s_now := s_now s + d\<rparr>)"

fun play :: "event list \<Rightarrow> sys \<Rightarrow> sys option" where
  "play [] s = Some s"
| "play (e # es) s = (case sys_step e s of None \<Rightarrow> None | Some s' \<Rightarrow> play es s')"

inductive reachable :: "sys \<Rightarrow> bool" where
  start: "reachable (sys_new lim sizes)"
| step: "reachable s \<Longrightarrow> sys_step e s = Some s' \<Longrightarrow> reachable s'"

inductive_cases reachable_cases: "reachable s"

lemma play_reachable: "reachable s \<Longrightarrow> play es s = Some s' \<Longrightarrow> reachable s'"
  by (induction es arbitrary: s) (auto split: option.splits intro: reachable.step)

section \<open>The invariant\<close>

definition waiting_tickets :: "sys \<Rightarrow> nat multiset" where
  "waiting_tickets s = sum_list (map tickets (s_pools s))
     + mset (map l_ticket_a (s_line s)) + mset (map l_ticket_b (s_line s))"

definition answered_tickets :: "sys \<Rightarrow> nat multiset" where
  "answered_tickets s = mset (map fst (s_answers s))"

definition issued :: "sys \<Rightarrow> nat multiset" where
  "issued s = mset [0..<s_next_ticket s]"

definition held_permits :: "sys \<Rightarrow> nat multiset" where
  "held_permits s = sum_list (map permits (s_pools s))"

definition line_ok :: "sys \<Rightarrow> bool" where
  "line_ok s \<longleftrightarrow> (\<forall>r \<in> set (s_line s). l_from r < length (s_pools s) \<and> l_to r < length (s_pools s)
     \<and> (l_from r = l_to r \<longrightarrow> l_id_a r \<noteq> l_id_b r))"

definition permits_ok :: "sys \<Rightarrow> bool" where
  "permits_ok s \<longleftrightarrow> lim_active (s_limiter s) = card (set (s_refs s))
     \<and> (\<forall>n \<in> set (s_refs s). n < s_next_permit s)"

definition sys_ok :: "sys \<Rightarrow> bool" where
  "sys_ok s \<longleftrightarrow> (\<forall>p \<in> set (s_pools s). pool_ok p) \<and> line_ok s \<and> permits_ok s
     \<and> held_permits s = mset (s_refs s) \<and> answered_tickets s + waiting_tickets s = issued s"

lemmas sys_ok_defs = sys_ok_def held_permits_def answered_tickets_def waiting_tickets_def issued_def

lemma sum_list_update_multiset:
  fixes f :: "'a \<Rightarrow> 'b multiset"
  shows "k < length xs \<Longrightarrow> sum_list (map f (xs[k := x])) + f (xs ! k) = sum_list (map f xs) + f x"
proof (induction xs arbitrary: k)
  case Nil
  then show ?case by simp
next
  case (Cons a xs)
  then show ?case by (cases k) (auto simp: add.assoc ac_simps)
qed

lemma shift_multiset:
  fixes a b c d e :: "'a multiset"
  assumes "a + b = c + d" and "d + e = b + x"
  shows "a + e = c + x"
proof -
  have "(a + e) + (b + d) = (a + b) + (d + e)" by (simp only: ac_simps)
  also have "\<dots> = (c + d) + (b + x)" using assms by simp
  also have "\<dots> = (c + x) + (b + d)" by (simp only: ac_simps)
  finally show ?thesis by simp
qed

lemma drop_refs_frame:
  "s_pools (drop_refs ns s) = s_pools s \<and> s_line (drop_refs ns s) = s_line s
   \<and> s_answers (drop_refs ns s) = s_answers s \<and> s_next_ticket (drop_refs ns s) = s_next_ticket s
   \<and> s_next_permit (drop_refs ns s) = s_next_permit s \<and> s_now (drop_refs ns s) = s_now s
   \<and> lim_limit (s_limiter (drop_refs ns s)) = lim_limit (s_limiter s)"
  by (induction ns s rule: drop_refs.induct) (auto simp: Let_def drop_permit_def)

lemma drop_refs_ok:
  assumes "permits_ok s" and "mset ns \<subseteq># mset (s_refs s)"
  shows "permits_ok (drop_refs ns s) \<and> mset (s_refs (drop_refs ns s)) = mset (s_refs s) - mset ns"
  using assms
proof (induction ns arbitrary: s)
  case Nil
  then show ?case by simp
next
  case (Cons n ns)
  let ?refs = "remove1 n (s_refs s)"
  let ?s = "s\<lparr>s_refs := ?refs,
     s_limiter := (if n \<in> set ?refs then s_limiter s else drop_permit (s_limiter s))\<rparr>"
  have mem: "n \<in> set (s_refs s)" using Cons.prems(2) by (auto dest: mset_subset_eqD)
  have refs: "mset ?refs = mset (s_refs s) - {#n#}" by (simp add: mset_remove1)
  have sub: "set ?refs \<subseteq> set (s_refs s)" by (rule set_remove1_subset)
  have other: "m \<in> set ?refs" if "m \<in> set (s_refs s)" "m \<noteq> n" for m using that by simp
  have "card (set ?refs) = (if n \<in> set ?refs then card (set (s_refs s)) else card (set (s_refs s)) - 1)"
  proof (cases "n \<in> set ?refs")
    case True
    then have "set ?refs = set (s_refs s)" using sub other by blast
    then show ?thesis using True by simp
  next
    case False
    then have "set ?refs = set (s_refs s) - {n}" using sub other by blast
    then show ?thesis using False mem by simp
  qed
  then have "permits_ok ?s"
    using Cons.prems(1) sub by (auto simp: permits_ok_def drop_permit_def)
  moreover have "mset ns \<subseteq># mset (s_refs ?s)"
    using Cons.prems(2) refs by (simp add: insert_subset_eq_iff)
  ultimately show ?case
    using Cons.IH [of ?s] refs by (simp add: Let_def)
qed

lemma effect_ok:
  assumes ok: "\<forall>p \<in> set (s_pools s). pool_ok p" "line_ok s" "permits_ok s" "held_permits s = mset (s_refs s)"
    and balance: "answered_tickets s + waiting_tickets s + new = issued s"
    and k: "k < length (s_pools s)" and keeps: "conserves new (s_pools s ! k) e"
  shows "sys_ok (apply_effect k e s)"
proof -
  obtain p as ps where e: "e = (p, as, ps)" by (cases e)
  let ?s = "s\<lparr>s_pools := (s_pools s)[k := p], s_answers := s_answers s @ as\<rparr>"
  have p: "pool_ok p" "tickets p + mset (map fst as) = tickets (s_pools s ! k) + new"
      "permits p + mset ps = permits (s_pools s ! k)"
    using keeps e by (auto simp: conserves_def)
  have "held_permits ?s + permits (s_pools s ! k) = held_permits s + permits p"
    using sum_list_update_multiset [OF k, of permits p] by (simp add: held_permits_def)
  from shift_multiset [OF this, of "mset ps" "{#}"] p(3)
  have held: "held_permits ?s + mset ps = mset (s_refs s)" using ok(4) by simp
  have ans: "answered_tickets ?s = answered_tickets s + mset (map fst as)"
    by (simp add: answered_tickets_def)
  have "waiting_tickets ?s + tickets (s_pools s ! k) = waiting_tickets s + tickets p"
    using sum_list_update_multiset [OF k, of tickets p]
    by (simp add: waiting_tickets_def)
  then have "answered_tickets ?s + waiting_tickets ?s + tickets (s_pools s ! k)
      = answered_tickets s + waiting_tickets s + (tickets p + mset (map fst as))"
    unfolding ans by (simp add: ac_simps)
  also have "\<dots> = issued s + tickets (s_pools s ! k)"
    unfolding p(2) using balance by (simp add: ac_simps)
  finally have wait: "answered_tickets ?s + waiting_tickets ?s = issued ?s"
    by (simp add: issued_def)
  have "permits_ok ?s" using ok(3) by (simp add: permits_ok_def)
  moreover have "mset ps \<subseteq># mset (s_refs ?s)"
    using held by (metis mset_subset_eq_add_right sys.select_convs(3) sys.surjective sys.update_convs(6,8))
  ultimately have drop: "permits_ok (drop_refs ps ?s)"
      "mset (s_refs (drop_refs ps ?s)) = held_permits ?s"
    using drop_refs_ok [of ?s ps] held by (simp, metis add_diff_cancel_right' sys.select_convs(3) sys.surjective sys.update_convs(6,8))
  then show ?thesis
    using ok held wait p(1) drop drop_refs_frame [of ps ?s] set_update_subset_insert [of "s_pools s" k p]
    by (auto simp: e apply_effect_def sys_ok_def line_ok_def held_permits_def answered_tickets_def
        waiting_tickets_def issued_def)
qed

text \<open>An event of one pool, without and with a new ticket.\<close>

lemma pool_event_ok:
  assumes "sys_ok s" and "pool_event k s f = Some s'"
    and "\<And>p e. p = s_pools s ! k \<Longrightarrow> pool_ok p \<Longrightarrow> f p = Some e \<Longrightarrow> conserves {#} p e"
  shows "sys_ok s'"
proof -
  obtain e where k: "k < length (s_pools s)" and e: "f (s_pools s ! k) = Some e"
    and s': "s' = apply_effect k e s"
    using assms(2) by (auto simp: pool_event_def split: if_splits)
  have "pool_ok (s_pools s ! k)" using assms(1) k by (simp add: sys_ok_def)
  with assms(1) k e show ?thesis
    unfolding s' by (intro effect_ok [where new = "{#}"] assms(3)) (auto simp: sys_ok_def)
qed

lemma run_event_ok:
  assumes "sys_ok s" and "sys_step (Run k i) s = Some s'"
  shows "sys_ok s'"
proof -
  let ?s = "s\<lparr>s_next_ticket := Suc (s_next_ticket s)\<rparr>"
  from assms(2) have k: "k < length (s_pools s)"
    and s': "s' = apply_effect k (run_notified (s_next_ticket s) i (s_pools s ! k)) ?s"
    by (auto simp: pool_event_def split: if_splits)
  have "pool_ok (s_pools s ! k)" using assms(1) k by (simp add: sys_ok_def)
  from run_notified_conserves [OF this] show ?thesis
    unfolding s' using assms(1) k
    by (intro effect_ok [where new = "{#s_next_ticket s#}"])
       (auto simp: sys_ok_defs line_ok_def permits_ok_def)
qed

lemma start_event_ok:
  assumes "sys_ok s" and "start_event k g s = Some s'"
  shows "sys_ok s'"
proof -
  let ?p = "s_pools s ! k"
  obtain t where k: "k < length (s_pools s)" and t: "task_at g ?p = Some t"
    using assms(2) by (auto simp: start_event_def split: if_splits option.splits)
  have ok: "pool_ok ?p" using assms(1) k by (simp add: sys_ok_def)
  note start = start_permits [OF ok t]
  have pools: "\<forall>p \<in> set ((s_pools s)[k := start_task g n ?p]). pool_ok p" for n
    using start [of n] assms(1) set_update_subset_insert [of "s_pools s" k] by (auto simp: sys_ok_def)
  have wait: "sum_list (map tickets ((s_pools s)[k := start_task g n ?p])) = sum_list (map tickets (s_pools s))" for n
    using sum_list_update_multiset [OF k, of tickets "start_task g n ?p"] start [of n] by simp
  have held: "sum_list (map permits ((s_pools s)[k := start_task g n ?p])) + mset (permits_of [t_permit t])
      = held_permits s + {#n#}" for n
    by (rule shift_multiset [of _ "permits ?p" _ "permits (start_task g n ?p)"])
       (use sum_list_update_multiset [OF k, of permits] start [of n] in \<open>simp_all add: held_permits_def\<close>)
  show ?thesis
  proof (cases "t_permit t")
    case (Some n)
    then have "s' = s\<lparr>s_pools := (s_pools s)[k := start_task g n ?p]\<rparr>"
      using assms(2) k t by (auto simp: start_event_def split: if_splits)
    then show ?thesis
      using assms(1) pools [of n] wait [of n] held [of n] Some
      by (auto simp: sys_ok_defs line_ok_def permits_ok_def)
  next
    case None
    let ?n = "s_next_permit s"
    from None assms(2) k t obtain lim where lim: "try_acquire (s_limiter s) = Some lim"
      and s': "s' = s\<lparr>s_limiter := lim, s_refs := ?n # s_refs s, s_next_permit := Suc ?n,
                 s_pools := (s_pools s)[k := start_task g ?n ?p]\<rparr>"
      by (auto simp: start_event_def split: if_splits option.splits)
    have "?n \<notin> set (s_refs s)" using assms(1) by (auto simp: sys_ok_def permits_ok_def)
    then have "permits_ok s'"
      using assms(1) lim
      by (auto simp: s' sys_ok_def permits_ok_def try_acquire_def less_Suc_eq split: if_splits)
    then show ?thesis
      using assms(1) pools [of ?n] wait [of ?n] held [of ?n] None
      by (auto simp: s' sys_ok_defs line_ok_def)
  qed
qed

text \<open>Relays leave the line with both tickets, answered or in the queues.\<close>

lemma drop_nth_mset: "n < length xs \<Longrightarrow> mset xs = add_mset (xs ! n) (mset (drop_nth n xs))"
  by (metis add_mset_add_single drop_nth_def id_take_nth_drop mset.simps(2) mset_append union_mset_add_mset_right)

lemma set_drop_nth: "set (drop_nth n xs) \<subseteq> set xs"
  by (auto simp: drop_nth_def dest: in_set_takeD in_set_dropD)

lemma line_mset:
  "n < length ls \<Longrightarrow> mset (map f ls) = add_mset (f (ls ! n)) (mset (map f (drop_nth n ls)))"
  using drop_nth_mset [of n ls] by simp

lemma pair_fails_ok:
  assumes "sys_ok s" and "n < length (s_line s)"
  shows "sys_ok (pair_fails n e s)"
  using assms set_drop_nth [of n "s_line s"] line_mset [OF assms(2), of l_ticket_a]
    line_mset [OF assms(2), of l_ticket_b]
  by (auto simp: sys_ok_defs line_ok_def permits_ok_def pair_fails_def Let_def add_mset_commute)

lemma pair_enter_ok:
  assumes ok: "sys_ok s" and n: "n < length (s_line s)" and r: "r = s_line s ! n"
    and a: "leg_ready now (l_id_a r) na (s_pools s ! l_from r) = Inr True"
    and b: "leg_ready now (l_id_b r) nb (s_pools s ! l_to r) = Inr True"
    and lim: "try_acquire (s_limiter s) = Some lim"
  shows "sys_ok (pair_enter n lim s)"
proof -
  let ?m = "s_next_permit s"
  let ?p = "push_leg (l_ticket_a r) (l_id_a r) ?m (s_pools s ! l_from r)"
  let ?P = "(s_pools s)[l_from r := ?p]"
  let ?q = "push_leg (l_ticket_b r) (l_id_b r) ?m (?P ! l_to r)"
  let ?Q = "?P[l_to r := ?q]"
  have k: "l_from r < length (s_pools s)" "l_to r < length (s_pools s)"
    and ne: "l_from r = l_to r \<longrightarrow> l_id_a r \<noteq> l_id_b r"
    using ok n r by (auto simp: sys_ok_def line_ok_def)
  note ra = leg_ready_true [OF a] and rb = leg_ready_true [OF b]
  have p: "pool_ok ?p \<and> tickets ?p = tickets (s_pools s ! l_from r) + {#l_ticket_a r#}
      \<and> permits ?p = permits (s_pools s ! l_from r) + {#?m#}"
    using push_leg_conserves [of "s_pools s ! l_from r" "l_id_a r"] ra ok k by (simp add: sys_ok_def)
  have q: "pool_ok ?q \<and> tickets ?q = tickets (?P ! l_to r) + {#l_ticket_b r#}
      \<and> permits ?q = permits (?P ! l_to r) + {#?m#}"
  proof (cases "l_from r = l_to r")
    case True
    then show ?thesis
      using push_leg_conserves [of ?p "l_id_b r"] p ra rb ne k by (simp add: push_leg_def)
  next
    case False
    then show ?thesis
      using push_leg_conserves [of "s_pools s ! l_to r" "l_id_b r"] rb ok k by (simp add: sys_ok_def)
  qed
  have k': "l_to r < length ?P" using k by simp
  have pools: "\<forall>x \<in> set ?Q. pool_ok x"
    using p q ok set_update_subset_insert [of ?P "l_to r" ?q]
      set_update_subset_insert [of "s_pools s" "l_from r" ?p] by (auto simp: sys_ok_def)
  have t: "sum_list (map tickets ?P) + {#} = sum_list (map tickets (s_pools s)) + {#l_ticket_a r#}"
    by (rule shift_multiset [OF sum_list_update_multiset [OF k(1)]]) (simp add: p)
  have t': "sum_list (map tickets ?Q) + {#} = sum_list (map tickets ?P) + {#l_ticket_b r#}"
    by (rule shift_multiset [OF sum_list_update_multiset [OF k']]) (simp add: q)
  have m: "sum_list (map permits ?P) + {#} = held_permits s + {#?m#}"
    unfolding held_permits_def
    by (rule shift_multiset [OF sum_list_update_multiset [OF k(1)]]) (simp add: p)
  have m': "sum_list (map permits ?Q) + {#} = sum_list (map permits ?P) + {#?m#}"
    by (rule shift_multiset [OF sum_list_update_multiset [OF k']]) (simp add: q)
  have "?m \<notin> set (s_refs s)" using ok by (auto simp: sys_ok_def permits_ok_def)
  then have "permits_ok (pair_enter n lim s)"
    using ok lim
    by (auto simp: sys_ok_def permits_ok_def pair_enter_def Let_def try_acquire_def less_Suc_eq split: if_splits)
  moreover have "s_pools (pair_enter n lim s) = ?Q" by (simp add: pair_enter_def Let_def r)
  ultimately show ?thesis
    using ok pools t t' m m' r set_drop_nth [of n "s_line s"] line_mset [OF n, of l_ticket_a]
      line_mset [OF n, of l_ticket_b]
    by (auto simp: sys_ok_defs line_ok_def pair_enter_def Let_def add_mset_commute)
qed

lemma pair_poll_ok:
  assumes "sys_ok s" and "n < length (s_line s)"
  shows "sys_ok (pair_poll n s)"
  using assms pair_enter_ok [OF assms refl]
  by (auto simp: pair_poll_def Let_def pair_fails_ok split: sum.split bool.split option.split)

lemma sys_new_ok: "sys_ok (sys_new lim sizes)"
proof -
  have "sum_list (map tickets (map pool_new sizes)) = {#} \<and> sum_list (map permits (map pool_new sizes)) = {#}"
    by (induction sizes) (auto simp: pool_new_ok)
  then show ?thesis by (auto simp: sys_ok_defs sys_new_def line_ok_def permits_ok_def pool_new_ok)
qed

lemma map_quiet_Some:
  "map_option quiet x = Some e \<longleftrightarrow> (\<exists>q. x = Some q \<and> e = quiet q)"
  by (cases x) auto

lemma settle_effect:
  "settle_task t c p = e \<Longrightarrow> pool_ok p \<Longrightarrow> task_at g p = Some t \<Longrightarrow> t_result t = Some r
   \<Longrightarrow> conserves {#} p e"
  using settle_conserves by blast

lemma login_ok_effect:
  "login_ok b g p = e \<Longrightarrow> pool_ok p \<Longrightarrow> p_growth p = Some g \<Longrightarrow> 0 < g_connecting g
   \<Longrightarrow> conserves {#} p e"
  using login_ok_conserves by blast

lemma sys_step_ok:
  assumes "sys_ok s" and "sys_step e s = Some s'"
  shows "sys_ok s'"
proof (cases e)
  case (Run k i)
  then show ?thesis using assms run_event_ok by blast
next
  case (Start k g)
  then show ?thesis using assms start_event_ok by simp
next
  case (PairAsk a b ia ib)
  then show ?thesis
    using assms
    by (auto simp: sys_ok_defs line_ok_def permits_ok_def add_mset_commute atLeast0_lessThan_Suc split: if_splits)
next
  case (PairPoll n)
  then show ?thesis using assms pair_poll_ok by (auto split: if_splits)
next
  case (SetLimit n)
  then show ?thesis
    using assms by (auto simp: sys_ok_defs line_ok_def permits_ok_def set_limit_def)
next
  case (Tick d)
  then show ?thesis using assms by (auto simp: sys_ok_defs line_ok_def permits_ok_def)
next
  case (Drain k)
  show ?thesis
    by (rule pool_event_ok [OF assms(1) assms(2) [unfolded Drain sys_step.simps]])
       (auto intro: drain_conserves)
next
  case (Resolve k g r)
  show ?thesis
    by (rule pool_event_ok [OF assms(1) assms(2) [unfolded Resolve sys_step.simps]])
       (auto intro: resolve_conserves split: option.splits if_splits)
next
  case (Settle k g c)
  show ?thesis
    by (rule pool_event_ok [OF assms(1) assms(2) [unfolded Settle sys_step.simps]])
       (auto intro: settle_effect split: option.splits if_splits)
next
  case (Cancel k i)
  show ?thesis
    by (rule pool_event_ok [OF assms(1) assms(2) [unfolded Cancel sys_step.simps]])
       (metis cancel_conserves option.inject)
next
  case (Close k)
  show ?thesis
    by (rule pool_event_ok [OF assms(1) assms(2) [unfolded Close sys_step.simps]])
       (metis close_pool_conserves option.inject)
next
  case (GrowBegin k spare)
  show ?thesis
    by (rule pool_event_ok [OF assms(1) assms(2) [unfolded GrowBegin sys_step.simps]])
       (auto intro: grow_begin_conserves simp: map_quiet_Some)
next
  case (GrowSpawn k)
  show ?thesis
    by (rule pool_event_ok [OF assms(1) assms(2) [unfolded GrowSpawn sys_step.simps]])
       (auto intro: grow_spawn_conserves simp: map_quiet_Some)
next
  case (LoginOk k b)
  show ?thesis
    by (rule pool_event_ok [OF assms(1) assms(2) [unfolded LoginOk sys_step.simps]])
       (auto intro: login_ok_effect split: option.splits if_splits)
next
  case (LoginErr k f)
  show ?thesis
    by (rule pool_event_ok [OF assms(1) assms(2) [unfolded LoginErr sys_step.simps]])
       (auto intro: login_failed_conserves split: option.splits if_splits)
next
  case (GrowEnd k)
  show ?thesis
    by (rule pool_event_ok [OF assms(1) assms(2) [unfolded GrowEnd sys_step.simps]])
       (auto intro: grow_step_end_conserves split: option.splits)
next
  case (GiveUp k i)
  show ?thesis
    by (rule pool_event_ok [OF assms(1) assms(2) [unfolded GiveUp sys_step.simps]])
       (metis give_up_conserves option.inject)
next
  case (IdleRelease k g)
  show ?thesis
    by (rule pool_event_ok [OF assms(1) assms(2) [unfolded IdleRelease sys_step.simps]])
       (auto intro: release_idle_conserves)
qed

lemma reachable_ok: "reachable s \<Longrightarrow> sys_ok s"
  by (induction rule: reachable.induct) (auto simp: sys_new_ok intro: sys_step_ok)

section \<open>Properties\<close>

definition tasks_at_work :: "sys \<Rightarrow> spawned_task list" where
  "tasks_at_work s = concat (map (\<lambda>p. filter t_started (p_tasks p)) (s_pools s))"

text \<open>A run of two sites: one at a single connection and a limit of one transfer, with a
  direct transfer, one refused for its id, a relay between them, a stop and a close.\<close>

definition sample_run :: "event list" where
  "sample_run =
     [Run 0 ''a'', GrowBegin 0 0, GrowSpawn 0, LoginOk 0 7, GrowEnd 0, Drain 0, Start 0 0,
      Run 0 ''a'', PairAsk 0 1 ''r1'' ''r2'', GrowBegin 1 1, GrowSpawn 1, LoginOk 1 8, PairPoll 0,
      Resolve 0 0 (Inr ()), Settle 0 0 True, PairPoll 0, Drain 0, Drain 1, Start 0 1, Start 1 0,
      Cancel 0 ''r1'', Resolve 0 1 (Inr ()), Settle 0 1 True, Close 1]"

lemma drop_refs_active_le: "lim_active (s_limiter (drop_refs ns s)) \<le> lim_active (s_limiter s)"
  by (induction ns s rule: drop_refs.induct) (auto simp: Let_def drop_permit_def intro: order.trans)

lemma pool_event_limiter:
  assumes "pool_event k s f = Some s'"
  shows "lim_active (s_limiter s') \<le> lim_active (s_limiter s) \<and> lim_limit (s_limiter s') = lim_limit (s_limiter s)"
proof -
  obtain p as ps where "s' = drop_refs ps (s\<lparr>s_pools := (s_pools s)[k := p], s_answers := s_answers s @ as\<rparr>)"
    using assms by (auto simp: pool_event_def apply_effect_def split: if_splits prod.splits)
  then show ?thesis
    using drop_refs_active_le [of ps] drop_refs_frame [of ps] by (metis sys.select_convs(2) sys.surjective sys.update_convs(6,8))
qed

lemma started_holds_permit:
  assumes "reachable s" and "t \<in> set (tasks_at_work s)"
  shows "\<exists>n. t_permit t = Some n \<and> n \<in> set (s_refs s)"
proof -
  obtain p where p: "p \<in> set (s_pools s)" "t \<in> set (p_tasks p)" "t_started t"
    using assms(2) by (auto simp: tasks_at_work_def)
  note ok = reachable_ok [OF assms(1)]
  then have "pool_ok p" using p(1) by (simp add: sys_ok_def)
  then obtain n where n: "t_permit t = Some n" using p by (auto simp: pool_ok_def ids_ok_def)
  have "n \<in># permits p"
    using p(2) n by (force simp: permits_def permits_of_def)
  then have "n \<in># held_permits s"
    using p(1) by (auto simp: held_permits_def dest: split_list)
  then show ?thesis using ok n by (simp add: sys_ok_def)
qed

text \<open>C1: Under any interleaving of callers, stops, logins, limit changes and closes, no caller
  is lost and none is answered twice: the tickets answered, those still queued, spawned or
  in line, and those ever issued are the same multiset.\<close>

theorem every_caller_accounted_for:
  assumes "reachable s"
  shows "answered_tickets s + waiting_tickets s = mset [0..<s_next_ticket s]
     \<and> distinct (map fst (s_answers s))"
proof -
  have eq: "answered_tickets s + waiting_tickets s = mset [0..<s_next_ticket s]"
    using reachable_ok [OF assms] by (simp add: sys_ok_def issued_def)
  obtain ws where "mset ws = waiting_tickets s" by (meson ex_mset)
  then have "mset (map fst (s_answers s) @ ws) = mset [0..<s_next_ticket s]"
    using eq by (simp add: answered_tickets_def)
  then have "distinct (map fst (s_answers s) @ ws)"
    by (metis distinct_upt mset_eq_imp_distinct_iff)
  then have "distinct (map fst (s_answers s))" by simp
  with eq show ?thesis by simp
qed

text \<open>What one event does to each pool: its size stays, and a closed pool stays closed.\<close>

definition pool_kept :: "pool \<Rightarrow> pool \<Rightarrow> bool" where
  "pool_kept p q \<longleftrightarrow> p_size q = p_size p \<and> (p_destroyed p \<longrightarrow> p_destroyed q)"

lemma pool_kept_refl [simp]: "pool_kept p p"
  by (simp add: pool_kept_def)

lemma pools_kept_refl: "list_all2 pool_kept ps ps"
  by (simp add: list_all2_conv_all_nth)

lemma pools_kept_update:
  "list_all2 pool_kept ps qs \<Longrightarrow> pool_kept (ps ! k) q \<Longrightarrow> list_all2 pool_kept ps (qs[k := q])"
  by (cases "k < length qs") (auto simp: list_all2_conv_all_nth nth_list_update)

lemma push_leg_kept: "pool_kept p q \<Longrightarrow> pool_kept p (push_leg t i n q)"
  by (simp add: push_leg_def pool_kept_def)

lemma pool_event_kept:
  assumes "pool_event k s f = Some s'" and "\<And>p. pred_option (\<lambda>e. pool_kept p (fst e)) (f p)"
  shows "list_all2 pool_kept (s_pools s) (s_pools s')"
proof -
  obtain p as ps where e: "f (s_pools s ! k) = Some (p, as, ps)" and k: "k < length (s_pools s)"
    and s': "s' = drop_refs ps (s\<lparr>s_pools := (s_pools s)[k := p], s_answers := s_answers s @ as\<rparr>)"
    using assms(1) by (auto simp: pool_event_def apply_effect_def split: if_splits prod.splits)
  have "s_pools s' = (s_pools s)[k := p]" using drop_refs_frame [of ps] by (simp add: s')
  moreover have "pool_kept (s_pools s ! k) p" using assms(2) [of "s_pools s ! k"] e by simp
  ultimately show ?thesis by (simp add: pools_kept_update pools_kept_refl)
qed

lemma pool_ops_kept:
  "pool_kept p (fst (run_notified t i p))" "pool_kept p (drain p)" "pool_kept p (resolve_task g r p)"
  "pool_kept p (start_task g n p)" "pool_kept p (fst (settle_task tk c p))" "pool_kept p (fst (cancel i p))"
  "pool_kept p (fst (close_pool p))" "grow_begin sp p = Some q \<Longrightarrow> pool_kept p q"
  "grow_spawn now lim p = Some q \<Longrightarrow> pool_kept p q" "pool_kept p (fst (grow_end h p))"
  "pool_kept p (fst (login_ok b h p))" "pool_kept p (login_failed now e h p)"
  "grow_step_end now lim h p = Some x \<Longrightarrow> pool_kept p (fst x)" "pool_kept p (fst (give_up_waiting i p))"
  "pool_kept p (release_idle g p)"
proof -
  show "pool_kept p (fst (run_notified t i p))"
    by (simp add: run_notified_def pool_kept_def forget_cancelled_def)
  show "pool_kept p (drain p)" by (simp add: drain_def pool_kept_def split: list.split)
  show "pool_kept p (resolve_task g r p)" by (simp add: resolve_task_def set_task_def pool_kept_def)
  show "pool_kept p (start_task g n p)" by (simp add: start_task_def set_task_def pool_kept_def)
  show "pool_kept p (fst (settle_task tk c p))" by (simp add: settle_task_def Let_def pool_kept_def)
  show "pool_kept p (fst (cancel i p))"
    by (simp add: cancel_def pool_kept_def mark_cancelled_frame split: option.split prod.split)
  show "pool_kept p (fst (close_pool p))" by (simp add: close_pool_def pool_kept_def)
  show "grow_begin sp p = Some q \<Longrightarrow> pool_kept p q"
    by (auto simp: grow_begin_def pool_kept_def split: option.splits)
  show "grow_spawn now lim p = Some q \<Longrightarrow> pool_kept p q"
    by (auto simp: grow_spawn_def pool_kept_def split: option.splits if_splits)
  show ge: "pool_kept p (fst (grow_end h p))" for h
    by (simp add: grow_end_def Let_def pool_kept_def split: option.split)
  show "pool_kept p (fst (login_ok b h p))"
    using ge by (simp add: login_ok_def try_push_worker_def) (simp add: pool_kept_def)
  show "pool_kept p (login_failed now e h p)" by (simp add: login_failed_def Let_def pool_kept_def)
  show "grow_step_end now lim h p = Some x \<Longrightarrow> pool_kept p (fst x)"
    using ge by (auto simp: grow_step_end_def split: if_splits)
  show "pool_kept p (fst (give_up_waiting i p))"
    by (simp add: give_up_waiting_def pool_kept_def split: option.split prod.split)
  show "pool_kept p (release_idle g p)" by (simp add: release_idle_def pool_kept_def)
qed

lemma pair_enter_kept:
  assumes "l_to (s_line s ! n) < length (s_pools s)"
  shows "list_all2 pool_kept (s_pools s) (s_pools (pair_enter n lim s))"
proof -
  have "list_all2 pool_kept (s_pools s) ((s_pools s)[k := push_leg t i m (s_pools s ! k)])" for k t i m
    by (intro pools_kept_update pools_kept_refl push_leg_kept pool_kept_refl)
  then show ?thesis
    using assms
    by (auto simp: pair_enter_def Let_def list_all2_nthD
        intro!: pools_kept_update pools_kept_refl push_leg_kept)
qed

lemma sys_step_kept:
  assumes "line_ok s" and "sys_step e s = Some s'"
  shows "list_all2 pool_kept (s_pools s) (s_pools s')"
proof (cases e)
  case (Start k g)
  then show ?thesis
    using assms
    by (auto simp: start_event_def pool_ops_kept intro!: pools_kept_update pools_kept_refl
        split: if_splits option.splits)
next
  case (PairPoll n)
  then show ?thesis
    using assms pair_enter_kept [of s]
    by (auto simp: pair_poll_def pair_fails_def Let_def pools_kept_refl line_ok_def
        split: if_splits sum.splits bool.splits option.splits)
next
  case (Run k i)
  show ?thesis
    using pool_event_kept [OF assms(2) [unfolded Run sys_step.simps]]
    by (auto simp: pool_ops_kept)
next
  case (PairAsk a b ia ib)
  then show ?thesis using assms by (auto simp: pools_kept_refl split: if_splits)
next
  case (SetLimit n)
  then show ?thesis using assms by (auto simp: pools_kept_refl)
next
  case (Tick d)
  then show ?thesis using assms by (auto simp: pools_kept_refl)
next
  case (Drain k)
  show ?thesis
    by (rule pool_event_kept [OF assms(2) [unfolded Drain sys_step.simps]])
       (simp add: pool_ops_kept split: option.split)
next
  case (Resolve k g r)
  show ?thesis
    by (rule pool_event_kept [OF assms(2) [unfolded Resolve sys_step.simps]])
       (simp add: pool_ops_kept split: option.split)
next
  case (Settle k g c)
  show ?thesis
    by (rule pool_event_kept [OF assms(2) [unfolded Settle sys_step.simps]])
       (simp add: pool_ops_kept split: option.split)
next
  case (Cancel k i)
  show ?thesis
    by (rule pool_event_kept [OF assms(2) [unfolded Cancel sys_step.simps]])
       (simp add: pool_ops_kept split: option.split)
next
  case (Close k)
  show ?thesis
    by (rule pool_event_kept [OF assms(2) [unfolded Close sys_step.simps]])
       (simp add: pool_ops_kept split: option.split)
next
  case (GrowBegin k spare)
  show ?thesis
    by (rule pool_event_kept [OF assms(2) [unfolded GrowBegin sys_step.simps]])
       (auto simp: pool_ops_kept option.pred_map option.pred_set split: option.split)
next
  case (GrowSpawn k)
  show ?thesis
    by (rule pool_event_kept [OF assms(2) [unfolded GrowSpawn sys_step.simps]])
       (auto simp: pool_ops_kept option.pred_map option.pred_set split: option.split)
next
  case (LoginOk k b)
  show ?thesis
    by (rule pool_event_kept [OF assms(2) [unfolded LoginOk sys_step.simps]])
       (simp add: pool_ops_kept split: option.split)
next
  case (LoginErr k f)
  show ?thesis
    by (rule pool_event_kept [OF assms(2) [unfolded LoginErr sys_step.simps]])
       (simp add: pool_ops_kept split: option.split)
next
  case (GrowEnd k)
  show ?thesis
    by (rule pool_event_kept [OF assms(2) [unfolded GrowEnd sys_step.simps]])
       (auto simp: pool_ops_kept option.pred_map option.pred_set split: option.split)
next
  case (GiveUp k i)
  show ?thesis
    by (rule pool_event_kept [OF assms(2) [unfolded GiveUp sys_step.simps]])
       (simp add: pool_ops_kept split: option.split)
next
  case (IdleRelease k g)
  show ?thesis
    by (rule pool_event_kept [OF assms(2) [unfolded IdleRelease sys_step.simps]])
       (simp add: pool_ops_kept split: option.split)
qed

lemma play_kept:
  assumes "sys_ok s" and "play es s = Some s'"
  shows "sys_ok s' \<and> list_all2 pool_kept (s_pools s) (s_pools s')"
  using assms
proof (induction es arbitrary: s)
  case Nil
  then show ?case by (simp add: pools_kept_refl)
next
  case (Cons e es)
  then obtain t where t: "sys_step e s = Some t" "play es t = Some s'"
    by (auto split: option.splits)
  have "sys_ok t" using Cons.prems(1) t(1) sys_step_ok by blast
  moreover have "list_all2 pool_kept (s_pools s) (s_pools t)"
    using sys_step_kept [OF _ t(1)] Cons.prems(1) by (simp add: sys_ok_def)
  moreover have "pool_kept p r" if "pool_kept p q" "pool_kept q r" for p q r
    using that by (simp add: pool_kept_def)
  ultimately show ?case
    using Cons.IH [OF _ t(2)] list_all2_trans [of pool_kept pool_kept pool_kept] by blast
qed

text \<open>C2: A site's connection limit holds: with the pool sized from a limit of two or more, the
  idle, busy and still connecting transfer connections and the browsing one never exceed it.\<close>

theorem site_connection_limit:
  assumes "play es (sys_new lim sizes) = Some s" and "k < length sizes"
    and "sizes ! k = site_pool_size (Some m)" and "2 \<le> m"
  shows "Suc (connections (s_pools s ! k)) \<le> m"
proof -
  note kept = play_kept [OF sys_new_ok assms(1)]
  have "pool_kept (pool_new (sizes ! k)) (s_pools s ! k)" and k: "k < length (s_pools s)"
    using kept assms(2) by (auto simp: sys_new_def list_all2_conv_all_nth)
  then have "p_size (s_pools s ! k) = Capped (m - 1)"
    using assms(3,4) by (simp add: pool_kept_def pool_new_def site_pool_size_def)
  moreover have "cap_ok (s_pools s ! k)"
    using kept k by (simp add: sys_ok_def pool_ok_def)
  ultimately show ?thesis using assms(4) by (auto simp: cap_ok_def)
qed

text \<open>No run without a limit change ever has more permits out than the limit.\<close>

lemma pair_poll_active:
  "0 < lim_limit (s_limiter s) \<Longrightarrow> lim_active (s_limiter s) \<le> lim_limit (s_limiter s) \<Longrightarrow>
   lim_active (s_limiter (pair_poll n s)) \<le> lim_limit (s_limiter s)
   \<and> lim_limit (s_limiter (pair_poll n s)) = lim_limit (s_limiter s)"
  by (auto simp: pair_poll_def Let_def pair_fails_def pair_enter_def
      split: sum.split bool.split option.split dest!: limiter_slots.take_some)

lemma sys_step_active:
  assumes "sys_step e s = Some s'" and "\<forall>n. e \<noteq> SetLimit n"
    and "0 < lim_limit (s_limiter s)" and "lim_active (s_limiter s) \<le> lim_limit (s_limiter s)"
  shows "lim_active (s_limiter s') \<le> lim_limit (s_limiter s') \<and> lim_limit (s_limiter s') = lim_limit (s_limiter s)"
proof (cases "\<exists>k t f. s_limiter t = s_limiter s \<and> pool_event k t f = Some s'")
  case True
  then show ?thesis using pool_event_limiter assms(4) by (metis le_trans)
next
  case False
  then have no: "s_limiter t = s_limiter s \<Longrightarrow> pool_event k t f \<noteq> Some s'" for k t f by blast
  show ?thesis
  proof (cases e)
    case (Start k g)
    then show ?thesis
      using assms
      by (auto simp: start_event_def split: if_splits option.splits dest!: limiter_slots.take_some)
  next
    case (PairPoll n)
    then show ?thesis using assms pair_poll_active [of s n] by (auto split: if_splits)
  qed (use assms no in \<open>auto split: if_splits\<close>)
qed

lemma play_active:
  assumes "play es s = Some s'" and "\<forall>n. SetLimit n \<notin> set es"
    and "0 < lim_limit (s_limiter s)" and "lim_active (s_limiter s) \<le> lim_limit (s_limiter s)"
  shows "lim_active (s_limiter s') \<le> lim_limit (s_limiter s') \<and> lim_limit (s_limiter s') = lim_limit (s_limiter s)"
  using assms
proof (induction es arbitrary: s)
  case Nil
  then show ?case by simp
next
  case (Cons e es)
  then obtain t where t: "sys_step e s = Some t" "play es t = Some s'"
    by (auto split: option.splits)
  with Cons.prems have "lim_active (s_limiter t) \<le> lim_limit (s_limiter t)
      \<and> lim_limit (s_limiter t) = lim_limit (s_limiter s)"
    using sys_step_active by (metis list.set_intros(1))
  with Cons.IH [OF t(2)] Cons.prems show ?case by auto
qed

text \<open>C3: The global transfer limit holds over all pools: every task at work holds a permit, and
  the permits of all the tasks at work, a relay's two legs sharing one, are never more than
  the limit the run was started with.\<close>

theorem global_transfer_limit:
  assumes "play es (sys_new lim sizes) = Some s" and "0 < lim" and "\<forall>n. SetLimit n \<notin> set es"
  shows "(\<forall>t \<in> set (tasks_at_work s). t_permit t \<noteq> None)
     \<and> card (t_permit ` set (tasks_at_work s)) \<le> lim"
proof -
  have reach: "reachable s" using play_reachable [OF reachable.start assms(1)] .
  have sub: "t_permit ` set (tasks_at_work s) \<subseteq> Some ` set (s_refs s)"
    using started_holds_permit [OF reach] by fastforce
  have "lim_active (s_limiter s) \<le> lim"
    using play_active [OF assms(1)] assms(2,3) by (simp add: sys_new_def)
  moreover have "lim_active (s_limiter s) = card (set (s_refs s))"
    using reachable_ok [OF reach] by (simp add: sys_ok_def permits_ok_def)
  moreover have "card (t_permit ` set (tasks_at_work s)) \<le> card (Some ` set (s_refs s))"
    by (rule card_mono [OF _ sub]) simp
  moreover have "card (Some ` set (s_refs s)) = card (set (s_refs s))"
    by (rule card_image) simp
  ultimately show ?thesis using started_holds_permit [OF reach] by fastforce
qed

text \<open>C4: A closed pool stays closed, empty and stopped through any event whatever, a login that
  completes late included, and a transfer asked of it is refused without being queued.\<close>

theorem closed_pool_is_final:
  assumes "reachable s" and "k < length (s_pools s)" and "p_destroyed (s_pools s ! k)"
    and "sys_step e s = Some s'"
  shows "p_destroyed (s_pools s' ! k) \<and> p_queue (s_pools s' ! k) = [] \<and> p_workers (s_pools s' ! k) = []
    \<and> (\<forall>t \<in> set (p_tasks (s_pools s' ! k)). t_gen t \<in> set (p_tokens (s_pools s' ! k)))
    \<and> (\<forall>i. run_notified (s_next_ticket s') i (s_pools s' ! k)
            = (s_pools s' ! k, [(s_next_ticket s', Inl pool_closed_error)], []))"
proof -
  have ok: "sys_ok s" "sys_ok s'" using reachable_ok assms(1,4) reachable.step by blast+
  then have "list_all2 pool_kept (s_pools s) (s_pools s')"
    using sys_step_kept [OF _ assms(4)] by (simp add: sys_ok_def)
  then have "k < length (s_pools s')" "p_destroyed (s_pools s' ! k)"
    using assms(2,3) by (auto simp: list_all2_conv_all_nth pool_kept_def)
  moreover from this have "closed_ok (s_pools s' ! k)"
    using ok(2) by (simp add: sys_ok_def pool_ok_def)
  ultimately show ?thesis by (simp add: closed_ok_def run_notified_def)
qed

section \<open>Concrete runs\<close>

abbreviation sample_start :: sys where
  "sample_start \<equiv> sys_new 1 [site_pool_size (Some 2), Unlimited]"

definition sample_check :: "nat \<Rightarrow> (sys \<Rightarrow> bool) \<Rightarrow> bool" where
  "sample_check n P = (case play (take n sample_run) sample_start of None \<Rightarrow> False | Some s \<Rightarrow> P s)"

lemma sample_state:
  assumes "sample_check n P"
  shows "\<exists>s. play (take n sample_run) sample_start = Some s \<and> reachable s \<and> P s"
  using assms play_reachable [OF reachable.start, of "take n sample_run" 1 "[site_pool_size (Some 2), Unlimited]"]
  by (auto simp: sample_check_def split: option.splits)

theorem every_caller_accounted_for_witness:
  "\<exists>s. answered_tickets s + waiting_tickets s = mset [0..<4] \<and> distinct (map fst (s_answers s))
     \<and> length (s_answers s) = 3"
proof -
  have "sample_check 24 (\<lambda>s. s_next_ticket s = 4 \<and> length (s_answers s) = 3)" by code_simp
  from sample_state [OF this] show ?thesis using every_caller_accounted_for by metis
qed

theorem site_connection_limit_witness:
  "\<exists>s :: sys. Suc (connections (s_pools s ! 0)) \<le> 2 \<and> length (p_active (s_pools s ! 0)) = 1"
proof -
  have "sample_check 20 (\<lambda>s. length (p_active (s_pools s ! 0)) = 1)" by code_simp
  from sample_state [OF this] obtain s
    where s: "play (take 20 sample_run) sample_start = Some s" "length (p_active (s_pools s ! 0)) = 1" by blast
  from site_connection_limit [OF s(1), of 0 2] s(2) show ?thesis by auto
qed

theorem global_transfer_limit_witness:
  "\<exists>s. length (tasks_at_work s) = 2 \<and> card (t_permit ` set (tasks_at_work s)) \<le> 1"
proof -
  have "sample_check 20 (\<lambda>s. length (tasks_at_work s) = 2)" by code_simp
  from sample_state [OF this] obtain s
    where s: "play (take 20 sample_run) sample_start = Some s" "length (tasks_at_work s) = 2" by blast
  have "\<forall>n. SetLimit n \<notin> set (take 20 sample_run)" by (simp add: sample_run_def)
  with global_transfer_limit [OF s(1)] s(2) show ?thesis by auto
qed

theorem closed_pool_is_final_witness:
  "\<exists>s s'. sys_step (Settle 1 0 True) s = Some s' \<and> p_destroyed (s_pools s ! 1)
     \<and> p_tasks (s_pools s ! 1) \<noteq> [] \<and> p_workers (s_pools s' ! 1) = []"
proof -
  have "case play (sample_run @ [Resolve 1 0 (Inr ())]) sample_start of None \<Rightarrow> False
     | Some s \<Rightarrow> 1 < length (s_pools s) \<and> p_destroyed (s_pools s ! 1) \<and> p_tasks (s_pools s ! 1) \<noteq> []
         \<and> sys_step (Settle 1 0 True) s \<noteq> None"
    by code_simp
  then obtain s s' where s: "play (sample_run @ [Resolve 1 0 (Inr ())]) sample_start = Some s"
      "1 < length (s_pools s)" "p_destroyed (s_pools s ! 1)" "p_tasks (s_pools s ! 1) \<noteq> []"
      "sys_step (Settle 1 0 True) s = Some s'"
    by (auto split: option.splits)
  have "reachable s" using play_reachable [OF reachable.start s(1)] .
  from closed_pool_is_final [OF this s(2,3,5)] s show ?thesis by blast
qed

end
