(* ===== verification/Paths.thy ===== *)
theory Paths
  imports Ipc
begin

text \<open>
  Names and paths before anything is asked of a disk or a server: the checks of names from
  remote listings and of renderer paths (\<open>security/connection_guard.rs\<close>), the names Windows
  stores as they are (\<open>local_fs/windows_names.rs\<close>) and the lexical checks on remote paths
  (\<open>protocol/remote_path.rs\<close>). \<open>str::to_lowercase\<close> is the parameter \<open>lower\<close>: its Unicode
  table is not in the repository, and no property here asks anything of it.
\<close>

section \<open>Names from a remote listing\<close>

definition is_safe_path_segment :: "string \<Rightarrow> bool" where
  "is_safe_path_segment name \<longleftrightarrow> name \<noteq> [] \<and> name \<noteq> ''.'' \<and> name \<noteq> ''..''
     \<and> (\<forall>c \<in> set name. c \<notin> set (bytes [92, 47, 13, 10]))"

definition is_safe_remote_path_argument :: "string \<Rightarrow> bool" where
  "is_safe_remote_path_argument path \<longleftrightarrow> path \<noteq> [] \<and> (\<forall>c \<in> set path. c \<notin> set (bytes [13, 10]))"

definition remote_remove_depth_allowed :: "nat \<Rightarrow> bool" where
  "remote_remove_depth_allowed depth = (depth \<le> 1024)"

section \<open>Names Windows stores as they are\<close>

text \<open>\<open>str::to_uppercase\<close> as far as the reserved names need it: exact on every character whose
  upper case is ASCII (the dotless i, the long s, the sharp s and the Latin ligatures among
  them), the identity on the rest, none of which turns into a reserved name.\<close>

definition upper_to_ascii :: "(string \<times> string) list" where
  "upper_to_ascii = [(bytes [196, 177], ''I''), (bytes [197, 191], ''S''), (bytes [195, 159], ''SS''),
             (bytes [239, 172, 128], ''FF''), (bytes [239, 172, 129], ''FI''),
             (bytes [239, 172, 130], ''FL''), (bytes [239, 172, 131], ''FFI''),
             (bytes [239, 172, 132], ''FFL''), (bytes [239, 172, 133], ''ST''),
             (bytes [239, 172, 134], ''ST'')]"

definition upper_group :: "string \<Rightarrow> string" where
  "upper_group g =
     (if length g = 1 then ascii_upper g
      else case map_of upper_to_ascii g of Some u \<Rightarrow> u | None \<Rightarrow> g)"

definition upper_name :: "string \<Rightarrow> string" where
  "upper_name s = concat (map upper_group (utf8_chars s))"

definition device_numbers :: "string list" where
  "device_numbers = [''1'', ''2'', ''3'', ''4'', ''5'', ''6'', ''7'', ''8'', ''9'',
     bytes [194, 185], bytes [194, 178], bytes [194, 179]]"

definition reserved_stems :: "string list" where
  "reserved_stems = [''CON'', ''PRN'', ''AUX'', ''NUL'', ''CONIN$'', ''CONOUT$'']"

definition is_reserved_name :: "string \<Rightarrow> bool" where
  "is_reserved_name name =
     (let stem = upper_name (takeWhile (\<lambda>c. c \<noteq> CHR ''.'') name)
      in stem \<in> set reserved_stems
         \<or> (\<exists>p \<in> set [''COM'', ''LPT'']. prefix p stem \<and> drop (length p) stem \<in> set device_numbers))"

text \<open>\<open>char::is_control\<close>: the C0 and C1 controls and DEL.\<close>

definition is_control :: "string \<Rightarrow> bool" where
  "is_control g = (case g of
       [c] \<Rightarrow> code c < 32 \<or> code c = 127
     | [c, d] \<Rightarrow> code c = 194 \<and> in_range 128 159 d
     | _ \<Rightarrow> False)"

definition forbidden_chars :: string where
  "forbidden_chars = bytes [60, 62, 58, 34, 124, 63, 42]"

definition ends_with_dot_or_space :: "string \<Rightarrow> bool" where
  "ends_with_dot_or_space s = (s \<noteq> [] \<and> (last s = CHR ''.'' \<or> last s = CHR '' ''))"

definition validate_file_name :: "string \<Rightarrow> command_error + unit" where
  "validate_file_name name =
     (if is_reserved_name name \<or> ends_with_dot_or_space name
         \<or> (\<exists>g \<in> set (utf8_chars name). is_control g \<or> (\<exists>c \<in> set forbidden_chars. g = [c]))
      then Inl (command_error_new InvalidFileName name) else Inr ())"

definition clean_char :: "char \<Rightarrow> char" where
  "clean_char c = (if c \<in> set (forbidden_chars @ bytes [47, 92]) \<or> code c \<le> 31 then CHR ''_'' else c)"

definition trim_end_dots :: "string \<Rightarrow> string" where
  "trim_end_dots s = rev (dropWhile (\<lambda>c. c = CHR ''.'' \<or> c = CHR '' '') (rev s))"

definition safe_temp_name :: "string \<Rightarrow> string" where
  "safe_temp_name name =
     (let cleaned = trim_end_dots (map clean_char name)
      in if cleaned = [] then ''file''
         else if is_reserved_name cleaned then CHR ''_'' # cleaned else cleaned)"

section \<open>Remote paths\<close>

definition max_remote_path_len :: nat where "max_remote_path_len = 4096"

definition validate_remote_path :: "string \<Rightarrow> command_error + unit" where
  "validate_remote_path path =
     (if max_remote_path_len < length path
      then Inl (command_error_new ResourceLimit ''Remote path exceeds the 4096-byte limit'') else Inr ())"

definition is_separator :: "char \<Rightarrow> bool" where
  "is_separator c \<longleftrightarrow> c = CHR ''/'' \<or> c = char_of (92::nat)"

definition here_part :: string where "here_part = ''.''"
definition up_part :: string where "up_part = ''..''"

text \<open>One part of a path onto the parts so far: \<open>.\<close> and nothing are skipped, \<open>..\<close> takes the
  last part back.\<close>

definition push_part :: "string \<Rightarrow> string list \<Rightarrow> string list" where
  "push_part part parts =
     (if part = [] \<or> part = here_part then parts
      else if part = up_part then butlast parts else parts @ [part])"

definition components :: "string \<Rightarrow> string list" where
  "components path = fold push_part (split_at is_separator path) []"

definition validate_remote_relationship :: "(string \<Rightarrow> string) \<Rightarrow> string \<Rightarrow> string \<Rightarrow> command_error + unit" where
  "validate_remote_relationship lower source destination =
     (let src = components source; target = components destination;
          source_folded = map lower src; target_folded = map lower target;
          parent = (\<lambda>ps. if ps = [] then None else Some (butlast ps));
          same_parent = (parent src = parent target)
      in if target_folded = source_folded \<and> target \<noteq> src \<and> same_parent then Inr ()
         else if prefix source_folded target_folded
         then Inl (command_error_new InsideSource
                (destination @ '': Destination is the source or is inside the source folder''))
         else Inr ())"

section \<open>Lemmas\<close>

lemma components_append:
  "components (a @ CHR ''/'' # b) = fold push_part (split_at is_separator b) (components a)"
  by (simp add: components_def split_at_append is_separator_def)

text \<open>Without a \<open>..\<close>, the parts only ever grow.\<close>

lemma fold_push_part_extends:
  "up_part \<notin> set ps \<Longrightarrow> fold push_part ps acc = acc @ fold push_part ps []"
proof (induction ps rule: rev_induct)
  case Nil
  then show ?case by simp
next
  case (snoc p ps)
  then show ?case by (auto simp: push_part_def)
qed

definition plain_part :: "string \<Rightarrow> bool" where
  "plain_part p \<longleftrightarrow> p \<noteq> [] \<and> p \<noteq> here_part \<and> p \<noteq> up_part \<and> (\<forall>c \<in> set p. \<not> is_separator c)"

lemma fold_push_part_plain:
  "\<forall>p \<in> set ps. \<forall>c \<in> set p. \<not> is_separator c \<Longrightarrow> \<forall>p \<in> set acc. plain_part p
   \<Longrightarrow> \<forall>p \<in> set (fold push_part ps acc). plain_part p"
proof (induction ps arbitrary: acc)
  case Nil
  then show ?case by simp
next
  case (Cons q ps)
  have "\<forall>p \<in> set (push_part q acc). plain_part p"
    using Cons.prems by (auto simp: push_part_def plain_part_def dest!: in_set_butlastD)
  with Cons show ?case by simp
qed

lemma components_plain: "p \<in> set (components path) \<Longrightarrow> plain_part p"
  using fold_push_part_plain [of "split_at is_separator path" "[]"] split_at_pieces [of _ is_separator path]
  by (auto simp: components_def)

lemma split_join:
  "\<forall>q \<in> set ps. plain_part q \<Longrightarrow> ps \<noteq> [] \<Longrightarrow> split_at is_separator (join_str ''/'' ps) = ps"
  by (rule split_at_join) (auto simp: plain_part_def is_separator_def)

lemma fold_push_plain: "\<forall>q \<in> set ps. plain_part q \<Longrightarrow> fold push_part ps acc = acc @ ps"
  by (induction ps arbitrary: acc) (auto simp: push_part_def plain_part_def)

text \<open>In valid UTF-8, an ASCII byte is a character of its own.\<close>

lemma utf8_chars_step:
  assumes "utf8_follow (code c) = Some rs" and "take_follow rs cs = (m, True, rest)" and "valid_utf8 rest"
  shows "utf8_chars (c # cs) = (c # m) # utf8_chars rest \<and> (\<forall>d \<in> set m. is_cont d) \<and> cs = m @ rest"
proof -
  have cs: "cs = m @ rest" using take_follow_ok [OF assms(2)] by simp
  have cont: "\<forall>d \<in> set m. is_cont d"
    using take_follow_cont [OF assms(2)] utf8_follow_ranges [OF assms(1)] by fastforce
  have "rest = [] \<or> \<not> is_cont (hd rest)"
    using assms(3) cont_cannot_lead by (cases rest) (auto split: option.splits)
  then have "takeWhile is_cont rest = []" "dropWhile is_cont rest = rest"
    by (cases rest; simp)+
  then show ?thesis using cont cs by (simp add: takeWhile_append2 dropWhile_append2)
qed

lemma ascii_is_a_char:
  assumes "valid_utf8 s" and "d \<in> set s" and "code d < (128 :: nat)"
  shows "[d] \<in> set (utf8_chars s)"
  using assms
proof (induction s rule: valid_utf8.induct)
  case 1
  then show ?case by simp
next
  case (2 c cs)
  then obtain rs m rest where f: "utf8_follow (code c) = Some rs"
      "take_follow rs cs = (m, True, rest)" "valid_utf8 rest"
    by (auto split: option.splits prod.splits)
  note step = utf8_chars_step [OF f]
  have "d \<notin> set m" using step "2.prems"(3) by (auto simp: is_cont_def in_range_def)
  then consider "d = c" | "d \<in> set rest" using "2.prems"(2) step by auto
  then show ?case
  proof cases
    case 1
    then have "rs = []" using f(1) "2.prems"(3) by (simp add: utf8_follow_def split: if_splits)
    then have "m = []" using f(2) by simp
    then have "utf8_chars (c # cs) = [c] # utf8_chars rest" using step by blast
    then show ?thesis unfolding 1 by (metis list.set_intros(1))
  next
    case 2
    then have "[d] \<in> set (utf8_chars rest)" using "2.IH" [OF f(1) f(2) [symmetric] refl] f(3) "2.prems"(3) by blast
    then show ?thesis using step by (metis list.set_intros(2))
  qed
qed

lemma trim_end_dots_last: "\<not> ends_with_dot_or_space (trim_end_dots s)"
  using hd_dropWhile [of "\<lambda>c. c = CHR ''.'' \<or> c = CHR '' ''" "rev s"]
  by (auto simp: trim_end_dots_def ends_with_dot_or_space_def last_rev)

lemma set_trim_end_dots: "set (trim_end_dots s) \<subseteq> set s"
  by (auto simp: trim_end_dots_def dest: set_dropWhileD)

lemma clean_char_ok: "clean_char c \<notin> set (forbidden_chars @ bytes [47, 92]) \<and> 31 < code (clean_char c)"
proof (cases "c \<in> set (forbidden_chars @ bytes [47, 92]) \<or> code c \<le> 31")
  case True
  then have "clean_char c = CHR ''_''" unfolding clean_char_def by (rule if_P)
  moreover have "CHR ''_'' \<notin> set (forbidden_chars @ bytes [47, 92]) \<and> 31 < code (CHR ''_'')"
    by code_simp
  ultimately show ?thesis by simp
next
  case False
  then have "clean_char c = c" unfolding clean_char_def by (rule if_not_P)
  with False show ?thesis by simp
qed

text \<open>An underscore in front takes a name out of the reserved ones.\<close>

lemma hd_upper_name:
  assumes "hd s = CHR ''_''" and "s \<noteq> []"
  shows "upper_name s \<noteq> [] \<and> hd (upper_name s) = CHR ''_''"
proof -
  obtain cs where s: "s = CHR ''_'' # cs" using assms by (metis list.collapse)
  let ?g = "CHR ''_'' # takeWhile is_cont cs"
  have one: "upper_group [CHR ''_''] = [CHR ''_'']" by code_simp
  have "\<forall>k \<in> set (map fst upper_to_ascii). hd k \<noteq> CHR ''_''" by code_simp
  then have "map_of upper_to_ascii ?g = None" by (force simp: map_of_eq_None_iff)
  then have "upper_group ?g \<noteq> [] \<and> hd (upper_group ?g) = CHR ''_''"
    using one by (cases "takeWhile is_cont cs") (simp_all add: upper_group_def)
  then show ?thesis by (simp add: s upper_name_def)
qed

lemma underscore_not_reserved: "\<not> is_reserved_name (CHR ''_'' # s)"
proof -
  let ?stem = "upper_name (takeWhile (\<lambda>c. c \<noteq> CHR ''.'') (CHR ''_'' # s))"
  have "?stem \<noteq> [] \<and> hd ?stem = CHR ''_''" by (rule hd_upper_name) simp_all
  then obtain t where stem: "?stem = CHR ''_'' # t" by (metis list.collapse)
  show ?thesis unfolding is_reserved_name_def Let_def stem by (simp add: reserved_stems_def)
qed

lemma file_not_reserved: "\<not> is_reserved_name ''file''"
  by code_simp

lemma trim_end_dots_id: "\<not> ends_with_dot_or_space s \<Longrightarrow> trim_end_dots s = s"
proof (cases "rev s")
  case (Cons c cs)
  assume "\<not> ends_with_dot_or_space s"
  moreover have "s = rev cs @ [c]" using Cons by (metis rev.simps(2) rev_rev_ident)
  ultimately show ?thesis by (simp add: trim_end_dots_def ends_with_dot_or_space_def)
qed (simp add: trim_end_dots_def)

section \<open>Properties\<close>

text \<open>A temporary file name made from any server name is one literal segment that Windows
  stores as it is: never empty, dot or dot-dot, no separator, stream colon, control below
  32 or wildcard, no trailing dot or space, and no device name.\<close>

theorem safe_temp_name_is_safe:
  "is_safe_path_segment (safe_temp_name name) \<and> \<not> is_reserved_name (safe_temp_name name)
   \<and> \<not> ends_with_dot_or_space (safe_temp_name name)
   \<and> (\<forall>c \<in> set (safe_temp_name name). c \<notin> set forbidden_chars \<and> 31 < code c)"
proof -
  let ?t = "trim_end_dots (map clean_char name)"
  have clean: "\<forall>c \<in> set ?t. c \<notin> set (forbidden_chars @ bytes [47, 92]) \<and> 31 < code c"
    using set_trim_end_dots [of "map clean_char name"] clean_char_ok by fastforce
  have sep: "c \<notin> set (bytes [92, 47, 13, 10])"
    if "c \<notin> set (forbidden_chars @ bytes [47, 92]) \<and> 31 < code c" for c
    using that by (auto simp: bytes_def)
  have under: "CHR ''_'' \<notin> set (forbidden_chars @ bytes [47, 92]) \<and> 31 < code (CHR ''_'')"
    by code_simp
  have nodot: "\<not> ends_with_dot_or_space ?t" by (rule trim_end_dots_last)
  have dots: "s \<noteq> ''.'' \<and> s \<noteq> ''..''" if "\<not> ends_with_dot_or_space s" for s
    using that by (auto simp: ends_with_dot_or_space_def)
  consider "?t = []" | "?t \<noteq> []" "is_reserved_name ?t" | "?t \<noteq> []" "\<not> is_reserved_name ?t" by blast
  then show ?thesis
  proof cases
    case 1
    have "is_safe_path_segment ''file'' \<and> \<not> ends_with_dot_or_space ''file''
        \<and> (\<forall>c \<in> set ''file''. c \<notin> set forbidden_chars \<and> 31 < code c)"
      by code_simp
    moreover have "safe_temp_name name = ''file''" using 1 by (simp add: safe_temp_name_def)
    ultimately show ?thesis using file_not_reserved by metis
  next
    case 2
    then have name: "safe_temp_name name = CHR ''_'' # ?t" by (simp add: safe_temp_name_def)
    have "\<not> ends_with_dot_or_space (CHR ''_'' # ?t)"
      using nodot 2(1) by (simp add: ends_with_dot_or_space_def)
    moreover have "\<forall>c \<in> set (CHR ''_'' # ?t). c \<notin> set (forbidden_chars @ bytes [47, 92]) \<and> 31 < code c"
      using clean under by simp
    ultimately show ?thesis
      unfolding name is_safe_path_segment_def using dots underscore_not_reserved sep by auto
  next
    case 3
    then have "safe_temp_name name = ?t" by (simp add: safe_temp_name_def)
    then show ?thesis using 3 nodot clean sep dots unfolding is_safe_path_segment_def by auto
  qed
qed

theorem safe_temp_name_is_safe_witness:
  "is_safe_path_segment (safe_temp_name ''a:b/c. '') \<and> \<not> is_reserved_name (safe_temp_name ''a:b/c. '')"
  using safe_temp_name_is_safe [of "''a:b/c. ''"] by blast

text \<open>A name that is already fit for Windows keeps its spelling: whatever is one literal
  segment and passes the file name check is the temporary file's name unchanged.\<close>

theorem safe_temp_name_keeps_valid:
  assumes "valid_utf8 name" and "is_safe_path_segment name" and "validate_file_name name = Inr ()"
  shows "safe_temp_name name = name"
proof -
  have keep: "clean_char c = c" if "c \<in> set name" for c
  proof -
    have "c \<notin> set (bytes [47, 92])"
      using assms(2) that by (auto simp: is_safe_path_segment_def bytes_def)
    moreover have "c \<notin> set forbidden_chars \<and> 31 < code c"
    proof (cases "code c < (128 :: nat)")
      case True
      have "[c] \<in> set (utf8_chars name)" by (rule ascii_is_a_char [OF assms(1) that True])
      then have "\<not> is_control [c] \<and> c \<notin> set forbidden_chars"
        using assms(3) by (force simp: validate_file_name_def split: if_splits)
      then show ?thesis by (simp add: is_control_def)
    next
      case False
      then show ?thesis by (auto simp: forbidden_chars_def bytes_def)
    qed
    ultimately show ?thesis by (simp add: clean_char_def)
  qed
  have "map clean_char name = name" using keep by (simp add: map_idI)
  moreover have "\<not> ends_with_dot_or_space name" "\<not> is_reserved_name name" "name \<noteq> []"
    using assms(2,3) by (auto simp: validate_file_name_def is_safe_path_segment_def split: if_splits)
  ultimately show ?thesis by (simp add: safe_temp_name_def trim_end_dots_id)
qed

theorem safe_temp_name_keeps_valid_witness: "safe_temp_name ''a b.tar.gz'' = ''a b.tar.gz''"
proof (rule safe_temp_name_keeps_valid)
  show "valid_utf8 ''a b.tar.gz''" by code_simp
  show "is_safe_path_segment ''a b.tar.gz''" by code_simp
  show "validate_file_name ''a b.tar.gz'' = Inr ()" by code_simp
qed

text \<open>The parts a remote path is compared by are in normal form: joined again they give the
  same parts, and none is empty, a dot, a dot-dot or holds a separator, so no path climbs
  out of what it names.\<close>

theorem components_normal_form:
  "components (join_str ''/'' (components path)) = components path
   \<and> (\<forall>p \<in> set (components path). plain_part p)"
proof -
  have plain: "\<forall>p \<in> set (components path). plain_part p" using components_plain by blast
  have "components (join_str ''/'' (components path)) = components path"
  proof (cases "components path = []")
    case True
    then show ?thesis by (simp add: components_def push_part_def)
  next
    case False
    then show ?thesis
      using split_join [OF plain False] fold_push_plain [OF plain, of "[]"]
      by (simp add: components_def)
  qed
  then show ?thesis using plain by blast
qed

theorem components_normal_form_witness:
  "components (join_str ''/'' (components ''/a/./b/../c'')) = components ''/a/./b/../c''"
  using components_normal_form [of "''/a/./b/../c''"] by blast

text \<open>A folder never goes into itself: whatever the case folding, a destination spelled as
  the source, a slash and any path without a dot-dot is refused as inside the source, the
  source itself under any such spelling included.\<close>

theorem inside_source_refused:
  assumes "up_part \<notin> set (split_at is_separator rest)"
  shows "validate_remote_relationship lower source (source @ CHR ''/'' # rest) =
    Inl (command_error_new InsideSource (source @ CHR ''/'' # rest
      @ '': Destination is the source or is inside the source folder''))"
proof -
  have "components (source @ CHR ''/'' # rest) = components source @ components rest"
    unfolding components_append using fold_push_part_extends [OF assms, of "components source"]
    by (simp add: components_def)
  then show ?thesis
    by (auto simp: validate_remote_relationship_def Let_def)
qed

theorem inside_source_refused_witness:
  "validate_remote_relationship ascii_lower ''/a/b'' ''/a/b//c/.'' =
    Inl (command_error_new InsideSource
      ''/a/b//c/.: Destination is the source or is inside the source folder'')"
proof -
  have "up_part \<notin> set (split_at is_separator ''/c/.'')" by code_simp
  from inside_source_refused [OF this, of ascii_lower "''/a/b''"] show ?thesis by simp
qed

end
