(* ===== verification/TargetReservation.thy ===== *)
theory TargetReservation
  imports Paths
begin

text \<open>
  The process-wide leases on the places operations read and write
  (\<open>local_fs/target_reservation.rs\<close>). Parameters: \<open>lower\<close> is \<open>str::to_lowercase\<close>, and
  \<open>resolve\<close> is \<open>filesystem_safety::resolved_path\<close> on an absolute local path, \<open>None\<close> where the
  code does not resolve or the file system refuses. An owner token is a string; a fresh
  \<open>Uuid\<close> is the caller's choice of a token no lease has.
\<close>

datatype access = Read | Write

record lease_entry =
  le_id :: nat
  le_server :: "string option"
  le_key :: string
  le_owner :: string
  le_access :: access

record leases =
  ls_active :: "lease_entry list"
  ls_next :: nat

definition leases_new :: leases where
  "leases_new = \<lparr>ls_active = [], ls_next = 0\<rparr>"

definition push_key :: "(string \<Rightarrow> string) \<Rightarrow> string \<Rightarrow> string list \<Rightarrow> string list" where
  "push_key lower part parts =
     (if part = [] \<or> part = here_part then parts
      else if part = up_part then butlast parts else parts @ [lower part])"

definition key_parts :: "(string \<Rightarrow> string) \<Rightarrow> string \<Rightarrow> string list" where
  "key_parts lower path = fold (push_key lower) (split_at is_separator path) []"

definition lease_key ::
  "(string \<Rightarrow> string) \<Rightarrow> (string \<Rightarrow> string option) \<Rightarrow> string option \<Rightarrow> string \<Rightarrow> string" where
  "lease_key lower resolve server path =
     (let resolved = (if server = None then resolve path else None)
      in join_str ''/'' (key_parts lower (case resolved of Some p \<Rightarrow> p | None \<Rightarrow> path)))"

definition overlaps :: "string \<Rightarrow> string \<Rightarrow> bool" where
  "overlaps a b \<longleftrightarrow> a = [] \<or> b = [] \<or> a = b \<or> prefix (b @ ''/'') a \<or> prefix (a @ ''/'') b"

definition lease_taken :: "string option \<Rightarrow> string \<Rightarrow> string \<Rightarrow> access \<Rightarrow> leases \<Rightarrow> bool" where
  "lease_taken server k owner acc ls \<longleftrightarrow>
     (\<exists>other \<in> set (ls_active ls). le_owner other \<noteq> owner \<and> le_server other = server
        \<and> (acc = Write \<or> le_access other = Write) \<and> overlaps (le_key other) k)"

definition busy_error :: "string \<Rightarrow> command_error" where
  "busy_error path = command_error_new Busy (''Another operation is already using '' @ path)"

definition lease_place ::
  "(string \<Rightarrow> string) \<Rightarrow> (string \<Rightarrow> string option) \<Rightarrow> string option \<Rightarrow> string \<Rightarrow> string \<Rightarrow> access
    \<Rightarrow> leases \<Rightarrow> (command_error + nat) \<times> leases" where
  "lease_place lower resolve server path owner acc ls =
     (let k = lease_key lower resolve server path
      in if lease_taken server k owner acc ls then (Inl (busy_error path), ls)
         else (Inr (ls_next ls),
               \<lparr>ls_active = ls_active ls @ [\<lparr>le_id = ls_next ls, le_server = server, le_key = k,
                  le_owner = owner, le_access = acc\<rparr>], ls_next = Suc (ls_next ls)\<rparr>))"

text \<open>\<open>Drop for Reservation\<close>.\<close>

definition release_lease :: "nat \<Rightarrow> leases \<Rightarrow> leases" where
  "release_lease i ls = ls\<lparr>ls_active := filter (\<lambda>l. le_id l \<noteq> i) (ls_active ls)\<rparr>"

text \<open>\<open>acquire_remote_pair\<close>: one new owner for both; a first lease is dropped again when the
  second is refused.\<close>

definition acquire_remote_pair ::
  "(string \<Rightarrow> string) \<Rightarrow> (string \<Rightarrow> string option) \<Rightarrow> string \<Rightarrow> string \<Rightarrow> string \<Rightarrow> access \<Rightarrow> string
    \<Rightarrow> leases \<Rightarrow> (command_error + nat \<times> nat) \<times> leases" where
  "acquire_remote_pair lower resolve server first second acc fresh ls =
     (case lease_place lower resolve (Some server) first fresh acc ls of
        (Inl e, ls1) \<Rightarrow> (Inl e, ls1)
      | (Inr i, ls1) \<Rightarrow>
          (case lease_place lower resolve (Some server) second fresh acc ls1 of
             (Inl e, ls2) \<Rightarrow> (Inl e, release_lease i ls2)
           | (Inr j, ls2) \<Rightarrow> (Inr (i, j), ls2)))"

section \<open>Paths and overlap\<close>

definition part_ok :: "string \<Rightarrow> bool" where
  "part_ok p \<longleftrightarrow> p \<noteq> [] \<and> CHR ''/'' \<notin> set p"

lemma join_empty: "\<forall>p \<in> set ps. part_ok p \<Longrightarrow> join_str ''/'' ps = [] \<longleftrightarrow> ps = []"
  by (cases ps rule: remdups_adj.cases) (simp_all add: part_ok_def)

lemma split_join_key:
  "\<forall>p \<in> set ps. part_ok p \<Longrightarrow> ps \<noteq> [] \<Longrightarrow> split_at (\<lambda>c. c = CHR ''/'') (join_str ''/'' ps) = ps"
  by (rule split_at_join) (auto simp: part_ok_def)

lemma join_inj:
  assumes "\<forall>p \<in> set a \<union> set b. part_ok p" and "join_str ''/'' a = join_str ''/'' b"
  shows "a = b"
proof (cases "a = [] \<or> b = []")
  case True
  with assms join_empty [of a] join_empty [of b] show ?thesis by auto
next
  case False
  then have "split_at (\<lambda>c. c = CHR ''/'') (join_str ''/'' a) = a"
      "split_at (\<lambda>c. c = CHR ''/'') (join_str ''/'' b) = b"
    using assms(1) by (simp_all add: split_join_key)
  with assms(2) show ?thesis by metis
qed

lemma join_prefix:
  assumes "\<forall>p \<in> set a \<union> set b. part_ok p" and "a \<noteq> []" and "b \<noteq> []"
  shows "prefix (join_str ''/'' a @ ''/'') (join_str ''/'' b) \<longleftrightarrow> prefix a b \<and> a \<noteq> b"
proof
  assume "prefix (join_str ''/'' a @ ''/'') (join_str ''/'' b)"
  then obtain t where t: "join_str ''/'' b = join_str ''/'' a @ CHR ''/'' # t" by (auto simp: prefix_def)
  let ?split = "split_at (\<lambda>c. c = CHR ''/'')"
  have "b = ?split (join_str ''/'' b)" using assms split_join_key [of b] by auto
  also have "\<dots> = ?split (join_str ''/'' a) @ ?split t"
    unfolding t by (rule split_at_append) simp
  also have "?split (join_str ''/'' a) = a" using assms split_join_key [of a] by auto
  finally have "b = a @ ?split t" .
  moreover have "?split t \<noteq> []" by simp
  ultimately show "prefix a b \<and> a \<noteq> b" by (metis append_self_conv prefixI)
next
  assume "prefix a b \<and> a \<noteq> b"
  then obtain c where "b = a @ c" "c \<noteq> []" by (auto simp: prefix_def)
  then show "prefix (join_str ''/'' a @ ''/'') (join_str ''/'' b)"
    using assms(2) join_str_append [of a c "''/''"] by (simp add: prefix_def)
qed

lemma overlaps_join:
  assumes "\<forall>p \<in> set a \<union> set b. part_ok p"
  shows "overlaps (join_str ''/'' a) (join_str ''/'' b) \<longleftrightarrow> prefix a b \<or> prefix b a"
proof (cases "a = [] \<or> b = []")
  case True
  with assms show ?thesis using join_empty [of a] join_empty [of b] by (auto simp: overlaps_def)
next
  case False
  have "join_str ''/'' a \<noteq> []" "join_str ''/'' b \<noteq> []"
    using False assms join_empty [of a] join_empty [of b] by auto
  moreover have "join_str ''/'' a = join_str ''/'' b \<longleftrightarrow> a = b" using join_inj [OF assms] by auto
  ultimately show ?thesis
    using join_prefix [of a b] join_prefix [of b a] assms False by (auto simp: overlaps_def)
qed

lemma fold_push_key_extends:
  "up_part \<notin> set ps \<Longrightarrow> fold (push_key lower) ps acc = acc @ fold (push_key lower) ps []"
proof (induction ps rule: rev_induct)
  case Nil
  then show ?case by simp
next
  case (snoc p ps)
  then show ?case by (auto simp: push_key_def)
qed

text \<open>What \<open>to_lowercase\<close> does of a path part: it is not empty and has no slash of its own.\<close>

definition lower_keeps_parts :: "(string \<Rightarrow> string) \<Rightarrow> bool" where
  "lower_keeps_parts lower \<longleftrightarrow> (\<forall>p. part_ok p \<longrightarrow> part_ok (lower p))"

lemma key_parts_ok:
  assumes "lower_keeps_parts lower"
  shows "\<forall>p \<in> set (key_parts lower path). part_ok p"
proof -
  have "\<forall>p \<in> set (fold (push_key lower) qs acc). part_ok p"
    if "\<forall>p \<in> set acc. part_ok p" "\<forall>q \<in> set qs. CHR ''/'' \<notin> set q" for qs acc
    using that
  proof (induction qs arbitrary: acc)
    case Nil
    then show ?case by simp
  next
    case (Cons q qs)
    have "\<forall>p \<in> set (push_key lower q acc). part_ok p"
      using Cons.prems assms
      by (auto simp: push_key_def lower_keeps_parts_def part_ok_def dest!: in_set_butlastD)
    with Cons show ?case by simp
  qed
  from this [of "[]"] have "\<forall>p \<in> set (fold (push_key lower) qs []). part_ok p"
    if "\<forall>q \<in> set qs. CHR ''/'' \<notin> set q" for qs using that by simp
  moreover have "\<forall>q \<in> set (split_at is_separator path). CHR ''/'' \<notin> set q"
    using split_at_pieces [of _ is_separator path] by (auto simp: is_separator_def)
  ultimately show ?thesis by (simp add: key_parts_def)
qed

section \<open>The leases at any time\<close>

datatype lease_event =
    Ask "string option" string string access
  | Give nat

fun lease_step :: "(string \<Rightarrow> string) \<Rightarrow> (string \<Rightarrow> string option) \<Rightarrow> lease_event \<Rightarrow> leases \<Rightarrow> leases" where
  "lease_step lower resolve (Ask server path owner acc) ls =
     snd (lease_place lower resolve server path owner acc ls)"
| "lease_step lower resolve (Give i) ls = release_lease i ls"

abbreviation lease_run :: "(string \<Rightarrow> string) \<Rightarrow> (string \<Rightarrow> string option) \<Rightarrow> lease_event list \<Rightarrow> leases" where
  "lease_run lower resolve es \<equiv> fold (lease_step lower resolve) es leases_new"

definition conflict :: "lease_entry \<Rightarrow> lease_entry \<Rightarrow> bool" where
  "conflict a b \<longleftrightarrow> le_owner a \<noteq> le_owner b \<and> le_server a = le_server b
     \<and> (le_access a = Write \<or> le_access b = Write) \<and> overlaps (le_key a) (le_key b)"

definition leases_ok :: "leases \<Rightarrow> bool" where
  "leases_ok ls \<longleftrightarrow> distinct (map le_id (ls_active ls)) \<and> (\<forall>l \<in> set (ls_active ls). le_id l < ls_next ls)
     \<and> (\<forall>a \<in> set (ls_active ls). \<forall>b \<in> set (ls_active ls). \<not> conflict a b)"

lemma overlaps_sym: "overlaps a b = overlaps b a"
  by (auto simp: overlaps_def)

lemma lease_step_ok:
  assumes "leases_ok ls"
  shows "leases_ok (lease_step lower resolve e ls)"
proof (cases e)
  case (Ask server path owner acc)
  let ?k = "lease_key lower resolve server path"
  show ?thesis
  proof (cases "lease_taken server ?k owner acc ls")
    case True
    then show ?thesis using assms by (simp add: Ask lease_place_def Let_def)
  next
    case False
    let ?l = "\<lparr>le_id = ls_next ls, le_server = server, le_key = ?k, le_owner = owner, le_access = acc\<rparr>"
    have free: "\<not> conflict l ?l" "\<not> conflict ?l l" if "l \<in> set (ls_active ls)" for l
      using False that overlaps_sym [of ?k] by (auto simp: lease_taken_def conflict_def)
    have "\<not> conflict ?l ?l" by (simp add: conflict_def)
    then show ?thesis
      using False assms free by (auto simp: Ask lease_place_def Let_def leases_ok_def less_Suc_eq)
  qed
next
  case (Give i)
  have "distinct (map le_id (filter P xs))" if "distinct (map le_id xs)" for P and xs :: "lease_entry list"
    using that by (induction xs) auto
  then show ?thesis using assms by (auto simp: Give release_lease_def leases_ok_def)
qed

lemma lease_run_ok: "leases_ok (lease_run lower resolve es)"
proof -
  have "leases_ok (fold (lease_step lower resolve) es ls)" if "leases_ok ls" for ls
    using that by (induction es arbitrary: ls) (simp_all add: lease_step_ok)
  moreover have "leases_ok leases_new" by (simp add: leases_ok_def leases_new_def)
  ultimately show ?thesis by blast
qed

lemma overlaps_keys:
  assumes "lower_keeps_parts lower"
  shows "overlaps (lease_key lower resolve (Some s) p) (lease_key lower resolve (Some s) q) \<longleftrightarrow>
    prefix (key_parts lower p) (key_parts lower q) \<or> prefix (key_parts lower q) (key_parts lower p)"
  using overlaps_join [of "key_parts lower p" "key_parts lower q"] key_parts_ok [OF assms]
  by (auto simp: lease_key_def)

section \<open>Properties\<close>



text \<open>Overlap of two keys is containment of the paths they stand for: by whole parts, never by
  a shared beginning of a name, in either direction.\<close>

theorem overlap_is_containment:
  assumes "lower_keeps_parts lower"
  shows "overlaps (lease_key lower resolve (Some s) p) (lease_key lower resolve (Some s) q) \<longleftrightarrow>
    prefix (key_parts lower p) (key_parts lower q) \<or> prefix (key_parts lower q) (key_parts lower p)"
  by (rule overlaps_keys [OF assms])

lemma ascii_lower_keeps_parts: "lower_keeps_parts ascii_lower"
proof -
  have only_slash: "c = CHR ''/''" if "lower_char c = CHR ''/''" for c
  proof -
    have eq: "code (lower_char c) = (47 :: nat)" using that by simp
    have "\<not> in_range 65 90 c" 
    proof
      assume r: "in_range 65 90 c"
      then have "code (lower_char c) = (code c + 32 :: nat)" by (simp add: lower_char_def in_range_def)
      with eq r show False by (simp add: in_range_def)
    qed
    then show ?thesis using that by (simp add: lower_char_def)
  qed
  have "CHR ''/'' \<notin> set (ascii_lower p)" if "CHR ''/'' \<notin> set p" for p
  proof
    assume "CHR ''/'' \<in> set (ascii_lower p)"
    then obtain c where "c \<in> set p" and low: "lower_char c = CHR ''/''" by (auto dest: sym)
    with only_slash [OF low] that show False by blast
  qed
  then show ?thesis by (simp add: lower_keeps_parts_def part_ok_def)
qed

theorem overlap_is_containment_witness:
  "\<not> overlaps (lease_key ascii_lower (\<lambda>_. None) (Some ''s'') ''/a/report'')
       (lease_key ascii_lower (\<lambda>_. None) (Some ''s'') ''/a/report.txt'')"
  unfolding overlap_is_containment [OF ascii_lower_keeps_parts] by code_simp

text \<open>A lease to write a folder covers what is in it: until it is given back, another owner
  gets no lease, to read or to write, on any path below it on that server.\<close>

theorem write_lease_covers_folder:
  assumes "lower_keeps_parts lower"
    and "l \<in> set (ls_active ls)" and "le_server l = Some s" and "le_access l = Write"
    and "le_key l = lease_key lower resolve (Some s) path"
    and "le_owner l \<noteq> other" and "up_part \<notin> set (split_at is_separator rest)"
  shows "lease_place lower resolve (Some s) (path @ CHR ''/'' # rest) other acc ls
    = (Inl (busy_error (path @ CHR ''/'' # rest)), ls)"
proof -
  have "key_parts lower (path @ CHR ''/'' # rest)
      = fold (push_key lower) (split_at is_separator rest) (key_parts lower path)"
    by (simp add: key_parts_def split_at_append is_separator_def)
  then have "prefix (key_parts lower path) (key_parts lower (path @ CHR ''/'' # rest))"
    using fold_push_key_extends [OF assms(7), of lower "key_parts lower path"] by simp
  then have "overlaps (le_key l) (lease_key lower resolve (Some s) (path @ CHR ''/'' # rest))"
    unfolding assms(5) using overlaps_keys [OF assms(1)] by blast
  then have "lease_taken (Some s) (lease_key lower resolve (Some s) (path @ CHR ''/'' # rest)) other acc ls"
    using assms unfolding lease_taken_def by blast
  then show ?thesis by (simp add: lease_place_def Let_def)
qed

theorem write_lease_covers_folder_witness:
  "lease_place ascii_lower (\<lambda>_. None) (Some ''s'') ''/A/b/c'' ''y'' Read
      (lease_run ascii_lower (\<lambda>_. None) [Ask (Some ''s'') ''/a'' ''x'' Write])
    = (Inl (busy_error ''/A/b/c''), lease_run ascii_lower (\<lambda>_. None) [Ask (Some ''s'') ''/a'' ''x'' Write])"
proof -
  let ?l = "\<lparr>le_id = 0, le_server = Some ''s'', le_key = ''a'', le_owner = ''x'', le_access = Write\<rparr>"
  have run: "ls_active (lease_run ascii_lower (\<lambda>_. None) [Ask (Some ''s'') ''/a'' ''x'' Write]) = [?l]"
    by code_simp
  have key: "''a'' = lease_key ascii_lower (\<lambda>_. None) (Some ''s'') ''/A''" by code_simp
  have up: "up_part \<notin> set (split_at is_separator ''b/c'')" by code_simp
  show ?thesis
    using write_lease_covers_folder [OF ascii_lower_keeps_parts, of ?l
        "lease_run ascii_lower (\<lambda>_. None) [Ask (Some ''s'') ''/a'' ''x'' Write]" "''s''"
        "\<lambda>_. None" "''/A''" "''y''" "''b/c''" Read] run key up
    by simp
qed

end
