(* ===== verification/UploadStaging.thy ===== *)
theory UploadStaging
  imports Ipc "HOL-Library.Multiset"
begin

text \<open>
  The staging files uploads write on a server (\<open>transfer/upload_staging.rs\<close>) and the
  decision to append to one (\<open>application/upload_resume.rs\<close>). A server's answers
  (\<open>known_size\<close>, \<open>read_range\<close>) and the local file's bytes are parameters of the resume
  check; a source pin is the size and the modification time, a number or \<open>None\<close>.
\<close>

definition mark_cap :: nat where "mark_cap = 256"

record staging_key =
  k_connection :: string
  k_path :: string

record source_pin =
  pin_size :: nat
  pin_mtime :: "nat option"

record paused_upload =
  pu_staging :: string
  pu_local :: string
  pu_pin :: source_pin
  pu_staged :: nat
  pu_attempt :: string

record staging =
  st_paused :: "(staging_key \<times> paused_upload) list"
  st_marks :: "string list"
  st_active :: "(string \<times> staging_key \<times> string) list"

definition staging_new :: staging where
  "staging_new = \<lparr>st_paused = [], st_marks = [], st_active = []\<rparr>"

section \<open>Operations\<close>

definition mark_paused :: "string \<Rightarrow> staging \<Rightarrow> staging" where
  "mark_paused t st =
     (if t \<in> set (st_marks st) then st
      else (let marks = st_marks st @ [t]
            in st\<lparr>st_marks := (if mark_cap < length marks then tl marks else marks)\<rparr>))"

definition take_mark :: "string \<Rightarrow> staging \<Rightarrow> bool \<times> staging" where
  "take_mark t st = (t \<in> set (st_marks st), st\<lparr>st_marks := remove1 t (st_marks st)\<rparr>)"

definition begin_attempt :: "string \<Rightarrow> staging_key \<Rightarrow> string \<Rightarrow> staging \<Rightarrow> staging" where
  "begin_attempt t k path st = st\<lparr>st_active := al_put t (k, path) (st_active st)\<rparr>"

definition end_attempt ::
  "string \<Rightarrow> bool \<Rightarrow> bool \<Rightarrow> string \<Rightarrow> source_pin \<Rightarrow> nat \<Rightarrow> staging \<Rightarrow> string option \<times> staging" where
  "end_attempt t unfinished live local pin staged st0 =
     (case take_mark t st0 of (was_paused, st) \<Rightarrow>
       (case map_of (st_active st) t of
          None \<Rightarrow> (None, st)
        | Some (k, path) \<Rightarrow>
            if \<not> unfinished then (None, st\<lparr>st_active := al_del t (st_active st)\<rparr>)
            else if \<not> live then (None, st)
            else if \<not> was_paused then (Some path, st)
            else (None, st\<lparr>st_active := al_del t (st_active st),
                   st_paused := al_put k \<lparr>pu_staging = path, pu_local = local, pu_pin = pin,
                     pu_staged = staged, pu_attempt = t\<rparr> (st_paused st)\<rparr>)))"

definition release_attempt :: "string \<Rightarrow> staging \<Rightarrow> staging" where
  "release_attempt t st = st\<lparr>st_active := al_del t (st_active st)\<rparr>"

definition stop_attempt :: "string \<Rightarrow> staging \<Rightarrow> (staging_key \<times> string) option \<times> staging" where
  "stop_attempt t st0 =
     (let st = snd (take_mark t st0)
      in case find (\<lambda>(k, e). pu_attempt e = t) (st_paused st) of
           None \<Rightarrow> (None, st)
         | Some (k, e) \<Rightarrow> (Some (k, pu_staging e), st\<lparr>st_paused := al_del k (st_paused st)\<rparr>))"

definition staged_len :: "staging_key \<Rightarrow> staging \<Rightarrow> nat option" where
  "staged_len k st = map_option pu_staged (map_of (st_paused st) k)"

definition staged_path :: "staging_key \<Rightarrow> staging \<Rightarrow> string option" where
  "staged_path k st = map_option pu_staging (map_of (st_paused st) k)"

definition forget_retained :: "staging_key \<Rightarrow> string \<Rightarrow> staging \<Rightarrow> bool \<times> staging" where
  "forget_retained k path st =
     (if staged_path k st = Some path then (True, st\<lparr>st_paused := al_del k (st_paused st)\<rparr>)
      else (False, st))"

definition take_paused :: "staging_key \<Rightarrow> staging \<Rightarrow> paused_upload option \<times> staging" where
  "take_paused k st = (map_of (st_paused st) k, st\<lparr>st_paused := al_del k (st_paused st)\<rparr>)"

text \<open>What a closing connection's teardown deletes, or at the end of its budget only forgets.\<close>

definition held_for :: "string \<Rightarrow> staging \<Rightarrow> string list" where
  "held_for c st =
     map (\<lambda>(k, e). pu_staging e) (filter (\<lambda>(k, e). k_connection k = c) (st_paused st))
     @ map (\<lambda>(t, k, path). path) (filter (\<lambda>(t, k, path). k_connection k = c) (st_active st))"

definition drop_connection :: "string \<Rightarrow> staging \<Rightarrow> staging" where
  "drop_connection c st =
     st\<lparr>st_paused := filter (\<lambda>(k, e). k_connection k \<noteq> c) (st_paused st),
        st_active := filter (\<lambda>(t, k, path). k_connection k \<noteq> c) (st_active st)\<rparr>"

definition discard_for_connection :: "string \<Rightarrow> staging \<Rightarrow> string list \<times> staging" where
  "discard_for_connection c st = (held_for c st, drop_connection c st)"

definition retain_for_connection :: "string \<Rightarrow> staging \<Rightarrow> staging" where
  "retain_for_connection c st = drop_connection c st"

section \<open>Resuming\<close>

definition verify_window :: nat where "verify_window = 8192"

datatype restart = SourceChanged | Mismatch | Unverified string

fun restart_log_key :: "restart \<Rightarrow> string" where
  "restart_log_key SourceChanged = ''uploadRestartedSourceChanged''"
| "restart_log_key Mismatch = ''uploadRestartedMismatch''"
| "restart_log_key (Unverified e) = ''uploadRestartedUnverified''"

text \<open>\<open>read_local_window\<close> on the bytes of the local file, \<open>None\<close> when it does not open.\<close>

definition read_local_window :: "string option \<Rightarrow> nat \<Rightarrow> nat \<Rightarrow> string + string" where
  "read_local_window file at n =
     (case file of
        None \<Rightarrow> Inl ''cannot open''
      | Some bs \<Rightarrow> if at + n \<le> length bs then Inr (take n (drop at bs)) else Inl ''failed to fill whole buffer'')"

definition verify_overlap ::
  "bool \<Rightarrow> (string \<Rightarrow> nat option) \<Rightarrow> (string \<Rightarrow> nat \<Rightarrow> nat \<Rightarrow> string + string) \<Rightarrow> string option
    \<Rightarrow> paused_upload \<Rightarrow> nat \<Rightarrow> string + nat option" where
  "verify_overlap connected known_size read_range file entry local_size =
     (if \<not> connected then Inl ''the connection is gone''
      else (let offset = (case known_size (pu_staging entry) of None \<Rightarrow> 0 | Some n \<Rightarrow> n)
            in if offset = 0 then Inr (Some 0)
               else if local_size < offset then Inr None
               else (let window = min offset verify_window; at = offset - window
                     in case read_range (pu_staging entry) at window of
                          Inl e \<Rightarrow> Inl e
                        | Inr remote \<Rightarrow>
                            if length remote \<noteq> window then Inr None
                            else (case read_local_window file at window of
                                    Inl e \<Rightarrow> Inl e
                                  | Inr local \<Rightarrow> Inr (if local = remote then Some offset else None)))))"

text \<open>\<open>resolve\<close>: the staging file and offset to append from, the staging files it deleted, and
  the line it wrote to the connection's log.\<close>

definition resolve_upload ::
  "bool \<Rightarrow> (string \<Rightarrow> nat option) \<Rightarrow> (string \<Rightarrow> nat \<Rightarrow> nat \<Rightarrow> string + string) \<Rightarrow> string option
    \<Rightarrow> staging_key \<Rightarrow> string \<Rightarrow> source_pin \<Rightarrow> staging
    \<Rightarrow> (string \<times> nat) option \<times> string list \<times> string option \<times> staging" where
  "resolve_upload connected known_size read_range file k local now st0 =
     (case take_paused k st0 of
        (None, st) \<Rightarrow> (None, [], None, st)
      | (Some entry, st) \<Rightarrow>
          (let restarting = (\<lambda>r. (None, [pu_staging entry], Some (restart_log_key r), st))
           in if pu_local entry \<noteq> local \<or> pu_pin entry \<noteq> now then restarting SourceChanged
              else (case verify_overlap connected known_size read_range file entry (pin_size now) of
                      Inl e \<Rightarrow> restarting (Unverified e)
                    | Inr None \<Rightarrow> restarting Mismatch
                    | Inr (Some offset) \<Rightarrow>
                        if offset = 0 then (None, [pu_staging entry], None, st)
                        else (Some (pu_staging entry, offset), [], Some ''uploadResumed'', st))))"

section \<open>What the record holds\<close>

definition staging_ok :: "staging \<Rightarrow> bool" where
  "staging_ok st \<longleftrightarrow> al_ok (st_paused st) \<and> al_ok (st_active st) \<and> distinct (st_marks st)
     \<and> length (st_marks st) \<le> mark_cap"

definition held :: "staging \<Rightarrow> string multiset" where
  "held st = image_mset (\<lambda>(k, e). pu_staging e) (mset (st_paused st))
     + image_mset (\<lambda>(t, k, path). path) (mset (st_active st))"

lemmas staging_defs = mark_paused_def take_mark_def begin_attempt_def end_attempt_def
  release_attempt_def stop_attempt_def forget_retained_def take_paused_def drop_connection_def

lemma al_put_fresh_mset: "k \<notin> fst ` set m \<Longrightarrow> mset (al_put k v m) = add_mset (k, v) (mset m)"
  unfolding al_put_def by (induction m) auto

lemma al_del_mset: "al_ok m \<Longrightarrow> map_of m k = Some v \<Longrightarrow> mset m = add_mset (k, v) (mset (al_del k m))"
proof (induction m)
  case Nil
  then show ?case by simp
next
  case (Cons x xs)
  show ?case
  proof (cases "fst x = k")
    case True
    then have "k \<notin> fst ` set xs" using Cons.prems(1) by simp
    then have "\<forall>y \<in> set xs. fst y \<noteq> k" by force
    then have "al_del k xs = xs" by (simp add: al_del_def)
    then show ?thesis using True Cons.prems by (cases x) (simp add: al_del_def)
  next
    case False
    then show ?thesis using Cons by (cases x) (simp add: al_del_def)
  qed
qed

lemma al_del_absent: "map_of m k = None \<Longrightarrow> al_del k m = m"
  by (auto simp: al_del_def map_of_eq_None_iff image_iff intro!: filter_True)

datatype staging_event =
    MarkPaused string
  | BeginAttempt string staging_key string
  | EndAttempt string bool bool string source_pin nat
  | ReleaseAttempt string
  | StopAttempt string
  | Forget staging_key string
  | TakePaused staging_key
  | Discard string
  | Retain string

definition path_of_active :: "string \<Rightarrow> staging \<Rightarrow> string list" where
  "path_of_active t st = (case map_of (st_active st) t of None \<Rightarrow> [] | Some (k, path) \<Rightarrow> [path])"

text \<open>An event with the paths that leave the record with it: placed at their destination, or
  handed to the one caller that deletes, appends to or reports them.\<close>

fun staging_step :: "staging_event \<Rightarrow> staging \<Rightarrow> string list \<times> staging" where
  "staging_step (MarkPaused t) st = ([], mark_paused t st)"
| "staging_step (BeginAttempt t k path) st = ([], begin_attempt t k path st)"
| "staging_step (EndAttempt t unfinished live local pin staged) st =
     (if unfinished then [] else path_of_active t st,
      snd (end_attempt t unfinished live local pin staged st))"
| "staging_step (ReleaseAttempt t) st = (path_of_active t st, release_attempt t st)"
| "staging_step (StopAttempt t) st =
     (case stop_attempt t st of (None, st') \<Rightarrow> ([], st') | (Some (k, path), st') \<Rightarrow> ([path], st'))"
| "staging_step (Forget k path) st =
     (case forget_retained k path st of (ours, st') \<Rightarrow> (if ours then [path] else [], st'))"
| "staging_step (TakePaused k) st =
     (case take_paused k st of
        (None, st') \<Rightarrow> ([], st') | (Some e, st') \<Rightarrow> ([pu_staging e], st'))"
| "staging_step (Discard c) st = discard_for_connection c st"
| "staging_step (Retain c) st = (held_for c st, retain_for_connection c st)"

text \<open>What the callers keep to: an attempt id is new (a \<open>Uuid\<close>), and the destination's
  reservation keeps a second upload to it out while one runs, so an attempt that is paused
  finds no paused entry of its destination.\<close>

fun staging_guard :: "staging_event \<Rightarrow> staging \<Rightarrow> bool" where
  "staging_guard (BeginAttempt t k path) st = (map_of (st_active st) t = None)"
| "staging_guard (EndAttempt t unfinished live local pin staged) st =
     (case map_of (st_active st) t of None \<Rightarrow> True | Some (k, path) \<Rightarrow> map_of (st_paused st) k = None)"
| "staging_guard _ st = True"

fun begun :: "staging_event \<Rightarrow> string multiset" where
  "begun (BeginAttempt t k path) = {#path#}"
| "begun _ = {#}"

lemma held_active_del:
  "al_ok (st_active st) \<Longrightarrow> held st = held (st\<lparr>st_active := al_del t (st_active st)\<rparr>) + mset (path_of_active t st)"
  using al_del_mset [of "st_active st" t] al_del_absent [of "st_active st" t]
  by (auto simp: held_def path_of_active_def split: option.split)

lemma held_paused_del:
  "al_ok (st_paused st) \<Longrightarrow> map_of (st_paused st) k = Some e
   \<Longrightarrow> held st = add_mset (pu_staging e) (held (st\<lparr>st_paused := al_del k (st_paused st)\<rparr>))"
  using al_del_mset [of "st_paused st" k e] by (simp add: held_def)

lemma held_marks: "held (st\<lparr>st_marks := m\<rparr>) = held st"
  by (simp add: held_def)

lemma held_drop: "held (drop_connection c st) + mset (held_for c st) = held st"
proof -
  have p: "image_mset f (mset (filter (\<lambda>x. \<not> P x) xs)) + mset (map f (filter P xs)) = image_mset f (mset xs)"
    for f :: "staging_key \<times> paused_upload \<Rightarrow> string" and P xs
    by (simp flip: image_mset_union)
  have a: "image_mset f (mset (filter (\<lambda>x. \<not> P x) xs)) + mset (map f (filter P xs)) = image_mset f (mset xs)"
    for f :: "string \<times> staging_key \<times> string \<Rightarrow> string" and P xs
    by (simp flip: image_mset_union)
  show ?thesis
    using p [of "\<lambda>(k, e). pu_staging e" "\<lambda>(k, e). k_connection k = c" "st_paused st"]
      a [of "\<lambda>(t, k, path). path" "\<lambda>(t, k, path). k_connection k = c" "st_active st"]
    by (simp add: held_def held_for_def drop_connection_def case_prod_unfold) (simp add: ac_simps)
qed

lemma end_attempt_held:
  assumes "staging_ok st" and "staging_guard (EndAttempt t unfinished live local pin staged) st"
  shows "held (snd (end_attempt t unfinished live local pin staged st))
     + mset (if unfinished then [] else path_of_active t st) = held st"
proof (cases "map_of (st_active st) t")
  case None
  then show ?thesis by (simp add: end_attempt_def take_mark_def held_marks path_of_active_def)
next
  case (Some v)
  obtain k path where v: "v = (k, path)" by fastforce
  have free: "k \<notin> fst ` set (st_paused st)"
    using assms(2) Some v by (simp add: map_of_eq_None_iff)
  have ok: "al_ok (st_active st)" using assms(1) by (simp add: staging_ok_def)
  let ?e = "\<lparr>pu_staging = path, pu_local = local, pu_pin = pin, pu_staged = staged, pu_attempt = t\<rparr>"
  have "held (st\<lparr>st_active := al_del t (st_active st), st_paused := al_put k ?e (st_paused st)\<rparr>) = held st"
    using held_active_del [OF ok, of t] al_put_fresh_mset [OF free, of ?e] Some v
    by (simp add: held_def path_of_active_def)
  then show ?thesis
    using Some v held_active_del [OF ok, of t]
    by (simp add: end_attempt_def take_mark_def held_def)
qed

lemma stop_attempt_held:
  assumes "staging_ok st"
  shows "case stop_attempt t st of
       (None, st') \<Rightarrow> held st' = held st
     | (Some (k, path), st') \<Rightarrow> held st = add_mset path (held st')"
proof (cases "find (\<lambda>(k, e). pu_attempt e = t) (st_paused st)")
  case None
  then show ?thesis by (simp add: stop_attempt_def take_mark_def held_marks)
next
  case (Some x)
  obtain k e where x: "x = (k, e)" by fastforce
  have "(k, e) \<in> set (st_paused st)" using Some x by (metis find_Some_iff nth_mem)
  then have "map_of (st_paused st) k = Some e" using assms by (simp add: staging_ok_def)
  then show ?thesis
    using Some x held_paused_del [of st k e] assms
    by (simp add: stop_attempt_def take_mark_def staging_ok_def) (simp add: held_def)
qed

lemma staging_step_ok: "staging_ok st \<Longrightarrow> staging_ok (snd (staging_step e st))"
  by (cases e)
     (auto simp: staging_defs discard_for_connection_def retain_for_connection_def staging_ok_def Let_def
        distinct_tl length_remove1 split: option.splits prod.splits)

section \<open>Properties\<close>


definition sample_key :: staging_key where
  "sample_key = \<lparr>k_connection = ''c'', k_path = ''/x''\<rparr>"

definition sample_pin :: source_pin where
  "sample_pin = \<lparr>pin_size = 9, pin_mtime = Some 5\<rparr>"

definition sample_staging :: staging where
  "sample_staging = mark_paused ''t'' (begin_attempt ''t'' sample_key ''/x.part'' staging_new)"

lemma sample_staging_ok: "staging_ok sample_staging"
  by code_simp


text \<open>A Stop beats a Pause whichever comes first: sent while a paused attempt still unwinds,
  it makes the attempt's own end hand the staging file over for deletion; sent after, it
  takes the file the pause kept. Either way exactly one of the two gets it.\<close>

theorem stop_beats_pause:
  assumes "staging_ok st" and "map_of (st_active st) t = Some (k, path)"
    and "map_of (st_paused st) k = None" and "\<forall>(k', e) \<in> set (st_paused st). pu_attempt e \<noteq> t"
  shows "let marked = mark_paused t st;
      (s1, after_stop) = stop_attempt t marked;
      (e1, _) = end_attempt t True True local pin n after_stop;
      (e2, after_end) = end_attempt t True True local pin n marked;
      (s2, final) = stop_attempt t after_end
    in s1 = None \<and> e1 = Some path \<and> e2 = None \<and> s2 = Some (k, path)
       \<and> map_of (st_active final) t = None \<and> map_of (st_paused final) k = None"
proof -
  let ?m = "mark_paused t st"
  have marks: "t \<in> set (st_marks ?m)" "distinct (st_marks ?m)"
    using assms(1) by (auto simp: mark_paused_def staging_ok_def Let_def mark_cap_def distinct_tl)
       (cases "st_marks st"; simp)
  have frame: "st_active ?m = st_active st" "st_paused ?m = st_paused st"
    by (simp_all add: mark_paused_def Let_def)
  have gone: "t \<notin> set (remove1 t (st_marks ?m))" using marks(2) by simp
  have none: "find (\<lambda>(k, e). pu_attempt e = t) (st_paused st) = None"
    using assms(4) by (auto simp: find_None_iff)
  let ?e = "\<lparr>pu_staging = path, pu_local = local, pu_pin = pin, pu_staged = n, pu_attempt = t\<rparr>"
  have put: "al_put k ?e (st_paused st) = st_paused st @ [(k, ?e)]"
    using assms(3) by (simp add: al_put_fresh al_has_def)
  have "find (\<lambda>(k, e). pu_attempt e = t) (st_paused st @ [(k, ?e)]) = Some (k, ?e)"
    using none by (simp add: find_append_None)
  then show ?thesis
    using marks gone frame none assms put
    by (simp add: stop_attempt_def end_attempt_def take_mark_def)
qed

theorem stop_beats_pause_witness:
  "fst (end_attempt ''t'' True True ''l'' sample_pin 4 (snd (stop_attempt ''t'' sample_staging))) = Some ''/x.part''
   \<and> fst (stop_attempt ''t'' (snd (end_attempt ''t'' True True ''l'' sample_pin 4 sample_staging)))
       = Some (sample_key, ''/x.part'')"
proof -
  let ?st = "begin_attempt ''t'' sample_key ''/x.part'' staging_new"
  have "staging_ok ?st" "map_of (st_active ?st) ''t'' = Some (sample_key, ''/x.part'')"
      "map_of (st_paused ?st) sample_key = None" "\<forall>(k', e) \<in> set (st_paused ?st). pu_attempt e \<noteq> ''t''"
    by code_simp+
  from stop_beats_pause [OF this, of "''l''" sample_pin 4] show ?thesis
    by (simp add: Let_def sample_staging_def split: prod.splits)
qed

text \<open>C10: Nothing is appended to that was not proven, and nothing refused is left behind: a resume
  is offered only for the staging file of this destination, at the server's own length, no
  longer than the unchanged local file, with its last bytes, up to 8192, equal to the local
  ones; in every other case the staging file is deleted. The record is used up either way.\<close>

theorem resume_only_when_proven:
  assumes "map_of (st_paused st) k = Some entry"
    and "resolve_upload connected known_size read_range file k local now st = (verdict, removed, logged, st')"
  shows "map_of (st_paused st') k = None
    \<and> (case verdict of
         None \<Rightarrow> removed = [pu_staging entry]
       | Some (path, offset) \<Rightarrow>
           removed = [] \<and> path = pu_staging entry \<and> pu_local entry = local \<and> pu_pin entry = now
           \<and> known_size path = Some offset \<and> 0 < offset \<and> offset \<le> pin_size now
           \<and> (\<exists>bs tail. file = Some bs \<and> length tail = min offset verify_window
                \<and> read_range path (offset - length tail) (length tail) = Inr tail
                \<and> take (length tail) (drop (offset - length tail) bs) = tail))"
proof (cases "pu_local entry \<noteq> local \<or> pu_pin entry \<noteq> now")
  case True
  then show ?thesis using assms by (auto simp: resolve_upload_def take_paused_def Let_def)
next
  case same: False
  show ?thesis
  proof (cases "verify_overlap connected known_size read_range file entry (pin_size now)")
    case (Inl e)
    then show ?thesis using assms same by (auto simp: resolve_upload_def take_paused_def Let_def)
  next
    case (Inr r)
    show ?thesis
    proof (cases "r = None \<or> r = Some 0")
      case True
      then show ?thesis using assms same Inr by (auto simp: resolve_upload_def take_paused_def Let_def)
    next
      case False
      then obtain offset where r: "r = Some offset" "offset \<noteq> 0" by auto
      have verdict: "verdict = Some (pu_staging entry, offset)" "removed = []" "map_of (st_paused st') k = None"
        using assms same Inr r by (auto simp: resolve_upload_def take_paused_def Let_def)
      have size: "known_size (pu_staging entry) = Some offset" "offset \<le> pin_size now"
        using Inr r
        by (auto simp: verify_overlap_def Let_def split: if_splits option.splits sum.splits)
      obtain remote where "read_range (pu_staging entry) (offset - min offset verify_window) (min offset verify_window) = Inr remote"
          "length remote = min offset verify_window"
          "read_local_window file (offset - min offset verify_window) (min offset verify_window) = Inr remote"
        using Inr r size by (auto simp: verify_overlap_def Let_def split: if_splits sum.splits)
      then show ?thesis
        using verdict same size r by (auto simp: read_local_window_def split: option.splits if_splits)
    qed
  qed
qed

theorem resume_only_when_proven_witness:
  "fst (resolve_upload True (\<lambda>_. Some 4) (\<lambda>_ at n. Inr (take n (drop at ''abcd''))) (Some ''abcdefghi'')
      sample_key ''l'' sample_pin (snd (end_attempt ''t'' True True ''l'' sample_pin 4 sample_staging)))
     = Some (''/x.part'', 4)
   \<and> map_of (st_paused (snd (snd (snd (resolve_upload True (\<lambda>_. Some 4)
       (\<lambda>_ at n. Inr (take n (drop at ''abcd''))) (Some ''abcdefghi'')
      sample_key ''l'' sample_pin (snd (end_attempt ''t'' True True ''l'' sample_pin 4 sample_staging))))))) sample_key = None"
  (is "fst ?r = _ \<and> _")
proof
  show "fst ?r = Some (''/x.part'', 4)" by code_simp
  let ?st = "snd (end_attempt ''t'' True True ''l'' sample_pin 4 sample_staging)"
  let ?e = "\<lparr>pu_staging = ''/x.part'', pu_local = ''l'', pu_pin = sample_pin, pu_staged = 4, pu_attempt = ''t''\<rparr>"
  have "map_of (st_paused ?st) sample_key = Some ?e" by code_simp
  moreover obtain v r l st where "?r = (v, r, l, st)" by (metis prod_cases4)
  ultimately show "map_of (st_paused (snd (snd (snd ?r)))) sample_key = None"
    using resume_only_when_proven [of ?st sample_key ?e True] by simp
qed

end
