(* ===== verification/Connections.thy ===== *)
theory Connections
  imports Ipc
begin

text \<open>
  JSON records, what a server connection is (\<open>domain/connection.rs\<close>) and who a saved password
  is sent to (\<open>security/credential_scope.rs\<close>). A \<open>serde_json::Map\<close> is an association list
  with distinct keys; a number is unsigned, negative or a float, the three forms
  \<open>serde_json::Number\<close> has.
\<close>

section \<open>JSON\<close>

datatype json_number = NonNegative nat | Negative nat | Float string

datatype json =
    JNull
  | JBool bool
  | JNumber json_number
  | JString string
  | JArray "json list"
  | JObject "(string \<times> json) list"

type_synonym json_map = "(string \<times> json) list"

fun as_str :: "json \<Rightarrow> string option" where
  "as_str (JString s) = Some s" | "as_str _ = None"

fun as_bool :: "json \<Rightarrow> bool option" where
  "as_bool (JBool b) = Some b" | "as_bool _ = None"

fun as_u64 :: "json \<Rightarrow> nat option" where
  "as_u64 (JNumber (NonNegative n)) = Some n" | "as_u64 _ = None"

fun as_object :: "json \<Rightarrow> json_map option" where
  "as_object (JObject m) = Some m" | "as_object _ = None"

fun as_array :: "json \<Rightarrow> json list option" where
  "as_array (JArray xs) = Some xs" | "as_array _ = None"

definition get_str :: "json_map \<Rightarrow> string \<Rightarrow> string option" where
  "get_str r k = Option.bind (map_of r k) as_str"

definition get_bool :: "json_map \<Rightarrow> string \<Rightarrow> bool option" where
  "get_bool r k = Option.bind (map_of r k) as_bool"

definition get_u64 :: "json_map \<Rightarrow> string \<Rightarrow> nat option" where
  "get_u64 r k = Option.bind (map_of r k) as_u64"

section \<open>Server settings\<close>

datatype protocol = Ftp | Ftps | Sftp | Webdav

record server_settings =
  sv_protocol :: protocol
  sv_host :: string
  sv_port :: "nat option"
  sv_webdav_url :: string
  sv_user :: string
  sv_remote_path :: string
  sv_allow_invalid_cert :: bool
  sv_allow_cleartext_auth :: bool
  sv_ca_cert_path :: string
  sv_use_key_auth :: bool
  sv_key_path :: string
  sv_encoding :: string
  sv_max_connections :: "nat option"

definition number :: "json_map \<Rightarrow> string \<Rightarrow> string + nat option" where
  "number r k =
     (let checked = (\<lambda>v. case v of
            None \<Rightarrow> Inl (k @ '' must be a non-negative integer'')
          | Some n \<Rightarrow> if n \<le> u16_max then Inr (Some n) else Inl (k @ '' is out of range''))
      in case map_of r k of
           None \<Rightarrow> Inr None
         | Some JNull \<Rightarrow> Inr None
         | Some (JString text) \<Rightarrow> checked (parse_unsigned u64_max text)
         | Some value \<Rightarrow> checked (as_u64 value))"

definition start_folder :: "string \<Rightarrow> string" where
  "start_folder path = (if prefix ''/'' path then path else CHR ''/'' # path)"

definition read_protocol :: "json_map \<Rightarrow> string + protocol" where
  "read_protocol r =
     (let secure = the_or False (get_bool r ''secure'')
      in case get_str r ''protocol'' of
           None \<Rightarrow> Inr (if secure then Ftps else Ftp)
         | Some p \<Rightarrow>
             if p = ''ftp'' then Inr (if secure then Ftps else Ftp)
             else if p = ''ftps'' then Inr Ftps
             else if p = ''sftp'' then Inr Sftp
             else if p = ''webdav'' then Inr Webdav
             else Inl (''unsupported protocol: '' @ p))"

definition server_from_json :: "json_map \<Rightarrow> string + server_settings" where
  "server_from_json r =
     (let text = (\<lambda>k. the_or [] (get_str r k)); flag = (\<lambda>k. the_or False (get_bool r k))
      in case read_protocol r of
           Inl e \<Rightarrow> Inl e
         | Inr protocol \<Rightarrow>
             (case number r ''port'' of
                Inl e \<Rightarrow> Inl e
              | Inr port \<Rightarrow>
                  (case number r ''maxConnections'' of
                     Inl e \<Rightarrow> Inl e
                   | Inr limit \<Rightarrow>
                       Inr \<lparr>sv_protocol = protocol, sv_host = text ''host'', sv_port = port,
                         sv_webdav_url = text ''webdavUrl'', sv_user = text ''user'',
                         sv_remote_path = start_folder (the_or ''/'' (get_str r ''remotePath'')),
                         sv_allow_invalid_cert = flag ''allowInvalidCert'',
                         sv_allow_cleartext_auth = flag ''allowCleartextAuth'',
                         sv_ca_cert_path = text ''caCertPath'', sv_use_key_auth = flag ''useKeyAuth'',
                         sv_key_path = text ''keyPath'', sv_encoding = text ''encoding'',
                         sv_max_connections = limit\<rparr>)))"

text \<open>\<open>from_json_or_unset\<close>: the left side is the panic of its \<open>expect\<close>.\<close>

definition drop_bad_protocol :: "json_map \<Rightarrow> json_map" where
  "drop_bad_protocol r =
     (case get_str r ''protocol'' of
        Some p \<Rightarrow> if p \<in> {''ftp'', ''ftps'', ''sftp'', ''webdav''} then r else al_del ''protocol'' r
      | None \<Rightarrow> r)"

definition drop_bad_number :: "string \<Rightarrow> json_map \<Rightarrow> json_map" where
  "drop_bad_number k r = (case number r k of Inl _ \<Rightarrow> al_del k r | Inr _ \<Rightarrow> r)"

definition server_or_unset :: "json_map \<Rightarrow> string + server_settings" where
  "server_or_unset r =
     server_from_json (drop_bad_number ''maxConnections'' (drop_bad_number ''port'' (drop_bad_protocol r)))"

fun protocol_name :: "protocol \<Rightarrow> string" where
  "protocol_name Ftp = ''ftp''"
| "protocol_name Ftps = ''ftps''"
| "protocol_name Sftp = ''sftp''"
| "protocol_name Webdav = ''webdav''"

definition json_number_of :: "nat option \<Rightarrow> json" where
  "json_number_of n = (case n of None \<Rightarrow> JNull | Some v \<Rightarrow> JNumber (NonNegative v))"

definition server_to_json :: "server_settings \<Rightarrow> json_map" where
  "server_to_json s =
     [(''protocol'', JString (protocol_name (sv_protocol s))), (''host'', JString (sv_host s)),
      (''port'', json_number_of (sv_port s)), (''webdavUrl'', JString (sv_webdav_url s)),
      (''user'', JString (sv_user s)), (''secure'', JBool False),
      (''remotePath'', JString (sv_remote_path s)),
      (''allowInvalidCert'', JBool (sv_allow_invalid_cert s)),
      (''allowCleartextAuth'', JBool (sv_allow_cleartext_auth s)),
      (''caCertPath'', JString (sv_ca_cert_path s)), (''useKeyAuth'', JBool (sv_use_key_auth s)),
      (''keyPath'', JString (sv_key_path s)), (''encoding'', JString (sv_encoding s)),
      (''maxConnections'', json_number_of (sv_max_connections s))]"

definition files_read :: "server_settings \<Rightarrow> string list" where
  "files_read s =
     (let key = (sv_protocol s = Sftp \<and> sv_use_key_auth s);
          ca = (sv_protocol s \<in> {Ftps, Webdav} \<and> \<not> sv_allow_invalid_cert s)
      in map snd (filter (\<lambda>(read, path). read \<and> path \<noteq> [])
           [(key, sv_key_path s), (ca, sv_ca_cert_path s)]))"

definition invalid_connection_settings :: "command_error option \<Rightarrow> string \<Rightarrow> command_error" where
  "invalid_connection_settings typed rendered =
     \<lparr>ce_code = (case typed of None \<Rightarrow> InvalidInput | Some e \<Rightarrow> ce_code e),
      ce_message = ''Invalid connection configuration'', ce_details = Some rendered\<rparr>"

section \<open>Credential scopes\<close>

record credential_scope =
  cs_protocol :: string
  cs_host :: string
  cs_port :: nat
  cs_account :: string
  cs_url :: string
  cs_secure :: bool
  cs_allow_invalid_cert :: bool
  cs_allow_cleartext_auth :: bool
  cs_ca_cert_path :: string

record secret_transfer =
  tr_before :: credential_scope
  tr_after :: credential_scope
  tr_from :: string
  tr_to :: string
  tr_less_secure :: bool

definition scope_text :: "json_map \<Rightarrow> string \<Rightarrow> string" where
  "scope_text r k = trim_str (the_or [] (get_str r k))"

definition scope_flag :: "json_map \<Rightarrow> string \<Rightarrow> bool" where
  "scope_flag r k = the_or False (get_bool r k)"

definition scope_port :: "json_map \<Rightarrow> string \<Rightarrow> nat" where
  "scope_port r k =
     (case map_of r k of
        Some (JNumber n) \<Rightarrow> the_or 0 (as_u64 (JNumber n))
      | Some (JString t) \<Rightarrow> the_or 0 (parse_unsigned u64_max (trim_str t))
      | _ \<Rightarrow> 0)"

definition scope_of_server :: "server_settings \<Rightarrow> credential_scope" where
  "scope_of_server s =
     \<lparr>cs_protocol = protocol_name (sv_protocol s), cs_host = ascii_lower (trim_str (sv_host s)),
      cs_port = the_or 0 (sv_port s), cs_account = trim_str (sv_user s),
      cs_url = trim_str (sv_webdav_url s), cs_secure = (sv_protocol s = Ftps),
      cs_allow_invalid_cert = sv_allow_invalid_cert s,
      cs_allow_cleartext_auth = sv_allow_cleartext_auth s,
      cs_ca_cert_path = trim_str (sv_ca_cert_path s)\<rparr>"

definition site_scope :: "json_map \<Rightarrow> string + credential_scope" where
  "site_scope site = (case server_or_unset site of Inl e \<Rightarrow> Inl e | Inr s \<Rightarrow> Inr (scope_of_server s))"

definition proxy_scope :: "json_map \<Rightarrow> credential_scope" where
  "proxy_scope settings =
     \<lparr>cs_protocol = ascii_lower (scope_text settings ''proxyType''),
      cs_host = ascii_lower (scope_text settings ''proxyHost''),
      cs_port = scope_port settings ''proxyPort'', cs_account = scope_text settings ''proxyUsername'',
      cs_url = [], cs_secure = False, cs_allow_invalid_cert = False, cs_allow_cleartext_auth = False,
      cs_ca_cert_path = []\<rparr>"

definition proxy_scope_keys :: "string list" where
  "proxy_scope_keys = [''proxyType'', ''proxyHost'', ''proxyPort'', ''proxyUsername'']"

definition scope_encrypted :: "credential_scope \<Rightarrow> bool" where
  "scope_encrypted c =
     (if cs_protocol c = ''sftp'' then True
      else if cs_protocol c = ''webdav'' then prefix ''https:'' (ascii_lower (cs_url c))
      else cs_secure c)"

definition scope_describe :: "credential_scope \<Rightarrow> string" where
  "scope_describe c =
     (if cs_url c \<noteq> [] then (if cs_account c = [] then cs_url c else cs_url c @ '' ('' @ cs_account c @ '')'')
      else (if cs_protocol c = ''ftp'' \<and> cs_secure c then ''ftps'' else cs_protocol c) @ ''://''
           @ (if cs_account c = [] then [] else cs_account c @ ''@'') @ cs_host c
           @ (if cs_port c = 0 then [] else '':'' @ show_nat (cs_port c)))"

definition secret_move :: "credential_scope \<Rightarrow> credential_scope \<Rightarrow> bool \<Rightarrow> bool \<Rightarrow> secret_transfer option" where
  "secret_move before after has_saved replaced =
     (if \<not> has_saved \<or> replaced \<or> before = after then None
      else Some \<lparr>tr_before = before, tr_after = after, tr_from = scope_describe before,
        tr_to = scope_describe after,
        tr_less_secure = (scope_encrypted before \<and> \<not> scope_encrypted after
           \<or> \<not> cs_allow_invalid_cert before \<and> cs_allow_invalid_cert after
           \<or> \<not> cs_allow_cleartext_auth before \<and> cs_allow_cleartext_auth after)\<rparr>)"

definition sets_secret :: "json_map \<Rightarrow> string \<Rightarrow> bool" where
  "sets_secret r k =
     (case map_of r k of Some (JString v) \<Rightarrow> v \<noteq> [] | Some (JBool b) \<Rightarrow> b | _ \<Rightarrow> False)"

definition is_site_kind :: "json_map \<Rightarrow> bool" where
  "is_site_kind r =
     (case map_of r ''kind'' of
        None \<Rightarrow> True | Some JNull \<Rightarrow> True | Some (JString k) \<Rightarrow> k \<in> {''site'', ''local''} | _ \<Rightarrow> False)"

text \<open>The moves of a bookmark: a stored one is its record and whether a password is saved.\<close>

definition site_transfer ::
  "(json_map \<times> bool) option \<Rightarrow> json_map \<Rightarrow> bool \<Rightarrow> string + secret_transfer option" where
  "site_transfer stored input replaced =
     (case stored of
        None \<Rightarrow> Inr None
      | Some (record, has_password) \<Rightarrow>
          if get_str input ''kind'' = Some ''local'' then Inr None
          else (case site_scope record of
                  Inl e \<Rightarrow> Inl e
                | Inr before \<Rightarrow>
                    (case site_scope input of
                       Inl e \<Rightarrow> Inl e
                     | Inr after \<Rightarrow> Inr (secret_move before after has_password replaced))))"

definition site_request_transfer :: "(json_map \<times> bool) option \<Rightarrow> json_map \<Rightarrow> string + secret_transfer option" where
  "site_request_transfer stored request =
     site_transfer stored request
       (map_of request ''password'' = Some (JBool True) \<or> scope_flag request ''removePassword'')"

definition replaces_site_password :: "json_map \<Rightarrow> bool" where
  "replaces_site_password input =
     (scope_flag input ''removePassword''
      \<or> (case get_str input ''password'' of None \<Rightarrow> False | Some p \<Rightarrow> p \<noteq> []))"

definition site_save_transfer :: "(json_map \<times> bool) option \<Rightarrow> json_map \<Rightarrow> string + secret_transfer option" where
  "site_save_transfer stored input = site_transfer stored input (replaces_site_password input)"

definition proxy_saved :: "string list" where
  "proxy_saved = [''proxyPasswordEnc'', ''proxyPasswordPlain'']"

definition merge_keys :: "string list \<Rightarrow> json_map \<Rightarrow> json_map \<Rightarrow> json_map" where
  "merge_keys ks patch current =
     fold (\<lambda>k next. case map_of patch k of Some v \<Rightarrow> al_put k v next | None \<Rightarrow> next) ks current"

definition proxy_transfer :: "json_map \<Rightarrow> json_map \<Rightarrow> secret_transfer option" where
  "proxy_transfer current patch =
     secret_move (proxy_scope current) (proxy_scope (merge_keys proxy_scope_keys patch current))
       ((\<exists>k \<in> set proxy_saved. sets_secret current k) \<or> scope_flag current ''hasProxyPassword'')
       (sets_secret patch ''proxyPassword'' \<or> scope_flag patch ''removeProxyPassword'')"

section \<open>Lemmas\<close>

text \<open>What a settings record that was read or written always is: its start folder begins at the
  root and its numbers are 16 bits.\<close>

definition server_ok :: "server_settings \<Rightarrow> bool" where
  "server_ok s \<longleftrightarrow> prefix ''/'' (sv_remote_path s)
     \<and> (case sv_port s of None \<Rightarrow> True | Some n \<Rightarrow> n \<le> u16_max)
     \<and> (case sv_max_connections s of None \<Rightarrow> True | Some n \<Rightarrow> n \<le> u16_max)"

lemma start_folder_prefix: "prefix ''/'' (start_folder path)"
  by (simp add: start_folder_def)

lemma number_bound: "number r k = Inr (Some n) \<Longrightarrow> n \<le> u16_max"
  by (auto simp: number_def Let_def split: option.splits json.splits if_splits)

lemma number_of_json: "map_of r k = Some (json_number_of v) \<Longrightarrow>
    (case v of None \<Rightarrow> True | Some n \<Rightarrow> n \<le> u16_max) \<Longrightarrow> number r k = Inr v"
  by (simp add: number_def json_number_of_def Let_def split: option.splits)

lemma server_from_json_ok: "server_from_json r = Inr s \<Longrightarrow> server_ok s"
  using number_bound
  by (auto simp: server_from_json_def server_ok_def Let_def start_folder_prefix split: sum.splits option.split)

lemma server_to_json_fields:
  "get_str (server_to_json s) ''protocol'' = Some (protocol_name (sv_protocol s))"
  "get_str (server_to_json s) ''host'' = Some (sv_host s)"
  "get_str (server_to_json s) ''webdavUrl'' = Some (sv_webdav_url s)"
  "get_str (server_to_json s) ''user'' = Some (sv_user s)"
  "get_str (server_to_json s) ''remotePath'' = Some (sv_remote_path s)"
  "get_str (server_to_json s) ''caCertPath'' = Some (sv_ca_cert_path s)"
  "get_str (server_to_json s) ''keyPath'' = Some (sv_key_path s)"
  "get_str (server_to_json s) ''encoding'' = Some (sv_encoding s)"
  "get_bool (server_to_json s) ''secure'' = Some False"
  "get_bool (server_to_json s) ''allowInvalidCert'' = Some (sv_allow_invalid_cert s)"
  "get_bool (server_to_json s) ''allowCleartextAuth'' = Some (sv_allow_cleartext_auth s)"
  "get_bool (server_to_json s) ''useKeyAuth'' = Some (sv_use_key_auth s)"
  "map_of (server_to_json s) ''port'' = Some (json_number_of (sv_port s))"
  "map_of (server_to_json s) ''maxConnections'' = Some (json_number_of (sv_max_connections s))"
  by (simp_all add: get_str_def get_bool_def server_to_json_def)

lemma read_protocol_to_json: "read_protocol (server_to_json s) = Inr (sv_protocol s)"
  by (cases "sv_protocol s") (simp_all add: read_protocol_def server_to_json_fields Let_def)

lemma server_roundtrip: "server_ok s \<Longrightarrow> server_from_json (server_to_json s) = Inr s"
  using number_of_json [OF server_to_json_fields(13)] number_of_json [OF server_to_json_fields(14)]
  by (simp add: server_from_json_def server_ok_def read_protocol_to_json server_to_json_fields Let_def start_folder_def)

lemma number_frame: "map_of r k = map_of r' k \<Longrightarrow> number r k = number r' k"
  by (simp add: number_def)

lemma drop_bad_number_frame:
  "k' \<noteq> k \<Longrightarrow> map_of (drop_bad_number k r) k' = map_of r k'"
  by (simp add: drop_bad_number_def split: sum.split)

lemma drop_bad_number_readable: "\<exists>n. number (drop_bad_number k r) k = Inr n"
proof (cases "number r k")
  case (Inl e)
  then show ?thesis by (simp add: drop_bad_number_def number_def)
qed (simp add: drop_bad_number_def)

lemma drop_bad_protocol_frame:
  "k \<noteq> ''protocol'' \<Longrightarrow> map_of (drop_bad_protocol r) k = map_of r k"
  by (simp add: drop_bad_protocol_def split: option.split)

lemma drop_bad_protocol_readable: "\<exists>p. read_protocol (drop_bad_protocol r) = Inr p"
proof (cases "get_str r ''protocol''")
  case (Some p)
  show ?thesis
  proof (cases "p \<in> {''ftp'', ''ftps'', ''sftp'', ''webdav''}")
    case True
    then show ?thesis using Some by (auto simp: drop_bad_protocol_def read_protocol_def Let_def)
  next
    case False
    then have "get_str (drop_bad_protocol r) ''protocol'' = None"
      using Some by (simp add: drop_bad_protocol_def get_str_def)
    then show ?thesis by (simp add: read_protocol_def Let_def)
  qed
qed (simp add: drop_bad_protocol_def read_protocol_def Let_def)

lemma read_protocol_frame:
  "map_of r ''protocol'' = map_of r' ''protocol'' \<Longrightarrow> map_of r ''secure'' = map_of r' ''secure''
   \<Longrightarrow> read_protocol r = read_protocol r'"
  by (simp add: read_protocol_def get_str_def get_bool_def)

lemma server_or_unset_reads: "\<exists>s. server_or_unset r = Inr s \<and> server_ok s"
proof -
  let ?a = "drop_bad_protocol r"
  let ?b = "drop_bad_number ''port'' ?a"
  let ?c = "drop_bad_number ''maxConnections'' ?b"
  have "read_protocol ?c = read_protocol ?a"
    by (rule read_protocol_frame) (simp_all add: drop_bad_number_frame)
  then obtain p where p: "read_protocol ?c = Inr p" using drop_bad_protocol_readable by metis
  have "number ?c ''port'' = number ?b ''port''"
    by (rule number_frame) (simp add: drop_bad_number_frame)
  then obtain n where n: "number ?c ''port'' = Inr n" using drop_bad_number_readable by metis
  obtain m where m: "number ?c ''maxConnections'' = Inr m" using drop_bad_number_readable by blast
  have "\<exists>s. server_from_json ?c = Inr s" using p n m by (simp add: server_from_json_def Let_def)
  then show ?thesis using server_from_json_ok by (auto simp: server_or_unset_def)
qed

lemma server_or_unset_written: "server_ok s \<Longrightarrow> server_or_unset (server_to_json s) = Inr s"
proof -
  assume ok: "server_ok s"
  have "drop_bad_protocol (server_to_json s) = server_to_json s"
    by (cases "sv_protocol s") (simp_all add: drop_bad_protocol_def server_to_json_fields)
  moreover have "drop_bad_number ''port'' (server_to_json s) = server_to_json s"
      "drop_bad_number ''maxConnections'' (server_to_json s) = server_to_json s"
    using number_of_json [OF server_to_json_fields(13)] number_of_json [OF server_to_json_fields(14)] ok
    by (simp_all add: drop_bad_number_def server_ok_def)
  ultimately show ?thesis using server_roundtrip [OF ok] by (simp add: server_or_unset_def)
qed

section \<open>Properties\<close>

text \<open>C13: A saved site reads back as it was written: every server setting survives the stored form,
  FTPS included, which that form writes with the old flag off.\<close>

theorem server_settings_roundtrip:
  assumes "prefix ''/'' (sv_remote_path s)"
    and "\<forall>n \<in> set_option (sv_port s) \<union> set_option (sv_max_connections s). n \<le> u16_max"
  shows "server_from_json (server_to_json s) = Inr s"
  using assms by (intro server_roundtrip) (auto simp: server_ok_def split: option.split)

definition sample_server :: server_settings where
  "sample_server = \<lparr>sv_protocol = Ftps, sv_host = ''h'', sv_port = Some 990, sv_webdav_url = [],
      sv_user = ''u'', sv_remote_path = ''/pub'', sv_allow_invalid_cert = True,
      sv_allow_cleartext_auth = False, sv_ca_cert_path = [], sv_use_key_auth = False, sv_key_path = [],
      sv_encoding = [], sv_max_connections = Some 0\<rparr>"

theorem server_settings_roundtrip_witness:
  "server_from_json (server_to_json sample_server) = Inr sample_server"
  by (rule server_settings_roundtrip) (simp_all add: sample_server_def)

text \<open>A stored site can always be shown: reading one for display never hits the panic behind it,
  whatever the record holds, and writing back what was read changes nothing about who its
  password is for.\<close>

theorem stored_site_always_reads:
  "\<exists>s. server_or_unset r = Inr s \<and> server_or_unset (server_to_json s) = Inr s
     \<and> site_scope (server_to_json s) = site_scope r"
proof -
  obtain s where "server_or_unset r = Inr s" "server_ok s" using server_or_unset_reads by blast
  then show ?thesis using server_or_unset_written by (simp add: site_scope_def)
qed

end
