(* ===== verification/Storage.thy ===== *)
theory Storage
  imports Connections "HOL-Library.List_Lexorder" "HOL-Library.Countable"
begin

text \<open>
  The JSON stores on disk (\<open>store/storage.rs\<close>, \<open>store/secret_fields.rs\<close>): the versioned
  envelope, reading with recovery, writing with a backup and a copy of what could not be read,
  the clean-up at start. The folder is an association list from file names to their time of
  change and bytes. A file is published by writing a temporary one and renaming it, which leaves
  the target as it was or complete; a left-over temporary file is not part of the model of a
  write. Parsing, rendering and the digest are parameters, and so is which system call fails.
\<close>

section \<open>The folder\<close>

type_synonym folder = "(string \<times> nat \<times> string) list"

datatype read_result = Contents string | NoFile | NoFolder | ReadFailed

record codec =
  cd_parse :: "string \<Rightarrow> json option"
  cd_render :: "json \<Rightarrow> string"
  cd_digest :: "string \<Rightarrow> string"

text \<open>What the system makes of each call: the clock, and the failures.\<close>

record io =
  io_now :: nat
  io_no_folder :: bool
  io_unreadable :: "string \<Rightarrow> bool"
  io_write :: "string \<Rightarrow> error_code option"
  io_remove :: "string \<Rightarrow> error_code option"
  io_list :: "error_code option"
  io_create_dir :: "error_code option"
  io_temporary :: "error_code option"

definition read_file :: "io \<Rightarrow> folder \<Rightarrow> string \<Rightarrow> read_result" where
  "read_file io d name =
     (if io_no_folder io then NoFolder else if io_unreadable io name then ReadFailed
      else case map_of d name of None \<Rightarrow> NoFile | Some (t, body) \<Rightarrow> Contents body)"

definition is_missing :: "read_result \<Rightarrow> bool" where
  "is_missing r \<longleftrightarrow> r = NoFile \<or> r = NoFolder"

definition publish :: "io \<Rightarrow> string \<Rightarrow> string \<Rightarrow> folder \<Rightarrow> (error_code + unit) \<times> folder" where
  "publish io target body d =
     (case io_write io target of
        Some e \<Rightarrow> (Inl e, d) | None \<Rightarrow> (Inr (), al_put target (io_now io, body) d))"

text \<open>\<open>Path::file_stem\<close> and \<open>Path::with_extension\<close>.\<close>

definition file_stem :: "string \<Rightarrow> string" where
  "file_stem name = (case rsplit_once_at (CHR ''.'') name of
     None \<Rightarrow> name | Some (a, b) \<Rightarrow> if a = [] then name else a)"

definition with_extension :: "string \<Rightarrow> string \<Rightarrow> string" where
  "with_extension name ext = file_stem name @ ''.'' @ ext"

definition last_good :: "string \<Rightarrow> string" where
  "last_good name = with_extension name ''last-good.bak''"

text \<open>The shape of a store that is a JSON object.\<close>

fun is_map :: "json \<Rightarrow> bool" where
  "is_map (JObject m) = True" | "is_map _ = False"

section \<open>The envelope\<close>

definition storage_schema_version :: nat where "storage_schema_version = 1"

datatype decode_error = NewerSchema | Undecodable

definition versioned_stores :: "string list" where
  "versioned_stores = [''sites.json'', ''settings.json'', ''known_hosts.json'', ''tabs.json'', ''local-paths.json'']"

definition is_versioned_store :: "string \<Rightarrow> bool" where
  "is_versioned_store name \<longleftrightarrow> name \<in> set versioned_stores"

definition store_prefixes :: "string list" where
  "store_prefixes = [''sites.'', ''settings.'', ''known_hosts.'', ''tabs.'', ''local-paths.'']"

definition decode_versioned_store :: "string \<Rightarrow> json \<Rightarrow> decode_error + json" where
  "decode_versioned_store name value =
     (case value of
        JObject obj \<Rightarrow>
          (case map_of obj ''schemaVersion'' of
             None \<Rightarrow> Inr value
           | Some version \<Rightarrow>
               if \<not> (is_versioned_store name \<or> (\<exists>p \<in> set store_prefixes. prefix p name)) then Inr value
               else (case as_u64 version of
                       None \<Rightarrow> Inl Undecodable
                     | Some n \<Rightarrow>
                         if n = storage_schema_version
                         then (case map_of obj ''data'' of None \<Rightarrow> Inl Undecodable | Some v \<Rightarrow> Inr v)
                         else if storage_schema_version < n then Inl NewerSchema else Inl Undecodable))
      | _ \<Rightarrow> Inr value)"

definition encode_versioned_store :: "string \<Rightarrow> json \<Rightarrow> json" where
  "encode_versioned_store name value =
     (if is_versioned_store name
      then JObject [(''schemaVersion'', JNumber (NonNegative storage_schema_version)), (''data'', value)]
      else value)"

text \<open>Bytes to a payload of the shape \<open>fits\<close> names.\<close>

definition decode_bytes :: "codec \<Rightarrow> string \<Rightarrow> string \<Rightarrow> decode_error + json" where
  "decode_bytes c name raw =
     (case cd_parse c raw of None \<Rightarrow> Inl Undecodable | Some v \<Rightarrow> decode_versioned_store name v)"

definition decode_as :: "codec \<Rightarrow> (json \<Rightarrow> bool) \<Rightarrow> string \<Rightarrow> string \<Rightarrow> decode_error + json" where
  "decode_as c fits name raw =
     (case decode_bytes c name raw of
        Inl e \<Rightarrow> Inl e | Inr v \<Rightarrow> if fits v then Inr v else Inl Undecodable)"

section \<open>Backups\<close>

definition site_saved :: "string list" where
  "site_saved = [''enc'', ''plain'', ''keyEnc'', ''keyPlain'']"

definition plaintext_fields :: "string list" where
  "plaintext_fields = [''plain'', ''keyPlain'', ''proxyPasswordPlain'']"

definition json_get :: "json \<Rightarrow> string \<Rightarrow> json option" where
  "json_get v k = (case v of JObject fs \<Rightarrow> map_of fs k | _ \<Rightarrow> None)"

definition still_live :: "json option \<Rightarrow> json_map \<Rightarrow> string \<Rightarrow> bool" where
  "still_live counterpart fs field \<longleftrightarrow>
     field \<notin> set plaintext_fields
     \<and> Option.bind counterpart (\<lambda>next. json_get next field) = map_of fs field"

definition strip_field :: "json option \<Rightarrow> string \<Rightarrow> json_map \<Rightarrow> json_map" where
  "strip_field counterpart field fs =
     (if still_live counterpart fs field then fs else al_del field fs)"

fun strip_record :: "json option \<Rightarrow> json \<Rightarrow> json" where
  "strip_record counterpart (JObject fs) =
     JObject (fold (strip_field counterpart) (site_saved @ proxy_saved) fs)"
| "strip_record counterpart record = record"

definition counterpart_of :: "json \<Rightarrow> json \<Rightarrow> json option" where
  "counterpart_of next record =
     (case json_get record ''id'' of
        None \<Rightarrow> None
      | Some i \<Rightarrow> (case as_array next of
                    None \<Rightarrow> None | Some xs \<Rightarrow> find (\<lambda>candidate. json_get candidate ''id'' = Some i) xs))"

fun backup_without_stale_secrets :: "json \<Rightarrow> json \<Rightarrow> json" where
  "backup_without_stale_secrets (JArray records) next =
     JArray (map (\<lambda>r. strip_record (counterpart_of next r) r) records)"
| "backup_without_stale_secrets record next = strip_record (Some next) record"

definition write_backup :: "codec \<Rightarrow> io \<Rightarrow> string \<Rightarrow> json \<Rightarrow> folder \<Rightarrow> (error_code + unit) \<times> folder" where
  "write_backup c io name backup d =
     publish io (last_good name) (cd_render c (encode_versioned_store name backup)) d"

section \<open>Copies of what cannot be read\<close>

definition corrupt_copies_kept :: nat where "corrupt_copies_kept = 5"

definition corrupt_name :: "codec \<Rightarrow> string \<Rightarrow> string \<Rightarrow> string" where
  "corrupt_name c name raw = with_extension name (''corrupt-'' @ cd_digest c raw @ ''.bak'')"

definition corrupt_copies :: "string \<Rightarrow> folder \<Rightarrow> (nat \<times> string) list" where
  "corrupt_copies name d =
     map (\<lambda>(n, t, body). (t, n))
       (filter (\<lambda>(n, t, body). prefix (file_stem name @ ''.corrupt-'') n \<and> suffix ''.bak'' n) d)"

definition newest_first :: "(nat \<times> string) list \<Rightarrow> (nat \<times> string) list" where
  "newest_first copies = sort_key (\<lambda>(t, n). - int t) copies"

fun remove_files :: "io \<Rightarrow> string list \<Rightarrow> folder \<Rightarrow> (error_code + unit) \<times> folder" where
  "remove_files io [] d = (Inr (), d)"
| "remove_files io (n # ns) d =
     (case io_remove io n of Some e \<Rightarrow> (Inl e, d) | None \<Rightarrow> remove_files io ns (al_del n d))"

definition archive_corrupt :: "codec \<Rightarrow> io \<Rightarrow> string \<Rightarrow> string \<Rightarrow> folder \<Rightarrow> (error_code + unit) \<times> folder" where
  "archive_corrupt c io name raw d =
     (if read_file io d (corrupt_name c name raw) = Contents raw then (Inr (), d)
      else (case publish io (corrupt_name c name raw) raw d of
              (Inl e, d') \<Rightarrow> (Inl e, d')
            | (Inr _, d') \<Rightarrow>
                (case io_list io of
                   Some e \<Rightarrow> (Inl e, d')
                 | None \<Rightarrow> remove_files io
                     (map snd (drop corrupt_copies_kept (newest_first (corrupt_copies name d')))) d')))"

section \<open>Reading and writing a store\<close>

datatype storage_issue = Recovered | Replaced | Unreadable | Newer | BackupNotUpdated

fun refusal :: "storage_issue \<Rightarrow> error_code option" where
  "refusal Unreadable = Some StoreUnreadable"
| "refusal Newer = Some StoreNewer"
| "refusal _ = None"

record store =
  st_folder :: folder
  st_issues :: "(string \<times> storage_issue) list"

definition note_issue :: "string \<Rightarrow> storage_issue \<Rightarrow> store \<Rightarrow> store" where
  "note_issue name issue st = st\<lparr>st_issues := al_put name issue (st_issues st)\<rparr>"

definition recover :: "codec \<Rightarrow> io \<Rightarrow> (json \<Rightarrow> bool) \<Rightarrow> string \<Rightarrow> store \<Rightarrow> json option" where
  "recover c io fits name st =
     (case read_file io (st_folder st) (last_good name) of
        Contents raw \<Rightarrow> (case decode_as c fits (last_good name) raw of Inr v \<Rightarrow> Some v | Inl _ \<Rightarrow> None)
      | _ \<Rightarrow> None)"

definition read_json ::
  "codec \<Rightarrow> io \<Rightarrow> (json \<Rightarrow> bool) \<Rightarrow> string \<Rightarrow> json \<Rightarrow> store \<Rightarrow> json \<times> store" where
  "read_json c io fits name fallback st =
     (case read_file io (st_folder st) name of
        Contents raw \<Rightarrow>
          (case decode_as c fits name raw of
             Inr v \<Rightarrow> (v, st)
           | Inl NewerSchema \<Rightarrow> (fallback, note_issue name Newer st)
           | Inl Undecodable \<Rightarrow>
               (case archive_corrupt c io name raw (st_folder st) of
                  (kept, d) \<Rightarrow>
                    (let st' = note_issue name (if is_Ok kept then Replaced else Unreadable) (st\<lparr>st_folder := d\<rparr>)
                     in case recover c io fits name st' of
                          Some v \<Rightarrow> (v, note_issue name Recovered st')
                        | None \<Rightarrow> (fallback, st'))))
      | ReadFailed \<Rightarrow> (fallback, note_issue name Unreadable st)
      | _ \<Rightarrow>
          (let backup = read_file io (st_folder st) (last_good name)
           in case recover c io fits name st of
                Some v \<Rightarrow> (v, note_issue name Recovered st)
              | None \<Rightarrow> (fallback, if is_missing backup then st else note_issue name Replaced st)))"

definition ensure_writable :: "codec \<Rightarrow> io \<Rightarrow> string \<Rightarrow> store \<Rightarrow> (error_code + unit) \<times> store" where
  "ensure_writable c io name st =
     (case Option.bind (map_of (st_issues st) name) refusal of
        Some e \<Rightarrow> (Inl e, st)
      | None \<Rightarrow>
          (case read_file io (st_folder st) name of
             Contents raw \<Rightarrow>
               (case decode_bytes c name raw of
                  Inr _ \<Rightarrow> (Inr (), st)
                | Inl NewerSchema \<Rightarrow> (Inl StoreNewer, st)
                | Inl Undecodable \<Rightarrow>
                    (case archive_corrupt c io name raw (st_folder st) of
                       (Inl _, d) \<Rightarrow> (Inl StoreUnreadable, st\<lparr>st_folder := d\<rparr>)
                     | (Inr _, d) \<Rightarrow> (Inr (), st\<lparr>st_folder := d\<rparr>)))
           | ReadFailed \<Rightarrow> (Inl StoreUnreadable, st)
           | _ \<Rightarrow> (Inr (), st)))"

text \<open>The previous contents become the backup only if they still have the shape.\<close>

definition keep_previous :: "codec \<Rightarrow> io \<Rightarrow> (json \<Rightarrow> bool) \<Rightarrow> string \<Rightarrow> json \<Rightarrow> store \<Rightarrow> store" where
  "keep_previous c io fits name data st =
     (case read_file io (st_folder st) name of
        Contents raw \<Rightarrow>
          (case decode_as c fits name raw of
             Inr previous \<Rightarrow>
               (case write_backup c io name (backup_without_stale_secrets previous data) (st_folder st) of
                  (Inl _, d) \<Rightarrow> note_issue name BackupNotUpdated (st\<lparr>st_folder := d\<rparr>)
                | (Inr _, d) \<Rightarrow> st\<lparr>st_folder := d\<rparr>)
           | Inl _ \<Rightarrow> st)
      | _ \<Rightarrow> st)"

definition write_json_unnamed ::
  "codec \<Rightarrow> io \<Rightarrow> (json \<Rightarrow> bool) \<Rightarrow> string \<Rightarrow> json \<Rightarrow> store \<Rightarrow> (error_code + unit) \<times> store" where
  "write_json_unnamed c io fits name data st =
     (case ensure_writable c io name st of
        (Inl e, st1) \<Rightarrow> (Inl e, st1)
      | (Inr _, st1) \<Rightarrow>
          (case or_opt (io_create_dir io) (io_temporary io) of
             Some e \<Rightarrow> (Inl e, st1)
           | None \<Rightarrow>
               (let st2 = keep_previous c io fits name data st1
                in case publish io name (cd_render c (encode_versioned_store name data)) (st_folder st2) of
                     (r, d) \<Rightarrow> (r, st2\<lparr>st_folder := d\<rparr>))))"

definition write_json ::
  "codec \<Rightarrow> io \<Rightarrow> (json \<Rightarrow> bool) \<Rightarrow> string \<Rightarrow> json \<Rightarrow> store \<Rightarrow> (error_code + unit) \<times> store" where
  "write_json c io fits name data st =
     (case write_json_unnamed c io fits name data st of
        (Inl e, st') \<Rightarrow> (Inl (if e = PermissionDenied then StoreNotWritable else e), st')
      | (Inr _, st') \<Rightarrow> (Inr (), st'))"

definition storage_warnings :: "store \<Rightarrow> (string \<times> storage_issue) list" where
  "storage_warnings st = sort_key (\<lambda>(f, i). map of_char f :: nat list) (st_issues st)"

section \<open>Cleaning up at start\<close>

definition store_names :: "string list" where
  "store_names = [''sites'', ''settings'', ''tabs'', ''known_hosts'', ''local-paths'']"

definition strip_suffix :: "string \<Rightarrow> string \<Rightarrow> string option" where
  "strip_suffix suf s = (if suffix suf s then Some (take (length s - length suf) s) else None)"

fun tmp_pid_of :: "string list \<Rightarrow> nat option" where
  "tmp_pid_of [a, b] =
     (if \<forall>ch \<in> set b. is_digit_char ch then parse_unsigned u32_max a
      else if a = ''last-good'' then parse_unsigned u32_max b
      else if prefix ''corrupt-'' a then parse_unsigned u32_max b else None)"
| "tmp_pid_of _ = None"

definition store_tmp_pid :: "string \<Rightarrow> nat option" where
  "store_tmp_pid name =
     (case strip_suffix ''.tmp'' name of
        None \<Rightarrow> None
      | Some stem \<Rightarrow>
          (case split_at (\<lambda>ch. ch = CHR ''.'') stem of
             store # rest \<Rightarrow> if store \<in> set store_names then tmp_pid_of rest else None
           | [] \<Rightarrow> None))"

definition remove_quietly :: "io \<Rightarrow> string \<Rightarrow> folder \<Rightarrow> folder" where
  "remove_quietly io name d = (if io_remove io name = None then al_del name d else d)"

definition scrub_backup :: "codec \<Rightarrow> io \<Rightarrow> string \<Rightarrow> folder \<Rightarrow> folder" where
  "scrub_backup c io name d =
     (let decoded = (\<lambda>n. case read_file io d n of
            Contents raw \<Rightarrow> (case decode_bytes c n raw of Inr v \<Rightarrow> Some v | Inl _ \<Rightarrow> None) | _ \<Rightarrow> None)
      in case (decoded name, decoded (last_good name)) of
           (Some live, Some backup) \<Rightarrow>
             (let scrubbed = backup_without_stale_secrets backup live
              in if scrubbed \<noteq> backup then snd (write_backup c io name scrubbed d) else d)
         | _ \<Rightarrow> d)"

definition migration_marker :: string where "migration_marker = ''vault-migration.json''"

definition scrub_secret_backups :: "codec \<Rightarrow> io \<Rightarrow> nat \<Rightarrow> folder \<Rightarrow> folder" where
  "scrub_secret_backups c io pid d0 =
     (let d1 = scrub_backup c io ''settings.json'' (scrub_backup c io ''sites.json'' d0);
          d2 = (if read_file io d1 migration_marker = NoFile then remove_quietly io (last_good migration_marker) d1 else d1);
          migration = (case read_file io d2 migration_marker of
                         Contents raw \<Rightarrow> (case cd_parse c raw of Some v \<Rightarrow> v | None \<Rightarrow> JNull) | _ \<Rightarrow> JNull);
          migrating = (case decode_versioned_store migration_marker migration of
                         Inr v \<Rightarrow> json_get v ''status'' = Some (JString ''inProgress'') | Inl _ \<Rightarrow> False);
          d3 = (if migrating then d2 else remove_quietly io ''sites.pre-stronghold.bak'' d2)
      in if io_list io \<noteq> None then d3
         else fold (\<lambda>(n, _) d. case store_tmp_pid n of
                      Some p \<Rightarrow> if p \<noteq> pid then remove_quietly io n d else d
                    | None \<Rightarrow> d) d3 d3)"

section \<open>Lemmas\<close>

subsection \<open>Names\<close>

lemma file_stem_split:
  "name = file_stem name \<or> (\<exists>ext. name = file_stem name @ CHR ''.'' # ext \<and> CHR ''.'' \<notin> set ext)"
proof (cases "rsplit_once_at (CHR ''.'') name")
  case None
  then show ?thesis by (simp add: file_stem_def)
next
  case (Some p)
  obtain a b where p: "p = (a, b)" by (cases p)
  with Some have "name = a @ CHR ''.'' # b \<and> CHR ''.'' \<notin> set b" using rsplit_once_at_Some by blast
  then show ?thesis using Some p by (auto simp: file_stem_def)
qed

lemma with_extension_ne:
  assumes "CHR ''.'' \<in> set ext"
  shows "with_extension name ext \<noteq> name"
proof
  assume eq: "with_extension name ext = name"
  from file_stem_split [of name] show False
  proof
    assume "name = file_stem name"
    then show False using eq by (simp add: with_extension_def)
  next
    assume "\<exists>e. name = file_stem name @ CHR ''.'' # e \<and> CHR ''.'' \<notin> set e"
    then obtain e where "name = file_stem name @ CHR ''.'' # e" "CHR ''.'' \<notin> set e" by blast
    then have "file_stem name @ CHR ''.'' # e = file_stem name @ CHR ''.'' # ext"
      using eq by (simp add: with_extension_def)
    then show False using assms \<open>CHR ''.'' \<notin> set e\<close> by simp
  qed
qed

lemma last_good_ne: "last_good name \<noteq> name"
  unfolding last_good_def by (rule with_extension_ne) simp

lemma corrupt_name_ne: "corrupt_name c name raw \<noteq> name"
  unfolding corrupt_name_def by (rule with_extension_ne) simp

lemma last_good_not_corrupt: "\<not> prefix (file_stem name @ ''.corrupt-'') (last_good name)"
  by (simp add: last_good_def with_extension_def)

lemma store_is_no_copy: "\<not> (prefix (file_stem name @ ''.corrupt-'') name \<and> suffix ''.bak'' name)"
proof
  define stem where "stem = file_stem name"
  assume "prefix (file_stem name @ ''.corrupt-'') name \<and> suffix ''.bak'' name"
  then have pre: "prefix (stem @ ''.corrupt-'') name" and suf: "suffix ''.bak'' name" by (simp_all add: stem_def)
  from file_stem_split [of name] have "name = stem \<or> (\<exists>e. name = stem @ CHR ''.'' # e \<and> CHR ''.'' \<notin> set e)"
    by (simp only: stem_def)
  then show False
  proof
    assume "name = stem"
    then show False using prefix_length_le [OF pre] by simp
  next
    assume "\<exists>e. name = stem @ CHR ''.'' # e \<and> CHR ''.'' \<notin> set e"
    then obtain e where e: "name = stem @ CHR ''.'' # e" "CHR ''.'' \<notin> set e" by blast
    then have head: "prefix ''corrupt-'' e" using pre by simp
    obtain x where x: "name = x @ ''.bak''" using suf by (auto simp: suffix_def)
    have "rsplit_once_at (CHR ''.'') name = Some (stem, e)" using rsplit_once_at_append [OF e(2)] e(1) by simp
    moreover have "rsplit_once_at (CHR ''.'') name = Some (x, ''bak'')"
      using rsplit_once_at_append [of "CHR ''.''" "''bak''" x] x by simp
    ultimately have "e = ''bak''" by simp
    then show False using head by simp
  qed
qed

subsection \<open>Copies\<close>

lemma remove_files_frame:
  "remove_files io ns d = (r, d') \<Longrightarrow> n \<notin> set ns \<Longrightarrow> map_of d' n = map_of d n"
  by (induction ns arbitrary: d) (auto split: option.splits)

lemma copies_names: "(t, n) \<in> set (corrupt_copies name d) \<Longrightarrow>
    prefix (file_stem name @ ''.corrupt-'') n \<and> suffix ''.bak'' n \<and> (\<exists>body. (n, t, body) \<in> set d)"
  by (auto simp: corrupt_copies_def)

lemma set_newest_first [simp]: "set (newest_first copies) = set copies"
  by (simp add: newest_first_def)

lemma distinct_copies: "al_ok d \<Longrightarrow> distinct (map snd (corrupt_copies name d))"
  by (induction d) (force simp: corrupt_copies_def)+

lemma sort_key_first:
  assumes "i < length (sort_key f xs)"
  shows "f (sort_key f xs ! 0) \<le> f (sort_key f xs ! i)"
proof -
  have "map f (sort_key f xs) ! 0 \<le> map f (sort_key f xs) ! i"
    by (rule sorted_nth_mono) (use assms in simp_all)
  moreover have "0 < length (sort_key f xs)" using assms by linarith
  ultimately show ?thesis using assms by (simp only: nth_map)
qed

text \<open>A copy newer than every other is among the ones kept.\<close>

lemma newest_kept:
  assumes "al_ok d" and "(t, n) \<in> set (corrupt_copies name d)"
    and newer: "\<forall>(u, m) \<in> set (corrupt_copies name d). m \<noteq> n \<longrightarrow> u < t"
  shows "n \<notin> snd ` set (drop corrupt_copies_kept (newest_first (corrupt_copies name d)))"
proof
  let ?ys = "newest_first (corrupt_copies name d)"
  assume "n \<in> snd ` set (drop corrupt_copies_kept ?ys)"
  then obtain u where u: "(u, n) \<in> set (drop corrupt_copies_kept ?ys)" by auto
  have dist: "distinct (map snd ?ys)"
    using distinct_copies [OF assms(1), of name] by (simp add: distinct_map newest_first_def)
  have long: "corrupt_copies_kept < length ?ys" using u by (metis drop_all empty_iff empty_set not_le)
  have first: "?ys ! 0 \<in> set (take corrupt_copies_kept ?ys)"
    using long by (auto simp: in_set_conv_nth corrupt_copies_kept_def intro: exI [of _ 0])
  obtain v m where vm: "?ys ! 0 = (v, m)" by (cases "?ys ! 0")
  have "distinct (map snd (take corrupt_copies_kept ?ys) @ map snd (drop corrupt_copies_kept ?ys))"
    using dist by (simp only: map_append [symmetric] append_take_drop_id)
  then have "m \<noteq> n" using u first vm by force
  moreover have "(v, m) \<in> set (corrupt_copies name d)"
    using vm long by (metis nth_mem set_newest_first less_nat_zero_code not_gr_zero)
  ultimately have "v < t" using newer by auto
  obtain i where i: "i < length ?ys" "?ys ! i = (u, n)"
    using u in_set_dropD by (metis in_set_conv_nth)
  have "- int v \<le> - int u"
    using sort_key_first [of i "\<lambda>(t, n). - int t" "corrupt_copies name d"] i vm
    by (simp add: newest_first_def)
  moreover have "u = t"
  proof -
    have "(u, n) \<in> set (corrupt_copies name d)" using u in_set_dropD set_newest_first by metis
    then show ?thesis using assms(2) distinct_copies [OF assms(1)] by (metis distinct_map inj_onD prod.inject snd_conv)
  qed
  ultimately show False using \<open>v < t\<close> by simp
qed

text \<open>Everything but the copies themselves is as it was.\<close>

definition no_copy :: "string \<Rightarrow> string \<Rightarrow> bool" where
  "no_copy name n \<longleftrightarrow> \<not> (prefix (file_stem name @ ''.corrupt-'') n \<and> suffix ''.bak'' n)"

lemma no_copy_simps [simp]: "no_copy name name" "no_copy name (last_good name)"
  using store_is_no_copy last_good_not_corrupt by (simp_all add: no_copy_def)

lemma archive_frame:
  assumes "archive_corrupt c io name raw d = (r, d')" and "no_copy name n"
  shows "map_of d' n = map_of d n"
proof -
  have "n \<noteq> corrupt_name c name raw"
    using assms(2) by (auto simp: no_copy_def corrupt_name_def with_extension_def suffix_def)
  moreover have "n \<notin> snd ` set (drop k (newest_first (corrupt_copies name e)))" for k e
    using assms(2) copies_names in_set_dropD set_newest_first unfolding no_copy_def
    by (smt (verit, ccfv_threshold) image_iff prod.collapse)
  ultimately show ?thesis
    using assms(1) remove_files_frame
    by (auto simp: archive_corrupt_def publish_def split: if_splits option.splits prod.splits sum.splits)
qed

text \<open>When every file is older than the clock, keeping a copy means that the copy is there.\<close>

lemma archive_keeps:
  assumes "archive_corrupt c io name raw d = (Inr x, d')" and "al_ok d"
    and old: "\<forall>(n, t, body) \<in> set d. t < io_now io"
  shows "\<exists>t. map_of d' (corrupt_name c name raw) = Some (t, raw)"
proof (cases "read_file io d (corrupt_name c name raw) = Contents raw")
  case True
  then have "d' = d" using assms(1) by (simp add: archive_corrupt_def)
  then show ?thesis using True by (auto simp: read_file_def split: if_splits option.splits)
next
  case False
  let ?n = "corrupt_name c name raw" and ?e = "al_put (corrupt_name c name raw) (io_now io, raw) d"
  let ?gone = "map snd (drop corrupt_copies_kept (newest_first (corrupt_copies name ?e)))"
  have run: "remove_files io ?gone ?e = (Inr x, d')"
    using assms(1) False by (auto simp: archive_corrupt_def publish_def split: option.splits)
  have put: "set ?e \<subseteq> insert (?n, io_now io, raw) (set d)" by (rule set_al_put)
  have "prefix (file_stem name @ ''.corrupt-'') ?n" "suffix ''.bak'' ?n"
    by (simp_all add: corrupt_name_def with_extension_def suffix_def)
  moreover have "(?n, io_now io, raw) \<in> set ?e" by (rule map_of_SomeD) simp
  ultimately have here: "(io_now io, ?n) \<in> set (corrupt_copies name ?e)"
    by (force simp: corrupt_copies_def)
  have newer: "\<forall>(u, m) \<in> set (corrupt_copies name ?e). m \<noteq> ?n \<longrightarrow> u < io_now io"
    using put old copies_names [of _ _ name ?e] by fastforce
  have "?n \<notin> set ?gone"
    using newest_kept [OF al_ok_put [OF assms(2)] here newer] by simp
  then show ?thesis using remove_files_frame [OF run] by simp
qed

lemma decode_encode: "is_versioned_store name \<Longrightarrow> decode_versioned_store name (encode_versioned_store name v) = Inr v"
  by (simp add: encode_versioned_store_def decode_versioned_store_def)

lemma decode_encode_backup:
  assumes "is_versioned_store name"
  shows "decode_versioned_store (last_good name) (encode_versioned_store name v) = Inr v"
proof -
  have "\<exists>p \<in> set store_prefixes. prefix p (last_good name)"
    using assms unfolding is_versioned_store_def versioned_stores_def
    by (auto simp: store_prefixes_def last_good_def with_extension_def file_stem_def rsplit_once_at_def)
  then show ?thesis using assms by (simp add: encode_versioned_store_def decode_versioned_store_def)
qed

subsection \<open>What a backup keeps\<close>

lemma map_of_strip_field:
  "map_of (strip_field cp field fs) k = (if k = field \<and> \<not> still_live cp fs field then None else map_of fs k)"
  by (simp add: strip_field_def)

lemma map_of_strip_fields:
  "map_of (fold (strip_field cp) ks fs) k = (if k \<in> set ks \<and> \<not> still_live cp fs k then None else map_of fs k)"
proof (induction ks arbitrary: fs)
  case Nil
  then show ?case by simp
next
  case (Cons x ks)
  show ?case
  proof (cases "still_live cp fs x")
    case True
    then show ?thesis using Cons.IH [of fs] by (auto simp: strip_field_def)
  next
    case False
    then have del: "strip_field cp x fs = al_del x fs" by (simp add: strip_field_def)
    have "k \<noteq> x \<Longrightarrow> still_live cp (al_del x fs) k = still_live cp fs k" by (simp add: still_live_def)
    then show ?thesis using Cons.IH [of "al_del x fs"] False by (auto simp: del)
  qed
qed

lemma strip_record_get:
  "json_get (strip_record cp r) k =
     (if k \<in> set (site_saved @ proxy_saved) \<and> (k \<in> set plaintext_fields \<or> Option.bind cp (\<lambda>n. json_get n k) \<noteq> json_get r k)
      then None else json_get r k)"
proof (cases r)
  case (JObject fs)
  then show ?thesis
    by (auto simp: json_get_def map_of_strip_fields still_live_def simp del: set_append fold_append)
qed (simp_all add: json_get_def)

definition records_of :: "json \<Rightarrow> json list" where
  "records_of v = (case v of JArray rs \<Rightarrow> rs | _ \<Rightarrow> [v])"

lemma counterpart_of_in: "counterpart_of next r = Some s \<Longrightarrow> s \<in> set (records_of next)"
  by (cases "next") (auto simp: counterpart_of_def records_of_def find_Some_iff split: option.splits)

lemma tmp_pid_of_long: "2 < length parts \<Longrightarrow> tmp_pid_of parts = None"
  by (cases parts rule: tmp_pid_of.cases) auto

lemma strip_suffix_append: "strip_suffix suf (a @ suf) = Some a"
  by (simp add: strip_suffix_def suffix_def)

section \<open>Properties\<close>

text \<open>C16: A backup keeps no stale secret: whatever the store held before, each saved password field left
  in its backup is a protected one, never plaintext, and the live file holds the very same value;
  a secret replaced, moved into the vault or deleted is not kept.\<close>

theorem backup_keeps_no_stale_secret:
  assumes "r \<in> set (records_of (backup_without_stale_secrets previous live))"
    and "field \<in> set (site_saved @ proxy_saved)" and "json_get r field = Some v"
  shows "field \<notin> set plaintext_fields \<and> (\<exists>s \<in> set (records_of live). json_get s field = Some v)"
proof (cases "\<exists>rs. previous = JArray rs")
  case True
  then obtain q where q: "r = strip_record (counterpart_of live q) q"
    using assms(1) by (auto simp: records_of_def)
  then have "field \<notin> set plaintext_fields \<and> Option.bind (counterpart_of live q) (\<lambda>n. json_get n field) = Some v"
    using assms(2,3) by (auto simp: strip_record_get simp del: set_append split: if_splits)
  then show ?thesis using counterpart_of_in by (fastforce simp: bind_eq_Some_conv)
next
  case False
  have single: "records_of (strip_record (Some live) previous) = [strip_record (Some live) previous]"
    using False by (cases previous) (simp_all add: records_of_def)
  have "backup_without_stale_secrets previous live = strip_record (Some live) previous"
    using False by (cases previous) simp_all
  then have "r = strip_record (Some live) previous" using assms(1) single by simp
  then have "field \<notin> set plaintext_fields \<and> json_get live field = Some v"
    using assms(2,3) by (auto simp: strip_record_get simp del: set_append split: if_splits)
  then show ?thesis by (cases live) (auto simp: records_of_def json_get_def)
qed

theorem backup_keeps_no_stale_secret_witness:
  "''enc'' \<notin> set plaintext_fields
   \<and> (\<exists>s \<in> set (records_of (JArray [JObject [(''id'', JString ''1''), (''enc'', JString ''x'')]])).
        json_get s ''enc'' = Some (JString ''x''))"
proof (rule backup_keeps_no_stale_secret [of "JObject [(''id'', JString ''1''), (''enc'', JString ''x'')]"])
  show "JObject [(''id'', JString ''1''), (''enc'', JString ''x'')] \<in> set (records_of (backup_without_stale_secrets
      (JArray [JObject [(''id'', JString ''1''), (''enc'', JString ''x''), (''plain'', JString ''p'')]])
      (JArray [JObject [(''id'', JString ''1''), (''enc'', JString ''x'')]])))" by code_simp
  show "''enc'' \<in> set (site_saved @ proxy_saved)" by code_simp
  show "json_get (JObject [(''id'', JString ''1''), (''enc'', JString ''x'')]) ''enc'' = Some (JString ''x'')" by code_simp
qed

text \<open>The temporary file a backup is written through is never recognised at start, so one that an
  interrupted write left behind stays: the first pattern takes any name whose last part is all
  digits, and reads the process id from the part before it.\<close>

theorem backup_temporary_not_recognised:
  "store_tmp_pid (with_extension name (''last-good.'' @ show_nat pid @ ''.tmp'')) = None"
proof -
  define stem where "stem = file_stem name"
  let ?dot = "\<lambda>ch. ch = CHR ''.''"
  have strip: "strip_suffix ''.tmp'' (stem @ ''.last-good.'' @ show_nat pid @ ''.tmp'')
      = Some (stem @ CHR ''.'' # ''last-good'' @ CHR ''.'' # show_nat pid)"
    using strip_suffix_append [of "''.tmp''" "stem @ CHR ''.'' # ''last-good'' @ CHR ''.'' # show_nat pid"] by simp
  have digits: "\<forall>ch \<in> set (show_nat pid). is_digit_char ch" using show_nat_digits by blast
  then have "split_at ?dot (show_nat pid) = [show_nat pid]"
    by (intro split_at_none) (auto dest!: bspec simp: in_range_def)
  then have parts: "split_at ?dot (stem @ CHR ''.'' # ''last-good'' @ CHR ''.'' # show_nat pid)
      = split_at ?dot stem @ [''last-good'', show_nat pid]"
    using split_at_append [of ?dot "CHR ''.''" stem "''last-good'' @ CHR ''.'' # show_nat pid"]
      split_at_append [of ?dot "CHR ''.''" "''last-good''" "show_nat pid"]
    by simp
  obtain x xs where x: "split_at ?dot stem = x # xs" using split_at_nonempty list.exhaust by meson
  have word: "parse_unsigned u32_max ''last-good'' = None"
    by (simp add: parse_unsigned_def)
  have "tmp_pid_of (xs @ [''last-good'', show_nat pid]) = None"
  proof (cases xs)
    case Nil
    then show ?thesis using digits word by simp
  next
    case (Cons y ys)
    then show ?thesis using tmp_pid_of_long by (cases ys) simp_all
  qed
  then have "store_tmp_pid (stem @ ''.last-good.'' @ show_nat pid @ ''.tmp'') = None"
    by (simp only: store_tmp_pid_def strip option.case parts x) simp
  then show ?thesis by (simp add: with_extension_def stem_def)
qed

subsection \<open>What writing and reading do to the folder\<close>

lemma publish_other: "publish io target body d = (r, d') \<Longrightarrow> n \<noteq> target \<Longrightarrow> map_of d' n = map_of d n"
  by (auto simp: publish_def split: option.splits)

lemma publish_failed: "publish io target body d = (Inl e, d') \<Longrightarrow> d' = d"
  by (auto simp: publish_def split: option.splits)

lemma ensure_writable_frame:
  assumes "ensure_writable c io name st = (r, st')" and "no_copy name n"
  shows "map_of (st_folder st') n = map_of (st_folder st) n"
  using assms(1) archive_frame [OF _ assms(2)]
  by (auto simp: ensure_writable_def split: option.splits read_result.splits sum.splits decode_error.splits prod.splits)

lemma keep_previous_frame: "n \<noteq> last_good name \<Longrightarrow>
    map_of (st_folder (keep_previous c io fits name data st)) n = map_of (st_folder st) n"
  using publish_other
  by (auto simp: keep_previous_def write_backup_def note_issue_def
      split: read_result.splits sum.splits prod.splits)

lemma read_file_of: "map_of d n = map_of d' n \<Longrightarrow> read_file io d n = read_file io d' n"
  by (simp add: read_file_def)

lemma write_json_steps:
  assumes "write_json c io fits name data st = (r, st')"
  obtains (refused) e where "r = Inl e" "map_of (st_folder st') name = map_of (st_folder st) name"
    | (written) st1 where "r = Inr ()" "ensure_writable c io name st = (Inr (), st1)"
        "io_write io name = None"
        "st_folder st' = al_put name (io_now io, cd_render c (encode_versioned_store name data))
           (st_folder (keep_previous c io fits name data st1))"
        "st_issues st' = st_issues (keep_previous c io fits name data st1)"
proof (cases "ensure_writable c io name st")
  case (Pair x st1)
  show ?thesis
  proof (cases x)
    case (Inl e)
    show ?thesis
      by (rule refused) (use assms Pair Inl ensure_writable_frame [OF Pair] in
          \<open>auto simp: write_json_def write_json_unnamed_def\<close>)
  next
    case (Inr u)
    let ?k = "keep_previous c io fits name data st1"
    show ?thesis
    proof (cases "or_opt (io_create_dir io) (io_temporary io)")
      case (Some e)
      show ?thesis
        by (rule refused) (use assms Pair Inr Some ensure_writable_frame [OF Pair] in
            \<open>auto simp: write_json_def write_json_unnamed_def\<close>)
    next
      case None
      note go = assms Pair Inr None
      show ?thesis
      proof (cases "io_write io name")
        case (Some e)
        have "map_of (st_folder ?k) name = map_of (st_folder st) name"
          using keep_previous_frame last_good_ne ensure_writable_frame [OF Pair] no_copy_simps(1) by metis
        then show ?thesis
          by (intro refused) (use go Some in \<open>auto simp: write_json_def write_json_unnamed_def publish_def Let_def\<close>)
      next
        case w: None
        show ?thesis
          by (rule written [of st1])
             (use go w in \<open>auto simp: write_json_def write_json_unnamed_def publish_def Let_def\<close>)
      qed
    qed
  qed
qed

lemma ensure_writable_readable:
  assumes "ensure_writable c io name st = (Inr u, st1)" and "decode_bytes c name raw = Inr v"
    and "read_file io (st_folder st) name = Contents raw"
  shows "st1 = st"
  using assms by (auto simp: ensure_writable_def split: option.splits)

text \<open>C15: Nothing FTPeach cannot read is lost by saving over it: data of a newer version stays and the save
  is refused; of bytes that do not decode a copy is there, exactly as they were, whenever the file
  itself is not; the files of the folder being older than the clock.\<close>

theorem unread_bytes_survive_saving:
  assumes "read_file io (st_folder st) name = Contents raw" and "decode_bytes c name raw = Inl e"
    and "write_json c io fits name data st = (r, st')"
    and "al_ok (st_folder st)" and "\<forall>(n, t, body) \<in> set (st_folder st). t < io_now io"
  shows "if e = NewerSchema \<or> is_Ok r = False then (\<exists>x. r = Inl x) \<and> map_of (st_folder st') name = map_of (st_folder st) name
    else \<exists>t. map_of (st_folder st') (corrupt_name c name raw) = Some (t, raw)"
  using assms(3)
proof (cases rule: write_json_steps)
  case (refused x)
  then show ?thesis by simp
next
  case (written st1)
  have e: "e = Undecodable"
    using written(2) assms(1,2) by (cases e) (auto simp: ensure_writable_def split: option.splits)
  obtain d where d: "archive_corrupt c io name raw (st_folder st) = (Inr (), d)" "st1 = st\<lparr>st_folder := d\<rparr>"
    using written(2) assms(1,2) e by (auto simp: ensure_writable_def split: option.splits sum.splits prod.splits)
  have "keep_previous c io fits name data st1 = st1"
  proof -
    have "read_file io d name = Contents raw"
      using assms(1) archive_frame [OF d(1)] read_file_of no_copy_simps(1) by metis
    then show ?thesis using assms(2) by (simp add: keep_previous_def d(2) decode_as_def)
  qed
  then show ?thesis
    using archive_keeps [OF d(1) assms(4,5)] written(1,4) e corrupt_name_ne d(2) by auto
qed

text \<open>The other stores and the stores as a whole.\<close>

lemma write_json_frame:
  assumes "write_json c io fits name data st = (r, st')" and "no_copy name n" "n \<noteq> name" "n \<noteq> last_good name"
  shows "map_of (st_folder st') n = map_of (st_folder st) n"
proof -
  obtain x st1 where e: "ensure_writable c io name st = (x, st1)" by fastforce
  have "map_of (st_folder st1) n = map_of (st_folder st) n" by (rule ensure_writable_frame [OF e assms(2)])
  moreover have "map_of (st_folder st') n = map_of (st_folder st1) n"
    using assms(1,3) e keep_previous_frame [OF assms(4)] publish_other
    by (auto simp: write_json_def write_json_unnamed_def Let_def split: sum.splits option.splits prod.splits)
  ultimately show ?thesis by simp
qed

lemma written_is_read:
  assumes "write_json c io fits name data st = (Inr (), st')" and "is_versioned_store name"
    and "\<forall>v. cd_parse c (cd_render c v) = Some v" and "fits data"
    and "\<not> io_no_folder later" and "\<not> io_unreadable later name"
  shows "read_json c later fits name fallback st' = (data, st')"
  using assms(1)
proof (cases rule: write_json_steps)
  case (written st1)
  have "read_file later (st_folder st') name = Contents (cd_render c (encode_versioned_store name data))"
    using assms(5,6) written(4) by (simp add: read_file_def)
  then show ?thesis
    using assms(2-4) by (simp add: read_json_def decode_as_def decode_bytes_def decode_encode)
qed simp

lemma versioned_no_bak: "is_versioned_store n \<Longrightarrow> \<not> suffix ''.bak'' n"
proof -
  have "list_all (\<lambda>n. \<not> suffix ''.bak'' n) versioned_stores" by code_simp
  then show "is_versioned_store n \<Longrightarrow> \<not> suffix ''.bak'' n" by (simp add: is_versioned_store_def list_all_iff)
qed

lemma versioned_apart: "is_versioned_store n \<Longrightarrow> no_copy name n \<and> n \<noteq> last_good name"
  using versioned_no_bak [of n] by (auto simp: no_copy_def last_good_def with_extension_def suffix_def)

text \<open>The abstract contents of a store, as \<open>read_json\<close> finds them in the file itself.\<close>

definition saved_value :: "codec \<Rightarrow> folder \<Rightarrow> string \<Rightarrow> json option" where
  "saved_value c d name =
     (case map_of d name of
        None \<Rightarrow> None
      | Some (t, raw) \<Rightarrow> (case decode_bytes c name raw of Inl _ \<Rightarrow> None | Inr v \<Rightarrow> Some v))"

lemma saved_value_read:
  assumes "saved_value c (st_folder st) name = Some v" and "fits v"
    and "\<not> io_no_folder io" and "\<not> io_unreadable io name"
  shows "read_json c io fits name fallback st = (v, st)"
  using assms by (auto simp: saved_value_def read_json_def read_file_def decode_as_def split: option.splits sum.splits prod.splits)

text \<open>C17: The folder of stores is a map from store names to values: a save that goes through
  replaces the value of its own store and of no other, a refused one replaces none, and reading a
  store gives the value of the map, whatever fails on the way and whatever copies are made.\<close>

theorem stores_refine_map:
  assumes "\<forall>v. cd_parse c (cd_render c v) = Some v" and "is_versioned_store name"
    and "write_json c io fits name data st = (r, st')"
  shows "(\<forall>n. is_versioned_store n \<longrightarrow> saved_value c (st_folder st') n =
      (if n = name \<and> is_Ok r then Some data else saved_value c (st_folder st) n))
    \<and> (\<forall>v n. saved_value c (st_folder st) n = Some v \<and> \<not> io_no_folder later \<and> \<not> io_unreadable later n
      \<longrightarrow> read_json c later (\<lambda>_. True) n fallback st = (v, st))"
proof -
  have own: "saved_value c (st_folder st') name = (if is_Ok r then Some data else saved_value c (st_folder st) name)"
    using assms(3)
  proof (cases rule: write_json_steps)
    case (written st1)
    then show ?thesis using assms(1,2) by (simp add: saved_value_def decode_bytes_def decode_encode)
  qed (simp add: saved_value_def)
  have "saved_value c (st_folder st') n = saved_value c (st_folder st) n" if "is_versioned_store n" "n \<noteq> name" for n
    using write_json_frame [OF assms(3)] versioned_apart [OF that(1), of name] that(2) by (simp add: saved_value_def)
  then have "\<forall>n. is_versioned_store n \<longrightarrow> saved_value c (st_folder st') n =
      (if n = name \<and> is_Ok r then Some data else saved_value c (st_folder st) n)"
    using own by metis
  then show ?thesis using saved_value_read by auto
qed

text \<open>Damage after a save costs one save: when a good store was saved over and its file is then
  damaged or deleted, reading gives the state before that save, less its stale secrets, out of the
  backup the save made.\<close>

theorem damage_costs_one_save:
  assumes "write_json c io fits name data st = (Inr (), st')" and "is_versioned_store name"
    and "\<forall>v. cd_parse c (cd_render c v) = Some v"
    and "read_file io (st_folder st) name = Contents raw" and "decode_as c fits name raw = Inr previous"
    and "io_write io (last_good name) = None" and "fits (backup_without_stale_secrets previous data)"
    and "st_folder hurt = al_put name (t, junk) (st_folder st') \<and> decode_bytes c name junk = Inl Undecodable
       \<or> st_folder hurt = al_del name (st_folder st')"
    and "\<not> io_no_folder later" and "\<not> io_unreadable later name" and "\<not> io_unreadable later (last_good name)"
  shows "fst (read_json c later fits name fallback hurt) = backup_without_stale_secrets previous data"
  using assms(1)
proof (cases rule: write_json_steps)
  case (written st1)
  let ?b = "backup_without_stale_secrets previous data"
  obtain v where "decode_bytes c name raw = Inr v" using assms(5) by (auto simp: decode_as_def split: sum.splits)
  then have "st1 = st" using ensure_writable_readable [OF written(2)] assms(4) by blast
  then have backup: "map_of (st_folder (keep_previous c io fits name data st1)) (last_good name)
      = Some (io_now io, cd_render c (encode_versioned_store name ?b))"
    using assms(4-6) by (simp add: keep_previous_def write_backup_def publish_def)
  have decoded: "decode_as c fits (last_good name) (cd_render c (encode_versioned_store name ?b)) = Inr ?b"
    using assms(2,3,7) by (simp add: decode_as_def decode_bytes_def decode_encode_backup)
  have recovered: "recover c later fits name s = Some ?b"
    if "map_of (st_folder s) (last_good name) = map_of (st_folder hurt) (last_good name)" for s
    using that assms(8,9,11) written(4) backup decoded last_good_ne [of name]
    by (auto simp: recover_def read_file_def)
  from assms(8) show ?thesis
  proof
    assume damaged: "st_folder hurt = al_put name (t, junk) (st_folder st') \<and> decode_bytes c name junk = Inl Undecodable"
    obtain k d where k: "archive_corrupt c later name junk (st_folder hurt) = (k, d)" by fastforce
    have "map_of d (last_good name) = map_of (st_folder hurt) (last_good name)" using archive_frame [OF k] by simp
    then show ?thesis
      using damaged assms(9,10) k recovered
      by (simp add: read_json_def read_file_def decode_as_def note_issue_def Let_def)
  next
    assume "st_folder hurt = al_del name (st_folder st')"
    then show ?thesis using assms(9,10) recovered by (simp add: read_json_def read_file_def Let_def)
  qed
qed simp

text \<open>The copies are pruned by their times of change, so with the clock set back the copy just made can
  be the one that goes: when five copies are newer than the clock, keeping a further one reports
  success and leaves no copy, and the save that relies on it replaces the only bytes there were.\<close>

theorem clock_set_back_loses_copy:
  assumes "al_ok d" and "corrupt_copies_kept \<le> length (corrupt_copies name d)"
    and "\<forall>(u, m) \<in> set (corrupt_copies name d). io_now io < u"
    and "corrupt_name c name raw \<notin> fst ` set d"
    and "io_write io (corrupt_name c name raw) = None" and "io_list io = None" and "\<forall>n. io_remove io n = None"
  shows "\<exists>d'. archive_corrupt c io name raw d = (Inr (), d') \<and> map_of d' (corrupt_name c name raw) = None"
proof -
  let ?n = "corrupt_name c name raw" and ?t = "io_now io"
  let ?e = "al_put ?n (?t, raw) d"
  let ?ys = "newest_first (corrupt_copies name ?e)"
  have fresh: "map_of d ?n = None" using assms(4) by (simp add: map_of_eq_None_iff)
  then have app: "?e = d @ [(?n, ?t, raw)]" by (simp add: al_put_fresh al_has_def)
  have "prefix (file_stem name @ ''.corrupt-'') ?n" "suffix ''.bak'' ?n"
    by (simp_all add: corrupt_name_def with_extension_def suffix_def)
  then have copies: "corrupt_copies name ?e = corrupt_copies name d @ [(?t, ?n)]"
    by (simp add: app corrupt_copies_def)
  have last: "(?t, ?n) \<in> set (drop corrupt_copies_kept ?ys)"
  proof (rule ccontr)
    assume not: "(?t, ?n) \<notin> set (drop corrupt_copies_kept ?ys)"
    have mem: "(?t, ?n) \<in> set ?ys" using copies by simp
    then have early: "(?t, ?n) \<in> set (take corrupt_copies_kept ?ys)"
      using not by (metis Un_iff append_take_drop_id set_append)
    have "corrupt_copies_kept < length ?ys" using assms(2) by (simp add: newest_first_def copies)
    then obtain z where z: "z \<in> set (drop corrupt_copies_kept ?ys)" by (metis drop_eq_Nil last_in_set not_le)
    obtain u m where um: "z = (u, m)" by (cases z)
    have "(u, m) \<in> set (corrupt_copies name d)" using z um not copies in_set_dropD set_newest_first by fastforce
    then have "?t < u" using assms(3) by auto
    moreover have "- int ?t \<le> - int u"
    proof -
      have "sorted (map (\<lambda>(t, n). - int t) (take corrupt_copies_kept ?ys) @ map (\<lambda>(t, n). - int t) (drop corrupt_copies_kept ?ys))"
        by (simp only: map_append [symmetric] append_take_drop_id) (simp add: newest_first_def)
      then show ?thesis using early z um by (force simp: sorted_append)
    qed
    ultimately show False by simp
  qed
  have gone: "\<exists>f. remove_files io ns e = (Inr (), f) \<and> (\<forall>n \<in> set ns. map_of f n = None)
      \<and> (\<forall>n. map_of e n = None \<longrightarrow> map_of f n = None)" for ns e
    by (induction ns arbitrary: e) (use assms(7) in \<open>force+\<close>)
  have "read_file io d ?n \<noteq> Contents raw" using fresh by (simp add: read_file_def)
  then show ?thesis
    using gone [of "map snd (drop corrupt_copies_kept ?ys)" ?e] last assms(5,6)
    by (force simp: archive_corrupt_def publish_def)
qed

section \<open>Witnesses\<close>

instance json_number :: countable by countable_datatype
instance json :: countable by countable_datatype

text \<open>A codec that is a round trip on every value: as many letters as the value's number.\<close>

definition unary_codec :: codec where
  "unary_codec = \<lparr>cd_parse = (\<lambda>s. Some (from_nat (length s))), cd_render = (\<lambda>v. replicate (to_nat v) (CHR ''x'')),
     cd_digest = (\<lambda>s. ''0'')\<rparr>"

definition calm :: io where
  "calm = \<lparr>io_now = 9, io_no_folder = False, io_unreadable = (\<lambda>_. False), io_write = (\<lambda>_. None),
     io_remove = (\<lambda>_. None), io_list = None, io_create_dir = None, io_temporary = None\<rparr>"

lemma calm_simps [simp]:
  "publish calm n b d = (Inr (), al_put n (9, b) d)" "io_create_dir calm = None" "io_temporary calm = None"
  "io_write calm = (\<lambda>_. None)" "\<not> io_no_folder calm" "\<not> io_unreadable calm n" "io_list calm = None"
  "io_remove calm = (\<lambda>_. None)" "io_now calm = 9"
  by (simp_all add: publish_def calm_def)

definition blank_store :: store where "blank_store = \<lparr>st_folder = [], st_issues = []\<rparr>"

theorem stores_refine_map_witness:
  "\<exists>st. saved_value unary_codec (st_folder st) ''tabs.json'' = Some (JBool True)
     \<and> saved_value unary_codec (st_folder st) ''sites.json'' = None
     \<and> read_json unary_codec calm (\<lambda>_. True) ''tabs.json'' JNull st = (JBool True, st)"
proof -
  obtain st where st: "write_json unary_codec calm (\<lambda>_. True) ''tabs.json'' (JBool True) blank_store = (Inr (), st)"
    by (simp add: write_json_def write_json_unnamed_def ensure_writable_def blank_store_def read_file_def Let_def)
  have codec: "\<forall>v. cd_parse unary_codec (cd_render unary_codec v) = Some v" by (simp add: unary_codec_def)
  have v: "is_versioned_store ''tabs.json''" "is_versioned_store ''sites.json''" by code_simp+
  have vals: "saved_value unary_codec (st_folder st) ''tabs.json'' = Some (JBool True)"
    "saved_value unary_codec (st_folder st) ''sites.json'' = None"
    using stores_refine_map [OF codec v(1) st] v by (simp_all add: saved_value_def blank_store_def)
  obtain r st2 where "write_json unary_codec calm (\<lambda>_. True) ''tabs.json'' JNull st = (r, st2)" by fastforce
  from stores_refine_map [OF codec v(1) this, of calm JNull] vals show ?thesis by (intro exI [of _ st]) simp
qed

theorem damage_costs_one_save_witness:
  "\<exists>st. fst (read_json unary_codec calm (\<lambda>_. True) ''tabs.json'' JNull st) = JBool True"
proof -
  let ?old = "cd_render unary_codec (encode_versioned_store ''tabs.json'' (JBool True))"
  let ?before = "\<lparr>st_folder = [(''tabs.json'', 1, ?old)], st_issues = []\<rparr>"
  have v: "is_versioned_store ''tabs.json''" by code_simp
  have codec: "\<forall>v. cd_parse unary_codec (cd_render unary_codec v) = Some v" by (simp add: unary_codec_def)
  then have bytes: "decode_bytes unary_codec ''tabs.json'' ?old = Inr (JBool True)"
    by (simp add: decode_bytes_def decode_encode [OF v])
  have raw: "read_file calm (st_folder ?before) ''tabs.json'' = Contents ?old"
    by (simp add: read_file_def)
  obtain st where st: "write_json unary_codec calm (\<lambda>_. True) ''tabs.json'' (JBool False) ?before = (Inr (), st)"
    using raw bytes
    by (simp add: write_json_def write_json_unnamed_def ensure_writable_def Let_def)
  have "fst (read_json unary_codec calm (\<lambda>_. True) ''tabs.json'' JNull (st\<lparr>st_folder := al_del ''tabs.json'' (st_folder st)\<rparr>))
      = backup_without_stale_secrets (JBool True) (JBool False)"
    by (rule damage_costs_one_save [OF st v codec raw])
       (use bytes in \<open>simp_all add: decode_as_def calm_def\<close>)
  then show ?thesis by auto
qed

theorem unread_bytes_survive_saving_witness:
  "\<exists>c io st st' t. map_of (st_folder st') (corrupt_name c ''tabs.json'' ''{'') = Some (t, ''{'')
     \<and> write_json c io (\<lambda>_. True) ''tabs.json'' JNull st = (Inr (), st')"
proof -
  let ?c = "unary_codec\<lparr>cd_parse := \<lambda>_. None\<rparr>"
  let ?st = "\<lparr>st_folder = [(''tabs.json'', 1, ''{'')], st_issues = []\<rparr>"
  obtain r st' where st': "write_json ?c calm (\<lambda>_. True) ''tabs.json'' JNull ?st = (r, st')" by fastforce
  have ok: "r = Inr ()"
    using st' by (simp add: write_json_def write_json_unnamed_def ensure_writable_def Let_def
        read_file_def decode_bytes_def archive_corrupt_def corrupt_name_def with_extension_def file_stem_def
        rsplit_once_at_def corrupt_copies_def newest_first_def corrupt_copies_kept_def unary_codec_def al_put_def
        split: prod.splits)
  have "\<exists>t. map_of (st_folder st') (corrupt_name ?c ''tabs.json'' ''{'') = Some (t, ''{'')"
    using unread_bytes_survive_saving [OF _ _ st', of "''{''" Undecodable] ok
    by (simp add: read_file_def decode_bytes_def)
  then show ?thesis using st' ok by blast
qed

theorem clock_set_back_loses_copy_witness:
  "\<exists>c d'. archive_corrupt c calm ''tabs.json'' ''{'' (map (\<lambda>n. (''tabs.corrupt-'' @ n @ ''.bak'', 20, n)) [''a'', ''b'', ''c'', ''d'', ''e''])
     = (Inr (), d') \<and> map_of d' (corrupt_name c ''tabs.json'' ''{'') = None"
proof (intro exI [of _ unary_codec] clock_set_back_loses_copy)
qed (simp_all add: corrupt_copies_def corrupt_copies_kept_def corrupt_name_def with_extension_def
      file_stem_def rsplit_once_at_def unary_codec_def suffix_def)

end
