(* ===== verification/KnownHosts.thy ===== *)
theory KnownHosts
  imports Storage
begin

text \<open>
  SSH host keys, trusted on first use: the trust store (\<open>store/known_hosts.rs\<close>), the contract the
  SFTP driver relies on (\<open>protocol/known_hosts.rs\<close>, the locale \<open>known_hosts\<close>) and the check of a
  server's key (\<open>protocol/sftp/host_key.rs\<close>). Each call holds the lock of the store file, so it is
  one step. The digest of a key is a parameter.
\<close>

section \<open>The contract\<close>

datatype pin_outcome = Pinned | Matched | Unknown | Mismatched string

text \<open>What went wrong, where the code words an error of its own.\<close>

datatype trust_error =
    PreviousStoreExists | TrustUnreadable | TrustUndecodable | TrustInvalid | KeyChanged
  | TrustWrite error_code

section \<open>The store\<close>

definition known_hosts_file :: string where "known_hosts_file = ''known_hosts.json''"

definition trust_entry_ok :: "string \<times> json \<Rightarrow> bool" where
  "trust_entry_ok e =
     ((case rsplit_once_at (CHR '':'') (fst e) of
         None \<Rightarrow> False | Some (_, port) \<Rightarrow> parse_unsigned u16_max port \<noteq> None)
      \<and> (case as_str (snd e) of None \<Rightarrow> False | Some s \<Rightarrow> s \<noteq> []))"

definition decode_trust :: "codec \<Rightarrow> string \<Rightarrow> trust_error + json_map" where
  "decode_trust c raw =
     (case decode_bytes c known_hosts_file raw of
        Inr (JObject hosts) \<Rightarrow> if \<forall>e \<in> set hosts. trust_entry_ok e then Inr hosts else Inl TrustInvalid
      | _ \<Rightarrow> Inl TrustUndecodable)"

definition read_trust_store :: "codec \<Rightarrow> io \<Rightarrow> folder \<Rightarrow> trust_error + json_map" where
  "read_trust_store c io d =
     (case read_file io d known_hosts_file of
        Contents raw \<Rightarrow> decode_trust c raw
      | NoFile \<Rightarrow> if al_has (last_good known_hosts_file) d then Inl PreviousStoreExists else Inr []
      | _ \<Rightarrow> Inl TrustUnreadable)"

definition host_key_name :: "string \<Rightarrow> nat \<Rightarrow> string" where
  "host_key_name host port = host @ '':'' @ show_nat port"

definition save_trust :: "codec \<Rightarrow> io \<Rightarrow> json_map \<Rightarrow> store \<Rightarrow> (trust_error + unit) \<times> store" where
  "save_trust c io hosts st =
     (case write_json c io is_map known_hosts_file (JObject hosts) st of
        (Inl e, st') \<Rightarrow> (Inl (TrustWrite e), st') | (Inr _, st') \<Rightarrow> (Inr (), st'))"

definition pin_or_verify ::
  "codec \<Rightarrow> io \<Rightarrow> string \<Rightarrow> nat \<Rightarrow> string \<Rightarrow> bool \<Rightarrow> store \<Rightarrow> (trust_error + pin_outcome) \<times> store" where
  "pin_or_verify c io host port fingerprint allow_first_pin st =
     (case read_trust_store c io (st_folder st) of
        Inl e \<Rightarrow> (Inl e, st)
      | Inr hosts \<Rightarrow>
          (let key = host_key_name host port
           in case get_str hosts key of
                None \<Rightarrow>
                  if \<not> allow_first_pin then (Inr Unknown, st)
                  else (case save_trust c io (al_put key (JString fingerprint) hosts) st of
                          (Inl e, st') \<Rightarrow> (Inl e, st') | (Inr _, st') \<Rightarrow> (Inr Pinned, st'))
              | Some known \<Rightarrow>
                  if known = fingerprint then (Inr Matched, st) else (Inr (Mismatched known), st)))"

definition trust_fingerprint ::
  "codec \<Rightarrow> io \<Rightarrow> string \<Rightarrow> nat \<Rightarrow> string option \<Rightarrow> string \<Rightarrow> store \<Rightarrow> (trust_error + unit) \<times> store" where
  "trust_fingerprint c io host port expected actual st =
     (case read_trust_store c io (st_folder st) of
        Inl e \<Rightarrow> (Inl e, st)
      | Inr hosts \<Rightarrow>
          (let key = host_key_name host port
           in if get_str hosts key \<noteq> expected then (Inl KeyChanged, st)
              else save_trust c io (al_put key (JString actual) hosts) st))"

section \<open>The check of a server's key\<close>

record host_key_mismatch =
  hm_host :: string
  hm_port :: nat
  hm_expected :: "string option"
  hm_actual :: string

definition hex_digit :: "nat \<Rightarrow> char" where
  "hex_digit n = (if n < 10 then char_of (48 + n) else char_of (87 + n))"

definition encode_hex :: "string \<Rightarrow> string" where
  "encode_hex bs = concat (map (\<lambda>b. [hex_digit (code b div 16), hex_digit (code b mod 16)]) bs)"

text \<open>\<open>pin\<close> is the store the connection was given; the digest and the raw key are what the SSH
  library hands over.\<close>

definition check_server_key ::
  "(string \<Rightarrow> nat \<Rightarrow> string \<Rightarrow> bool \<Rightarrow> 's \<Rightarrow> (trust_error + pin_outcome) \<times> 's)
    \<Rightarrow> (string \<Rightarrow> string) \<Rightarrow> string \<Rightarrow> nat \<Rightarrow> bool \<Rightarrow> string \<Rightarrow> 's
    \<Rightarrow> (trust_error + bool) \<times> host_key_mismatch option \<times> 's" where
  "check_server_key pin sha256 host port allow raw st =
     (let fingerprint = encode_hex (sha256 raw)
      in case pin host port fingerprint allow st of
           (Inl e, st') \<Rightarrow> (Inl e, None, st')
         | (Inr Pinned, st') \<Rightarrow> (Inr True, None, st')
         | (Inr Matched, st') \<Rightarrow> (Inr True, None, st')
         | (Inr outcome, st') \<Rightarrow>
             (Inr False,
              Some \<lparr>hm_host = host, hm_port = port,
                hm_expected = (case outcome of Mismatched expected \<Rightarrow> Some expected | _ \<Rightarrow> None),
                hm_actual = fingerprint\<rparr>, st'))"

definition mismatch_text :: "host_key_mismatch \<Rightarrow> string" where
  "mismatch_text m =
     (case hm_expected m of
        Some expected \<Rightarrow>
          ''The server key for '' @ hm_host m @ '':'' @ show_nat (hm_port m)
          @ '' has changed since the last connection (expected SHA256 fingerprint '' @ expected
          @ '', got '' @ hm_actual m
          @ ''). This may indicate a spoofed server (a man-in-the-middle attack) or that the server was reinstalled. Connection stopped.''
      | None \<Rightarrow>
          ''This is the first connection to '' @ hm_host m @ '':'' @ show_nat (hm_port m)
          @ '', and its SHA256 host key fingerprint '' @ hm_actual m
          @ '' has not been confirmed. Compare it with the fingerprint the server's administrator published before trusting it. Connection stopped.'')"

section \<open>Lemmas\<close>

lemma colon_not_shown: "CHR '':'' \<notin> set (show_nat n)"
  using show_nat_digits [of "CHR '':''" n] by (auto simp: in_range_def)

lemma split_host_key: "rsplit_once_at (CHR '':'') (host_key_name host port) = Some (host, show_nat port)"
  using rsplit_once_at_append [OF colon_not_shown [of port], of host] by (simp add: host_key_name_def)

lemma host_key_name_inject: "host_key_name h p = host_key_name h' p' \<longleftrightarrow> h = h' \<and> p = p'"
proof
  assume eq: "host_key_name h p = host_key_name h' p'"
  then have "h = h'" "show_nat p = show_nat p'" using split_host_key by (metis option.inject prod.inject)+
  then show "h = h' \<and> p = p'" using digits_value_show by (metis option.inject)
qed simp

section \<open>The contract, and what a client gets from it\<close>

text \<open>The connections of a run, in order: each with what the system made of its calls, its server, its
  trust policy and the key the server showed. The keys accepted, in order, and the store left.\<close>

fun accepted_keys ::
  "('e \<Rightarrow> string \<Rightarrow> nat \<Rightarrow> string \<Rightarrow> bool \<Rightarrow> 's \<Rightarrow> (trust_error + pin_outcome) \<times> 's) \<Rightarrow> (string \<Rightarrow> string)
    \<Rightarrow> ('e \<times> string \<times> nat \<times> bool \<times> string) list \<Rightarrow> 's \<Rightarrow> (string \<times> nat \<times> string) list \<times> 's" where
  "accepted_keys pin sha256 [] s = ([], s)"
| "accepted_keys pin sha256 ((e, host, port, allow, raw) # xs) s =
     (case check_server_key (pin e) sha256 host port allow raw s of
        (r, _, s') \<Rightarrow>
          (case accepted_keys pin sha256 xs s' of
             (ks, t) \<Rightarrow> (if r = Inr True then (host, port, encode_hex (sha256 raw)) # ks else ks, t)))"

locale known_hosts =
  fixes pins :: "'s \<Rightarrow> string \<Rightarrow> nat \<Rightarrow> string option"
    and pin :: "'e \<Rightarrow> string \<Rightarrow> nat \<Rightarrow> string \<Rightarrow> bool \<Rightarrow> 's \<Rightarrow> (trust_error + pin_outcome) \<times> 's"
  assumes pinned: "pin e h p f a s = (Inr Pinned, s') \<Longrightarrow> f \<noteq> [] \<Longrightarrow> p \<le> u16_max
      \<Longrightarrow> a \<and> pins s h p = None \<and> pins s' h' p' = (if h' = h \<and> p' = p then Some f else pins s h' p')"
    and matched: "pin e h p f a s = (Inr Matched, s') \<Longrightarrow> pins s h p = Some f"
    and unknown: "pin e h p f a s = (Inr Unknown, s') \<Longrightarrow> \<not> a \<and> pins s h p = None"
    and mismatched: "pin e h p f a s = (Inr (Mismatched k), s') \<Longrightarrow> pins s h p = Some k \<and> k \<noteq> f"
    and unchanged: "pin e h p f a s = (r, s') \<Longrightarrow> r \<noteq> Inr Pinned \<Longrightarrow> pins s' h' p' = pins s h' p'"
begin

lemma check_step:
  assumes "check_server_key (pin e) sha256 host port allow raw s = (r, m, s')"
    and "encode_hex (sha256 raw) \<noteq> []" and "port \<le> u16_max"
  shows "(pins s h p = Some g \<longrightarrow> pins s' h p = Some g)
    \<and> (r = Inr True \<longrightarrow> pins s' host port = Some (encode_hex (sha256 raw)))"
proof -
  let ?f = "encode_hex (sha256 raw)"
  obtain o' t where o': "pin e host port ?f allow s = (o', t)" by fastforce
  show ?thesis
  proof (cases "o' = Inr Pinned")
    case True
    then have "s' = t" using assms(1) o' by (simp add: check_server_key_def)
    then show ?thesis using pinned [OF o' [unfolded True] assms(2,3)] by auto
  next
    case False
    have same: "pins t h' p' = pins s h' p'" for h' p' using unchanged [OF o' False] .
    have "s' = t \<and> (r = Inr True \<longrightarrow> o' = Inr Matched)"
      using assms(1) o' False by (auto simp: check_server_key_def Let_def split: sum.splits pin_outcome.splits)
    then show ?thesis using same matched o' by metis
  qed
qed

lemma accepted_keys_pinned:
  assumes "accepted_keys pin sha256 xs s = (ks, t)" and "\<forall>raw. encode_hex (sha256 raw) \<noteq> []"
    and "\<forall>(e, h, p, a, raw) \<in> set xs. p \<le> u16_max"
  shows "(\<forall>h p g. pins s h p = Some g \<longrightarrow> pins t h p = Some g) \<and> (\<forall>(h, p, f) \<in> set ks. pins t h p = Some f)"
  using assms
proof (induction xs arbitrary: s ks)
  case Nil
  then show ?case by simp
next
  case (Cons x xs)
  obtain e host port allow raw where x: "x = (e, host, port, allow, raw)" by (cases x)
  obtain r m s' where r: "check_server_key (pin e) sha256 host port allow raw s = (r, m, s')" by (metis prod_cases3)
  obtain rest t' where rest: "accepted_keys pin sha256 xs s' = (rest, t')" by fastforce
  have t: "t' = t" "ks = (if r = Inr True then (host, port, encode_hex (sha256 raw)) # rest else rest)"
    using Cons.prems(1) r rest by (simp_all add: x)
  have port: "port \<le> u16_max" using Cons.prems(3) by (simp add: x)
  have step: "(pins s h p = Some g \<longrightarrow> pins s' h p = Some g)
    \<and> (r = Inr True \<longrightarrow> pins s' host port = Some (encode_hex (sha256 raw)))" for h p g
    by (rule check_step [OF r _ port]) (use Cons.prems(2) in blast)
  have IH: "(\<forall>h p g. pins s' h p = Some g \<longrightarrow> pins t h p = Some g) \<and> (\<forall>(h, p, f) \<in> set rest. pins t h p = Some f)"
    using Cons.IH [of s' rest] rest t(1) Cons.prems(2,3) by simp
  then show ?case using step t(2) by auto
qed

lemma accepted_keys_agree:
  assumes "accepted_keys pin sha256 xs s = (ks, t)" and "\<forall>raw. encode_hex (sha256 raw) \<noteq> []"
    and "\<forall>(e, h, p, a, raw) \<in> set xs. p \<le> u16_max" and "(h, p, f) \<in> set ks"
  shows "pins t h p = Some f \<and> (\<forall>g. (h, p, g) \<in> set ks \<longrightarrow> g = f) \<and> (pins s h p = None \<or> pins s h p = Some f)"
proof -
  have all: "(\<forall>h p g. pins s h p = Some g \<longrightarrow> pins t h p = Some g) \<and> (\<forall>(h, p, f) \<in> set ks. pins t h p = Some f)"
    by (rule accepted_keys_pinned [OF assms(1-3)])
  have f: "pins t h p = Some f" using all assms(4) by auto
  moreover have "g = f" if "(h, p, g) \<in> set ks" for g using all that f by auto
  moreover have "pins s h p = None \<or> pins s h p = Some f" using all f by (cases "pins s h p") auto
  ultimately show ?thesis by blast
qed

end

text \<open>The trust store keeps the contract, given a codec that reads what it wrote.\<close>

definition pins_of :: "codec \<Rightarrow> store \<Rightarrow> string \<Rightarrow> nat \<Rightarrow> string option" where
  "pins_of c st host port =
     (case map_of (st_folder st) known_hosts_file of
        None \<Rightarrow> None
      | Some (t, raw) \<Rightarrow>
          (case decode_trust c raw of Inl _ \<Rightarrow> None | Inr hosts \<Rightarrow> get_str hosts (host_key_name host port)))"

lemma known_hosts_versioned: "is_versioned_store known_hosts_file"
  by (simp add: is_versioned_store_def versioned_stores_def known_hosts_file_def)

lemma pins_of_same:
  "map_of (st_folder st') known_hosts_file = map_of (st_folder st) known_hosts_file
   \<Longrightarrow> pins_of c st' host port = pins_of c st host port"
  by (simp add: pins_of_def)

lemma read_trust_pins:
  assumes "read_trust_store c io (st_folder st) = Inr hosts"
  shows "get_str hosts (host_key_name host port) = pins_of c st host port" and "\<forall>e \<in> set hosts. trust_entry_ok e"
  using assms
  by (auto simp: read_trust_store_def read_file_def pins_of_def get_str_def decode_trust_def
      split: read_result.splits if_splits option.splits sum.splits json.splits)

lemma save_trust_pins:
  assumes "\<forall>v. cd_parse c (cd_render c v) = Some v" and "save_trust c io hosts st = (Inr (), st')"
    and "\<forall>e \<in> set hosts. trust_entry_ok e"
  shows "pins_of c st' host port = get_str hosts (host_key_name host port)"
proof -
  have "write_json c io is_map known_hosts_file (JObject hosts) st = (Inr (), st')"
    using assms(2) by (auto simp: save_trust_def split: prod.splits sum.splits)
  then show ?thesis
  proof (cases rule: write_json_steps)
    case (written st1)
    then show ?thesis
      using assms(1,3)
      by (simp add: pins_of_def decode_trust_def decode_bytes_def decode_encode [OF known_hosts_versioned])
  qed simp
qed

lemma save_trust_failed:
  assumes "save_trust c io hosts st = (Inl e, st')"
  shows "pins_of c st' host port = pins_of c st host port"
proof -
  obtain x where "write_json c io is_map known_hosts_file (JObject hosts) st = (Inl x, st')"
    using assms by (auto simp: save_trust_def split: prod.splits sum.splits)
  then have "map_of (st_folder st') known_hosts_file = map_of (st_folder st) known_hosts_file"
    by (cases rule: write_json_steps) simp_all
  then show ?thesis by (rule pins_of_same)
qed

lemma trust_entry_put:
  assumes "\<forall>e \<in> set hosts. trust_entry_ok e" and "f \<noteq> []" and "p \<le> u16_max"
  shows "\<forall>e \<in> set (al_put (host_key_name h p) (JString f) hosts). trust_entry_ok e"
proof -
  have "trust_entry_ok (host_key_name h p, JString f)"
    using assms(2,3) by (simp add: trust_entry_ok_def split_host_key parse_show)
  then show ?thesis using assms(1) set_al_put [of "host_key_name h p" "JString f" hosts] by blast
qed

lemma trust_store_contract:
  assumes codec: "\<forall>v. cd_parse c (cd_render c v) = Some v"
  shows "known_hosts (pins_of c) (pin_or_verify c)"
proof
  fix e h p f a s s' h' p'
  assume run: "pin_or_verify c e h p f a s = (Inr Pinned, s')" and f: "f \<noteq> []" "p \<le> u16_max"
  then obtain hosts where hosts: "read_trust_store c e (st_folder s) = Inr hosts"
      "get_str hosts (host_key_name h p) = None" "a"
      "save_trust c e (al_put (host_key_name h p) (JString f) hosts) s = (Inr (), s')"
    by (auto simp: pin_or_verify_def Let_def split: sum.splits option.splits if_splits prod.splits)
  then show "a \<and> pins_of c s h p = None \<and> pins_of c s' h' p' = (if h' = h \<and> p' = p then Some f else pins_of c s h' p')"
    using save_trust_pins [OF codec hosts(4) trust_entry_put [OF read_trust_pins(2) [OF hosts(1)] f]]
      read_trust_pins(1) [OF hosts(1), symmetric] host_key_name_inject [of h' p' h p]
    by (simp add: get_str_def)
next
  fix e h p f a s s'
  assume "pin_or_verify c e h p f a s = (Inr Matched, s')"
  then show "pins_of c s h p = Some f"
    using read_trust_pins(1) [of c e s]
    by (auto simp: pin_or_verify_def Let_def split: sum.splits option.splits if_splits prod.splits)
next
  fix e h p f a s s'
  assume "pin_or_verify c e h p f a s = (Inr Unknown, s')"
  then show "\<not> a \<and> pins_of c s h p = None"
    using read_trust_pins(1) [of c e s]
    by (auto simp: pin_or_verify_def Let_def split: sum.splits option.splits if_splits prod.splits)
next
  fix e h p f a s s' k
  assume "pin_or_verify c e h p f a s = (Inr (Mismatched k), s')"
  then show "pins_of c s h p = Some k \<and> k \<noteq> f"
    using read_trust_pins(1) [of c e s]
    by (auto simp: pin_or_verify_def Let_def split: sum.splits option.splits if_splits prod.splits)
next
  fix e h p f a s r s' h' p'
  assume "pin_or_verify c e h p f a s = (r, s')" and "r \<noteq> Inr Pinned"
  then show "pins_of c s' h' p' = pins_of c s h' p'"
    using save_trust_failed
    by (auto simp: pin_or_verify_def Let_def split: sum.splits option.splits if_splits prod.splits)
qed

locale lossless_codec =
  fixes c :: codec
  assumes lossless: "cd_parse c (cd_render c v) = Some v"

sublocale lossless_codec \<subseteq> known_hosts "pins_of c" "pin_or_verify c"
  by (rule trust_store_contract) (simp add: lossless)

interpretation unary: lossless_codec unary_codec
  by unfold_locales (simp add: unary_codec_def)

section \<open>Properties\<close>

text \<open>C14: Trust on first use: over any run of connections, in any order and with any failures of the store
  between them, all the keys accepted for one server are one key, which the store holds in the end
  and which was the pinned one if one was pinned before.\<close>

theorem one_key_per_server:
  assumes "\<forall>v. cd_parse c (cd_render c v) = Some v" and "\<forall>raw. sha256 raw \<noteq> []"
    and "\<forall>(e, h, p, a, raw) \<in> set xs. p \<le> u16_max"
    and "accepted_keys (pin_or_verify c) sha256 xs st = (ks, st')" and "(h, p, f) \<in> set ks"
  shows "pins_of c st' h p = Some f \<and> (\<forall>g. (h, p, g) \<in> set ks \<longrightarrow> g = f)
    \<and> (pins_of c st h p = None \<or> pins_of c st h p = Some f)"
proof -
  have hex: "\<forall>raw. encode_hex (sha256 raw) \<noteq> []"
  proof
    fix raw
    show "encode_hex (sha256 raw) \<noteq> []" using assms(2) by (cases "sha256 raw") (auto simp: encode_hex_def)
  qed
  show ?thesis
    by (rule known_hosts.accepted_keys_agree [OF trust_store_contract [OF assms(1)] assms(4) hex assms(3,5)])
qed

theorem one_key_per_server_witness:
  "\<exists>st. pins_of unary_codec st ''h'' 22 = Some ''6b''
     \<and> fst (accepted_keys (pin_or_verify unary_codec) (\<lambda>_. ''k'') [(calm, ''h'', 22, True, [])] blank_store) = [(''h'', 22, ''6b'')]"
proof -
  have hex: "encode_hex ''k'' = ''6b''" by code_simp
  obtain st where st: "accepted_keys (pin_or_verify unary_codec) (\<lambda>_. ''k'') [(calm, ''h'', 22, True, [])] blank_store
      = ([(''h'', 22, ''6b'')], st)"
    by (simp add: check_server_key_def pin_or_verify_def read_trust_store_def read_file_def blank_store_def
        al_has_def save_trust_def write_json_def write_json_unnamed_def ensure_writable_def keep_previous_def
        get_str_def Let_def hex host_key_name_def)
  have "pins_of unary_codec st ''h'' 22 = Some ''6b''"
    using one_key_per_server [OF _ _ _ st, of "''h''" 22 "''6b''"] by (simp add: unary_codec_def)
  then show ?thesis using st by auto
qed

text \<open>The trust store fails closed: a store that is damaged, of a newer version, malformed in any entry,
  unreadable, or gone although a backup shows that there was one, accepts no key, pins none and
  takes no replacement, and it is left as it is.\<close>

theorem damaged_trust_accepts_nothing:
  assumes "(\<exists>raw e. read_file io (st_folder st) known_hosts_file = Contents raw \<and> decode_trust c raw = Inl e)
    \<or> read_file io (st_folder st) known_hosts_file = ReadFailed
    \<or> read_file io (st_folder st) known_hosts_file = NoFolder
    \<or> read_file io (st_folder st) known_hosts_file = NoFile \<and> al_has (last_good known_hosts_file) (st_folder st)"
  shows "(\<exists>e. check_server_key (pin_or_verify c io) sha256 host port allow raw st = (Inl e, None, st)
      \<and> trust_fingerprint c io host port expected actual st = (Inl e, st))"
proof -
  obtain e where "read_trust_store c io (st_folder st) = Inl e"
    using assms by (auto simp: read_trust_store_def)
  then show ?thesis by (auto simp: check_server_key_def pin_or_verify_def trust_fingerprint_def Let_def)
qed

theorem damaged_trust_accepts_nothing_witness:
  "\<exists>e. check_server_key (pin_or_verify unary_codec calm) (\<lambda>_. ''k'') ''h'' 22 True []
     \<lparr>st_folder = [(''known_hosts.last-good.bak'', 1, [])], st_issues = []\<rparr>
   = (Inl e, None, \<lparr>st_folder = [(''known_hosts.last-good.bak'', 1, [])], st_issues = []\<rparr>)"
proof -
  let ?st = "\<lparr>st_folder = [(''known_hosts.last-good.bak'', 1, [])], st_issues = []\<rparr>"
  have "read_file calm (st_folder ?st) known_hosts_file = NoFile \<and> al_has (last_good known_hosts_file) (st_folder ?st)"
    by (simp add: read_file_def known_hosts_file_def al_has_def last_good_def with_extension_def file_stem_def rsplit_once_at_def)
  then show ?thesis
    using damaged_trust_accepts_nothing [of calm ?st unary_codec "\<lambda>_. ''k''" "''h''" 22 True "[]"] by blast
qed

text \<open>Replacing a key is for the pair that was confirmed: it goes through only while the store holds
  exactly the key the user was shown, or none if none was, and then changes this server's key and
  no other; a replacement that does not go through changes none.\<close>

theorem replacing_a_key_is_compare_and_swap:
  assumes "\<forall>v. cd_parse c (cd_render c v) = Some v" and "actual \<noteq> []" and "port \<le> u16_max"
    and "trust_fingerprint c io host port expected actual st = (r, st')"
  shows "if is_Ok r then pins_of c st host port = expected
      \<and> pins_of c st' h p = (if h = host \<and> p = port then Some actual else pins_of c st h p)
    else pins_of c st' h p = pins_of c st h p"
proof (cases "read_trust_store c io (st_folder st)")
  case (Inl e)
  then show ?thesis using assms(4) by (auto simp: trust_fingerprint_def)
next
  case (Inr hosts)
  let ?hosts = "al_put (host_key_name host port) (JString actual) hosts"
  note old = read_trust_pins(1) [OF Inr]
  show ?thesis
  proof (cases "pins_of c st host port = expected")
    case False
    then show ?thesis using assms(4) Inr old by (auto simp: trust_fingerprint_def Let_def)
  next
    case True
    then have save: "save_trust c io ?hosts st = (r, st')"
      using assms(4) Inr old by (simp add: trust_fingerprint_def Let_def)
    show ?thesis
    proof (cases r)
      case (Inl e)
      then show ?thesis using save save_trust_failed by auto
    next
      case (Inr u)
      have "pins_of c st' h p = get_str ?hosts (host_key_name h p)"
        by (rule save_trust_pins [OF assms(1)])
           (use save Inr trust_entry_put [OF read_trust_pins(2) assms(2,3)] \<open>read_trust_store c io (st_folder st) = Inr hosts\<close> in auto)
      then show ?thesis
        using Inr True old [symmetric] host_key_name_inject [of h p host port] by (simp add: get_str_def)
    qed
  qed
qed

theorem replacing_a_key_is_compare_and_swap_witness:
  "\<exists>st. trust_fingerprint unary_codec calm ''h'' 22 None ''aa'' blank_store = (Inr (), st)
     \<and> pins_of unary_codec st ''h'' 22 = Some ''aa'' \<and> pins_of unary_codec st ''g'' 22 = None"
proof -
  obtain st where st: "trust_fingerprint unary_codec calm ''h'' 22 None ''aa'' blank_store = (Inr (), st)"
    by (simp add: trust_fingerprint_def read_trust_store_def read_file_def blank_store_def al_has_def save_trust_def
        write_json_def write_json_unnamed_def ensure_writable_def get_str_def Let_def)
  have old: "pins_of unary_codec blank_store ''g'' 22 = None" by (simp add: pins_of_def blank_store_def)
  have "pins_of unary_codec st h p = (if h = ''h'' \<and> p = 22 then Some ''aa'' else pins_of unary_codec blank_store h p)" for h p
    using replacing_a_key_is_compare_and_swap [OF _ _ _ st, of h p] by (simp add: unary_codec_def)
  then show ?thesis using st old by auto
qed

end
