(* ===== verification/SecurityPolicy.thy ===== *)
theory SecurityPolicy
  imports Connections
begin

text \<open>
  The settings that protect the user from the renderer (\<open>security/security_policy.rs\<close>): what a
  patch would weaken, which patches need the confirmed command, and what a bulk import keeps.
  \<open>to_text\<close> is \<open>serde_json\<close>'s rendering of a value as text.
\<close>

definition key_confirmations :: string where "key_confirmations = ''showSecurityConfirmations''"
definition key_auto_lock :: string where "key_auto_lock = ''vaultAutoLockMinutes''"
definition key_strict_host :: string where "key_strict_host = ''strictHostKeyCheck''"

record weakening =
  wk_confirmations :: "bool option"
  wk_auto_lock :: "nat option"
  wk_strict_host :: "bool option"

definition weakening_empty :: "weakening \<Rightarrow> bool" where
  "weakening_empty w \<longleftrightarrow> wk_confirmations w = None \<and> wk_auto_lock w = None \<and> wk_strict_host w = None"

definition confirmations_enabled :: "json_map \<Rightarrow> bool" where
  "confirmations_enabled s = the_or True (get_bool s key_confirmations)"

definition auto_lock_minutes :: "json_map \<Rightarrow> nat" where
  "auto_lock_minutes s = the_or 0 (get_u64 s key_auto_lock)"

definition strict_host_key :: "json_map \<Rightarrow> bool" where
  "strict_host_key s = the_or True (get_bool s key_strict_host)"

definition find_weakening :: "json_map \<Rightarrow> json_map \<Rightarrow> weakening" where
  "find_weakening current patch =
     \<lparr>wk_confirmations =
        (if confirmations_enabled current \<and> map_of patch key_confirmations = Some (JBool False)
         then Some False else None),
      wk_auto_lock =
        (case get_u64 patch key_auto_lock of
           None \<Rightarrow> None
         | Some next \<Rightarrow>
             (let now = auto_lock_minutes current
              in if 0 < now \<and> (next = 0 \<or> now < next) then Some next else None)),
      wk_strict_host =
        (if strict_host_key current \<and> map_of patch key_strict_host = Some (JBool False)
         then Some False else None)\<rparr>"

definition without_weakening :: "json_map \<Rightarrow> json_map \<Rightarrow> json_map" where
  "without_weakening current patch =
     (let w = find_weakening current patch;
          a = (if wk_confirmations w \<noteq> None then al_del key_confirmations patch else patch);
          b = (if wk_auto_lock w \<noteq> None then al_del key_auto_lock a else a)
      in if wk_strict_host w \<noteq> None then al_del key_strict_host b else b)"

definition protected_keys :: "string list" where
  "protected_keys = [key_confirmations, key_auto_lock, key_strict_host, ''proxyEnabled'', ''proxyType'',
     ''proxyHost'', ''proxyPort'', ''proxyUsername'', ''proxyPassword'', ''removeProxyPassword'']"

definition needs_confirmation_path :: "json_map \<Rightarrow> json_map \<Rightarrow> bool" where
  "needs_confirmation_path current patch \<longleftrightarrow>
     \<not> weakening_empty (find_weakening current patch) \<or> proxy_transfer current patch \<noteq> None"

definition without_unconfirmed_changes :: "json_map \<Rightarrow> json_map \<Rightarrow> json_map" where
  "without_unconfirmed_changes current patch0 =
     (let patch = without_weakening current patch0
      in if proxy_transfer current patch \<noteq> None then fold al_del proxy_scope_keys patch else patch)"

text \<open>The value a grant is bound to: a new password by whether there is one.\<close>

definition grant_patch :: "json_map \<Rightarrow> json_map" where
  "grant_patch patch =
     map (\<lambda>(k, v). (k, if k = ''proxyPassword'' then JBool (sets_secret patch k) else v))
       (filter (\<lambda>(k, v). k \<in> set protected_keys) patch)"

definition grant_target ::
  "(json_map \<times> secret_transfer option \<Rightarrow> string) \<Rightarrow> json_map \<Rightarrow> json_map \<Rightarrow> string" where
  "grant_target to_text current patch = to_text (grant_patch patch, proxy_transfer current patch)"

section \<open>Lemmas\<close>

lemma keys_distinct [simp]:
  "key_confirmations \<noteq> key_auto_lock" "key_auto_lock \<noteq> key_confirmations"
  "key_confirmations \<noteq> key_strict_host" "key_strict_host \<noteq> key_confirmations"
  "key_auto_lock \<noteq> key_strict_host" "key_strict_host \<noteq> key_auto_lock"
  by (simp_all add: key_confirmations_def key_auto_lock_def key_strict_host_def)

lemma map_of_merge_keys:
  "map_of (merge_keys ks patch current) k =
     (if k \<in> set ks then or_opt (map_of patch k) (map_of current k) else map_of current k)"
  unfolding merge_keys_def
  by (induction ks arbitrary: current) (auto simp: or_opt_def split: option.splits)

lemma map_of_fold_del: "map_of (fold al_del ks m) k = (if k \<in> set ks then None else map_of m k)"
  by (induction ks arbitrary: m) auto

lemma al_del_id: "map_of m k = None \<Longrightarrow> al_del k m = m"
  by (auto simp: al_del_def map_of_eq_None_iff image_iff intro!: filter_True)

lemma find_weakening_frame:
  assumes "map_of p key_confirmations = map_of q key_confirmations"
    and "map_of p key_auto_lock = map_of q key_auto_lock" and "map_of p key_strict_host = map_of q key_strict_host"
  shows "find_weakening current p = find_weakening current q"
  using assms by (simp add: find_weakening_def get_u64_def)

lemma scope_text_frame: "map_of p k = map_of q k \<Longrightarrow> scope_text p k = scope_text q k"
  by (simp add: scope_text_def get_str_def)

lemma proxy_scope_frame:
  assumes "\<forall>k \<in> set proxy_scope_keys. map_of p k = map_of q k"
  shows "proxy_scope p = proxy_scope q"
proof -
  have "scope_port p ''proxyPort'' = scope_port q ''proxyPort''"
    using assms by (simp add: scope_port_def proxy_scope_keys_def)
  moreover have "scope_text p k = scope_text q k" if "k \<in> set proxy_scope_keys" for k
    using assms that by (intro scope_text_frame) blast
  ultimately show ?thesis by (simp add: proxy_scope_def proxy_scope_keys_def)
qed

lemma no_move_without_scope_keys:
  assumes "\<forall>k \<in> set proxy_scope_keys. map_of patch k = None"
  shows "proxy_transfer current patch = None"
proof -
  have "proxy_scope (merge_keys proxy_scope_keys patch current) = proxy_scope current"
    by (rule proxy_scope_frame) (use assms in \<open>simp add: map_of_merge_keys\<close>)
  then show ?thesis by (simp add: proxy_transfer_def secret_move_def)
qed

lemma without_weakening_maps:
  "map_of (without_weakening current patch) k =
     (let w = find_weakening current patch
      in if (k = key_confirmations \<and> wk_confirmations w \<noteq> None) \<or> (k = key_auto_lock \<and> wk_auto_lock w \<noteq> None)
            \<or> (k = key_strict_host \<and> wk_strict_host w \<noteq> None) then None else map_of patch k)"
  by (auto simp: without_weakening_def Let_def)

lemma without_weakening_empty: "weakening_empty (find_weakening current (without_weakening current patch))"
  by (auto simp: weakening_empty_def find_weakening_def without_weakening_maps Let_def get_u64_def
      split: option.split)

lemma protection_keys_not_proxy:
  "key_confirmations \<notin> set proxy_scope_keys" "key_auto_lock \<notin> set proxy_scope_keys" "key_strict_host \<notin> set proxy_scope_keys"
  by (simp_all add: key_confirmations_def key_auto_lock_def key_strict_host_def proxy_scope_keys_def)

section \<open>Properties\<close>

text \<open>A bulk import cannot weaken protection or move the saved proxy password: what is left of
  any patch never needs the confirmed command, and a patch that needs no confirmation comes
  through whole.\<close>

theorem import_keeps_protection:
  "\<not> needs_confirmation_path current (without_unconfirmed_changes current patch)
   \<and> (if needs_confirmation_path current patch then True else without_unconfirmed_changes current patch = patch)"
proof -
  let ?p = "without_weakening current patch"
  let ?q = "fold al_del proxy_scope_keys ?p"
  have "find_weakening current ?q = find_weakening current ?p"
    by (rule find_weakening_frame) (simp_all add: map_of_fold_del protection_keys_not_proxy)
  moreover have "proxy_transfer current ?q = None"
    by (rule no_move_without_scope_keys) (simp add: map_of_fold_del)
  ultimately have "\<not> needs_confirmation_path current (without_unconfirmed_changes current patch)"
    using without_weakening_empty
    by (auto simp: needs_confirmation_path_def without_unconfirmed_changes_def Let_def)
  moreover have "without_unconfirmed_changes current patch = patch"
    if "\<not> needs_confirmation_path current patch"
  proof -
    have "?p = patch"
      using that by (simp add: needs_confirmation_path_def weakening_empty_def without_weakening_def Let_def)
    then show ?thesis
      using that by (simp add: without_unconfirmed_changes_def needs_confirmation_path_def)
  qed
  ultimately show ?thesis by simp
qed

text \<open>The plain settings command cannot lower a guard: when a patch that passes it is merged into
  the settings, confirmations and the host key check that were on stay on, and an idle lock
  that was set stays set and gets no longer; the patch's lock, if any, being a whole number,
  as the schema check has made sure.\<close>

theorem plain_patch_keeps_guards:
  assumes "\<not> needs_confirmation_path current patch"
    and "\<forall>v. map_of patch key_auto_lock = Some v \<longrightarrow> as_u64 v \<noteq> None"
    and "\<forall>k. map_of merged k = or_opt (map_of patch k) (map_of current k)"
  shows "(confirmations_enabled merged \<or> \<not> confirmations_enabled current)
    \<and> (strict_host_key merged \<or> \<not> strict_host_key current)
    \<and> (auto_lock_minutes current = 0
       \<or> 0 < auto_lock_minutes merged \<and> auto_lock_minutes merged \<le> auto_lock_minutes current)"
proof -
  have w: "weakening_empty (find_weakening current patch)"
    using assms(1) by (simp add: needs_confirmation_path_def)
  have bool_kept: "the_or True (get_bool merged k) \<or> \<not> the_or True (get_bool current k)"
    if "\<not> (the_or True (get_bool current k) \<and> map_of patch k = Some (JBool False))" for k
  proof (cases "map_of patch k")
    case None
    then show ?thesis using assms(3) by (simp add: get_bool_def)
  next
    case (Some v)
    then show ?thesis using that assms(3) by (cases v) (auto simp: get_bool_def)
  qed
  have "confirmations_enabled merged \<or> \<not> confirmations_enabled current"
    "strict_host_key merged \<or> \<not> strict_host_key current"
    using bool_kept [of key_confirmations] bool_kept [of key_strict_host] w
    by (auto simp: confirmations_enabled_def strict_host_key_def weakening_empty_def find_weakening_def
        split: if_splits)
  moreover have "auto_lock_minutes current = 0
       \<or> 0 < auto_lock_minutes merged \<and> auto_lock_minutes merged \<le> auto_lock_minutes current"
  proof (cases "map_of patch key_auto_lock")
    case None
    then show ?thesis using assms(3) by (auto simp: auto_lock_minutes_def get_u64_def)
  next
    case (Some v)
    then obtain n where n: "as_u64 v = Some n" using assms(2) by blast
    then have "auto_lock_minutes merged = n"
      using Some assms(3) by (simp add: auto_lock_minutes_def get_u64_def)
    moreover have "\<not> (0 < auto_lock_minutes current \<and> (n = 0 \<or> auto_lock_minutes current < n))"
      using w Some n by (auto simp: weakening_empty_def find_weakening_def get_u64_def Let_def split: if_splits)
    ultimately show ?thesis by auto
  qed
  ultimately show ?thesis by blast
qed

theorem plain_patch_keeps_guards_witness:
  "auto_lock_minutes (merge_keys [key_auto_lock] [(key_auto_lock, JNumber (NonNegative 5))]
      [(key_auto_lock, JNumber (NonNegative 15))]) \<le> 15"
proof -
  let ?current = "[(key_auto_lock, JNumber (NonNegative 15))]"
  let ?patch = "[(key_auto_lock, JNumber (NonNegative 5))]"
  let ?merged = "merge_keys [key_auto_lock] ?patch ?current"
  have "\<not> needs_confirmation_path ?current ?patch" by code_simp
  moreover have "\<forall>v. map_of ?patch key_auto_lock = Some v \<longrightarrow> as_u64 v \<noteq> None" by simp
  moreover have "\<forall>k. map_of ?merged k = or_opt (map_of ?patch k) (map_of ?current k)"
    by (auto simp: map_of_merge_keys)
  ultimately have "auto_lock_minutes ?current = 0
       \<or> 0 < auto_lock_minutes ?merged \<and> auto_lock_minutes ?merged \<le> auto_lock_minutes ?current"
    using plain_patch_keeps_guards by blast
  moreover have "auto_lock_minutes ?current = 15" by (simp add: auto_lock_minutes_def get_u64_def)
  ultimately show ?thesis by simp
qed

text \<open>A grant for protected settings is for one patch: with rendering that tells values apart,
  two patches that would spend it agree on every protected setting, on whether they set a new
  proxy password, and on the password move they make.\<close>

theorem security_grant_binds_patch:
  assumes "inj_on to_text {(grant_patch patch, proxy_transfer current patch),
      (grant_patch other, proxy_transfer current other)}"
    and "grant_target to_text current patch = grant_target to_text current other"
  shows "proxy_transfer current patch = proxy_transfer current other
    \<and> (\<forall>k \<in> set protected_keys. k = ''proxyPassword'' \<or> map_of patch k = map_of other k)
    \<and> sets_secret patch ''proxyPassword'' = sets_secret other ''proxyPassword''"
proof -
  have "(grant_patch patch, proxy_transfer current patch) = (grant_patch other, proxy_transfer current other)"
    using assms(2) by (intro inj_onD [OF assms(1)]) (simp_all add: grant_target_def)
  then have eq: "grant_patch patch = grant_patch other" "proxy_transfer current patch = proxy_transfer current other"
    by simp_all
  have look: "map_of (grant_patch p) k =
      (if k \<notin> set protected_keys then None
       else if k = ''proxyPassword'' then map_option (\<lambda>_. JBool (sets_secret p k)) (map_of p k)
       else map_of p k)" for p k
  proof -
    have a: "map_of (map (\<lambda>(k, v). (k, if k = ''proxyPassword'' then JBool (sets_secret p k) else v)) q) k
        = (if k = ''proxyPassword'' then map_option (\<lambda>_. JBool (sets_secret p k)) (map_of q k) else map_of q k)"
      for q :: json_map
      by (induction q) auto
    have b: "map_of (filter (\<lambda>(k, v). k \<in> set protected_keys) q) k
        = (if k \<in> set protected_keys then map_of q k else None)" for q :: json_map
      by (induction q) auto
    show ?thesis unfolding grant_patch_def a b by simp
  qed
  have "map_of patch k = map_of other k" if "k \<in> set protected_keys" "k \<noteq> ''proxyPassword''" for k
    using look [of patch k] look [of other k] eq(1) that by simp
  moreover have "sets_secret patch ''proxyPassword'' = sets_secret other ''proxyPassword''"
  proof -
    have "''proxyPassword'' \<in> set protected_keys" by (simp add: protected_keys_def)
    then have "map_option (\<lambda>v. JBool (sets_secret patch ''proxyPassword'')) (map_of patch ''proxyPassword'')
        = map_option (\<lambda>v. JBool (sets_secret other ''proxyPassword'')) (map_of other ''proxyPassword'')"
      using look [of patch "''proxyPassword''"] look [of other "''proxyPassword''"] eq(1) by simp
    then show ?thesis
      by (cases "map_of patch ''proxyPassword''"; cases "map_of other ''proxyPassword''")
         (auto simp: sets_secret_def)
  qed
  ultimately show ?thesis using eq(2) by blast
qed

theorem security_grant_binds_patch_witness:
  "grant_target (\<lambda>(p, t). if p = [(''proxyPassword'', JBool True)] then ''one'' else ''other'') []
      [(''proxyPassword'', JString ''a''), (''theme'', JNull)]
    = grant_target (\<lambda>(p, t). if p = [(''proxyPassword'', JBool True)] then ''one'' else ''other'') []
      [(''proxyPassword'', JString ''b'')]
   \<and> sets_secret [(''proxyPassword'', JString ''b'')] ''proxyPassword''"
  (is "?same \<and> _")
proof -
  let ?render = "\<lambda>(p :: json_map, t :: secret_transfer option). if p = [(''proxyPassword'', JBool True)] then ''one'' else ''other''"
  let ?a = "[(''proxyPassword'', JString ''a''), (''theme'', JNull)]"
  let ?b = "[(''proxyPassword'', JString ''b'')]"
  have grants: "grant_patch ?a = [(''proxyPassword'', JBool True)]" "grant_patch ?b = [(''proxyPassword'', JBool True)]"
      "proxy_transfer [] ?a = None" "proxy_transfer [] ?b = None"
    by code_simp+
  have same: ?same unfolding grant_target_def grants by simp
  have "inj_on ?render {(grant_patch ?a, proxy_transfer [] ?a), (grant_patch ?b, proxy_transfer [] ?b)}"
    unfolding grants by (simp add: inj_on_def)
  from security_grant_binds_patch [OF this same] have "sets_secret ?a ''proxyPassword'' = sets_secret ?b ''proxyPassword''"
    by blast
  moreover have "sets_secret ?a ''proxyPassword''" by (simp add: sets_secret_def)
  ultimately show ?thesis using same by blast
qed

end
