(* ===== verification/Settings.thy ===== *)
theory Settings
  imports Storage SecurityPolicy
begin

text \<open>
  The schema every change of the settings is held to (\<open>store/settings_schema.rs\<close>), with the shipped
  defaults as its types. The value of a float and the parser of IPv6 addresses are parameters.
\<close>

section \<open>The schema\<close>

text \<open>\<open>src/shared/settingsDefaults.json\<close>, built into the program.\<close>

definition number_of :: "nat \<Rightarrow> json" where "number_of n = JNumber (NonNegative n)"

definition strings_of :: "string list \<Rightarrow> json" where "strings_of ss = JArray (map JString ss)"

definition panes_of :: "json \<Rightarrow> json" where "panes_of v = JObject [(''a'', v), (''b'', v)]"

definition settings_schema :: json_map where
  "settings_schema =
    [(''theme'', JString ''dark''), (''language'', JString ''en''), (''interfaceScale'', number_of 100),
     (''dateFormat'', JString ''locale''), (''defaultLocalPath'', JString []), (''concurrency'', number_of 3),
     (''connectTimeout'', number_of 20000),
     (''localColumns'', panes_of (strings_of [''size'', ''modifiedAt''])),
     (''remoteColumns'', panes_of (strings_of [''size'', ''modifiedAt''])),
     (''localColumnWidths'', panes_of (JObject [])), (''remoteColumnWidths'', panes_of (JObject [])),
     (''transferColumnWidths'', JObject []), (''transferHiddenColumns'', JArray []),
     (''transferColumnOrder'', strings_of [''file'', ''route'', ''size'', ''transferred'', ''progress'', ''speed'',
        ''remaining'', ''status'']),
     (''showLocalPane'', JBool True), (''showRemotePane'', JBool True), (''showTransferQueue'', JBool True),
     (''showHiddenFiles'', JBool False), (''coloredTabs'', JBool True), (''logEnabled'', JBool False),
     (''logShowTimestamps'', JBool True), (''logToFile'', JBool False), (''logFolder'', JString []),
     (''notifyOnTransferComplete'', JBool True), (''overwriteAction'', JString ''ask''),
     (''ftpActiveMode'', JBool False), (''proxyEnabled'', JBool False), (''proxyType'', JString ''socks5''),
     (''proxyHost'', JString []), (''proxyPort'', number_of 1080), (''proxyUsername'', JString []),
     (''proxyPasswordSet'', JBool False), (''preventSleepDuringTransfers'', JBool True),
     (''autoCheckUpdates'', JBool True), (''autoReconnectTabs'', JBool False), (''recentSiteIds'', JArray []),
     (''saveSessionOnExit'', JBool True), (''vaultAutoLockMinutes'', number_of 15),
     (''showSecurityConfirmations'', JBool True), (''strictHostKeyCheck'', JBool True),
     (''transferSpeedLimitKBps'', number_of 0), (''openWithAssociations'', JObject []),
     (''keyboardShortcuts'', JObject []), (''transferQueueHeight'', number_of 116),
     (''logPanelHeight'', number_of 116), (''splitRatio'', JNumber (Float ''0.5'')),
     (''paneOrientation'', JString ''horizontal''), (''transferLogSplitRatio'', JNumber (Float ''0.5'')),
     (''windowBounds'', JNull), (''windowMaximized'', JBool False), (''minimizeToTray'', JBool False),
     (''closeToTray'', JBool False), (''legacyPasswordNoticeShown'', JBool False),
     (''plaintextSecretNoticeShown'', JBool False), (''colorScheme'', JString ''peach'')]"

definition proxy_input :: "string list" where
  "proxy_input = [''proxyPassword'', ''removeProxyPassword'']"

definition proxy_flags :: "string list" where
  "proxy_flags = [''hasProxyPassword'', ''proxyPasswordSet'']"

definition proxy_secret_fields :: "string list" where
  "proxy_secret_fields = proxy_input @ proxy_saved @ proxy_flags"

text \<open>What the checks take from the language: the value of a float's text, and the parser of IPv6
  addresses with how it prints them.\<close>

record numerics =
  nm_float :: "string \<Rightarrow> rat"
  nm_ipv6 :: "string \<Rightarrow> string option"

fun as_f64 :: "numerics \<Rightarrow> json \<Rightarrow> rat option" where
  "as_f64 nm (JNumber (NonNegative n)) = Some (of_nat n)"
| "as_f64 nm (JNumber (Negative n)) = Some (- of_nat n)"
| "as_f64 nm (JNumber (Float s)) = Some (nm_float nm s)"
| "as_f64 nm _ = None"

definition i64_max :: nat where "i64_max = 9223372036854775807"

fun as_i64 :: "json \<Rightarrow> int option" where
  "as_i64 (JNumber (NonNegative n)) = (if n \<le> i64_max then Some (int n) else None)"
| "as_i64 (JNumber (Negative n)) = Some (- int n)"
| "as_i64 _ = None"

definition setting_error :: "string \<Rightarrow> string \<Rightarrow> string" where
  "setting_error key what = ''settings.'' @ key @ '': '' @ what"

fun same_type :: "json \<Rightarrow> json \<Rightarrow> bool" where
  "same_type (JString _) (JString _) = True"
| "same_type (JBool _) (JBool _) = True"
| "same_type (JNumber _) (JNumber _) = True"
| "same_type (JObject _) (JObject _) = True"
| "same_type (JArray _) (JArray _) = True"
| "same_type JNull JNull = True"
| "same_type JNull (JObject _) = True"
| "same_type _ _ = False"

definition str_ok :: "json \<Rightarrow> (string \<Rightarrow> bool) \<Rightarrow> bool" where
  "str_ok v p = (case as_str v of None \<Rightarrow> False | Some s \<Rightarrow> p s)"

definition check_field :: "bool \<Rightarrow> string \<times> json \<Rightarrow> string option" where
  "check_field allow_secrets e =
     (case e of (key, value) \<Rightarrow>
        if allow_secrets \<and> key \<in> set proxy_input
        then (if key = ''proxyPassword'' \<and> str_ok value (\<lambda>s. length s \<le> 4096)
                 \<or> key = ''removeProxyPassword'' \<and> as_bool value \<noteq> None
              then None else Some (setting_error key ''invalid secret field''))
        else if key \<in> set proxy_secret_fields
        then Some (setting_error key ''secret fields cannot be imported'')
        else (case map_of settings_schema key of
                None \<Rightarrow> Some (setting_error key ''unknown field'')
              | Some expected \<Rightarrow>
                  if \<not> same_type expected value then Some (setting_error key ''invalid type'')
                  else if str_ok value (\<lambda>s. 4096 < length s)
                  then Some (setting_error key ''text exceeds 4096 bytes'') else None))"

definition unless :: "json_map \<Rightarrow> string \<Rightarrow> (json \<Rightarrow> bool) \<Rightarrow> string \<Rightarrow> string option" where
  "unless patch key ok msg =
     (case map_of patch key of None \<Rightarrow> None | Some v \<Rightarrow> if ok v then None else Some msg)"

definition recent_ok :: "json \<Rightarrow> bool" where
  "recent_ok v = (case as_array v of
     None \<Rightarrow> False | Some ids \<Rightarrow> \<forall>i \<in> set ids. str_ok i (\<lambda>s. s \<noteq> [] \<and> length s \<le> 4096))"

definition bounded_settings :: "(string \<times> int \<times> int) list" where
  "bounded_settings = [(''interfaceScale'', 50, 300), (''concurrency'', 0, 128), (''connectTimeout'', 0, 86400000),
     (''proxyPort'', 1, 65535), (key_auto_lock, 0, 10080), (''transferSpeedLimitKBps'', 0, 1000000000),
     (''transferQueueHeight'', 0, 100000), (''logPanelHeight'', 0, 100000)]"

definition in_bounds :: "int \<Rightarrow> int \<Rightarrow> json \<Rightarrow> bool" where
  "in_bounds lo hi v = (case as_i64 v of None \<Rightarrow> False | Some n \<Rightarrow> lo \<le> n \<and> n \<le> hi)"

definition f64_ok :: "numerics \<Rightarrow> json \<Rightarrow> (rat \<Rightarrow> bool) \<Rightarrow> bool" where
  "f64_ok nm v p = (case as_f64 nm v of None \<Rightarrow> False | Some n \<Rightarrow> p n)"

definition columns_ok :: "json \<Rightarrow> bool" where
  "columns_ok v = (case as_array v of
     None \<Rightarrow> False | Some vs \<Rightarrow> length vs \<le> 32 \<and> (\<forall>x \<in> set vs. str_ok x (\<lambda>s. s \<noteq> [] \<and> length s \<le> 128)))"

definition widths_ok :: "numerics \<Rightarrow> json \<Rightarrow> bool" where
  "widths_ok nm v = (case as_object v of
     None \<Rightarrow> False
   | Some m \<Rightarrow> length m \<le> 64 \<and> (\<forall>(k, x) \<in> set m. length k \<le> 128 \<and> f64_ok nm x (\<lambda>n. 0 \<le> n \<and> n \<le> 100000)))"

definition pane_layout_ok :: "(json \<Rightarrow> bool) \<Rightarrow> json \<Rightarrow> bool" where
  "pane_layout_ok ok v = (case as_object v of
     None \<Rightarrow> False | Some panes \<Rightarrow> \<forall>(pane, x) \<in> set panes. (pane = ''a'' \<or> pane = ''b'') \<and> ok x)"

definition allowed_values :: "(string \<times> string list) list" where
  "allowed_values = [(''theme'', [''dark'', ''light'', ''system'']),
     (''colorScheme'', [''peach'', ''graphite'', ''ocean'', ''forest'', ''dracula'', ''catppuccin'', ''nord'', ''solarized'',
        ''black'', ''gray'', ''sand'', ''rose'', ''leaves'', ''midnight'', ''plum'', ''amber'', ''clay'', ''cocoa'',
        ''linen'', ''burgundy'']),
     (''overwriteAction'', [''ask'', ''skip'', ''overwrite'']),
     (''proxyType'', [''socks4'', ''socks5'', ''http'']),
     (''paneOrientation'', [''horizontal'', ''vertical''])]"

definition string_map_ok :: "json \<Rightarrow> bool" where
  "string_map_ok v = (case as_object v of
     None \<Rightarrow> True
   | Some m \<Rightarrow> length m \<le> 1024 \<and> (\<forall>(k, x) \<in> set m. length k \<le> 256 \<and> str_ok x (\<lambda>s. length s \<le> 4096)))"

definition window_bounds_ok :: "numerics \<Rightarrow> json \<Rightarrow> bool" where
  "window_bounds_ok nm v = (case as_object v of
     None \<Rightarrow> True
   | Some m \<Rightarrow> length m = 4 \<and> (\<forall>(k, x) \<in> set m. k \<in> {''x'', ''y'', ''width'', ''height''}
       \<and> f64_ok nm x (\<lambda>n. \<bar>n\<bar> \<le> 100000 \<and> (k \<in> {''width'', ''height''} \<longrightarrow> 0 < n))))"

text \<open>\<open>normalize_proxy_host\<close> of \<open>protocol/transport.rs\<close>.\<close>

definition normalize_proxy_host :: "numerics \<Rightarrow> string \<Rightarrow> string option" where
  "normalize_proxy_host nm raw =
     (let trimmed = trim_str raw;
          inner = (if prefix ''['' trimmed \<and> suffix '']'' (tl trimmed) then butlast (tl trimmed) else trimmed)
      in case nm_ipv6 nm inner of
           Some address \<Rightarrow> Some address
         | None \<Rightarrow>
             if inner = trimmed \<and> inner \<noteq> [] \<and> (\<forall>b \<in> set inner. is_ascii_alnum b \<or> b \<in> {CHR ''-'', CHR ''.'', CHR ''_''})
             then Some inner else None)"

definition check_proxy :: "numerics \<Rightarrow> json_map \<Rightarrow> bool \<Rightarrow> string option" where
  "check_proxy nm patch allow_secrets =
     (if get_bool patch ''proxyEnabled'' = Some True \<and> (\<not> allow_secrets \<or> al_has ''proxyHost'' patch)
      then (let host = the_or [] (get_str patch ''proxyHost'')
            in if trim_str host = [] then Some ''settings.proxyHost: required when proxy is enabled''
               else if normalize_proxy_host nm host = None
               then Some ''settings.proxyHost: must be a host name or an IP address''
               else (case get_str patch ''proxyType'' of
                       Some kind \<Rightarrow> if kind \<in> {''socks4'', ''socks5'', ''http''} then None
                                    else Some ''settings.proxyType: unsupported proxy type''
                     | None \<Rightarrow> None))
      else None)"

text \<open>The checks after the one of each field; a check gives its message or \<open>None\<close>, the first message is
  the answer.\<close>

definition settings_checks :: "numerics \<Rightarrow> json_map \<Rightarrow> bool \<Rightarrow> string option list" where
  "settings_checks nm patch allow_secrets =
     [unless patch ''recentSiteIds'' recent_ok ''settings.recentSiteIds: invalid site identifiers'']
     @ map (\<lambda>(key, lo, hi). unless patch key (in_bounds lo hi) (setting_error key ''value is out of range'')) bounded_settings
     @ map (\<lambda>key. unless patch key (\<lambda>v. f64_ok nm v (\<lambda>n. 0 \<le> n \<and> n \<le> 1)) (setting_error key ''invalid ratio''))
         [''splitRatio'', ''transferLogSplitRatio'']
     @ map (\<lambda>(key, ok). unless patch key (pane_layout_ok ok) (setting_error key ''invalid pane layout''))
         [(''localColumns'', columns_ok), (''remoteColumns'', columns_ok),
          (''localColumnWidths'', widths_ok nm), (''remoteColumnWidths'', widths_ok nm)]
     @ map (\<lambda>(key, ok). unless patch key ok ''settings: invalid transfer columns'')
         [(''transferHiddenColumns'', columns_ok), (''transferColumnOrder'', columns_ok),
          (''transferColumnWidths'', widths_ok nm)]
     @ map (\<lambda>(key, allowed). unless patch key (\<lambda>v. str_ok v (\<lambda>s. s \<in> set allowed)) (setting_error key ''unsupported value''))
         allowed_values
     @ map (\<lambda>key. unless patch key string_map_ok (setting_error key ''invalid string map''))
         [''openWithAssociations'', ''keyboardShortcuts'']
     @ [unless patch ''windowBounds'' (window_bounds_ok nm) ''settings.windowBounds: invalid bounds'',
        check_proxy nm patch allow_secrets]"

definition validate_settings :: "numerics \<Rightarrow> json_map \<Rightarrow> bool \<Rightarrow> string + unit" where
  "validate_settings nm patch allow_secrets =
     (case find_map id (map (check_field allow_secrets) patch @ settings_checks nm patch allow_secrets) of
        Some issue \<Rightarrow> Inl issue | None \<Rightarrow> Inr ())"

lemma validate_Inr:
  "validate_settings nm m b = Inr () \<longleftrightarrow>
     (\<forall>p \<in> set m. check_field b p = None) \<and> (\<forall>x \<in> set (settings_checks nm m b). x = None)"
proof -
  have "validate_settings nm m b = Inr () \<longleftrightarrow> find_map id (map (check_field b) m @ settings_checks nm m b) = None"
    unfolding validate_settings_def by (cases "find_map id (map (check_field b) m @ settings_checks nm m b)") simp_all
  then show ?thesis by (simp add: find_map_None_iff ball_Un)
qed

lemma settings_checks_cong:
  assumes "map_of m = map_of m'"
  shows "settings_checks nm m b = settings_checks nm m' b"
proof -
  have "unless m = unless m'" by (intro ext) (simp add: unless_def assms)
  moreover have "check_proxy nm m b = check_proxy nm m' b"
    by (simp only: check_proxy_def get_bool_def get_str_def al_has_def assms)
  ultimately show ?thesis by (simp only: settings_checks_def)
qed

text \<open>Whether settings pass does not depend on the order of their fields.\<close>

lemma validate_cong:
  assumes "map_of m = map_of m'" and "al_ok m" and "al_ok m'"
  shows "(validate_settings nm m b = Inr ()) = (validate_settings nm m' b = Inr ())"
  using assms map_of_inject_set [OF assms(2,3)] settings_checks_cong [OF assms(1)] by (simp add: validate_Inr)

text \<open>What the whole of the settings owes once it passes: a port that is there is a port, and a proxy
  that is on has a host.\<close>

lemma valid_port:
  assumes "validate_settings nm m b = Inr ()" and "map_of m ''proxyPort'' = Some v"
  shows "\<exists>n. v = JNumber (NonNegative n) \<and> 1 \<le> n \<and> n \<le> u16_max"
proof -
  have "unless m ''proxyPort'' (in_bounds 1 65535) (setting_error ''proxyPort'' ''value is out of range'')
      \<in> set (settings_checks nm m b)"
    by (simp add: settings_checks_def bounded_settings_def)
  then have "in_bounds 1 65535 v"
    using assms by (auto simp: validate_Inr unless_def split: if_splits)
  then obtain n where "as_i64 v = Some n" "1 \<le> n" "n \<le> 65535" by (auto simp: in_bounds_def split: option.splits)
  then show ?thesis by (cases v rule: as_i64.cases) (auto split: if_splits)
qed

lemma valid_proxy_host:
  assumes "validate_settings nm m False = Inr ()" and "get_bool m ''proxyEnabled'' = Some True"
  shows "\<exists>h. get_str m ''proxyHost'' = Some h \<and> trim_str h \<noteq> [] \<and> normalize_proxy_host nm h \<noteq> None"
proof -
  have "check_proxy nm m False \<in> set (settings_checks nm m False)" by (simp add: settings_checks_def)
  then have "check_proxy nm m False = None" using assms(1) by (auto simp: validate_Inr)
  moreover have "trim_str [] = []" by code_simp
  ultimately show ?thesis using assms(2)
    by (cases "get_str m ''proxyHost''") (auto simp: check_proxy_def Let_def split: if_splits)
qed

end
