(* ===== verification/Tabs.thy ===== *)
theory Tabs
  imports Storage
begin

text \<open>
  The tabs kept across restarts (\<open>store/tabs.rs\<close>). The window owns the tabs; what it asks to
  keep is rebuilt field by field, so that nothing outside a small schema reaches
  \<open>tabs.json\<close> or comes back from it. \<open>HashSet\<close> of identifiers is a list.
\<close>

section \<open>Model\<close>

definition max_tabs :: nat where "max_tabs = 256"
definition max_id_len :: nat where "max_id_len = 128"
definition max_name_len :: nat where "max_name_len = 1024"
definition max_path_len :: nat where "max_path_len = 32767 * 3"

definition copy_string :: "json_map \<Rightarrow> string \<Rightarrow> nat \<Rightarrow> json_map \<Rightarrow> bool \<times> json_map" where
  "copy_string source key limit target =
     (case get_str source key of
        Some v \<Rightarrow> if limit < length v then (True, target) else (False, al_put key (JString v) target)
      | None \<Rightarrow> (False, target))"

definition copy_bool :: "json_map \<Rightarrow> string \<Rightarrow> json_map \<Rightarrow> json_map" where
  "copy_bool source key target =
     (case get_bool source key of Some b \<Rightarrow> al_put key (JBool b) target | None \<Rightarrow> target)"

definition clean_pane :: "json_map \<Rightarrow> bool \<times> json_map" where
  "clean_pane pane =
     (case copy_string pane ''kind'' max_id_len [] of
        (t1, p1) \<Rightarrow> (case copy_string pane ''path'' max_path_len p1 of
          (t2, p2) \<Rightarrow> (case copy_string pane ''siteId'' max_id_len p2 of
            (t3, p3) \<Rightarrow> (t1 \<or> t2 \<or> t3, p3))))"

fun clean_panes :: "json_map \<Rightarrow> string list \<Rightarrow> bool \<times> json_map \<Rightarrow> bool \<times> json_map" where
  "clean_panes panes [] acc = acc"
| "clean_panes panes (pane_id # ids) (trimmed, clean) =
     (case Option.bind (map_of panes pane_id) as_object of
        None \<Rightarrow> clean_panes panes ids (trimmed, clean)
      | Some pane \<Rightarrow> (case clean_pane pane of
          (t, p) \<Rightarrow> clean_panes panes ids (trimmed \<or> t, al_put pane_id (JObject p) clean)))"

text \<open>The rest of a tab whose identifier is not a repeated one.\<close>

definition clean_rest :: "json_map \<Rightarrow> json_map \<Rightarrow> bool \<times> json_map" where
  "clean_rest source clean0 =
     (case copy_string source ''name'' max_name_len clean0 of
        (t1, clean1) \<Rightarrow>
          (let clean2 = copy_bool source ''syncBrowsing'' clean1
           in case Option.bind (map_of source ''panes'') as_object of
                None \<Rightarrow> (t1, clean2)
              | Some panes \<Rightarrow> (case clean_panes panes [''a'', ''b''] (False, []) of
                  (t2, ps) \<Rightarrow> (t1 \<or> t2, al_put ''panes'' (JObject ps) clean2))))"

fun clean_tabs :: "json list \<Rightarrow> json list \<Rightarrow> string list \<Rightarrow> bool \<Rightarrow> json list \<times> string list \<times> bool" where
  "clean_tabs [] tabs ids trimmed = (tabs, ids, trimmed)"
| "clean_tabs (v # vs) tabs ids trimmed =
     (case as_object v of
        None \<Rightarrow> clean_tabs vs tabs ids trimmed
      | Some source \<Rightarrow>
          if length tabs = max_tabs then (tabs, ids, True)
          else (case copy_string source ''id'' max_id_len [] of
            (t1, clean) \<Rightarrow>
              (case get_str clean ''id'' of
                 Some i \<Rightarrow>
                   if i \<in> set ids then clean_tabs vs tabs ids (trimmed \<or> t1)
                   else (case clean_rest source clean of
                     (t2, c) \<Rightarrow> clean_tabs vs (tabs @ [JObject c]) (i # ids) (trimmed \<or> t1 \<or> t2))
               | None \<Rightarrow> (case clean_rest source clean of
                   (t2, c) \<Rightarrow> clean_tabs vs (tabs @ [JObject c]) ids (trimmed \<or> t1 \<or> t2)))))"

definition sanitize_tabs_state :: "json \<Rightarrow> json \<times> bool" where
  "sanitize_tabs_state data =
     (case clean_tabs (the_or [] (Option.bind (json_get data ''tabs'') as_array)) [] [] False of
        (tabs, ids, trimmed) \<Rightarrow>
          (let active = (case Option.bind (json_get data ''activeTabId'') as_str of
                 Some i \<Rightarrow> if i \<in> set ids then JString i else JNull
               | None \<Rightarrow> JNull)
           in (JObject [(''activeTabId'', active), (''tabs'', JArray tabs)], trimmed)))"

definition no_tabs :: json where
  "no_tabs = JObject [(''activeTabId'', JNull), (''tabs'', JArray [])]"

definition tabs_file :: string where "tabs_file = ''tabs.json''"

definition get_tabs :: "codec \<Rightarrow> io \<Rightarrow> store \<Rightarrow> json \<times> store" where
  "get_tabs c io st =
     (case read_json c io (\<lambda>_. True) tabs_file no_tabs st of
        (v, st') \<Rightarrow> (fst (sanitize_tabs_state v), st'))"

definition set_tabs :: "codec \<Rightarrow> io \<Rightarrow> json \<Rightarrow> store \<Rightarrow> (error_code + unit) \<times> store" where
  "set_tabs c io data st =
     (case sanitize_tabs_state data of
        (clean, trimmed) \<Rightarrow>
          if trimmed then (Inl ResourceLimit, st) else write_json c io (\<lambda>_. True) tabs_file clean st)"

definition clear_tabs :: "codec \<Rightarrow> io \<Rightarrow> store \<Rightarrow> (error_code + unit) \<times> store" where
  "clear_tabs c io st = set_tabs c io no_tabs st"

section \<open>The schema\<close>

fun text_within :: "nat \<Rightarrow> json \<Rightarrow> bool" where
  "text_within n (JString s) = (length s \<le> n)" | "text_within n _ = False"

fun pane_field_ok :: "string \<times> json \<Rightarrow> bool" where
  "pane_field_ok (k, v) =
     (k = ''kind'' \<and> text_within max_id_len v \<or> k = ''path'' \<and> text_within max_path_len v
      \<or> k = ''siteId'' \<and> text_within max_id_len v)"

fun pane_ok :: "string \<times> json \<Rightarrow> bool" where
  "pane_ok (k, JObject p) = (k \<in> {''a'', ''b''} \<and> list_all pane_field_ok p)"
| "pane_ok _ = False"

fun panes_ok :: "json \<Rightarrow> bool" where
  "panes_ok (JObject ps) = list_all pane_ok ps" | "panes_ok _ = False"

fun tab_field_ok :: "string \<times> json \<Rightarrow> bool" where
  "tab_field_ok (k, v) =
     (k = ''id'' \<and> text_within max_id_len v \<or> k = ''name'' \<and> text_within max_name_len v
      \<or> k = ''syncBrowsing'' \<and> as_bool v \<noteq> None \<or> k = ''panes'' \<and> panes_ok v)"

fun tab_ok :: "json \<Rightarrow> bool" where
  "tab_ok (JObject t) = list_all tab_field_ok t" | "tab_ok _ = False"

definition tab_ids :: "json list \<Rightarrow> string list" where
  "tab_ids tabs = List.map_filter (\<lambda>t. Option.bind (json_get t ''id'') as_str) tabs"

definition session_ok :: "json \<Rightarrow> bool" where
  "session_ok v =
     (case v of
        JObject [(k1, active), (k2, JArray tabs)] \<Rightarrow>
          k1 = ''activeTabId'' \<and> k2 = ''tabs'' \<and> length tabs \<le> max_tabs \<and> list_all tab_ok tabs
          \<and> distinct (tab_ids tabs)
          \<and> (active = JNull \<or> (\<exists>i \<in> set (tab_ids tabs). active = JString i))
      | _ \<Rightarrow> False)"

section \<open>Normal form\<close>

text \<open>A field that is there or not, and the text a copy keeps.\<close>

definition fld :: "string \<Rightarrow> ('a \<Rightarrow> json) \<Rightarrow> 'a option \<Rightarrow> json_map" where
  "fld k f x = (case x of None \<Rightarrow> [] | Some v \<Rightarrow> [(k, f v)])"

definition kept :: "json_map \<Rightarrow> string \<Rightarrow> nat \<Rightarrow> string option" where
  "kept source key limit = (case get_str source key of Some v \<Rightarrow> if length v \<le> limit then Some v else None | None \<Rightarrow> None)"

definition over :: "json_map \<Rightarrow> string \<Rightarrow> nat \<Rightarrow> bool" where
  "over source key limit = (case get_str source key of Some v \<Rightarrow> limit < length v | None \<Rightarrow> False)"

definition nf_pane :: "json_map \<Rightarrow> json_map" where
  "nf_pane p = fld ''kind'' JString (kept p ''kind'' max_id_len) @ fld ''path'' JString (kept p ''path'' max_path_len)
     @ fld ''siteId'' JString (kept p ''siteId'' max_id_len)"

definition pane_at :: "json_map \<Rightarrow> string \<Rightarrow> json_map option" where
  "pane_at ps k = Option.bind (map_of ps k) as_object"

definition nf_panes :: "json_map \<Rightarrow> json_map" where
  "nf_panes ps = fld ''a'' (\<lambda>p. JObject (nf_pane p)) (pane_at ps ''a'') @ fld ''b'' (\<lambda>p. JObject (nf_pane p)) (pane_at ps ''b'')"

definition nf_rest :: "json_map \<Rightarrow> json_map" where
  "nf_rest t = fld ''name'' JString (kept t ''name'' max_name_len) @ fld ''syncBrowsing'' JBool (get_bool t ''syncBrowsing'')
     @ fld ''panes'' (\<lambda>ps. JObject (nf_panes ps)) (pane_at t ''panes'')"

definition nf_tab :: "json_map \<Rightarrow> json_map" where
  "nf_tab t = fld ''id'' JString (kept t ''id'' max_id_len) @ nf_rest t"

definition pane_over :: "json_map \<Rightarrow> bool" where
  "pane_over p \<longleftrightarrow> over p ''kind'' max_id_len \<or> over p ''path'' max_path_len \<or> over p ''siteId'' max_id_len"

definition panes_over :: "json_map \<Rightarrow> bool" where
  "panes_over ps \<longleftrightarrow> (\<exists>k \<in> {''a'', ''b''}. \<exists>p. pane_at ps k = Some p \<and> pane_over p)"

definition rest_over :: "json_map \<Rightarrow> bool" where
  "rest_over t \<longleftrightarrow> over t ''name'' max_name_len \<or> (\<exists>ps. pane_at t ''panes'' = Some ps \<and> panes_over ps)"

lemma map_of_fld [simp]: "map_of (fld k f x) k' = (if k' = k then map_option f x else None)"
  by (simp add: fld_def split: option.splits)

lemma fld_cong: "x = y \<Longrightarrow> (\<And>v. x = Some v \<Longrightarrow> f v = g v) \<Longrightarrow> fld k f x = fld k g y"
  by (auto simp: fld_def split: option.splits)

lemma list_all_fld [simp]: "list_all P (fld k f x) \<longleftrightarrow> (\<forall>v. x = Some v \<longrightarrow> P (k, f v))"
  by (simp add: fld_def split: option.splits)

lemma copy_string_nf:
  "map_of target key = None \<Longrightarrow>
     copy_string source key limit target = (over source key limit, target @ fld key JString (kept source key limit))"
  by (simp add: copy_string_def over_def kept_def fld_def al_put_fresh al_has_def split: option.splits)

lemma copy_bool_nf:
  "map_of target key = None \<Longrightarrow> copy_bool source key target = target @ fld key JBool (get_bool source key)"
  by (simp add: copy_bool_def fld_def al_put_fresh al_has_def split: option.splits)

lemma clean_pane_nf: "clean_pane p = (pane_over p, nf_pane p)"
  by (simp add: clean_pane_def copy_string_nf map_add_def pane_over_def nf_pane_def)

lemma clean_panes_nf: "clean_panes ps [''a'', ''b''] (False, []) = (panes_over ps, nf_panes ps)"
  by (simp add: clean_pane_nf panes_over_def nf_panes_def pane_at_def fld_def al_put_fresh al_has_def split: option.splits)

lemma clean_rest_nf:
  assumes "map_of c ''name'' = None" "map_of c ''syncBrowsing'' = None" "map_of c ''panes'' = None"
  shows "clean_rest t c = (rest_over t, c @ nf_rest t)"
  using assms
  by (auto simp: clean_rest_def copy_string_nf copy_bool_nf map_add_def clean_panes_nf rest_over_def nf_rest_def
      pane_at_def Let_def al_put_fresh al_has_def fld_def [of "''panes''"] simp del: clean_panes.simps
      split: option.splits)

text \<open>What was rebuilt is rebuilt to itself, and nothing of it is over a limit.\<close>

lemma read_back [simp]:
  "Option.bind (map_option JString x) as_str = x" "Option.bind (map_option JBool b) as_bool = b"
  "Option.bind (map_option (\<lambda>p. JObject (f p)) y) as_object = map_option f y"
  by (cases x; cases b; cases y; simp)+

lemma kept_within: "kept s k n = Some v \<Longrightarrow> length v \<le> n"
  by (simp add: kept_def split: option.splits if_splits)

lemma nf_pane_again: "nf_pane (nf_pane p) = nf_pane p" and nf_pane_within: "\<not> pane_over (nf_pane p)"
  by (auto simp: nf_pane_def kept_def over_def pane_over_def get_str_def map_add_def split: option.splits if_splits)

lemma pane_at_nf: "pane_at (nf_panes ps) k = (if k \<in> {''a'', ''b''} then map_option nf_pane (pane_at ps k) else None)"
  by (cases "pane_at ps ''b''") (simp_all add: nf_panes_def pane_at_def [of "_ @ _"] map_add_def split: option.splits)

lemma nf_panes_again: "nf_panes (nf_panes ps) = nf_panes ps"
  by (simp add: nf_panes_def [of "nf_panes ps"] pane_at_nf)
    (simp add: nf_panes_def fld_def nf_pane_again split: option.splits)

lemma nf_panes_within: "\<not> panes_over (nf_panes ps)"
  by (auto simp: panes_over_def pane_at_nf nf_pane_within)

lemma nf_tab_get:
  "get_str (nf_tab t) ''id'' = kept t ''id'' max_id_len" "get_str (nf_tab t) ''name'' = kept t ''name'' max_name_len"
  "get_bool (nf_tab t) ''syncBrowsing'' = get_bool t ''syncBrowsing''"
  "pane_at (nf_tab t) ''panes'' = map_option nf_panes (pane_at t ''panes'')"
  by (auto simp: nf_tab_def nf_rest_def get_str_def get_bool_def pane_at_def [of "_ @ _"] map_add_def
      split: option.splits)

lemma nf_tab_again: "nf_tab (nf_tab t) = nf_tab t"
proof -
  have kept: "kept (nf_tab t) ''id'' max_id_len = kept t ''id'' max_id_len"
    "kept (nf_tab t) ''name'' max_name_len = kept t ''name'' max_name_len"
    by (auto simp: kept_def [of "nf_tab t"] nf_tab_get kept_within split: option.splits dest: kept_within)
  have "nf_rest (nf_tab t) = nf_rest t"
    by (simp add: nf_rest_def kept nf_tab_get) (simp add: fld_def nf_panes_again split: option.splits)
  then show ?thesis by (simp add: nf_tab_def [of "nf_tab t"] kept) (simp add: nf_tab_def)
qed

lemma nf_tab_within: "\<not> over (nf_tab t) ''id'' max_id_len" "\<not> rest_over (nf_tab t)"
  by (auto simp: over_def rest_over_def nf_tab_get nf_panes_within split: option.splits dest: kept_within)

lemma nf_tab_ok: "tab_ok (JObject (nf_tab t))"
proof -
  have within: "kept s k n = Some v \<Longrightarrow> text_within n (JString v)" for s k n v by (simp add: kept_within)
  have "list_all pane_field_ok (nf_pane p)" for p
    using within by (auto simp: nf_pane_def)
  then have "panes_ok (JObject (nf_panes ps))" for ps by (simp add: nf_panes_def)
  then show ?thesis using within by (auto simp: nf_tab_def nf_rest_def)
qed

subsection \<open>The whole session\<close>

definition settled :: "json \<Rightarrow> bool" where
  "settled v \<longleftrightarrow> (\<exists>t. v = JObject (nf_tab t))"

lemma tab_ids_snoc: "tab_ids (ts @ [JObject r]) = tab_ids ts @ (case get_str r ''id'' of None \<Rightarrow> [] | Some i \<Rightarrow> [i])"
  by (simp add: tab_ids_def List.map_filter_def json_get_def get_str_def split: option.splits)

lemma tab_ids_Cons: "tab_ids (JObject r # ts) = (case get_str r ''id'' of None \<Rightarrow> [] | Some i \<Rightarrow> [i]) @ tab_ids ts"
  by (simp add: tab_ids_def List.map_filter_def json_get_def get_str_def split: option.splits)

lemma id_first:
  "copy_string t ''id'' max_id_len [] = (over t ''id'' max_id_len, fld ''id'' JString (kept t ''id'' max_id_len))"
  "get_str (fld ''id'' JString x) ''id'' = x"
  "kept t ''id'' max_id_len = y \<Longrightarrow> clean_rest t (fld ''id'' JString y) = (rest_over t, nf_tab t)"
  by (auto simp: copy_string_nf get_str_def clean_rest_nf nf_tab_def split: option.splits)

lemma clean_tabs_settled:
  assumes "clean_tabs vs tabs ids trimmed = (T, I, u)" and "\<forall>x \<in> set tabs. settled x"
    and "distinct (tab_ids tabs)" and "ids = rev (tab_ids tabs)" and "length tabs \<le> max_tabs"
  shows "(\<forall>x \<in> set T. settled x) \<and> distinct (tab_ids T) \<and> I = rev (tab_ids T) \<and> length T \<le> max_tabs"
  using assms
proof (induction vs arbitrary: tabs ids trimmed)
  case Nil
  then show ?case by auto
next
  case (Cons v vs)
  show ?case
  proof (cases "as_object v")
    case None
    then show ?thesis using Cons by simp
  next
    case (Some source)
    have new: "\<forall>x \<in> set (tabs @ [JObject (nf_tab source)]). settled x" using Cons.prems(2) by (auto simp: settled_def)
    note ids = tab_ids_snoc [of tabs "nf_tab source", unfolded nf_tab_get]
    consider "length tabs = max_tabs" | "length tabs \<noteq> max_tabs" "kept source ''id'' max_id_len = None"
      | i where "length tabs \<noteq> max_tabs" "kept source ''id'' max_id_len = Some i" "i \<in> set ids"
      | i where "length tabs \<noteq> max_tabs" "kept source ''id'' max_id_len = Some i" "i \<notin> set ids" by blast
    then show ?thesis
    proof cases
      case 1
      then show ?thesis using Cons.prems Some by auto
    next
      case 2
      show ?thesis by (rule Cons.IH [where tabs = "tabs @ [JObject (nf_tab source)]"])
        (use 2 Cons.prems Some new ids in \<open>simp_all add: id_first\<close>)
    next
      case 3
      show ?thesis by (rule Cons.IH [where tabs = tabs]) (use 3 Cons.prems Some in \<open>simp_all add: id_first\<close>)
    next
      case 4
      show ?thesis by (rule Cons.IH [where tabs = "tabs @ [JObject (nf_tab source)]"])
        (use 4 Cons.prems Some new ids in \<open>simp_all add: id_first\<close>)
    qed
  qed
qed

lemma clean_tabs_again:
  assumes "\<forall>x \<in> set vs. settled x" and "distinct (tab_ids tabs @ tab_ids vs)"
    and "ids = rev (tab_ids tabs)" and "length tabs + length vs \<le> max_tabs"
  shows "\<exists>I. clean_tabs vs tabs ids False = (tabs @ vs, I, False) \<and> set I = set (tab_ids tabs) \<union> set (tab_ids vs)"
  using assms
proof (induction vs arbitrary: tabs ids)
  case Nil
  then show ?case by (simp add: tab_ids_def List.map_filter_def)
next
  case (Cons v vs)
  then obtain t where v: "v = JObject (nf_tab t)" by (auto simp: settled_def)
  let ?t = "nf_tab t" and ?more = "case get_str (nf_tab t) ''id'' of None \<Rightarrow> [] | Some i \<Rightarrow> [i]"
  have ids: "tab_ids (v # vs) = ?more @ tab_ids vs" "tab_ids (tabs @ [v]) = tab_ids tabs @ ?more"
    unfolding v by (rule tab_ids_Cons, rule tab_ids_snoc)
  have kept: "kept ?t ''id'' max_id_len = get_str ?t ''id''"
    using nf_tab_within(1) [of t] by (auto simp: kept_def over_def split: option.splits)
  have "clean_tabs (v # vs) tabs ids False = clean_tabs vs (tabs @ [v]) (rev (tab_ids (tabs @ [v]))) False"
    using Cons.prems
    by (auto simp: v tab_ids_Cons tab_ids_snoc id_first kept nf_tab_within nf_tab_again split: option.splits)
  moreover have "\<exists>I. clean_tabs vs (tabs @ [v]) (rev (tab_ids (tabs @ [v]))) False = ((tabs @ [v]) @ vs, I, False)
      \<and> set I = set (tab_ids (tabs @ [v])) \<union> set (tab_ids vs)"
    by (rule Cons.IH) (use Cons.prems ids in auto)
  ultimately show ?case by (auto simp: ids)
qed

lemma sanitized_session:
  obtains tabs active where "fst (sanitize_tabs_state data) = JObject [(''activeTabId'', active), (''tabs'', JArray tabs)]"
    "\<forall>x \<in> set tabs. settled x" "distinct (tab_ids tabs)" "length tabs \<le> max_tabs"
    "active = JNull \<or> (\<exists>i \<in> set (tab_ids tabs). active = JString i)"
proof -
  obtain T I u where run: "clean_tabs (the_or [] (Option.bind (json_get data ''tabs'') as_array)) [] [] False = (T, I, u)"
    using prod_cases3 by blast
  have "(\<forall>x \<in> set T. settled x) \<and> distinct (tab_ids T) \<and> I = rev (tab_ids T) \<and> length T \<le> max_tabs"
    by (rule clean_tabs_settled [OF run]) (simp_all add: tab_ids_def List.map_filter_def)
  then show ?thesis using run by (intro that) (auto simp: sanitize_tabs_state_def Let_def split: option.splits, blast)
qed

lemma sanitize_again: "sanitize_tabs_state (fst (sanitize_tabs_state data)) = (fst (sanitize_tabs_state data), False)"
proof -
  obtain tabs active where s: "fst (sanitize_tabs_state data) = JObject [(''activeTabId'', active), (''tabs'', JArray tabs)]"
    "\<forall>x \<in> set tabs. settled x" "distinct (tab_ids tabs)" "length tabs \<le> max_tabs"
    "active = JNull \<or> (\<exists>i \<in> set (tab_ids tabs). active = JString i)"
    by (rule sanitized_session)
  have none: "tab_ids [] = []" by (simp add: tab_ids_def List.map_filter_def)
  obtain I where "clean_tabs tabs [] [] False = (tabs, I, False)" "set I = set (tab_ids tabs)"
    using clean_tabs_again [of tabs "[]" "[]"] s(2-4) none by auto
  then show ?thesis using s(1,5) by (auto simp: sanitize_tabs_state_def json_get_def)
qed

lemma sanitized_ok: "session_ok (fst (sanitize_tabs_state data))"
proof -
  have "settled x \<Longrightarrow> tab_ok x" for x using nf_tab_ok by (auto simp: settled_def)
  then show ?thesis using sanitized_session [of data] by (force simp: session_ok_def list_all_iff)
qed

section \<open>Properties\<close>

text \<open>C35: Whatever the file of tabs holds, was left with or lost, what the window gets back has the
  schema: only its fields, each of its type and within its length, at most 256 tabs, no identifier
  twice, and the active tab one of them or none.\<close>

theorem restored_tabs_follow_schema:
  "session_ok (fst (get_tabs c io st))"
  by (cases "read_json c io (\<lambda>_. True) tabs_file no_tabs st") (simp add: get_tabs_def sanitized_ok)

text \<open>A session survives a restart: one that was accepted lost nothing to the limits, comes back as
  its schema part, and can be saved again as it came back.\<close>

theorem session_survives_restart:
  assumes "set_tabs c io data st = (Inr (), st')" and "\<forall>v. cd_parse c (cd_render c v) = Some v"
    and "\<not> io_no_folder later" and "\<not> io_unreadable later tabs_file"
  shows "get_tabs c later st' = (fst (sanitize_tabs_state data), st') \<and> \<not> snd (sanitize_tabs_state data)
    \<and> sanitize_tabs_state (fst (get_tabs c later st')) = (fst (get_tabs c later st'), False)"
proof -
  obtain clean trimmed where s: "sanitize_tabs_state data = (clean, trimmed)" by fastforce
  then have "\<not> trimmed" and w: "write_json c io (\<lambda>_. True) tabs_file clean st = (Inr (), st')"
    using assms(1) by (auto simp: set_tabs_def split: if_splits)
  have v: "is_versioned_store tabs_file" by code_simp
  have "read_json c later (\<lambda>_. True) tabs_file no_tabs st' = (clean, st')"
    using written_is_read [OF w v assms(2) _ assms(3,4)] by simp
  then show ?thesis
    using s \<open>\<not> trimmed\<close> sanitize_again [of data] by (simp add: get_tabs_def)
qed

theorem session_survives_restart_witness:
  "\<exists>st. fst (get_tabs unary_codec calm st)
     = JObject [(''activeTabId'', JString ''1''), (''tabs'', JArray [JObject [(''id'', JString ''1'')]])]"
proof -
  let ?tab = "JObject [(''id'', JString ''1''), (''password'', JString ''x'')]"
  let ?data = "JObject [(''tabs'', JArray [?tab, ?tab]), (''activeTabId'', JString ''1'')]"
  have s: "sanitize_tabs_state ?data
      = (JObject [(''activeTabId'', JString ''1''), (''tabs'', JArray [JObject [(''id'', JString ''1'')]])], False)"
    by code_simp
  obtain st where st: "set_tabs unary_codec calm ?data blank_store = (Inr (), st)"
    by (simp only: set_tabs_def s split: prod.split)
      (simp add: write_json_def write_json_unnamed_def ensure_writable_def blank_store_def read_file_def Let_def)
  have "get_tabs unary_codec calm st = (fst (sanitize_tabs_state ?data), st)"
    using session_survives_restart [OF st, of calm] by (simp add: unary_codec_def)
  then show ?thesis using s by (intro exI [of _ st]) simp
qed

end
