(* ===== verification/VaultFile.thy ===== *)
theory VaultFile
  imports Prelude "HOL-Library.Char_ord" "HOL-Library.List_Lexorder"
begin

text \<open>
  \<open>vault.dat\<close> (\<open>security/vault_file.rs\<close>): the secrets, each name and value behind its
  length in four little-endian bytes, sealed with the data key. The cipher is
  XChaCha20-Poly1305, a parameter: a record of its two functions, each refusing with
  \<open>None\<close>. A \<open>BTreeMap\<close> is an association list kept in the order of its keys.
\<close>

type_synonym secrets = "(string \<times> string) list"

fun bt_insert :: "'k::linorder \<Rightarrow> 'v \<Rightarrow> ('k \<times> 'v) list \<Rightarrow> ('k \<times> 'v) list" where
  "bt_insert k v [] = [(k, v)]"
| "bt_insert k v ((k', v') # m) =
     (if k < k' then (k, v) # (k', v') # m
      else if k = k' then (k, v) # m else (k', v') # bt_insert k v m)"

abbreviation bt_ok :: "('k::linorder \<times> 'v) list \<Rightarrow> bool" where
  "bt_ok m \<equiv> sorted_wrt (<) (map fst m)"

record cipher =
  ci_encrypt :: "string \<Rightarrow> string \<Rightarrow> string \<Rightarrow> string \<Rightarrow> string option"
  ci_decrypt :: "string \<Rightarrow> string \<Rightarrow> string \<Rightarrow> string \<Rightarrow> string option"

text \<open>\<open>new_from_slice\<close> takes a key of 32 bytes only; key, nonce, associated data, text.\<close>

definition encrypt :: "cipher \<Rightarrow> string \<Rightarrow> string \<Rightarrow> string \<Rightarrow> string \<Rightarrow> string option" where
  "encrypt c key nonce aad msg = (if length key = 32 then ci_encrypt c key nonce aad msg else None)"

definition decrypt :: "cipher \<Rightarrow> string \<Rightarrow> string \<Rightarrow> string \<Rightarrow> string \<Rightarrow> string option" where
  "decrypt c key nonce aad ct = (if length key = 32 then ci_decrypt c key nonce aad ct else None)"

section \<open>The file\<close>

definition vault_header :: string where "vault_header = ''FTPV'' @ [char_of (1::nat)]"

definition nonce_len :: nat where "nonce_len = 24"

fun le_bytes :: "nat \<Rightarrow> nat \<Rightarrow> string" where
  "le_bytes 0 n = []"
| "le_bytes (Suc k) n = char_of (n mod 256) # le_bytes k (n div 256)"

fun le_value :: "string \<Rightarrow> nat" where
  "le_value [] = 0"
| "le_value (c # cs) = of_char c + 256 * le_value cs"

definition put_part :: "string \<Rightarrow> string option" where
  "put_part part = (if length part \<le> u32_max then Some (le_bytes 4 (length part) @ part) else None)"

fun put_entries :: "secrets \<Rightarrow> string option" where
  "put_entries [] = Some []"
| "put_entries ((name, value) # rest) =
     do { a \<leftarrow> put_part name; b \<leftarrow> put_part value; cs \<leftarrow> put_entries rest; Some (a @ b @ cs) }"

definition seal :: "cipher \<Rightarrow> string \<Rightarrow> secrets \<Rightarrow> string \<Rightarrow> string option" where
  "seal c nonce ss key =
     do { plain \<leftarrow> put_entries ss;
          sealed \<leftarrow> encrypt c key nonce vault_header plain;
          Some (vault_header @ nonce @ sealed) }"

definition get_part :: "string \<Rightarrow> (string \<times> string) option" where
  "get_part input =
     (if length input < 4 then None
      else (let n = le_value (take 4 input); rest = drop 4 input
            in if length rest < n then None else Some (take n rest, drop n rest)))"

lemma get_part_shorter: "get_part input = Some (part, rest) \<Longrightarrow> length rest < length input"
  by (auto simp: get_part_def Let_def split: if_splits)

function get_entries :: "string \<Rightarrow> secrets \<Rightarrow> secrets option" where
  "get_entries input acc =
     (if input = [] then Some acc
      else (case get_part input of
              None \<Rightarrow> None
            | Some (name, rest) \<Rightarrow>
                (case get_part rest of
                   None \<Rightarrow> None
                 | Some (value, rest') \<Rightarrow> get_entries rest' (bt_insert name value acc))))"
  by pat_completeness auto
termination
  by (relation "measure (\<lambda>(input, acc). length input)") (auto dest!: get_part_shorter)

declare get_entries.simps [simp del]

definition open_sealed :: "cipher \<Rightarrow> string \<Rightarrow> string \<Rightarrow> secrets option" where
  "open_sealed c file key =
     (if \<not> prefix vault_header file then None
      else (let rest = drop (length vault_header) file
            in if length rest < nonce_len then None
               else do { plain \<leftarrow> decrypt c key (take nonce_len rest) vault_header (drop nonce_len rest);
                         get_entries plain [] }))"

section \<open>Lemmas\<close>

lemma map_of_bt_insert [simp]: "map_of (bt_insert k v m) k' = (if k' = k then Some v else map_of m k')"
  by (induction m) auto

lemma keys_bt_insert: "set (map fst (bt_insert k v m)) = insert k (set (map fst m))"
  by (induction k v m rule: bt_insert.induct) (simp_all add: insert_commute)

lemma bt_ok_insert [simp]: "bt_ok m \<Longrightarrow> bt_ok (bt_insert k v m)"
proof (induction m)
  case (Cons p m)
  obtain a b where p: "p = (a, b)" by (cases p)
  have "\<forall>x \<in> set (map fst (bt_insert k v m)). a < x" if "a < k"
    using Cons.prems that by (simp only: keys_bt_insert) (auto simp: p)
  then show ?case using Cons unfolding p by (auto simp: order.strict_trans)
qed simp

lemma bt_insert_last: "\<forall>x \<in> set (map fst m). x < k \<Longrightarrow> bt_insert k v m = m @ [(k, v)]"
  by (induction m) (auto simp: order.strict_implies_not_eq dest: order.asym)

lemma bt_ok_del [simp]: "bt_ok m \<Longrightarrow> bt_ok (al_del k m)"
  by (induction m) (auto simp: al_del_def)

lemma bt_ok_distinct: "bt_ok m \<Longrightarrow> al_ok m"
  by (induction m) auto

lemma length_le_bytes [simp]: "length (le_bytes k n) = k"
  by (induction k arbitrary: n) simp_all

lemma le_value_bytes: "n < 256 ^ k \<Longrightarrow> le_value (le_bytes k n) = n"
proof (induction k arbitrary: n)
  case (Suc k)
  have "le_value (le_bytes k (n div 256)) = n div 256"
    by (rule Suc.IH) (use Suc.prems in \<open>simp add: less_mult_imp_div_less mult.commute\<close>)
  then show ?case by simp
qed simp

lemma get_put_part: "put_part part = Some enc \<Longrightarrow> get_part (enc @ rest) = Some (part, rest)"
  using le_value_bytes [of "length part" 4]
  by (simp add: put_part_def get_part_def Let_def take_append drop_append del: le_bytes.simps le_value.simps
      split: if_splits) (auto simp del: le_bytes.simps le_value.simps)

lemma put_part_Cons: "put_part part = Some enc \<Longrightarrow> enc \<noteq> []"
  using length_le_bytes [of 4 "length part"] by (auto simp: put_part_def simp del: length_le_bytes split: if_splits)

lemma get_put_entries:
  assumes "put_entries ss = Some plain" and "bt_ok (acc @ ss)"
  shows "get_entries plain acc = Some (acc @ ss)"
  using assms
proof (induction ss arbitrary: plain acc rule: put_entries.induct)
  case 1
  then show ?case by (simp add: get_entries.simps)
next
  case (2 name val rest)
  from "2.prems"(1) obtain a b cs where parts: "put_part name = Some a" "put_part val = Some b"
    "put_entries rest = Some cs" "plain = a @ b @ cs" by (auto simp: bind_eq_Some_conv)
  have "bt_insert name val acc = acc @ [(name, val)]"
    by (rule bt_insert_last) (use "2.prems"(2) in \<open>auto simp: sorted_wrt_append\<close>)
  then have "get_entries plain acc = get_entries cs (acc @ [(name, val)])"
    using parts put_part_Cons get_put_part by (subst get_entries.simps) (simp add: get_put_part)
  also have "\<dots> = Some ((acc @ [(name, val)]) @ rest)"
    by (rule "2.IH" [OF parts(1-3)]) (use "2.prems"(2) in simp)
  finally show ?case by simp
qed

lemma get_entries_ok: "get_entries input acc = Some ss \<Longrightarrow> bt_ok acc \<Longrightarrow> bt_ok ss"
proof (induction input acc rule: get_entries.induct)
  case (1 input acc)
  then show ?case by (subst (asm) (2) get_entries.simps) (auto split: if_splits option.splits prod.splits)
qed

lemma open_seal:
  assumes "\<And>msg ct. ci_encrypt c key nonce vault_header msg = Some ct \<Longrightarrow> ci_decrypt c key nonce vault_header ct = Some msg"
    and "seal c nonce ss key = Some file" and "length nonce = nonce_len" and "bt_ok ss"
  shows "open_sealed c file key = Some ss"
proof -
  from assms(2) obtain plain ct where p: "put_entries ss = Some plain" "encrypt c key nonce vault_header plain = Some ct"
    "file = vault_header @ nonce @ ct" by (auto simp: seal_def bind_eq_Some_conv)
  then have "decrypt c key nonce vault_header ct = Some plain"
    using assms(1) by (auto simp: encrypt_def decrypt_def split: if_splits)
  moreover have "get_entries plain [] = Some ss" using get_put_entries [OF p(1), of "[]"] assms(4) by simp
  ultimately show ?thesis using p(3) assms(3) by (simp add: open_sealed_def)
qed

lemma open_sealed_ok: "open_sealed c file key = Some ss \<Longrightarrow> bt_ok ss"
  using get_entries_ok by (fastforce simp: open_sealed_def Let_def bind_eq_Some_conv split: if_splits)

lemma open_key_len: "open_sealed c file key = Some ss \<Longrightarrow> length key = 32"
  by (auto simp: open_sealed_def Let_def decrypt_def bind_eq_Some_conv split: if_splits)

end
