(* ===== verification/Vault.thy ===== *)
theory Vault
  imports VaultFile Storage
begin

text \<open>
  The password vault (\<open>security/vault.rs\<close>): its two files, \<open>vault.dat\<close> sealed with a random
  data key and \<open>vault.json\<close> with that key wrapped by the master password and by Windows Hello
  credentials, and what the process holds while it is unlocked. A folder maps file names to
  bytes. The cipher, Argon2, base64, the key store and what the system makes of each file
  operation are an environment; \<open>stronghold_snapshot::read\<close>, the reader of the format before
  0.6, is one of its functions. Each operation is one step, as the state's mutex makes it,
  except where it lets the mutex go.
\<close>

type_synonym vault_files = "(string \<times> string) list"

section \<open>Errors\<close>

text \<open>What tells failures apart for the callers: a refused credential, a locked vault, a code the
  system named, and anything else with its message.\<close>

datatype vault_error = Refused | Locked | PasswordTooShort | Os error_code | Other string

fun vault_code :: "vault_error \<Rightarrow> error_code" where
  "vault_code Refused = VaultAuthFailed"
| "vault_code Locked = VaultLocked"
| "vault_code PasswordTooShort = InvalidInput"
| "vault_code (Os c) = c"
| "vault_code (Other _) = Internal"

definition is_refused :: "vault_error \<Rightarrow> bool" where
  "is_refused e \<longleftrightarrow> vault_code e = VaultAuthFailed"

definition vault_failure :: "vault_error \<Rightarrow> error_code" where
  "vault_failure e = (if vault_code e = Internal then VaultUnreadable else vault_code e)"

section \<open>Metadata\<close>

record kdf_metadata =
  kd_algorithm :: string
  kd_version :: nat
  kd_memory_kib :: nat
  kd_iterations :: nat
  kd_parallelism :: nat
  kd_salt :: string

record system_unlock_metadata =
  su_scheme :: string
  su_credential :: string
  su_wrapped_key :: string

record vault_metadata =
  vm_version :: nat
  vm_kdf :: kdf_metadata
  vm_wrapped_key :: string
  vm_nonce :: string
  vm_system_unlock :: "system_unlock_metadata option"
  vm_system_unlocks :: "system_unlock_metadata list"

definition hello_scheme :: string where "hello_scheme = ''windows-hello-v1''"
definition max_system_unlocks :: nat where "max_system_unlocks = 8"
definition kdf_memory_kib :: nat where "kdf_memory_kib = 64 * 1024"
definition kdf_iterations :: nat where "kdf_iterations = 3"
definition kdf_parallelism :: nat where "kdf_parallelism = 1"
definition min_master_password_chars :: nat where "min_master_password_chars = 12"

text \<open>The derived \<open>Serialize\<close> and \<open>Deserialize\<close>: camel-case names, a missing required field or
  one of another type refused, unknown fields passed over, the legacy credential not written. (That serde also takes a struct
  written as an array is left out: FTPeach never writes one.)\<close>

definition need_uint :: "nat \<Rightarrow> json_map \<Rightarrow> string \<Rightarrow> nat option" where
  "need_uint limit m k = (case get_u64 m k of Some n \<Rightarrow> if n \<le> limit then Some n else None | None \<Rightarrow> None)"

definition kdf_of_json :: "json \<Rightarrow> kdf_metadata option" where
  "kdf_of_json v =
     do { m \<leftarrow> as_object v; a \<leftarrow> get_str m ''algorithm''; ver \<leftarrow> need_uint 255 m ''version'';
          mem \<leftarrow> need_uint u32_max m ''memoryKib''; it \<leftarrow> need_uint u32_max m ''iterations'';
          par \<leftarrow> need_uint u32_max m ''parallelism''; salt \<leftarrow> get_str m ''salt'';
          Some \<lparr>kd_algorithm = a, kd_version = ver, kd_memory_kib = mem, kd_iterations = it,
                kd_parallelism = par, kd_salt = salt\<rparr> }"

definition unlock_of_json :: "json \<Rightarrow> system_unlock_metadata option" where
  "unlock_of_json v =
     do { m \<leftarrow> as_object v;
          scheme \<leftarrow> (if al_has ''scheme'' m then get_str m ''scheme'' else Some []);
          cred \<leftarrow> get_str m ''credential''; wrapped \<leftarrow> get_str m ''wrappedKey'';
          Some \<lparr>su_scheme = scheme, su_credential = cred, su_wrapped_key = wrapped\<rparr> }"

fun unlocks_of_json :: "json list \<Rightarrow> system_unlock_metadata list option" where
  "unlocks_of_json [] = Some []"
| "unlocks_of_json (v # vs) = do { u \<leftarrow> unlock_of_json v; us \<leftarrow> unlocks_of_json vs; Some (u # us) }"

definition metadata_of_json :: "json \<Rightarrow> vault_metadata option" where
  "metadata_of_json v =
     do { m \<leftarrow> as_object v; ver \<leftarrow> need_uint 255 m ''version'';
          kdf \<leftarrow> Option.bind (map_of m ''kdf'') kdf_of_json;
          wrapped \<leftarrow> get_str m ''wrappedKey''; nonce \<leftarrow> get_str m ''nonce'';
          old \<leftarrow> (case map_of m ''systemUnlock'' of None \<Rightarrow> Some None | Some JNull \<Rightarrow> Some None
                  | Some u \<Rightarrow> map_option Some (unlock_of_json u));
          us \<leftarrow> (case map_of m ''systemUnlocks'' of None \<Rightarrow> Some []
                 | Some u \<Rightarrow> Option.bind (as_array u) unlocks_of_json);
          Some \<lparr>vm_version = ver, vm_kdf = kdf, vm_wrapped_key = wrapped, vm_nonce = nonce,
                vm_system_unlock = old, vm_system_unlocks = us\<rparr> }"

definition json_of_kdf :: "kdf_metadata \<Rightarrow> json" where
  "json_of_kdf k = JObject
     [(''algorithm'', JString (kd_algorithm k)), (''version'', JNumber (NonNegative (kd_version k))),
      (''memoryKib'', JNumber (NonNegative (kd_memory_kib k))),
      (''iterations'', JNumber (NonNegative (kd_iterations k))),
      (''parallelism'', JNumber (NonNegative (kd_parallelism k))), (''salt'', JString (kd_salt k))]"

definition json_of_unlock :: "system_unlock_metadata \<Rightarrow> json" where
  "json_of_unlock u = JObject
     [(''scheme'', JString (su_scheme u)), (''credential'', JString (su_credential u)),
      (''wrappedKey'', JString (su_wrapped_key u))]"

definition json_of_metadata :: "vault_metadata \<Rightarrow> json" where
  "json_of_metadata vm = JObject
     ([(''version'', JNumber (NonNegative (vm_version vm))), (''kdf'', json_of_kdf (vm_kdf vm)),
       (''wrappedKey'', JString (vm_wrapped_key vm)), (''nonce'', JString (vm_nonce vm))]
      @ (if vm_system_unlocks vm = [] then []
         else [(''systemUnlocks'', JArray (map json_of_unlock (vm_system_unlocks vm)))]))"

section \<open>Environment and state\<close>

record vault_env =
  ve_params_ok :: "nat \<Rightarrow> nat \<Rightarrow> nat \<Rightarrow> bool"
  ve_random :: bool
  ve_kdf :: "string \<Rightarrow> nat \<Rightarrow> nat \<Rightarrow> nat \<Rightarrow> string \<Rightarrow> string option"
  ve_cipher :: cipher
  ve_b64 :: "string \<Rightarrow> string"
  ve_unb64 :: "string \<Rightarrow> string option"
  ve_codec :: codec
  ve_snapshot :: "string \<Rightarrow> string \<Rightarrow> secrets option"
  ve_wrap :: "string \<Rightarrow> string \<Rightarrow> string"
  ve_unwrap :: "string \<Rightarrow> string \<Rightarrow> string option"
  ve_pid :: nat
  ve_create_dir :: "error_code option"
  ve_write :: "string \<Rightarrow> error_code option"
  ve_rename :: "string \<Rightarrow> error_code option"
  ve_read :: "string \<Rightarrow> error_code option"
  ve_remove :: "string \<Rightarrow> error_code option"
  ve_register :: "string \<Rightarrow> bool"
  ve_consent :: "string \<Rightarrow> bool"
  ve_revoke :: "string \<Rightarrow> bool"

record unlocked_vault =
  un_secrets :: secrets
  un_data_key :: string

text \<open>\<open>va_keys\<close>: the credentials whose key this computer's key store holds.\<close>

record vault =
  va_files :: vault_files
  va_state :: "unlocked_vault option"
  va_epoch :: nat
  va_keys :: "string list"

definition data_path :: string where "data_path = ''vault.dat''"
definition legacy_path :: string where "legacy_path = ''vault.hold''"
definition legacy_backup_path :: string where "legacy_backup_path = ''vault.hold.backup''"
definition metadata_path :: string where "metadata_path = ''vault.json''"

definition vault_new :: "vault_files \<Rightarrow> string list \<Rightarrow> vault" where
  "vault_new files keys = \<lparr>va_files = files, va_state = None, va_epoch = 0, va_keys = keys\<rparr>"

definition has_secrets_file :: "vault \<Rightarrow> bool" where
  "has_secrets_file v \<longleftrightarrow> al_has data_path (va_files v) \<or> al_has legacy_path (va_files v)"

definition is_configured :: "vault \<Rightarrow> bool" where
  "is_configured v \<longleftrightarrow> has_secrets_file v \<and> al_has metadata_path (va_files v)"

definition is_damaged :: "vault \<Rightarrow> bool" where
  "is_damaged v \<longleftrightarrow> has_secrets_file v \<noteq> al_has metadata_path (va_files v)"

definition is_unlocked :: "vault \<Rightarrow> bool" where
  "is_unlocked v \<longleftrightarrow> va_state v \<noteq> None"

definition validate_new_password :: "string \<Rightarrow> vault_error + unit" where
  "validate_new_password pw =
     (if length (utf8_chars pw) < min_master_password_chars then Inl PasswordTooShort else Inr ())"

section \<open>Files\<close>

definition temporary_path :: "vault_env \<Rightarrow> string \<Rightarrow> string" where
  "temporary_path env path = path @ ''.'' @ show_nat (ve_pid env) @ ''.tmp''"

definition remove_file :: "vault_env \<Rightarrow> string \<Rightarrow> vault_files \<Rightarrow> (error_code + unit) \<times> vault_files" where
  "remove_file env name fs =
     (if \<not> al_has name fs then (Inl NotFound, fs)
      else case ve_remove env name of Some e \<Rightarrow> (Inl e, fs) | None \<Rightarrow> (Inr (), al_del name fs))"

definition try_remove :: "vault_env \<Rightarrow> string \<Rightarrow> vault_files \<Rightarrow> vault_files" where
  "try_remove env name fs = snd (remove_file env name fs)"

definition replace_file :: "vault_env \<Rightarrow> string \<Rightarrow> string \<Rightarrow> vault_files \<Rightarrow> (vault_error + unit) \<times> vault_files" where
  "replace_file env source destination fs =
     (case map_of fs source of
        None \<Rightarrow> (Inl (Os NotFound), fs)
      | Some body \<Rightarrow> (case ve_rename env destination of
          Some e \<Rightarrow> (Inl (Os e), fs) | None \<Rightarrow> (Inr (), al_put destination body (al_del source fs))))"

definition read_bytes :: "vault_env \<Rightarrow> string \<Rightarrow> vault_files \<Rightarrow> error_code + string" where
  "read_bytes env name fs =
     (case map_of fs name of
        None \<Rightarrow> Inl NotFound
      | Some body \<Rightarrow> (case ve_read env name of Some e \<Rightarrow> Inl e | None \<Rightarrow> Inr body))"

definition atomic_write :: "vault_env \<Rightarrow> string \<Rightarrow> string \<Rightarrow> vault_files \<Rightarrow> (vault_error + unit) \<times> vault_files" where
  "atomic_write env path body fs =
     (let tmp = temporary_path env path
      in case ve_write env path of
           Some e \<Rightarrow> (Inl (Os e), try_remove env tmp fs)
         | None \<Rightarrow> replace_file env tmp path (al_put tmp body fs))"

section \<open>Keys\<close>

definition argon2 :: "vault_env \<Rightarrow> kdf_metadata \<Rightarrow> vault_error + unit" where
  "argon2 env k =
     (if kd_algorithm k \<noteq> ''argon2id'' \<or> kd_version k \<noteq> 1 then Inl (Other ''unsupported vault KDF'')
      else if 64 * 1024 < kd_memory_kib k \<or> 3 < kd_iterations k \<or> kd_parallelism k \<noteq> 1
      then Inl (Other ''vault KDF parameters exceed the supported version 1 budget'')
      else if \<not> ve_params_ok env (kd_memory_kib k) (kd_iterations k) (kd_parallelism k)
      then Inl (Other ''invalid vault KDF parameters'') else Inr ())"

definition derive_wrapping_key :: "vault_env \<Rightarrow> string \<Rightarrow> kdf_metadata \<Rightarrow> vault_error + string" where
  "derive_wrapping_key env password k =
     (case argon2 env k of
        Inl e \<Rightarrow> Inl e
      | Inr _ \<Rightarrow> (case ve_unb64 env (kd_salt k) of
          None \<Rightarrow> Inl (Other ''invalid vault salt'')
        | Some salt \<Rightarrow>
            (case ve_kdf env password (kd_memory_kib k) (kd_iterations k) (kd_parallelism k) salt of
               None \<Rightarrow> Inl (Other ''deriving vault key'') | Some key \<Rightarrow> Inr key)))"

definition unwrap_data_key :: "vault_env \<Rightarrow> string \<Rightarrow> vault_metadata \<Rightarrow> vault_error + string" where
  "unwrap_data_key env password vm =
     (case derive_wrapping_key env password (vm_kdf vm) of
        Inl e \<Rightarrow> Inl e
      | Inr wrapping \<Rightarrow> (case ve_unb64 env (vm_nonce vm) of
          None \<Rightarrow> Inl (Other ''invalid vault nonce'')
        | Some nonce \<Rightarrow> (case ve_unb64 env (vm_wrapped_key vm) of
            None \<Rightarrow> Inl (Other ''invalid wrapped vault key'')
          | Some wrapped \<Rightarrow>
              if length nonce \<noteq> nonce_len then Inl (Other ''invalid vault nonce'')
              else if length wrapping \<noteq> 32 then Inl (Other ''invalid wrapping key'')
              else (case ci_decrypt (ve_cipher env) wrapping nonce [] wrapped of
                      None \<Rightarrow> Inl Refused
                    | Some plain \<Rightarrow> if length plain = 32 then Inr plain else Inl (Other ''invalid vault key'')))))"

lemma unwrap_other_fields [simp]: "unwrap_data_key env pw (vm\<lparr>vm_system_unlocks := us\<rparr>) = unwrap_data_key env pw vm"
  by (simp add: unwrap_data_key_def split: sum.split option.split)

text \<open>The random salt and nonce are arguments; \<open>ve_random\<close> says whether the system gave any.\<close>

definition make_metadata :: "vault_env \<Rightarrow> string \<Rightarrow> string \<Rightarrow> string \<Rightarrow> string \<Rightarrow> vault_error + vault_metadata" where
  "make_metadata env salt nonce password data_key =
     (if \<not> ve_random env then Inl (Other ''generating KDF salt'')
      else (let k = \<lparr>kd_algorithm = ''argon2id'', kd_version = 1, kd_memory_kib = kdf_memory_kib,
                  kd_iterations = kdf_iterations, kd_parallelism = kdf_parallelism, kd_salt = ve_b64 env salt\<rparr>
            in case derive_wrapping_key env password k of
                 Inl e \<Rightarrow> Inl e
               | Inr wrapping \<Rightarrow>
                   if length wrapping \<noteq> 32 then Inl (Other ''invalid wrapping key'')
                   else (case ci_encrypt (ve_cipher env) wrapping nonce [] data_key of
                           None \<Rightarrow> Inl (Other ''wrapping vault key'')
                         | Some wrapped \<Rightarrow> Inr \<lparr>vm_version = 1, vm_kdf = k, vm_wrapped_key = ve_b64 env wrapped,
                             vm_nonce = ve_b64 env nonce, vm_system_unlock = None, vm_system_unlocks = []\<rparr>)))"

definition max_metadata_bytes :: nat where "max_metadata_bytes = 64 * 1024"

definition read_metadata :: "vault_env \<Rightarrow> vault_files \<Rightarrow> vault_error + vault_metadata" where
  "read_metadata env fs =
     (case read_bytes env metadata_path fs of
        Inl e \<Rightarrow> Inl (Os e)
      | Inr raw \<Rightarrow>
          if max_metadata_bytes < length raw then Inl (Other ''vault metadata exceeds size budget'')
          else (case Option.bind (cd_parse (ve_codec env) raw) metadata_of_json of
                  None \<Rightarrow> Inl (Other ''invalid vault metadata'')
                | Some vm \<Rightarrow>
                    if vm_version vm \<noteq> 1 then Inl (Other ''unsupported vault metadata version'')
                    else (let vm' = vm\<lparr>vm_system_unlocks := vm_system_unlocks vm
                                   @ (case vm_system_unlock vm of None \<Rightarrow> [] | Some u \<Rightarrow> [u]),
                                 vm_system_unlock := None\<rparr>
                          in case argon2 env (vm_kdf vm) of Inl e \<Rightarrow> Inl e | Inr _ \<Rightarrow> Inr vm')))"

definition metadata_bytes :: "vault_env \<Rightarrow> vault_metadata \<Rightarrow> string" where
  "metadata_bytes env vm = cd_render (ve_codec env) (json_of_metadata vm)"

section \<open>The secrets file\<close>

definition commit :: "vault_env \<Rightarrow> string \<Rightarrow> secrets \<Rightarrow> string \<Rightarrow> vault_files \<Rightarrow> (vault_error + unit) \<times> vault_files" where
  "commit env nonce ss key fs =
     (case (if ve_random env then seal (ve_cipher env) nonce ss key else None) of
        None \<Rightarrow> (Inl (Other ''sealing vault''), fs)
      | Some file \<Rightarrow>
          (case atomic_write env data_path file fs of
             (Inl e, fs') \<Rightarrow> (Inl e, try_remove env (temporary_path env data_path) fs')
           | (Inr _, fs') \<Rightarrow> (Inr (), fs')))"

definition check_key :: string where "check_key = ''vault-format''"
definition check_value :: string where "check_value = ''ftpeach-v1''"

definition move_legacy :: "vault_env \<Rightarrow> string \<Rightarrow> string \<Rightarrow> vault_files \<Rightarrow> (vault_error + secrets) \<times> vault_files" where
  "move_legacy env nonce key fs =
     (case read_bytes env legacy_path fs of
        Inl e \<Rightarrow> (Inl (Os e), fs)
      | Inr old \<Rightarrow> (case ve_snapshot env old key of
          None \<Rightarrow> (Inl (Other ''reading the vault of an earlier version''), fs)
        | Some ss \<Rightarrow>
            if map_of ss check_key \<noteq> Some check_value then (Inl (Other ''damaged vault''), fs)
            else (case commit env nonce (al_del check_key ss) key fs of
                    (Inl e, fs') \<Rightarrow> (Inl e, fs')
                  | (Inr _, fs') \<Rightarrow> (Inr (al_del check_key ss), fs'))))"

definition load_secrets :: "vault_env \<Rightarrow> string \<Rightarrow> string \<Rightarrow> vault_files \<Rightarrow> (vault_error + secrets) \<times> vault_files" where
  "load_secrets env nonce key fs =
     (case (case read_bytes env data_path fs of
              Inr file \<Rightarrow> (case open_sealed (ve_cipher env) file key of
                  Some ss \<Rightarrow> (Inr ss, fs)
                | None \<Rightarrow> if al_has legacy_path fs then move_legacy env nonce key fs
                          else (Inl (Other ''damaged vault''), fs))
            | Inl e \<Rightarrow> if e = NotFound then move_legacy env nonce key fs else (Inl (Os e), fs)) of
        (Inl e, fs') \<Rightarrow> (Inl e, fs')
      | (Inr ss, fs') \<Rightarrow>
          (Inr ss, if al_has legacy_path fs' then snd (replace_file env legacy_path legacy_backup_path fs') else fs'))"

section \<open>Operations\<close>

definition secret_key :: "string \<Rightarrow> string \<Rightarrow> string" where
  "secret_key site_id field = ''site:'' @ site_id @ '':'' @ field"

definition proxy_password_key :: string where "proxy_password_key = ''settings:proxyPassword''"

datatype secret_update =
    SetSecret string string string
  | DeleteSecret string string
  | SetProxyPassword string
  | DeleteProxyPassword

fun update_key :: "secret_update \<Rightarrow> string" where
  "update_key (SetSecret site_id field val) = secret_key site_id field"
| "update_key (DeleteSecret site_id field) = secret_key site_id field"
| "update_key (SetProxyPassword val) = proxy_password_key"
| "update_key DeleteProxyPassword = proxy_password_key"

fun apply_update :: "secret_update \<Rightarrow> secrets \<Rightarrow> secrets" where
  "apply_update (SetSecret site_id field val) ss = bt_insert (secret_key site_id field) val ss"
| "apply_update (SetProxyPassword val) ss = bt_insert proxy_password_key val ss"
| "apply_update u ss = al_del (update_key u) ss"

definition get_key :: "string \<Rightarrow> vault \<Rightarrow> vault_error + string option" where
  "get_key k v = (case va_state v of None \<Rightarrow> Inl Locked | Some u \<Rightarrow> Inr (map_of (un_secrets u) k))"

definition get_secret :: "string \<Rightarrow> string \<Rightarrow> vault \<Rightarrow> vault_error + string option" where
  "get_secret site_id field v = get_key (secret_key site_id field) v"

definition get_proxy_password :: "vault \<Rightarrow> vault_error + string option" where
  "get_proxy_password v = get_key proxy_password_key v"

definition apply_secret_updates ::
  "vault_env \<Rightarrow> string \<Rightarrow> secret_update list \<Rightarrow> vault \<Rightarrow> (vault_error + unit) \<times> vault" where
  "apply_secret_updates env nonce us v =
     (case va_state v of
        None \<Rightarrow> (Inl Locked, v)
      | Some u \<Rightarrow>
          (let ss = fold apply_update us (un_secrets u)
           in case commit env nonce ss (un_data_key u) (va_files v) of
                (Inl e, fs) \<Rightarrow> (Inl e, v\<lparr>va_files := fs\<rparr>)
              | (Inr _, fs) \<Rightarrow> (Inr (), v\<lparr>va_files := fs, va_state := Some (u\<lparr>un_secrets := ss\<rparr>)\<rparr>)))"

text \<open>The random numbers of one set-up: the data key, the salt, and the nonces of both files.\<close>

record vault_random =
  rn_key :: string
  rn_salt :: string
  rn_wrap :: string
  rn_seal :: string

definition setup_vault :: "vault_env \<Rightarrow> vault_random \<Rightarrow> string \<Rightarrow> vault \<Rightarrow> (vault_error + unit) \<times> vault" where
  "setup_vault env rn password v =
     (case validate_new_password password of
        Inl e \<Rightarrow> (Inl e, v)
      | Inr _ \<Rightarrow>
          if al_has metadata_path (va_files v) \<or> has_secrets_file v
          then (Inl (Other ''vault is already configured''), v)
          else (case ve_create_dir env of
            Some e \<Rightarrow> (Inl (Os e), v)
          | None \<Rightarrow>
              if \<not> ve_random env then (Inl (Other ''generating vault key''), v)
              else (case make_metadata env (rn_salt rn) (rn_wrap rn) password (rn_key rn) of
                Inl e \<Rightarrow> (Inl e, v)
              | Inr vm \<Rightarrow> (case commit env (rn_seal rn) [] (rn_key rn) (va_files v) of
                  (Inl e, fs) \<Rightarrow> (Inl e, v\<lparr>va_files := fs\<rparr>)
                | (Inr _, fs) \<Rightarrow> (case atomic_write env metadata_path (metadata_bytes env vm) fs of
                    (Inl e, fs') \<Rightarrow> (Inl e, v\<lparr>va_files := try_remove env data_path fs'\<rparr>)
                  | (Inr _, fs') \<Rightarrow>
                      (Inr (), v\<lparr>va_files := fs',
                         va_state := Some \<lparr>un_secrets = [], un_data_key = rn_key rn\<rparr>\<rparr>))))))"

definition open_vault :: "vault_env \<Rightarrow> string \<Rightarrow> string \<Rightarrow> vault \<Rightarrow> (vault_error + unit) \<times> vault" where
  "open_vault env nonce key v =
     (case load_secrets env nonce key (va_files v) of
        (Inl e, fs) \<Rightarrow> (Inl e, v\<lparr>va_files := fs\<rparr>)
      | (Inr ss, fs) \<Rightarrow> (Inr (), v\<lparr>va_files := fs, va_state := Some \<lparr>un_secrets = ss, un_data_key = key\<rparr>\<rparr>))"

definition unlock_vault :: "vault_env \<Rightarrow> string \<Rightarrow> string \<Rightarrow> vault \<Rightarrow> (vault_error + unit) \<times> vault" where
  "unlock_vault env nonce password v =
     (case read_metadata env (va_files v) of
        Inl e \<Rightarrow> (Inl e, v)
      | Inr vm \<Rightarrow> (case unwrap_data_key env password vm of
          Inl e \<Rightarrow> (Inl e, v) | Inr key \<Rightarrow> open_vault env nonce key v))"

definition verify_password :: "vault_env \<Rightarrow> string \<Rightarrow> vault \<Rightarrow> vault_error + unit" where
  "verify_password env password v =
     (case read_metadata env (va_files v) of
        Inl e \<Rightarrow> Inl e
      | Inr vm \<Rightarrow> (case unwrap_data_key env password vm of Inl e \<Rightarrow> Inl e | Inr _ \<Rightarrow> Inr ()))"

definition unlock_with_data_key :: "vault_env \<Rightarrow> string \<Rightarrow> string \<Rightarrow> vault \<Rightarrow> (vault_error + unit) \<times> vault" where
  "unlock_with_data_key env nonce key v =
     (if length key \<noteq> 32 then (Inl (Other ''invalid system vault key''), v) else open_vault env nonce key v)"

definition lock_vault :: "vault \<Rightarrow> vault" where
  "lock_vault v = v\<lparr>va_epoch := Suc (va_epoch v) mod 2 ^ 64, va_state := None\<rparr>"

definition change_password ::
  "vault_env \<Rightarrow> string \<Rightarrow> string \<Rightarrow> string \<Rightarrow> string \<Rightarrow> vault \<Rightarrow> (vault_error + unit) \<times> vault" where
  "change_password env salt nonce old_password new_password v =
     (case validate_new_password new_password of
        Inl e \<Rightarrow> (Inl e, v)
      | Inr _ \<Rightarrow> (case read_metadata env (va_files v) of
          Inl e \<Rightarrow> (Inl e, v)
        | Inr old \<Rightarrow> (case unwrap_data_key env old_password old of
            Inl e \<Rightarrow> (Inl e, v)
          | Inr key \<Rightarrow> (case make_metadata env salt nonce new_password key of
              Inl e \<Rightarrow> (Inl e, v)
            | Inr new \<Rightarrow>
                (case atomic_write env metadata_path
                    (metadata_bytes env (new\<lparr>vm_system_unlocks := vm_system_unlocks old\<rparr>)) (va_files v) of
                   (r, fs) \<Rightarrow> (r, v\<lparr>va_files := fs\<rparr>))))))"

section \<open>Windows Hello\<close>

definition system_unlock_here :: "string list \<Rightarrow> vault_metadata \<Rightarrow> system_unlock_metadata option" where
  "system_unlock_here keys vm =
     find (\<lambda>u. su_scheme u = hello_scheme \<and> su_credential u \<in> set keys) (vm_system_unlocks vm)"

definition revoke_key :: "vault_env \<Rightarrow> string \<Rightarrow> string list \<Rightarrow> bool \<times> string list" where
  "revoke_key env name keys =
     (if name \<in> set keys \<and> ve_revoke env name then (True, filter (\<lambda>k. k \<noteq> name) keys) else (False, keys))"

fun retain_usable ::
  "vault_env \<Rightarrow> system_unlock_metadata list \<Rightarrow> string list \<Rightarrow> system_unlock_metadata list \<times> string list" where
  "retain_usable env [] keys = ([], keys)"
| "retain_usable env (u # us) keys =
     (if su_scheme u = hello_scheme
      then (case retain_usable env us keys of (kept, ks) \<Rightarrow> (u # kept, ks))
      else (case revoke_key env (su_credential u) keys of
              (True, ks) \<Rightarrow> retain_usable env us ks
            | (False, ks) \<Rightarrow> (case retain_usable env us ks of (kept, ks') \<Rightarrow> (u # kept, ks'))))"

text \<open>Enabling keeps the mutex while the credential is made and lets it go before the file is
  written; what it will write is the value in between. \<open>None\<close>: enabled here already.\<close>

definition enable_prepare ::
  "vault_env \<Rightarrow> string \<Rightarrow> vault \<Rightarrow> (vault_error + vault_metadata option) \<times> vault" where
  "enable_prepare env credential v =
     (case va_state v of
        None \<Rightarrow> (Inl Locked, v)
      | Some u \<Rightarrow> (case read_metadata env (va_files v) of
          Inl e \<Rightarrow> (Inl e, v)
        | Inr vm \<Rightarrow>
            if system_unlock_here (va_keys v) vm \<noteq> None then (Inr None, v)
            else (case retain_usable env (vm_system_unlocks vm) (va_keys v) of
              (kept, keys) \<Rightarrow>
                if \<not> ve_register env credential
                then (Inl (Other ''registering the credential''), v\<lparr>va_keys := keys\<rparr>)
                else (let room = (if max_system_unlocks \<le> length kept then drop 1 kept else kept);
                          new = \<lparr>su_scheme = hello_scheme, su_credential = credential,
                             su_wrapped_key = ve_b64 env (ve_wrap env credential (un_data_key u))\<rparr>
                      in (Inr (Some (vm\<lparr>vm_system_unlocks := room @ [new]\<rparr>)),
                          v\<lparr>va_keys := credential # keys\<rparr>)))))"

definition enable_finish ::
  "vault_env \<Rightarrow> string \<Rightarrow> vault_metadata \<Rightarrow> vault \<Rightarrow> (vault_error + unit) \<times> vault" where
  "enable_finish env credential vm v =
     (case atomic_write env metadata_path (metadata_bytes env vm) (va_files v) of
        (Inl e, fs) \<Rightarrow> (Inl e, v\<lparr>va_files := fs, va_keys := snd (revoke_key env credential (va_keys v))\<rparr>)
      | (Inr _, fs) \<Rightarrow> (Inr (), v\<lparr>va_files := fs\<rparr>))"

definition enable_system_unlock :: "vault_env \<Rightarrow> string \<Rightarrow> vault \<Rightarrow> (vault_error + unit) \<times> vault" where
  "enable_system_unlock env credential v =
     (case enable_prepare env credential v of
        (Inl e, v') \<Rightarrow> (Inl e, v')
      | (Inr None, v') \<Rightarrow> (Inr (), v')
      | (Inr (Some vm), v') \<Rightarrow> enable_finish env credential vm v')"

definition system_key :: "vault_env \<Rightarrow> vault \<Rightarrow> vault_error + string" where
  "system_key env v =
     (case read_metadata env (va_files v) of
        Inl e \<Rightarrow> Inl e
      | Inr vm \<Rightarrow> (case system_unlock_here (va_keys v) vm of
          None \<Rightarrow> Inl (Other ''system unlock is not enabled on this computer; use the master password'')
        | Some u \<Rightarrow> (case ve_unb64 env (su_wrapped_key u) of
            None \<Rightarrow> Inl (Other ''invalid system credential'')
          | Some wrapped \<Rightarrow>
              if \<not> ve_consent env (su_credential u) then Inl (Other ''unwrapping the vault key'')
              else (case ve_unwrap env (su_credential u) wrapped of
                      None \<Rightarrow> Inl (Other ''unwrapping the vault key'') | Some key \<Rightarrow> Inr key))))"

definition unlock_system :: "vault_env \<Rightarrow> string \<Rightarrow> vault \<Rightarrow> (vault_error + unit) \<times> vault" where
  "unlock_system env nonce v =
     (case system_key env v of Inl e \<Rightarrow> (Inl e, v) | Inr key \<Rightarrow> unlock_with_data_key env nonce key v)"

definition verify_system :: "vault_env \<Rightarrow> string \<Rightarrow> vault \<Rightarrow> (vault_error + unit) \<times> vault" where
  "verify_system env nonce v =
     (if \<not> is_unlocked v then unlock_system env nonce v
      else (case system_key env v of
              Inl e \<Rightarrow> (Inl e, v)
            | Inr key \<Rightarrow> (case va_state v of
                None \<Rightarrow> (Inl Locked, v)
              | Some u \<Rightarrow> (if key = un_data_key u then Inr ()
                  else Inl (Other ''the Windows Hello credential does not open this vault''), v))))"

fun revoke_each :: "vault_env \<Rightarrow> string list \<Rightarrow> string list \<Rightarrow> bool \<times> string list" where
  "revoke_each env [] keys = (True, keys)"
| "revoke_each env (n # ns) keys =
     (case revoke_key env n keys of (True, ks) \<Rightarrow> revoke_each env ns ks | (False, ks) \<Rightarrow> (False, ks))"

definition disable_system_unlock :: "vault_env \<Rightarrow> vault \<Rightarrow> (vault_error + unit) \<times> vault" where
  "disable_system_unlock env v =
     (case read_metadata env (va_files v) of
        Inl e \<Rightarrow> (Inl e, v)
      | Inr vm \<Rightarrow>
          (let here = filter (\<lambda>u. su_credential u \<in> set (va_keys v)) (vm_system_unlocks vm);
               elsewhere = filter (\<lambda>u. su_credential u \<notin> set (va_keys v)) (vm_system_unlocks vm)
           in if here = [] then (Inr (), v)
              else (case revoke_each env (map su_credential here) (va_keys v) of
                (False, keys) \<Rightarrow> (Inl (Other ''revoking the credential''), v\<lparr>va_keys := keys\<rparr>)
              | (True, keys) \<Rightarrow>
                  (case atomic_write env metadata_path (metadata_bytes env (vm\<lparr>vm_system_unlocks := elsewhere\<rparr>))
                      (va_files v) of
                     (r, fs) \<Rightarrow> (r, v\<lparr>va_files := fs, va_keys := keys\<rparr>)))))"

section \<open>Removing the vault\<close>

fun set_aside :: "vault_env \<Rightarrow> string list \<Rightarrow> vault_files \<Rightarrow> (vault_error + unit) \<times> vault_files" where
  "set_aside env [] fs = (Inr (), fs)"
| "set_aside env (path # paths) fs =
     (if \<not> al_has path fs then set_aside env paths fs
      else (case replace_file env path (path @ ''.damaged'') fs of
              (Inl e, fs') \<Rightarrow> (Inl e, fs') | (Inr _, fs') \<Rightarrow> set_aside env paths fs'))"

fun remove_present :: "vault_env \<Rightarrow> string list \<Rightarrow> vault_files \<Rightarrow> (vault_error + unit) \<times> vault_files" where
  "remove_present env [] fs = (Inr (), fs)"
| "remove_present env (path # paths) fs =
     (case remove_file env path fs of
        (Inl e, fs') \<Rightarrow> if e = NotFound then remove_present env paths fs' else (Inl (Os e), fs')
      | (Inr _, fs') \<Rightarrow> remove_present env paths fs')"

definition remove_vault_files :: "vault_env \<Rightarrow> vault \<Rightarrow> (vault_error + unit) \<times> vault" where
  "remove_vault_files env v =
     (if is_damaged v
      then (case set_aside env [data_path, legacy_path, metadata_path] (va_files v) of
              (r, fs) \<Rightarrow> (r, v\<lparr>va_files := fs\<rparr>))
      else (let keys = (case read_metadata env (va_files v) of
                 Inl _ \<Rightarrow> va_keys v
               | Inr vm \<Rightarrow> fold (\<lambda>u ks. snd (revoke_key env (su_credential u) ks)) (vm_system_unlocks vm) (va_keys v))
            in case remove_present env [data_path, legacy_path, legacy_backup_path, metadata_path] (va_files v) of
                 (r, fs) \<Rightarrow> (r, v\<lparr>va_files := fs, va_keys := keys\<rparr>)))"

definition reset_vault :: "vault_env \<Rightarrow> vault \<Rightarrow> (vault_error + unit) \<times> vault" where
  "reset_vault env v = remove_vault_files env (lock_vault v)"

definition remove_unlocked :: "vault_env \<Rightarrow> vault \<Rightarrow> (vault_error + unit) \<times> vault" where
  "remove_unlocked env v =
     (if \<not> is_unlocked v then (Inl Locked, v) else remove_vault_files env (lock_vault v))"

record vault_status =
  vs_configured :: bool
  vs_locked :: bool
  vs_unlock_available :: bool
  vs_unlock_enabled :: bool
  vs_damaged :: bool

definition status_of :: "vault_env \<Rightarrow> bool \<Rightarrow> vault \<Rightarrow> vault_status" where
  "status_of env available v =
     \<lparr>vs_configured = is_configured v, vs_locked = (va_state v = None), vs_unlock_available = available,
      vs_unlock_enabled = (case read_metadata env (va_files v) of
         Inl _ \<Rightarrow> False | Inr vm \<Rightarrow> system_unlock_here (va_keys v) vm \<noteq> None),
      vs_damaged = is_damaged v\<rparr>"

section \<open>Lemmas\<close>

subsection \<open>Which files an operation touches\<close>

lemma vault_names [simp]:
  "data_path \<noteq> metadata_path" "metadata_path \<noteq> data_path" "data_path \<noteq> legacy_path" "legacy_path \<noteq> data_path"
  "metadata_path \<noteq> legacy_path" "legacy_path \<noteq> metadata_path" "legacy_backup_path \<noteq> data_path"
  "data_path \<noteq> legacy_backup_path" "legacy_backup_path \<noteq> legacy_path" "legacy_path \<noteq> legacy_backup_path"
  "legacy_backup_path \<noteq> metadata_path" "metadata_path \<noteq> legacy_backup_path"
  by (simp_all add: data_path_def metadata_path_def legacy_path_def legacy_backup_path_def)

definition vault_names_all :: "string list" where
  "vault_names_all = [data_path, legacy_path, legacy_backup_path, metadata_path]"

lemma temporary_ne: "n \<in> set vault_names_all \<Longrightarrow> n \<noteq> temporary_path env path"
proof
  assume n: "n \<in> set vault_names_all" and "n = temporary_path env path"
  then have "suffix ''.tmp'' n" by (simp add: temporary_path_def suffix_def)
  moreover have "list_all (\<lambda>n. \<not> suffix ''.tmp'' n) vault_names_all" by code_simp
  ultimately show False using n by (simp add: list_all_iff)
qed

lemma temporary_simps [simp]:
  "data_path \<noteq> temporary_path env p" "temporary_path env p \<noteq> data_path"
  "legacy_path \<noteq> temporary_path env p" "temporary_path env p \<noteq> legacy_path"
  "legacy_backup_path \<noteq> temporary_path env p" "temporary_path env p \<noteq> legacy_backup_path"
  "metadata_path \<noteq> temporary_path env p" "temporary_path env p \<noteq> metadata_path"
  using temporary_ne [of _ env p] by (auto simp: vault_names_all_def)

lemma try_remove_other [simp]: "n \<noteq> name \<Longrightarrow> map_of (try_remove env name fs) n = map_of fs n"
  by (simp add: try_remove_def remove_file_def split: option.splits)

lemma try_remove_done: "ve_remove env name = None \<Longrightarrow> map_of (try_remove env name fs) name = None"
  by (simp add: try_remove_def remove_file_def al_has_def)

lemma atomic_write_other:
  "atomic_write env path body fs = (r, fs') \<Longrightarrow> n \<noteq> path \<Longrightarrow> n \<noteq> temporary_path env path \<Longrightarrow> map_of fs' n = map_of fs n"
  by (auto simp: atomic_write_def replace_file_def Let_def split: option.splits)

lemma atomic_write_path:
  assumes "atomic_write env path body fs = (r, fs')" and "path \<in> set vault_names_all"
  shows "map_of fs' path = (if is_Ok r then Some body else map_of fs path)"
  using assms(1) temporary_ne [OF assms(2), of env path]
  by (auto simp: atomic_write_def replace_file_def Let_def split: option.splits)

lemma commit_other:
  "commit env nonce ss key fs = (r, fs') \<Longrightarrow> n \<noteq> data_path \<Longrightarrow> n \<noteq> temporary_path env data_path \<Longrightarrow> map_of fs' n = map_of fs n"
  by (auto simp: commit_def dest!: atomic_write_other split: option.splits sum.splits prod.splits if_splits)

lemma commit_failed: "commit env nonce ss key fs = (Inl e, fs') \<Longrightarrow> map_of fs' data_path = map_of fs data_path"
  by (auto simp: commit_def vault_names_all_def dest!: atomic_write_path split: option.splits sum.splits prod.splits if_splits)

subsection \<open>Sealing and metadata\<close>

definition lossless_cipher :: "cipher \<Rightarrow> bool" where
  "lossless_cipher c \<longleftrightarrow> (\<forall>key nonce aad msg ct. ci_encrypt c key nonce aad msg = Some ct \<longrightarrow> ci_decrypt c key nonce aad ct = Some msg)"

definition data_opens :: "cipher \<Rightarrow> vault_files \<Rightarrow> string \<Rightarrow> secrets \<Rightarrow> bool" where
  "data_opens c fs key ss \<longleftrightarrow> (\<exists>raw. map_of fs data_path = Some raw \<and> open_sealed c raw key = Some ss)"

lemma commit_done:
  assumes "commit env nonce ss key fs = (Inr (), fs')" and "lossless_cipher (ve_cipher env)"
    and "length nonce = nonce_len" and "bt_ok ss"
  shows "data_opens (ve_cipher env) fs' key ss"
proof -
  obtain raw where f: "seal (ve_cipher env) nonce ss key = Some raw" "atomic_write env data_path raw fs = (Inr (), fs')"
    using assms(1) by (auto simp: commit_def split: option.splits sum.splits prod.splits if_splits)
  have "open_sealed (ve_cipher env) raw key = Some ss"
    by (rule open_seal [OF _ f(1) assms(3,4)]) (use assms(2) in \<open>simp add: lossless_cipher_def\<close>)
  then show ?thesis using atomic_write_path [OF f(2)] by (simp add: data_opens_def vault_names_all_def)
qed

lemma data_opens_cong: "map_of fs data_path = map_of fs' data_path \<Longrightarrow> data_opens c fs key ss = data_opens c fs' key ss"
  by (simp add: data_opens_def)

lemma data_opens_ok: "data_opens c fs key ss \<Longrightarrow> bt_ok ss"
  by (auto simp: data_opens_def open_sealed_ok)

lemma fold_updates_ok: "bt_ok ss \<Longrightarrow> bt_ok (fold apply_update us ss)"
proof (induction us arbitrary: ss)
  case (Cons u us)
  have "bt_ok (apply_update u ss)" by (cases u) (use Cons.prems in simp_all)
  then show ?case using Cons.IH by simp
qed simp

definition meta_ok :: "vault_metadata \<Rightarrow> bool" where
  "meta_ok vm \<longleftrightarrow> vm_system_unlock vm = None \<and> vm_version vm \<le> 255 \<and> kd_version (vm_kdf vm) \<le> 255
     \<and> kd_memory_kib (vm_kdf vm) \<le> u32_max \<and> kd_iterations (vm_kdf vm) \<le> u32_max \<and> kd_parallelism (vm_kdf vm) \<le> u32_max"

lemma unlocks_roundtrip: "unlocks_of_json (map json_of_unlock us) = Some us"
proof (induction us)
  case (Cons u us)
  have "unlock_of_json (json_of_unlock u) = Some u"
    by (simp add: unlock_of_json_def json_of_unlock_def get_str_def al_has_def)
  then show ?case using Cons by simp
qed simp

lemma kdf_roundtrip: "meta_ok vm \<Longrightarrow> kdf_of_json (json_of_kdf (vm_kdf vm)) = Some (vm_kdf vm)"
  by (simp add: kdf_of_json_def json_of_kdf_def need_uint_def get_str_def get_u64_def meta_ok_def)

lemma metadata_roundtrip: "meta_ok vm \<Longrightarrow> metadata_of_json (json_of_metadata vm) = Some vm"
  using kdf_roundtrip [of vm] unlocks_roundtrip [of "vm_system_unlocks vm"]
  by (cases "vm_system_unlocks vm = []")
    (simp_all add: metadata_of_json_def json_of_metadata_def need_uint_def get_str_def get_u64_def meta_ok_def)

lemma need_uint_le: "need_uint limit m k = Some n \<Longrightarrow> n \<le> limit"
  by (auto simp: need_uint_def split: option.splits if_splits)

lemma kdf_of_json_ok: "kdf_of_json v = Some k \<Longrightarrow> kd_version k \<le> 255 \<and> kd_memory_kib k \<le> u32_max
    \<and> kd_iterations k \<le> u32_max \<and> kd_parallelism k \<le> u32_max"
  by (auto simp: kdf_of_json_def bind_eq_Some_conv dest!: need_uint_le)

lemma read_metadata_ok:
  assumes "read_metadata env fs = Inr vm"
  shows "meta_ok vm \<and> argon2 env (vm_kdf vm) = Inr () \<and> vm_version vm = 1"
proof -
  obtain raw vm0 where v: "Option.bind (cd_parse (ve_codec env) raw) metadata_of_json = Some vm0"
    "vm = vm0\<lparr>vm_system_unlocks := vm_system_unlocks vm0 @ (case vm_system_unlock vm0 of None \<Rightarrow> [] | Some u \<Rightarrow> [u]),
       vm_system_unlock := None\<rparr>" "vm_version vm0 = 1" "argon2 env (vm_kdf vm0) = Inr ()"
    using assms by (auto simp: read_metadata_def Let_def split: sum.splits if_splits option.splits)
  then show ?thesis using kdf_of_json_ok
    by (auto simp: meta_ok_def metadata_of_json_def bind_eq_Some_conv)
qed

definition parses_back :: "codec \<Rightarrow> bool" where
  "parses_back c \<longleftrightarrow> (\<forall>v. cd_parse c (cd_render c v) = Some v)"

lemma read_written_metadata:
  assumes "map_of fs metadata_path = Some (metadata_bytes env vm)" and "parses_back (ve_codec env)"
    and "meta_ok vm" "vm_version vm = 1" "argon2 env (vm_kdf vm) = Inr ()"
    and "ve_read env metadata_path = None" and "length (metadata_bytes env vm) \<le> max_metadata_bytes"
  shows "read_metadata env fs = Inr vm"
  using assms metadata_roundtrip [OF assms(3)]
  by (simp add: read_metadata_def read_bytes_def metadata_bytes_def parses_back_def meta_ok_def not_less [symmetric])

lemma make_metadata_ok:
  assumes "make_metadata env salt nonce pw key = Inr vm"
  shows "meta_ok vm \<and> vm_version vm = 1 \<and> argon2 env (vm_kdf vm) = Inr () \<and> vm_system_unlocks vm = []"
proof -
  obtain w where "derive_wrapping_key env pw (vm_kdf vm) = Inr w" and vm: "vm_version vm = 1" "vm_system_unlock vm = None"
    "vm_system_unlocks vm = []" "kd_version (vm_kdf vm) = 1" "kd_memory_kib (vm_kdf vm) = kdf_memory_kib"
    "kd_iterations (vm_kdf vm) = kdf_iterations" "kd_parallelism (vm_kdf vm) = kdf_parallelism"
    using assms by (auto simp: make_metadata_def Let_def split: if_splits sum.splits option.splits)
  moreover from this(1) have "argon2 env (vm_kdf vm) = Inr ()"
    by (auto simp: derive_wrapping_key_def split: sum.splits)
  ultimately show ?thesis by (simp add: meta_ok_def kdf_memory_kib_def kdf_iterations_def kdf_parallelism_def)
qed

lemma unwrap_made_metadata:
  assumes "make_metadata env salt nonce pw key = Inr vm" and "lossless_cipher (ve_cipher env)"
    and "\<And>s. ve_unb64 env (ve_b64 env s) = Some s" and "length nonce = nonce_len" and "length key = 32"
  shows "unwrap_data_key env pw (vm\<lparr>vm_system_unlocks := us\<rparr>) = Inr key"
  using assms
  by (auto simp: make_metadata_def unwrap_data_key_def lossless_cipher_def Let_def
      split: if_splits sum.splits option.splits)

subsection \<open>Memory in step with the file\<close>

definition in_step :: "cipher \<Rightarrow> vault \<Rightarrow> bool" where
  "in_step c v \<longleftrightarrow> (case va_state v of None \<Rightarrow> True | Some u \<Rightarrow> data_opens c (va_files v) (un_data_key u) (un_secrets u))"

text \<open>What the environment owes: the snapshot reader gives a \<open>BTreeMap\<close>.\<close>

definition env_ok :: "cipher \<Rightarrow> vault_env \<Rightarrow> bool" where
  "env_ok c env \<longleftrightarrow> ve_cipher env = c \<and> lossless_cipher c
     \<and> (\<forall>raw key ss. ve_snapshot env raw key = Some ss \<longrightarrow> bt_ok ss)"

lemma in_step_simps [simp]:
  "in_step c (v\<lparr>va_keys := ks\<rparr>) = in_step c v"
  "in_step c (v\<lparr>va_files := fs, va_keys := ks\<rparr>) = in_step c (v\<lparr>va_files := fs\<rparr>)"
  by (simp_all add: in_step_def split: option.split)

lemma in_step_files:
  "in_step c v \<Longrightarrow> map_of fs data_path = map_of (va_files v) data_path \<Longrightarrow> in_step c (v\<lparr>va_files := fs\<rparr>)"
  using data_opens_cong [of fs "va_files v"] by (simp add: in_step_def split: option.splits)

lemma move_legacy_step:
  assumes "move_legacy env nonce key fs = (r, fs')" and "env_ok c env" and "length nonce = nonce_len"
  shows "(\<forall>ss. r = Inr ss \<longrightarrow> data_opens c fs' key ss) \<and> (\<not> is_Ok r \<longrightarrow> map_of fs' data_path = map_of fs data_path)
    \<and> map_of fs' legacy_path = map_of fs legacy_path \<and> map_of fs' legacy_backup_path = map_of fs legacy_backup_path
    \<and> map_of fs' metadata_path = map_of fs metadata_path"
proof -
  have snap: "bt_ok ss" if "ve_snapshot env raw key = Some ss" for raw ss using assms(2) that by (simp add: env_ok_def)
  show ?thesis
    using assms snap commit_done commit_failed commit_other
    by (auto simp: move_legacy_def env_ok_def split: sum.splits option.splits if_splits prod.splits)
qed

lemma load_secrets_step:
  assumes "load_secrets env nonce key fs = (r, fs')" and "env_ok c env" and "length nonce = nonce_len"
  shows "(\<forall>ss. r = Inr ss \<longrightarrow> data_opens c fs' key ss) \<and> (\<not> is_Ok r \<longrightarrow> map_of fs' data_path = map_of fs data_path)
    \<and> map_of fs' metadata_path = map_of fs metadata_path"
proof -
  obtain r0 fs0 where first: "(case read_bytes env data_path fs of
        Inr file \<Rightarrow> (case open_sealed (ve_cipher env) file key of
            Some ss \<Rightarrow> (Inr ss, fs)
          | None \<Rightarrow> if al_has legacy_path fs then move_legacy env nonce key fs else (Inl (Other ''damaged vault''), fs))
      | Inl e \<Rightarrow> if e = NotFound then move_legacy env nonce key fs else (Inl (Os e), fs)) = (r0, fs0)" by fastforce
  have r0: "(\<forall>ss. r0 = Inr ss \<longrightarrow> data_opens c fs0 key ss) \<and> (\<not> is_Ok r0 \<longrightarrow> map_of fs0 data_path = map_of fs data_path)
    \<and> map_of fs0 metadata_path = map_of fs metadata_path"
    using first move_legacy_step [OF _ assms(2,3)] assms(2)
    by (auto simp: read_bytes_def data_opens_def env_ok_def split: option.splits if_splits sum.splits)
  have "map_of (snd (replace_file env legacy_path legacy_backup_path fs0)) n = map_of fs0 n"
    if "n = data_path \<or> n = metadata_path" for n
    using that by (auto simp: replace_file_def split: option.splits)
  then show ?thesis
    using r0 assms(1) unfolding load_secrets_def first
    by (auto simp: data_opens_def split: sum.splits if_splits)
qed

lemma open_vault_step:
  assumes "open_vault env nonce key v = (r, v')" and "env_ok c env" and "length nonce = nonce_len" and "in_step c v"
  shows "in_step c v'"
proof -
  obtain r0 fs where l: "load_secrets env nonce key (va_files v) = (r0, fs)" by fastforce
  note step = load_secrets_step [OF l assms(2,3)]
  show ?thesis
  proof (cases r0)
    case (Inl e)
    then show ?thesis
      using assms(1,4) l step in_step_files [of c v fs] by (auto simp: open_vault_def)
  next
    case (Inr ss)
    then show ?thesis using assms(1) l step by (auto simp: open_vault_def in_step_def)
  qed
qed

lemma updates_step:
  assumes "apply_secret_updates env nonce us v = (r, v')" and "env_ok c env" and "length nonce = nonce_len" and "in_step c v"
  shows "in_step c v'"
proof (cases "va_state v")
  case None
  then show ?thesis using assms(1,4) by (simp add: apply_secret_updates_def)
next
  case (Some u)
  let ?ss = "fold apply_update us (un_secrets u)"
  have ok: "bt_ok ?ss" using assms(4) Some data_opens_ok fold_updates_ok by (fastforce simp: in_step_def)
  obtain r0 fs where k: "commit env nonce ?ss (un_data_key u) (va_files v) = (r0, fs)" by fastforce
  show ?thesis
  proof (cases r0)
    case (Inl e)
    then show ?thesis using assms(1,4) Some k commit_failed in_step_files [of c v fs]
      by (auto simp: apply_secret_updates_def Let_def)
  next
    case (Inr x)
    then have "data_opens c fs (un_data_key u) ?ss"
      using commit_done [OF _ _ assms(3) ok] k assms(2) by (auto simp: env_ok_def)
    then show ?thesis using assms(1) Some k Inr by (auto simp: apply_secret_updates_def Let_def in_step_def)
  qed
qed

lemma setup_step:
  assumes "setup_vault env rn pw v = (r, v')" and "env_ok c env" and "length (rn_seal rn) = nonce_len" and "in_step c v"
  shows "in_step c v'"
proof (cases "va_state v")
  case (Some u)
  then have "al_has data_path (va_files v)" using assms(4) by (auto simp: in_step_def data_opens_def al_has_def)
  then have "v' = v" using assms(1) by (auto simp: setup_vault_def has_secrets_file_def split: sum.splits)
  then show ?thesis using assms(4) by simp
next
  case None
  show ?thesis
  proof (cases r)
    case (Inl e)
    then show ?thesis using assms(1) None
      by (auto simp: setup_vault_def in_step_def split: sum.splits option.splits if_splits prod.splits)
  next
    case (Inr x)
    then obtain vm fs fs' where s: "commit env (rn_seal rn) [] (rn_key rn) (va_files v) = (Inr (), fs)"
      "atomic_write env metadata_path (metadata_bytes env vm) fs = (Inr (), fs')"
      "v' = v\<lparr>va_files := fs', va_state := Some \<lparr>un_secrets = [], un_data_key = rn_key rn\<rparr>\<rparr>"
      using assms(1) by (auto simp: setup_vault_def split: sum.splits option.splits if_splits prod.splits)
    have "data_opens c fs (rn_key rn) []"
      using commit_done [OF s(1) _ assms(3)] assms(2) by (auto simp: env_ok_def)
    then show ?thesis using s(3) atomic_write_other [OF s(2), of data_path] by (simp add: in_step_def data_opens_def)
  qed
qed

lemma locked_in_step: "va_state v = None \<Longrightarrow> in_step c v"
  by (simp add: in_step_def)

lemma remove_vault_files_locked: "remove_vault_files env v = (r, v') \<Longrightarrow> va_state v' = va_state v"
  by (auto simp: remove_vault_files_def Let_def split: if_splits prod.splits)

lemma metadata_write_step:
  assumes "atomic_write env metadata_path body (va_files v) = (r, fs)" and "in_step c v"
  shows "in_step c (v\<lparr>va_files := fs\<rparr>)"
  by (rule in_step_files [OF assms(2)]) (use atomic_write_other [OF assms(1)] in simp)

section \<open>Runs\<close>

datatype vault_event =
    Setup vault_random string
  | Unlock string string
  | UnlockSystem string
  | VerifySystem string
  | Update string "secret_update list"
  | Lock
  | ChangePassword string string string string
  | EnablePrepare string
  | EnableFinish string vault_metadata
  | DisableSystemUnlock
  | Reset
  | RemoveUnlocked

fun vault_step :: "vault_env \<Rightarrow> vault_event \<Rightarrow> vault \<Rightarrow> vault" where
  "vault_step env (Setup rn pw) v = snd (setup_vault env rn pw v)"
| "vault_step env (Unlock nonce pw) v = snd (unlock_vault env nonce pw v)"
| "vault_step env (UnlockSystem nonce) v = snd (unlock_system env nonce v)"
| "vault_step env (VerifySystem nonce) v = snd (verify_system env nonce v)"
| "vault_step env (Update nonce us) v = snd (apply_secret_updates env nonce us v)"
| "vault_step env Lock v = lock_vault v"
| "vault_step env (ChangePassword salt nonce old new) v = snd (change_password env salt nonce old new v)"
| "vault_step env (EnablePrepare credential) v = snd (enable_prepare env credential v)"
| "vault_step env (EnableFinish credential vm) v = snd (enable_finish env credential vm v)"
| "vault_step env DisableSystemUnlock v = snd (disable_system_unlock env v)"
| "vault_step env Reset v = snd (reset_vault env v)"
| "vault_step env RemoveUnlocked v = snd (remove_unlocked env v)"

text \<open>The nonces the random generator gives a step have the length the cipher asks for.\<close>

fun nonces_ok :: "vault_event \<Rightarrow> bool" where
  "nonces_ok (Setup rn pw) = (length (rn_seal rn) = nonce_len)"
| "nonces_ok (Unlock nonce pw) = (length nonce = nonce_len)"
| "nonces_ok (UnlockSystem nonce) = (length nonce = nonce_len)"
| "nonces_ok (VerifySystem nonce) = (length nonce = nonce_len)"
| "nonces_ok (Update nonce us) = (length nonce = nonce_len)"
| "nonces_ok _ = True"

definition vault_run :: "(vault_env \<times> vault_event) list \<Rightarrow> vault \<Rightarrow> vault" where
  "vault_run es v = fold (\<lambda>(env, e). vault_step env e) es v"

lemma unlock_system_step:
  assumes "unlock_system env nonce v = (r, v')" and "env_ok c env" and "length nonce = nonce_len" and "in_step c v"
  shows "in_step c v'"
  using assms open_vault_step [OF _ assms(2,3,4)]
  by (auto simp: unlock_system_def unlock_with_data_key_def split: sum.splits if_splits)

lemma vault_step_in_step:
  assumes "env_ok c env" and "nonces_ok e" and "in_step c v"
  shows "in_step c (vault_step env e v)"
proof (cases e)
  case (Setup rn pw)
  then show ?thesis using assms setup_step by (metis nonces_ok.simps(1) prod.collapse vault_step.simps(1))
next
  case (Unlock nonce pw)
  then show ?thesis using assms open_vault_step [of env nonce _ v _ _ c]
    by (auto simp: unlock_vault_def split: sum.splits) (metis prod.collapse)
next
  case (UnlockSystem nonce)
  then show ?thesis using assms unlock_system_step by (metis nonces_ok.simps(3) prod.collapse vault_step.simps(3))
next
  case (VerifySystem nonce)
  have "in_step c (snd (unlock_system env nonce v))"
    by (rule unlock_system_step [OF prod.collapse [symmetric]]) (use assms VerifySystem in simp_all)
  then show ?thesis using assms(3) VerifySystem
    by (auto simp: verify_system_def split: sum.splits option.splits)
next
  case (Update nonce us)
  then show ?thesis using assms updates_step by (metis nonces_ok.simps(5) prod.collapse vault_step.simps(5))
next
  case (ChangePassword salt nonce old new)
  then show ?thesis using assms(3) metadata_write_step
    by (auto simp: change_password_def split: sum.splits prod.splits)
next
  case (EnablePrepare cred)
  then show ?thesis using assms(3)
    by (auto simp: enable_prepare_def Let_def split: sum.splits option.splits prod.splits)
next
  case (EnableFinish cred vm)
  then show ?thesis using assms(3) metadata_write_step
    by (auto simp: enable_finish_def split: sum.splits prod.splits)
next
  case DisableSystemUnlock
  then show ?thesis using assms(3) metadata_write_step
    by (auto simp: disable_system_unlock_def Let_def split: sum.splits prod.splits bool.splits)
qed (use assms(3) remove_vault_files_locked locked_in_step in
      \<open>auto simp: lock_vault_def reset_vault_def remove_unlocked_def in_step_def snd_def split: prod.splits option.splits\<close>)

lemma vault_run_in_step:
  assumes "\<forall>(env, e) \<in> set es. env_ok c env \<and> nonces_ok e" and "in_step c v"
  shows "in_step c (vault_run es v)"
  using assms
proof (induction es arbitrary: v)
  case (Cons p es)
  obtain env e where p: "p = (env, e)" by (cases p)
  have "in_step c (vault_run es (vault_step env e v))"
    by (rule Cons.IH) (use Cons.prems p vault_step_in_step in auto)
  then show ?case by (simp add: vault_run_def p)
qed (simp add: vault_run_def)

text \<open>The key a password opens.\<close>

definition password_key :: "vault_env \<Rightarrow> string \<Rightarrow> vault \<Rightarrow> vault_error + string" where
  "password_key env password v =
     (case read_metadata env (va_files v) of Inl e \<Rightarrow> Inl e | Inr vm \<Rightarrow> unwrap_data_key env password vm)"

lemma unlock_by_key:
  "unlock_vault env nonce pw v =
     (case password_key env pw v of Inl e \<Rightarrow> (Inl e, v) | Inr key \<Rightarrow> open_vault env nonce key v)"
  by (simp add: unlock_vault_def password_key_def split: sum.splits)

lemma password_key_files:
  "map_of (va_files v) metadata_path = map_of (va_files v') metadata_path \<Longrightarrow> password_key env pw v = password_key env pw v'"
  by (simp add: password_key_def read_metadata_def read_bytes_def)

lemma open_vault_opens:
  assumes "data_opens (ve_cipher env) (va_files v) key ss" and "ve_read env data_path = None"
  shows "\<exists>v'. open_vault env nonce key v = (Inr (), v') \<and> va_state v' = Some \<lparr>un_secrets = ss, un_data_key = key\<rparr>"
  using assms by (auto simp: data_opens_def open_vault_def load_secrets_def read_bytes_def)

lemma changed_password:
  assumes "change_password env salt nonce old new v = (Inr (), v')" and "lossless_cipher (ve_cipher env)"
    and "\<And>s. ve_unb64 env (ve_b64 env s) = Some s" and "parses_back (ve_codec env)"
    and "length nonce = nonce_len" and "ve_read env metadata_path = None"
    and "length (the (map_of (va_files v') metadata_path)) \<le> max_metadata_bytes"
  obtains key vm us where "password_key env old v = Inr key" "read_metadata env (va_files v') = Inr (vm\<lparr>vm_system_unlocks := us\<rparr>)"
    "make_metadata env salt nonce new key = Inr vm" "unwrap_data_key env new (vm\<lparr>vm_system_unlocks := us\<rparr>) = Inr key"
    "map_of (va_files v') data_path = map_of (va_files v) data_path"
    "va_state v' = va_state v"
proof -
  obtain old_vm key vm fs where ch: "read_metadata env (va_files v) = Inr old_vm" "unwrap_data_key env old old_vm = Inr key"
    "make_metadata env salt nonce new key = Inr vm" "v' = v\<lparr>va_files := fs\<rparr>"
    "atomic_write env metadata_path (metadata_bytes env (vm\<lparr>vm_system_unlocks := vm_system_unlocks old_vm\<rparr>)) (va_files v) = (Inr (), fs)"
    using assms(1) by (auto simp: change_password_def split: sum.splits prod.splits)
  let ?vm = "vm\<lparr>vm_system_unlocks := vm_system_unlocks old_vm\<rparr>"
  note mk = make_metadata_ok [OF ch(3)]
  have len: "length key = 32"
    using ch(2) by (auto simp: unwrap_data_key_def split: sum.splits option.splits if_splits)
  have written: "map_of fs metadata_path = Some (metadata_bytes env ?vm)"
    using atomic_write_path [OF ch(5)] by (simp add: vault_names_all_def)
  have "read_metadata env fs = Inr ?vm"
    by (rule read_written_metadata [OF written assms(4)]) (use mk assms(6,7) written ch(4) in \<open>simp_all add: meta_ok_def\<close>)
  then show ?thesis
    using ch unwrap_made_metadata [OF ch(3) assms(2,3,5) len] atomic_write_other [OF ch(5)]
    by (intro that [where key = key and vm = vm and us = "vm_system_unlocks old_vm"]) (auto simp: password_key_def)
qed

section \<open>Properties\<close>

text \<open>C28: What the process holds while the vault is unlocked is what \<open>vault.dat\<close> opens to under the held
  key, after any run of set-ups, unlocks, updates, password changes, Windows Hello switches and
  resets, whatever fails on the way: a change that could not be written is not in memory either.\<close>

theorem memory_matches_the_file:
  assumes "\<forall>(env, e) \<in> set es. env_ok c env \<and> nonces_ok e"
    and "va_state (vault_run es (vault_new files keys)) = Some u"
  shows "\<exists>raw. map_of (va_files (vault_run es (vault_new files keys))) data_path = Some raw
    \<and> open_sealed c raw (un_data_key u) = Some (un_secrets u)"
proof -
  have "in_step c (vault_run es (vault_new files keys))"
    by (rule vault_run_in_step [OF assms(1)]) (simp add: vault_new_def in_step_def)
  then show ?thesis using assms(2) by (simp add: in_step_def data_opens_def)
qed

text \<open>C29: Secrets survive locking: after an update that was acknowledged, in any state a run leads to, the
  locked vault gives nothing, and the master password gives back exactly the updated secrets.\<close>

theorem secrets_survive_locking:
  assumes "\<forall>(env, e) \<in> set es. env_ok c env \<and> nonces_ok e" and "v = vault_run es (vault_new files keys)"
    and "env_ok c env" and "length nonce = nonce_len" and "ve_read env data_path = None"
    and "va_state v = Some u" and "password_key env pw v = Inr (un_data_key u)"
    and "apply_secret_updates env nonce us v = (Inr (), v1)"
  shows "get_key k (lock_vault v1) = Inl Locked
    \<and> (\<exists>v2. unlock_vault env nonce2 pw (lock_vault v1) = (Inr (), v2)
        \<and> get_key k v2 = Inr (map_of (fold apply_update us (un_secrets u)) k))"
proof -
  let ?ss = "fold apply_update us (un_secrets u)"
  have step: "in_step c v" unfolding assms(2)
    by (rule vault_run_in_step [OF assms(1)]) (simp add: vault_new_def in_step_def)
  obtain fs where up: "commit env nonce ?ss (un_data_key u) (va_files v) = (Inr (), fs)"
    "v1 = v\<lparr>va_files := fs, va_state := Some (u\<lparr>un_secrets := ?ss\<rparr>)\<rparr>"
    using assms(6,8) by (auto simp: apply_secret_updates_def Let_def split: prod.splits sum.splits)
  have "data_opens c (va_files v1) (un_data_key u) ?ss"
    using updates_step [OF assms(8,3,4) step] up(2) by (simp add: in_step_def)
  then have "data_opens (ve_cipher env) (va_files (lock_vault v1)) (un_data_key u) ?ss"
    using assms(3) by (simp add: lock_vault_def env_ok_def)
  then obtain v2 where v2: "open_vault env nonce2 (un_data_key u) (lock_vault v1) = (Inr (), v2)"
    "va_state v2 = Some \<lparr>un_secrets = ?ss, un_data_key = un_data_key u\<rparr>"
    using open_vault_opens assms(5) by blast
  have "password_key env pw (lock_vault v1) = password_key env pw v"
    by (rule password_key_files) (use commit_other [OF up(1)] up(2) in \<open>simp add: lock_vault_def\<close>)
  then show ?thesis using v2 assms(7) by (simp add: unlock_by_key get_key_def lock_vault_def)
qed


text \<open>Setting up is all or nothing: one that went through leaves a vault open, configured and opened by
  its password; one that failed at any point leaves neither half of a vault behind, provided the
  file it takes back can be removed, so the next attempt is not turned away.\<close>

theorem setup_all_or_nothing:
  assumes "setup_vault env rn pw v = (r, v')" and "lossless_cipher (ve_cipher env)"
    and "\<forall>s. ve_unb64 env (ve_b64 env s) = Some s" and "parses_back (ve_codec env)"
    and "length (rn_wrap rn) = nonce_len" and "length (rn_key rn) = 32"
    and "ve_read env metadata_path = None" and "ve_remove env data_path = None"
    and "length (the_or [] (map_of (va_files v') metadata_path)) \<le> max_metadata_bytes"
  shows "if is_Ok r then is_configured v' \<and> va_state v' = Some \<lparr>un_secrets = [], un_data_key = rn_key rn\<rparr>
      \<and> password_key env pw v' = Inr (rn_key rn)
    else is_configured v' = is_configured v \<and> is_damaged v' = is_damaged v \<and> va_state v' = va_state v"
proof (cases r)
  case (Inr x)
  then obtain vm fs fs' where s: "make_metadata env (rn_salt rn) (rn_wrap rn) pw (rn_key rn) = Inr vm"
    "commit env (rn_seal rn) [] (rn_key rn) (va_files v) = (Inr (), fs)"
    "atomic_write env metadata_path (metadata_bytes env vm) fs = (Inr (), fs')"
    "v' = v\<lparr>va_files := fs', va_state := Some \<lparr>un_secrets = [], un_data_key = rn_key rn\<rparr>\<rparr>"
    using assms(1) by (auto simp: setup_vault_def split: sum.splits option.splits if_splits prod.splits)
  note mk = make_metadata_ok [OF s(1)]
  have written: "map_of fs' metadata_path = Some (metadata_bytes env vm)"
    using atomic_write_path [OF s(3)] by (simp add: vault_names_all_def)
  have "map_of fs' data_path \<noteq> None"
  proof -
    obtain raw fs0 where "atomic_write env data_path raw (va_files v) = (Inr (), fs0)" "fs = fs0"
      using s(2) by (auto simp: commit_def split: option.splits sum.splits prod.splits if_splits)
    then show ?thesis using atomic_write_path [of env data_path raw "va_files v" "Inr ()" fs]
        atomic_write_other [OF s(3), of data_path] by (simp add: vault_names_all_def)
  qed
  then have conf: "is_configured v'"
    using written s(4) by (simp add: is_configured_def has_secrets_file_def al_has_def)
  have "read_metadata env fs' = Inr vm"
    by (rule read_written_metadata [OF written assms(4)]) (use mk assms(7,9) written s(4) in simp_all)
  moreover have "unwrap_data_key env pw (vm\<lparr>vm_system_unlocks := []\<rparr>) = Inr (rn_key rn)"
    by (rule unwrap_made_metadata [OF s(1)]) (use assms in auto)
  ultimately show ?thesis using Inr conf s(4) mk by (simp add: password_key_def)
next
  case (Inl e)
  show ?thesis
  proof (cases "v' = v")
    case True
    then show ?thesis using Inl by simp
  next
    case False
    then obtain x fs where run: "\<not> has_secrets_file v" "\<not> al_has metadata_path (va_files v)"
      "commit env (rn_seal rn) [] (rn_key rn) (va_files v) = (x, fs)" "va_state v' = va_state v"
      "(\<not> is_Ok x \<and> va_files v' = fs \<or> (\<exists>vm fs' e'. atomic_write env metadata_path (metadata_bytes env vm) fs = (Inl e', fs')
        \<and> va_files v' = try_remove env data_path fs'))"
      using assms(1) Inl by (auto simp: setup_vault_def split: sum.splits option.splits if_splits prod.splits) blast
    have fs: "map_of fs legacy_path = None" "map_of fs metadata_path = None" "\<not> is_Ok x \<Longrightarrow> map_of fs data_path = None"
      using commit_other [OF run(3)] commit_failed [of env _ _ _ _ _ fs] run(1-3)
      by (auto simp: has_secrets_file_def al_has_def) (metis sum.exhaust old.unit.exhaust)
    have "map_of (va_files v') n = None" if "n \<in> {data_path, legacy_path, metadata_path}" for n
      using run(5)
    proof
      assume "\<not> is_Ok x \<and> va_files v' = fs"
      then show ?thesis using fs that by auto
    next
      assume "\<exists>vm fs' e'. atomic_write env metadata_path (metadata_bytes env vm) fs = (Inl e', fs')
        \<and> va_files v' = try_remove env data_path fs'"
      then obtain vm fs' e' where w: "atomic_write env metadata_path (metadata_bytes env vm) fs = (Inl e', fs')"
        "va_files v' = try_remove env data_path fs'" by blast
      have "map_of fs' metadata_path = None" "map_of fs' legacy_path = None"
        using atomic_write_path [OF w(1)] atomic_write_other [OF w(1)] fs(1,2) by (auto simp: vault_names_all_def)
      then show ?thesis using that w(2) try_remove_done [OF assms(8)] by auto
    qed
    then show ?thesis using Inl run(1,2,4)
      by (simp add: is_configured_def is_damaged_def has_secrets_file_def al_has_def)
  qed
qed

lemma set_aside_other:
  "set_aside env ps fs = (r, fs') \<Longrightarrow> n \<notin> set ps \<Longrightarrow> \<forall>p \<in> set ps. n \<noteq> p @ ''.damaged'' \<Longrightarrow> map_of fs' n = map_of fs n"
  by (induction ps arbitrary: fs) (auto simp: replace_file_def split: if_splits option.splits prod.splits sum.splits)

lemma set_aside_keeps:
  assumes "set_aside env ps fs = (Inr (), fs')" and "distinct ps"
    and "\<forall>p \<in> set ps. \<forall>q \<in> set ps. p @ ''.damaged'' \<noteq> q" and "q \<in> set ps"
  shows "map_of fs' q = None \<and> (\<forall>raw. map_of fs q = Some raw \<longrightarrow> map_of fs' (q @ ''.damaged'') = Some raw)"
  using assms
proof (induction ps arbitrary: fs)
  case (Cons p ps)
  obtain fs1 where run: "set_aside env ps fs1 = (Inr (), fs')" "map_of fs1 p = None"
    "\<forall>raw. map_of fs p = Some raw \<longrightarrow> map_of fs1 (p @ ''.damaged'') = Some raw"
    "\<And>n. n \<noteq> p \<Longrightarrow> n \<noteq> p @ ''.damaged'' \<Longrightarrow> map_of fs1 n = map_of fs n"
    using Cons.prems(1,3)
    by (auto simp: replace_file_def al_has_def split: if_splits option.splits prod.splits sum.splits)
  show ?case
  proof (cases "q = p")
    case True
    have "map_of fs' p = map_of fs1 p" "map_of fs' (p @ ''.damaged'') = map_of fs1 (p @ ''.damaged'')"
      by (rule set_aside_other [OF run(1)]; use Cons.prems(2,3) in fastforce)+
    then show ?thesis using True run(2,3) by simp
  next
    case False
    have "map_of fs' q = None \<and> (\<forall>raw. map_of fs1 q = Some raw \<longrightarrow> map_of fs' (q @ ''.damaged'') = Some raw)"
      by (rule Cons.IH [OF run(1)]) (use Cons.prems False in auto)
    then show ?thesis using run(4) [of q] False Cons.prems(3,4) by auto
  qed
qed simp

text \<open>Starting over from a damaged vault, one of whose two files is missing, deletes nothing: each file
  that was there is kept under its name with \<open>.damaged\<close>, and a new vault can be set up.\<close>

theorem damaged_vault_is_set_aside:
  assumes "is_damaged v" and "reset_vault env v = (Inr (), v')"
    and "path \<in> {data_path, legacy_path, metadata_path}" and "map_of (va_files v) path = Some raw"
  shows "map_of (va_files v') (path @ ''.damaged'') = Some raw \<and> \<not> has_secrets_file v'
    \<and> \<not> al_has metadata_path (va_files v')"
proof -
  have "is_damaged (lock_vault v)"
    using assms(1) by (simp add: lock_vault_def is_damaged_def has_secrets_file_def)
  then obtain fs where fs: "set_aside env [data_path, legacy_path, metadata_path] (va_files v) = (Inr (), fs)"
    "va_files v' = fs"
    using assms(2) by (auto simp: reset_vault_def remove_vault_files_def lock_vault_def split: prod.splits)
  have ne: "\<forall>p \<in> set [data_path, legacy_path, metadata_path]. \<forall>q \<in> set [data_path, legacy_path, metadata_path]. p @ ''.damaged'' \<noteq> q"
    by code_simp
  have "map_of fs q = None \<and> (\<forall>raw. map_of (va_files v) q = Some raw \<longrightarrow> map_of fs (q @ ''.damaged'') = Some raw)"
    if "q \<in> {data_path, legacy_path, metadata_path}" for q
    by (rule set_aside_keeps [OF fs(1) _ ne]) (use that in auto)
  then show ?thesis using assms(3,4) fs(2) by (auto simp: has_secrets_file_def al_has_def)
qed

text \<open>The move from the file of earlier versions loses nothing at any point: after every attempt to
  open the vault the old snapshot is in its place or set aside, and it is set aside only when
  \<open>vault.dat\<close> opens under the same key, to the snapshot's secrets where there was no such file.\<close>

theorem legacy_move_loses_nothing:
  assumes "env_ok c env" and "length nonce = nonce_len"
    and "open_vault env nonce key v = (r, v')" and "map_of (va_files v) legacy_path = Some old"
  shows "map_of (va_files v') legacy_path = Some old
    \<or> map_of (va_files v') legacy_backup_path = Some old
      \<and> (\<exists>ss. r = Inr () \<and> data_opens c (va_files v') key ss
          \<and> (map_of (va_files v) data_path = None \<longrightarrow> (\<exists>all. ve_snapshot env old key = Some all \<and> ss = al_del check_key all)))"
proof -
  obtain r1 fs where l: "load_secrets env nonce key (va_files v) = (r1, fs)" "va_files v' = fs"
    "r = (case r1 of Inl e \<Rightarrow> Inl e | Inr _ \<Rightarrow> Inr ())"
    using assms(3) by (cases "load_secrets env nonce key (va_files v)") (auto simp: open_vault_def split: sum.splits)
  have moved: "map_of fs' legacy_path = Some old"
    "\<And>ss. r' = Inr ss \<Longrightarrow> \<exists>all. ve_snapshot env old key = Some all \<and> ss = al_del check_key all"
    if "move_legacy env nonce key (va_files v) = (r', fs')" for r' fs'
    using move_legacy_step [OF that assms(1,2)] that assms(4)
    by (auto simp: move_legacy_def read_bytes_def split: sum.splits option.splits if_splits prod.splits)
  obtain r0 fs0 where first: "(case read_bytes env data_path (va_files v) of
        Inr file \<Rightarrow> (case open_sealed (ve_cipher env) file key of
            Some ss \<Rightarrow> (Inr ss, va_files v)
          | None \<Rightarrow> if al_has legacy_path (va_files v) then move_legacy env nonce key (va_files v)
                    else (Inl (Other ''damaged vault''), va_files v))
      | Inl e \<Rightarrow> if e = NotFound then move_legacy env nonce key (va_files v) else (Inl (Os e), va_files v)) = (r0, fs0)"
    by fastforce
  have kept: "map_of fs0 legacy_path = Some old"
    using first moved(1) assms(4) by (auto split: sum.splits option.splits if_splits)
  have fresh: "\<exists>all. ve_snapshot env old key = Some all \<and> ss = al_del check_key all"
    if "r0 = Inr ss" "map_of (va_files v) data_path = None" for ss
    using first moved(2) that by (auto simp: read_bytes_def)
  note opens = load_secrets_step [OF l(1) assms(1,2)]
  show ?thesis
  proof (cases r0)
    case (Inl e)
    then show ?thesis using l kept unfolding load_secrets_def first by auto
  next
    case (Inr ss)
    then have run: "r1 = Inr ss" "fs = snd (replace_file env legacy_path legacy_backup_path fs0)"
      using l(1) kept unfolding load_secrets_def first by (auto simp: al_has_def)
    have "map_of fs legacy_path = Some old \<or> map_of fs legacy_backup_path = Some old"
      using kept unfolding run(2) by (auto simp: replace_file_def split: option.splits)
    then show ?thesis using l run(1) opens fresh [OF Inr] by auto
  qed
qed

text \<open>C31: Enabling Windows Hello lets the vault's mutex go before it writes what it read, and a change of
  password does not take it: a password changed in between is undone without a word, and the old
  password opens the vault again.\<close>

theorem password_change_undone:
  assumes "enable_prepare env credential v = (Inr (Some vm), v1)"
    and "change_password env' salt nonce old new v1 = (Inr (), v2)"
    and "enable_finish env credential vm v2 = (Inr (), v3)"
    and "parses_back (ve_codec env)" and "ve_read env metadata_path = None"
    and "length (the (map_of (va_files v3) metadata_path)) \<le> max_metadata_bytes"
  shows "password_key env pw v3 = password_key env pw v"
proof -
  obtain u vm0 us where pre: "read_metadata env (va_files v) = Inr vm0" "vm = vm0\<lparr>vm_system_unlocks := us\<rparr>"
    using assms(1) by (auto simp: enable_prepare_def Let_def split: option.splits sum.splits if_splits prod.splits)
  obtain fs where fin: "atomic_write env metadata_path (metadata_bytes env vm) (va_files v2) = (Inr (), fs)" "va_files v3 = fs"
    using assms(3) by (auto simp: enable_finish_def split: sum.splits prod.splits)
  have written: "map_of fs metadata_path = Some (metadata_bytes env vm)"
    using atomic_write_path [OF fin(1)] by (simp add: vault_names_all_def)
  have "read_metadata env fs = Inr vm"
    by (rule read_written_metadata [OF written assms(4)])
      (use read_metadata_ok [OF pre(1)] pre(2) assms(5,6) fin(2) written in \<open>auto simp: meta_ok_def\<close>)
  then show ?thesis
    using pre fin(2) by (simp add: password_key_def)
qed

section \<open>Witnesses\<close>

text \<open>A toy environment where nothing fails: the cipher puts the key before the text, base64 changes
  nothing, the key of a password is its first 32 bytes, padded, and the codec gives short names to
  the values \<open>vs\<close>.\<close>

definition toy_cipher :: cipher where
  "toy_cipher = \<lparr>ci_encrypt = (\<lambda>key nonce aad msg. Some (key @ msg)),
     ci_decrypt = (\<lambda>key nonce aad ct. if prefix key ct then Some (drop (length key) ct) else None)\<rparr>"

definition toy_index :: "json list \<Rightarrow> json \<Rightarrow> nat" where
  "toy_index vs v = (let i = length (takeWhile (\<lambda>w. w \<noteq> v) vs) in if i < length vs then i else length vs + to_nat v)"

definition toy_codec :: "json list \<Rightarrow> codec" where
  "toy_codec vs = \<lparr>cd_parse = (\<lambda>s. Some (if length s < length vs then vs ! length s else from_nat (length s - length vs))),
     cd_render = (\<lambda>v. replicate (toy_index vs v) (CHR ''x'')), cd_digest = (\<lambda>s. ''0'')\<rparr>"

definition toy_env :: "json list \<Rightarrow> vault_env" where
  "toy_env vs = \<lparr>ve_params_ok = (\<lambda>_ _ _. True), ve_random = True,
     ve_kdf = (\<lambda>pw _ _ _ _. Some (take 32 (pw @ replicate 32 (CHR ''k'')))), ve_cipher = toy_cipher,
     ve_b64 = id, ve_unb64 = Some, ve_codec = toy_codec vs, ve_snapshot = (\<lambda>_ _. None),
     ve_wrap = (\<lambda>_ s. s), ve_unwrap = (\<lambda>_ s. Some s), ve_pid = 1, ve_create_dir = None,
     ve_write = (\<lambda>_. None), ve_rename = (\<lambda>_. None), ve_read = (\<lambda>_. None), ve_remove = (\<lambda>_. None),
     ve_register = (\<lambda>_. True), ve_consent = (\<lambda>_. True), ve_revoke = (\<lambda>_. True)\<rparr>"

definition toy_random :: vault_random where
  "toy_random = \<lparr>rn_key = replicate 32 (CHR ''d''), rn_salt = ''s'', rn_wrap = replicate 24 (CHR ''n''),
     rn_seal = replicate 24 (CHR ''m'')\<rparr>"

definition toy_metadata :: "string \<Rightarrow> vault_metadata" where
  "toy_metadata pw = \<lparr>vm_version = 1, vm_kdf = \<lparr>kd_algorithm = ''argon2id'', kd_version = 1,
       kd_memory_kib = kdf_memory_kib, kd_iterations = kdf_iterations, kd_parallelism = kdf_parallelism, kd_salt = ''s''\<rparr>,
     vm_wrapped_key = take 32 (pw @ replicate 32 (CHR ''k'')) @ rn_key toy_random, vm_nonce = rn_wrap toy_random,
     vm_system_unlock = None, vm_system_unlocks = []\<rparr>"

lemma toy_lossless [simp]: "lossless_cipher toy_cipher" by (simp add: lossless_cipher_def toy_cipher_def)

lemma toy_env_ok [simp]: "env_ok toy_cipher (toy_env vs)" by (simp add: env_ok_def toy_env_def)

lemma toy_parses_back [simp]: "parses_back (toy_codec vs)"
proof -
  have "vs ! length (takeWhile (\<lambda>w. w \<noteq> v) vs) = v" if "length (takeWhile (\<lambda>w. w \<noteq> v) vs) < length vs" for v
    using nth_length_takeWhile [OF that] by simp
  then show ?thesis by (simp add: parses_back_def toy_codec_def toy_index_def Let_def)
qed

lemma toy_env_simps [simp]:
  "ve_params_ok (toy_env vs) a b d" "ve_random (toy_env vs)" "ve_cipher (toy_env vs) = toy_cipher"
  "ve_kdf (toy_env vs) pw a b d salt = Some (take 32 (pw @ replicate 32 (CHR ''k'')))"
  "ve_b64 (toy_env vs) s = s" "ve_unb64 (toy_env vs) s = Some s" "ve_codec (toy_env vs) = toy_codec vs"
  "ve_create_dir (toy_env vs) = None" "ve_write (toy_env vs) n = None" "ve_rename (toy_env vs) n = None"
  "ve_read (toy_env vs) n = None" "ve_remove (toy_env vs) n = None" "ve_register (toy_env vs) n"
  "ve_consent (toy_env vs) n" "ve_revoke (toy_env vs) n" "ve_wrap (toy_env vs) n s = s"
  by (simp_all add: toy_env_def)

lemma toy_random_simps [simp]:
  "length (rn_key toy_random) = 32" "length (rn_wrap toy_random) = nonce_len" "length (rn_seal toy_random) = nonce_len"
  "rn_salt toy_random = ''s''"
  by (simp_all add: toy_random_def nonce_len_def)

lemma toy_write: "atomic_write (toy_env vs) path body fs = (Inr (), al_put path body (al_del (temporary_path (toy_env vs) path)
    (al_put (temporary_path (toy_env vs) path) body fs)))"
  by (simp add: atomic_write_def replace_file_def Let_def)

lemma toy_commit: "put_entries ss = Some plain \<Longrightarrow> length key = 32 \<Longrightarrow>
    \<exists>fs'. commit (toy_env vs) nonce ss key fs = (Inr (), fs')"
  by (simp add: commit_def seal_def encrypt_def toy_cipher_def toy_write)

lemma toy_make: "make_metadata (toy_env vs) ''s'' (rn_wrap toy_random) pw (rn_key toy_random) = Inr (toy_metadata pw)"
  by (simp add: make_metadata_def toy_metadata_def derive_wrapping_key_def argon2_def kdf_memory_kib_def
      kdf_iterations_def kdf_parallelism_def toy_cipher_def Let_def)

lemma toy_unwrap: "unwrap_data_key (toy_env vs) pw (toy_metadata pw) = Inr (rn_key toy_random)"
  using unwrap_made_metadata [OF toy_make [of vs pw], of "[]"] by simp

definition toy_vault :: "json list \<Rightarrow> string \<Rightarrow> vault" where
  "toy_vault vs pw = vault_run [(toy_env vs, Setup toy_random pw)] (vault_new [] [])"

lemma toy_setup:
  assumes "min_master_password_chars \<le> length (utf8_chars pw)"
  shows "setup_vault (toy_env vs) toy_random pw (vault_new [] []) = (Inr (), toy_vault vs pw)"
    and "va_state (toy_vault vs pw) = Some \<lparr>un_secrets = [], un_data_key = rn_key toy_random\<rparr>"
    and "map_of (va_files (toy_vault vs pw)) metadata_path = Some (metadata_bytes (toy_env vs) (toy_metadata pw))"
proof -
  obtain fs where fs: "commit (toy_env vs) (rn_seal toy_random) [] (rn_key toy_random) [] = (Inr (), fs)"
    using toy_commit [of "[]" "[]" "rn_key toy_random"] by fastforce
  then have run: "setup_vault (toy_env vs) toy_random pw (vault_new [] []) = (Inr (),
      \<lparr>va_files = al_put metadata_path (metadata_bytes (toy_env vs) (toy_metadata pw))
         (al_del (temporary_path (toy_env vs) metadata_path)
           (al_put (temporary_path (toy_env vs) metadata_path) (metadata_bytes (toy_env vs) (toy_metadata pw)) fs)),
       va_state = Some \<lparr>un_secrets = [], un_data_key = rn_key toy_random\<rparr>, va_epoch = 0, va_keys = []\<rparr>)"
    using assms by (simp add: setup_vault_def validate_new_password_def vault_new_def has_secrets_file_def al_has_def
        toy_make toy_write)
  then show "setup_vault (toy_env vs) toy_random pw (vault_new [] []) = (Inr (), toy_vault vs pw)"
    by (simp add: toy_vault_def vault_run_def)
  show "va_state (toy_vault vs pw) = Some \<lparr>un_secrets = [], un_data_key = rn_key toy_random\<rparr>"
    "map_of (va_files (toy_vault vs pw)) metadata_path = Some (metadata_bytes (toy_env vs) (toy_metadata pw))"
    using run by (simp_all add: toy_vault_def vault_run_def)
qed

lemma toy_bytes_short:
  assumes "json_of_metadata vm \<in> set vs" and "length vs \<le> max_metadata_bytes"
  shows "length (metadata_bytes (toy_env vs) vm) \<le> max_metadata_bytes"
proof -
  have "length (takeWhile (\<lambda>w. w \<noteq> json_of_metadata vm) vs) < length vs"
    using assms(1) by (induction vs) auto
  then show ?thesis using assms(2) by (simp add: metadata_bytes_def toy_codec_def toy_index_def Let_def)
qed

lemma toy_read:
  assumes "map_of fs metadata_path = Some (metadata_bytes (toy_env vs) (toy_metadata pw))"
    and "json_of_metadata (toy_metadata pw) \<in> set vs" and "length vs \<le> max_metadata_bytes"
  shows "read_metadata (toy_env vs) fs = Inr (toy_metadata pw)"
  by (rule read_written_metadata [OF assms(1)])
    (use make_metadata_ok [OF toy_make [of vs pw]] toy_bytes_short [OF assms(2,3)] in simp_all)

definition first_password :: string where "first_password = ''correct horse battery''"
definition second_password :: string where "second_password = ''another long password''"

definition toy_hello :: vault_metadata where
  "toy_hello = (toy_metadata first_password)\<lparr>vm_system_unlocks :=
     [\<lparr>su_scheme = hello_scheme, su_credential = ''c'', su_wrapped_key = rn_key toy_random\<rparr>]\<rparr>"

definition toy_values :: "json list" where
  "toy_values = map json_of_metadata [toy_metadata first_password, toy_metadata second_password, toy_hello]"

lemma toy_values_in [simp]:
  "json_of_metadata (toy_metadata first_password) \<in> set toy_values"
  "json_of_metadata (toy_metadata second_password) \<in> set toy_values"
  "json_of_metadata toy_hello \<in> set toy_values" "length toy_values \<le> max_metadata_bytes"
  by (simp_all add: toy_values_def max_metadata_bytes_def)

lemma toy_passwords [simp]:
  "min_master_password_chars \<le> length (utf8_chars first_password)"
  "min_master_password_chars \<le> length (utf8_chars second_password)"
  by code_simp+

abbreviation "toy \<equiv> toy_vault toy_values first_password"
abbreviation "tenv \<equiv> toy_env toy_values"

lemma toy_opened: "read_metadata tenv (va_files toy) = Inr (toy_metadata first_password)"
  "password_key tenv first_password toy = Inr (rn_key toy_random)"
proof -
  show "read_metadata tenv (va_files toy) = Inr (toy_metadata first_password)"
    by (rule toy_read [OF toy_setup(3)]) simp_all
  then show "password_key tenv first_password toy = Inr (rn_key toy_random)"
    by (simp add: password_key_def toy_unwrap)
qed

lemma toy_change:
  assumes "read_metadata tenv (va_files v) = Inr (toy_metadata first_password)"
  shows "\<exists>v'. change_password tenv ''s'' (rn_wrap toy_random) first_password second_password v = (Inr (), v')
    \<and> map_of (va_files v') metadata_path = Some (metadata_bytes tenv (toy_metadata second_password))"
proof -
  have "(toy_metadata second_password)\<lparr>vm_system_unlocks := vm_system_unlocks (toy_metadata first_password)\<rparr>
      = toy_metadata second_password" by (simp add: toy_metadata_def)
  then show ?thesis using assms
    by (simp add: change_password_def validate_new_password_def toy_unwrap toy_make toy_write not_less)
qed

theorem memory_matches_the_file_witness:
  "\<exists>raw. map_of (va_files (vault_run [(tenv, Setup toy_random first_password)] (vault_new [] []))) data_path = Some raw
     \<and> open_sealed toy_cipher raw (rn_key toy_random) = Some []"
  using memory_matches_the_file [of "[(tenv, Setup toy_random first_password)]" toy_cipher "[]" "[]"
      "\<lparr>un_secrets = [], un_data_key = rn_key toy_random\<rparr>"] toy_setup(2) [of first_password toy_values]
  by (simp add: toy_vault_def)

theorem secrets_survive_locking_witness:
  "\<exists>v1 v2. apply_secret_updates tenv (rn_seal toy_random) [SetProxyPassword ''pw''] toy = (Inr (), v1)
     \<and> get_key proxy_password_key (lock_vault v1) = Inl Locked \<and> get_key proxy_password_key v2 = Inr (Some ''pw'')"
proof -
  have "put_entries [(proxy_password_key, ''pw'')] \<noteq> None" by (simp add: put_part_def proxy_password_key_def)
  then obtain plain where "put_entries [(proxy_password_key, ''pw'')] = Some plain" by blast
  from toy_commit [OF this toy_random_simps(1)] obtain fs where
    "commit tenv (rn_seal toy_random) [(proxy_password_key, ''pw'')] (rn_key toy_random) (va_files toy) = (Inr (), fs)"
    by blast
  then obtain v1 where up: "apply_secret_updates tenv (rn_seal toy_random) [SetProxyPassword ''pw''] toy = (Inr (), v1)"
    by (simp add: apply_secret_updates_def toy_setup)
  have "\<forall>(env, e) \<in> set [(tenv, Setup toy_random first_password)]. env_ok toy_cipher env \<and> nonces_ok e" by simp
  from secrets_survive_locking [OF this toy_vault_def toy_env_ok _ _ toy_setup(2) _ up, of first_password proxy_password_key]
  have "get_key proxy_password_key (lock_vault v1) = Inl Locked \<and> (\<exists>v2. get_key proxy_password_key v2 = Inr (Some ''pw''))"
    by (auto simp: toy_opened)
  then show ?thesis using up by blast
qed


theorem setup_all_or_nothing_witness:
  "is_configured toy \<and> password_key tenv first_password toy = Inr (rn_key toy_random)"
  using setup_all_or_nothing [OF toy_setup(1) [of first_password toy_values]] toy_setup(3) [of first_password toy_values]
  by (simp add: toy_bytes_short)

theorem damaged_vault_is_set_aside_witness:
  "\<exists>v'. reset_vault tenv (vault_new [(metadata_path, ''m'')] []) = (Inr (), v')
     \<and> map_of (va_files v') (metadata_path @ ''.damaged'') = Some ''m'' \<and> \<not> has_secrets_file v'"
proof -
  let ?v = "vault_new [(metadata_path, ''m'')] []"
  have d: "is_damaged ?v" "is_damaged (lock_vault ?v)"
    by (simp_all add: is_damaged_def has_secrets_file_def vault_new_def al_has_def lock_vault_def)
  obtain v' where v': "reset_vault tenv ?v = (Inr (), v')"
    using d(2) by (simp add: reset_vault_def remove_vault_files_def) (simp add: lock_vault_def vault_new_def al_has_def replace_file_def)
  show ?thesis
    using damaged_vault_is_set_aside [OF d(1) v', of metadata_path "''m''"] v' by (simp add: vault_new_def)
qed

theorem legacy_move_loses_nothing_witness:
  "\<exists>env r v'. open_vault env (rn_seal toy_random) (rn_key toy_random) (vault_new [(legacy_path, ''old'')] []) = (r, v')
     \<and> (map_of (va_files v') legacy_path = Some ''old'' \<or> map_of (va_files v') legacy_backup_path = Some ''old'')"
proof -
  let ?env = "tenv\<lparr>ve_snapshot := \<lambda>_ _. Some [(check_key, check_value)]\<rparr>"
  have ok: "env_ok toy_cipher ?env" by (simp add: env_ok_def)
  obtain r v' where "open_vault ?env (rn_seal toy_random) (rn_key toy_random) (vault_new [(legacy_path, ''old'')] []) = (r, v')"
    by fastforce
  moreover from legacy_move_loses_nothing [OF ok toy_random_simps(3) this, of "''old''"]
  have "map_of (va_files v') legacy_path = Some ''old'' \<or> map_of (va_files v') legacy_backup_path = Some ''old''"
    by (auto simp: vault_new_def)
  ultimately show ?thesis by blast
qed

theorem password_change_undone_witness:
  "\<exists>v1 v2 v3. enable_prepare tenv ''c'' toy = (Inr (Some toy_hello), v1)
     \<and> change_password tenv ''s'' (rn_wrap toy_random) first_password second_password v1 = (Inr (), v2)
     \<and> enable_finish tenv ''c'' toy_hello v2 = (Inr (), v3)
     \<and> password_key tenv first_password v3 = Inr (rn_key toy_random)"
proof -
  have none: "vm_system_unlocks (toy_metadata first_password) = []" by (simp add: toy_metadata_def)
  obtain v1 where v1: "enable_prepare tenv ''c'' toy = (Inr (Some toy_hello), v1)" "va_files v1 = va_files toy"
    using toy_opened(1) toy_setup(2) [of first_password toy_values] none
    by (simp add: enable_prepare_def system_unlock_here_def Let_def toy_hello_def max_system_unlocks_def)
  obtain v2 where v2: "change_password tenv ''s'' (rn_wrap toy_random) first_password second_password v1 = (Inr (), v2)"
    using toy_change [of v1] toy_opened(1) v1(2) by auto
  obtain v3 where v3: "enable_finish tenv ''c'' toy_hello v2 = (Inr (), v3)"
    "map_of (va_files v3) metadata_path = Some (metadata_bytes tenv toy_hello)"
    by (simp add: enable_finish_def toy_write)
  have "password_key tenv first_password v3 = password_key tenv first_password toy"
    by (rule password_change_undone [OF v1(1) v2 v3(1)]) (use v3(2) toy_bytes_short in simp_all)
  then show ?thesis using v1 v2 v3 toy_opened(2) by auto
qed

end
