(* ===== verification/ProxySettings.thy ===== *)
theory ProxySettings
  imports Settings Vault
begin

text \<open>
  Reading, patching and saving the settings (\<open>store/settings.rs\<close>), how a saved secret is protected
  (\<open>store/secret_fields.rs\<close>), and the proxy password, which is in \<open>settings.json\<close> under the operating
  system's protection or in the vault. The system's protection and base64 are parameters. A
  settings save holds the store's lock from reading to writing, so it is one step; a save through the
  vault is modelled without another save between its check, the vault's update and the write.
\<close>

section \<open>Saved secrets\<close>

record protector =
  pr_protect :: "string \<Rightarrow> string option"
  pr_unprotect :: "string \<Rightarrow> string option"
  pr_b64 :: "string \<Rightarrow> string"
  pr_unb64 :: "string \<Rightarrow> string option"

definition decrypt_secret :: "protector \<Rightarrow> json_map \<Rightarrow> string \<Rightarrow> string \<Rightarrow> string" where
  "decrypt_secret pr site field_enc field_plain =
     (case get_str site field_enc of
        Some enc \<Rightarrow> (case Option.bind (pr_unb64 pr enc) (pr_unprotect pr) of
            Some plain \<Rightarrow> from_utf8_lossy plain | None \<Rightarrow> [])
      | None \<Rightarrow> the_or [] (get_str site field_plain))"

definition has_saved_secret :: "json_map \<Rightarrow> string \<Rightarrow> string \<Rightarrow> bool" where
  "has_saved_secret site field_enc field_plain \<longleftrightarrow>
     the_or [] (get_str site field_enc) \<noteq> [] \<or> the_or [] (get_str site field_plain) \<noteq> []"

definition secret_undecryptable :: "protector \<Rightarrow> json_map \<Rightarrow> string \<Rightarrow> bool" where
  "secret_undecryptable pr site field_enc =
     (case get_str site field_enc of
        None \<Rightarrow> False | Some enc \<Rightarrow> Option.bind (pr_unb64 pr enc) (pr_unprotect pr) = None)"

definition secret_is_plaintext :: "json_map \<Rightarrow> string \<Rightarrow> bool" where
  "secret_is_plaintext site field_plain \<longleftrightarrow> the_or [] (get_str site field_plain) \<noteq> []"

definition migrate_plaintext_field :: "protector \<Rightarrow> string \<Rightarrow> string \<Rightarrow> json_map \<Rightarrow> bool \<times> json_map" where
  "migrate_plaintext_field pr field_plain field_enc site =
     (case map_of site field_plain of
        None \<Rightarrow> (False, site)
      | Some v \<Rightarrow> (case as_str v of
          None \<Rightarrow> (True, al_del field_plain site)
        | Some secret \<Rightarrow>
            if secret = [] then (True, al_del field_plain site)
            else (case pr_protect pr secret of
                    None \<Rightarrow> (False, site)
                  | Some protected \<Rightarrow>
                      (True, al_del field_plain (al_put field_enc (JString (pr_b64 pr protected)) site)))))"

text \<open>The field to save, if any, and whether the secret could not be kept under protection.\<close>

definition protected_field :: "protector \<Rightarrow> string \<Rightarrow> string \<Rightarrow> (string \<times> json) option" where
  "protected_field pr field_enc secret = map_option (\<lambda>p. (field_enc, JString (pr_b64 pr p))) (pr_protect pr secret)"

definition encrypt_secret_with ::
  "protector \<Rightarrow> string \<Rightarrow> json_map option \<Rightarrow> string \<Rightarrow> string \<Rightarrow> (string \<times> json) option \<times> bool" where
  "encrypt_secret_with pr secret existing field_enc field_plain =
     (let saved_enc = Option.bind existing (\<lambda>e. map_of e field_enc);
          saved_plain = Option.bind existing (\<lambda>e. get_str e field_plain)
      in if secret = [] then
           (case saved_enc of
              Some v \<Rightarrow> (Some (field_enc, v), False)
            | None \<Rightarrow> (case saved_plain of
                None \<Rightarrow> (None, False)
              | Some plain \<Rightarrow>
                  if plain = [] then (None, False)
                  else (case protected_field pr field_enc plain of
                          Some f \<Rightarrow> (Some f, False)
                        | None \<Rightarrow> (Some (field_plain, JString plain), True))))
         else if saved_enc \<noteq> None \<and> decrypt_secret pr (the_or [] existing) field_enc field_plain = secret
         then (map_option (\<lambda>v. (field_enc, v)) saved_enc, False)
         else (case protected_field pr field_enc secret of
                 Some f \<Rightarrow> (Some f, False)
               | None \<Rightarrow> (map_option (\<lambda>v. (field_enc, v)) saved_enc, True)))"

section \<open>The settings\<close>

datatype settings_error =
    InvalidSetting string
  | SecretNotProtected
  | SecretUnreadable
  | NotSaved error_code
  | VaultRefused vault_error
  | VaultNotRestored
  | BadConnection string

definition settings_file :: string where "settings_file = ''settings.json''"

definition default_settings :: json_map where
  "default_settings = al_del ''proxyPasswordSet'' (al_del ''language'' settings_schema)"

definition merge :: "json_map \<Rightarrow> json_map \<Rightarrow> json_map" where
  "merge base patch = fold (\<lambda>(k, v) m. al_put k v m) patch base"

fun null_or_map :: "json \<Rightarrow> bool" where
  "null_or_map JNull = True" | "null_or_map v = is_map v"

definition get_settings :: "codec \<Rightarrow> io \<Rightarrow> store \<Rightarrow> json_map \<times> store" where
  "get_settings c io st =
     (case read_json c io null_or_map settings_file JNull st of
        (stored, st') \<Rightarrow> (merge default_settings (the_or [] (as_object stored)), st'))"

definition without_secrets :: "json_map \<Rightarrow> json_map" where
  "without_secrets m = fold al_del proxy_secret_fields m"

definition check_merged :: "numerics \<Rightarrow> json_map \<Rightarrow> json_map \<Rightarrow> settings_error + unit" where
  "check_merged nm current patch =
     (case validate_settings nm (without_secrets (merge current patch)) False of
        Inl message \<Rightarrow> Inl (InvalidSetting message) | Inr _ \<Rightarrow> Inr ())"

text \<open>Where a write leaves the proxy password: with the system's protection, or in the vault, which
  now holds one or not.\<close>

datatype proxy_password_write = Dpapi | InVault bool

definition drop_saved :: "json_map \<Rightarrow> json_map" where
  "drop_saved m = al_del ''proxyPasswordPlain'' (al_del ''proxyPasswordEnc'' m)"

definition place_password ::
  "protector \<Rightarrow> proxy_password_write \<Rightarrow> json option \<Rightarrow> bool \<Rightarrow> json_map \<Rightarrow> settings_error + json_map" where
  "place_password pr target raw remove_password current =
     (case target of
        InVault saved \<Rightarrow>
          Inr (if saved then al_put ''hasProxyPassword'' (JBool True) (drop_saved current)
               else al_del ''hasProxyPassword'' (drop_saved current))
      | Dpapi \<Rightarrow>
          if remove_password then Inr (drop_saved current)
          else (case Option.bind raw as_str of
                  None \<Rightarrow> Inr current
                | Some password \<Rightarrow>
                    (case encrypt_secret_with pr password (Some current) ''proxyPasswordEnc'' ''proxyPasswordPlain'' of
                       (f, True) \<Rightarrow> Inl SecretNotProtected
                     | (None, False) \<Rightarrow> Inr (drop_saved current)
                     | (Some (k, v), False) \<Rightarrow> Inr (al_put k v (drop_saved current)))))"

definition flag_of :: "json_map \<Rightarrow> string \<Rightarrow> bool" where
  "flag_of patch key = the_or False (get_bool patch key)"

definition plain_patch :: "json_map \<Rightarrow> json_map" where
  "plain_patch patch = al_del ''removeProxyPassword'' (al_del ''proxyPassword'' patch)"

definition write_settings ::
  "codec \<Rightarrow> io \<Rightarrow> numerics \<Rightarrow> protector \<Rightarrow> proxy_password_write \<Rightarrow> json_map \<Rightarrow> store
    \<Rightarrow> (settings_error + json_map) \<times> store" where
  "write_settings c io nm pr target patch st =
     (case validate_settings nm patch True of
        Inl message \<Rightarrow> (Inl (InvalidSetting message), st)
      | Inr _ \<Rightarrow> (case get_settings c io st of
          (current, st1) \<Rightarrow> (case check_merged nm current (plain_patch patch) of
            Inl e \<Rightarrow> (Inl e, st1)
          | Inr _ \<Rightarrow>
              (case place_password pr target (map_of patch ''proxyPassword'') (flag_of patch ''removeProxyPassword'')
                  (merge current (plain_patch patch)) of
                 Inl e \<Rightarrow> (Inl e, st1)
               | Inr settings \<Rightarrow>
                   (case write_json c io is_map settings_file (JObject settings) st1 of
                      (Inl e, st2) \<Rightarrow> (Inl (NotSaved e), st2)
                    | (Inr _, st2) \<Rightarrow> (Inr settings, st2))))))"

definition set_settings ::
  "codec \<Rightarrow> io \<Rightarrow> numerics \<Rightarrow> protector \<Rightarrow> json_map \<Rightarrow> store \<Rightarrow> (settings_error + json_map) \<times> store" where
  "set_settings c io nm pr patch st = write_settings c io nm pr Dpapi patch st"

definition nonempty :: "string option \<Rightarrow> string option" where
  "nonempty s = (case s of Some x \<Rightarrow> if x = [] then None else Some x | None \<Rightarrow> None)"

definition restore_proxy_password ::
  "vault_env \<Rightarrow> string \<Rightarrow> string option \<Rightarrow> vault \<Rightarrow> (vault_error + unit) \<times> vault" where
  "restore_proxy_password env nonce previous v =
     apply_secret_updates env nonce
       [case previous of Some old \<Rightarrow> SetProxyPassword old | None \<Rightarrow> DeleteProxyPassword] v"

text \<open>The vault first, then the settings, and the vault put back when those cannot be saved; \<open>n1\<close> and
  \<open>n2\<close> are the nonces of the update and of its roll-back.\<close>

definition commit_then_save ::
  "vault_env \<Rightarrow> string \<Rightarrow> string \<Rightarrow> secret_update \<Rightarrow> (store \<Rightarrow> (settings_error + 'a) \<times> store) \<Rightarrow> store \<Rightarrow> vault
    \<Rightarrow> (settings_error + 'a) \<times> store \<times> vault" where
  "commit_then_save env n1 n2 update save st v =
     (case get_proxy_password v of
        Inl e \<Rightarrow> (Inl (VaultRefused e), st, v)
      | Inr previous \<Rightarrow> (case apply_secret_updates env n1 [update] v of
          (Inl e, v1) \<Rightarrow> (Inl (VaultRefused e), st, v1)
        | (Inr _, v1) \<Rightarrow> (case save st of
            (Inr a, st2) \<Rightarrow> (Inr a, st2, v1)
          | (Inl e, st2) \<Rightarrow> (case restore_proxy_password env n2 previous v1 of
              (Inl _, v2) \<Rightarrow> (Inl VaultNotRestored, st2, v2)
            | (Inr _, v2) \<Rightarrow> (Inl e, st2, v2)))))"

definition set_settings_with_vault_inner ::
  "codec \<Rightarrow> io \<Rightarrow> numerics \<Rightarrow> protector \<Rightarrow> vault_env \<Rightarrow> string \<Rightarrow> string \<Rightarrow> json_map \<Rightarrow> store \<Rightarrow> vault
    \<Rightarrow> (settings_error + json_map) \<times> store \<times> vault" where
  "set_settings_with_vault_inner c io nm pr env n1 n2 patch st v =
     (case validate_settings nm patch True of
        Inl message \<Rightarrow> (Inl (InvalidSetting message), st, v)
      | Inr _ \<Rightarrow>
          (let password = nonempty (get_str patch ''proxyPassword'');
               remove_password = flag_of patch ''removeProxyPassword'';
               rest = plain_patch patch
           in if password = None \<and> \<not> remove_password
              then (case set_settings c io nm pr rest st of (r, st') \<Rightarrow> (r, st', v))
              else (case get_settings c io st of
                (current, st1) \<Rightarrow> (case check_merged nm current rest of
                  Inl e \<Rightarrow> (Inl e, st1, v)
                | Inr _ \<Rightarrow>
                    if \<not> is_unlocked v then (Inl (VaultRefused Locked), st1, v)
                    else (let saved = (password \<noteq> None \<and> \<not> remove_password)
                      in commit_then_save env n1 n2
                           (if saved then SetProxyPassword (the password) else DeleteProxyPassword)
                           (write_settings c io nm pr (InVault saved) rest) st1 v)))))"

definition set_settings_with_vault ::
  "codec \<Rightarrow> io \<Rightarrow> numerics \<Rightarrow> protector \<Rightarrow> vault_env \<Rightarrow> string \<Rightarrow> string \<Rightarrow> json_map \<Rightarrow> store \<Rightarrow> vault
    \<Rightarrow> (settings_error + json_map) \<times> store \<times> vault" where
  "set_settings_with_vault c io nm pr env n1 n2 patch st v =
     (if \<not> is_configured v then (case set_settings c io nm pr patch st of (r, st') \<Rightarrow> (r, st', v))
      else set_settings_with_vault_inner c io nm pr env n1 n2 patch st v)"

definition replace_settings_for_import ::
  "codec \<Rightarrow> io \<Rightarrow> json_map \<Rightarrow> store \<Rightarrow> (error_code + unit) \<times> store" where
  "replace_settings_for_import c io settings st = write_json c io is_map settings_file (JObject settings) st"

section \<open>The proxy password in and out of the vault\<close>

definition proxy_password_in_vault :: "json_map \<Rightarrow> bool" where
  "proxy_password_in_vault settings \<longleftrightarrow> get_bool settings ''hasProxyPassword'' = Some True"

definition read_settings_file :: "codec \<Rightarrow> io \<Rightarrow> store \<Rightarrow> json_map \<times> store" where
  "read_settings_file c io st =
     (case read_json c io is_map settings_file (JObject []) st of (m, st') \<Rightarrow> (the_or [] (as_object m), st'))"

definition reveal_proxy_password ::
  "codec \<Rightarrow> io \<Rightarrow> protector \<Rightarrow> store \<Rightarrow> vault \<Rightarrow> (settings_error + string option) \<times> store" where
  "reveal_proxy_password c io pr st v =
     (case get_settings c io st of
        (settings, st1) \<Rightarrow>
          if is_configured v \<and> proxy_password_in_vault settings
          then (case get_proxy_password v of
                  Inl e \<Rightarrow> (Inl (VaultRefused e), st1)
                | Inr None \<Rightarrow> (Inr None, st1)
                | Inr (Some secret) \<Rightarrow>
                    (if valid_utf8 secret then Inr (Some secret)
                     else Inl (VaultRefused (Other ''vault secret is not UTF-8'')), st1))
          else if \<not> has_saved_secret settings ''proxyPasswordEnc'' ''proxyPasswordPlain'' then (Inr None, st1)
          else (let secret = decrypt_secret pr settings ''proxyPasswordEnc'' ''proxyPasswordPlain''
                in (if secret = [] then Inl SecretUnreadable else Inr (Some secret), st1)))"

definition save_settings_map :: "codec \<Rightarrow> io \<Rightarrow> json_map \<Rightarrow> store \<Rightarrow> (settings_error + unit) \<times> store" where
  "save_settings_map c io m st =
     (case write_json c io is_map settings_file (JObject m) st of
        (Inl e, st') \<Rightarrow> (Inl (NotSaved e), st') | (Inr _, st') \<Rightarrow> (Inr (), st'))"

definition migrate_proxy_password_to_vault ::
  "codec \<Rightarrow> io \<Rightarrow> protector \<Rightarrow> vault_env \<Rightarrow> string \<Rightarrow> string \<Rightarrow> store \<Rightarrow> vault
    \<Rightarrow> (settings_error + unit) \<times> store \<times> vault" where
  "migrate_proxy_password_to_vault c io pr env n1 n2 st v =
     (case read_settings_file c io st of
        (settings, st1) \<Rightarrow>
          (let password = decrypt_secret pr settings ''proxyPasswordEnc'' ''proxyPasswordPlain''
           in if \<not> has_saved_secret settings ''proxyPasswordEnc'' ''proxyPasswordPlain'' \<or> password = []
              then (Inr (), st1, v)
              else commit_then_save env n1 n2 (SetProxyPassword password)
                (save_settings_map c io (al_put ''hasProxyPassword'' (JBool True) (drop_saved settings))) st1 v))"

definition migrate_proxy_password_from_vault ::
  "codec \<Rightarrow> io \<Rightarrow> protector \<Rightarrow> store \<Rightarrow> vault \<Rightarrow> (settings_error + unit) \<times> store" where
  "migrate_proxy_password_from_vault c io pr st v =
     (case read_settings_file c io st of
        (settings, st1) \<Rightarrow>
          (let unflagged = al_del ''hasProxyPassword'' settings
           in case get_proxy_password v of
                Inl e \<Rightarrow> (Inl (VaultRefused e), st1)
              | Inr None \<Rightarrow> if al_has ''hasProxyPassword'' settings then save_settings_map c io unflagged st1 else (Inr (), st1)
              | Inr (Some secret) \<Rightarrow> (case pr_protect pr secret of
                  None \<Rightarrow> (Inl SecretNotProtected, st1)
                | Some protected \<Rightarrow>
                    save_settings_map c io (al_put ''proxyPasswordEnc'' (JString (pr_b64 pr protected))
                      (al_del ''proxyPasswordPlain'' unflagged)) st1)))"

definition clear_proxy_password_flag :: "codec \<Rightarrow> io \<Rightarrow> store \<Rightarrow> (error_code + unit) \<times> store" where
  "clear_proxy_password_flag c io st =
     (case read_settings_file c io st of
        (settings, st1) \<Rightarrow>
          if \<not> al_has ''hasProxyPassword'' settings then (Inr (), st1)
          else write_json c io is_map settings_file (JObject (al_del ''hasProxyPassword'' settings)) st1)"

section \<open>The proxy of a connection\<close>

datatype proxy_kind = Socks4 | Socks5 | Http

record proxy_config =
  px_kind :: proxy_kind
  px_host :: string
  px_port :: nat
  px_username :: "string option"
  px_password :: "string option"

definition proxy_config_new ::
  "numerics \<Rightarrow> string option \<Rightarrow> string \<Rightarrow> nat \<Rightarrow> string option \<Rightarrow> string option \<Rightarrow> proxy_config option" where
  "proxy_config_new nm kind host port username password =
     map_option (\<lambda>h. \<lparr>px_kind = (if kind = Some ''socks4'' then Socks4 else if kind = Some ''http'' then Http else Socks5),
         px_host = h, px_port = port, px_username = nonempty username, px_password = nonempty password\<rparr>)
       (normalize_proxy_host nm host)"

definition proxy_authority :: "proxy_config \<Rightarrow> string" where
  "proxy_authority p =
     (if CHR '':'' \<in> set (px_host p) then ''['' @ px_host p @ '']:'' @ show_nat (px_port p)
      else px_host p @ '':'' @ show_nat (px_port p))"

definition saved_proxy :: "numerics \<Rightarrow> protector \<Rightarrow> json_map \<Rightarrow> vault \<Rightarrow> settings_error + proxy_config option" where
  "saved_proxy nm pr settings v =
     (let host = (case get_str settings ''proxyHost'' of Some h \<Rightarrow> if trim_str h = [] then None else Some h | None \<Rightarrow> None);
          port = (case get_u64 settings ''proxyPort'' of Some p \<Rightarrow> if p \<le> u16_max \<and> p \<noteq> 0 then Some p else None | None \<Rightarrow> None)
      in if get_bool settings ''proxyEnabled'' \<noteq> Some True \<or> host = None \<or> port = None then Inr None
         else (let password = (if is_configured v \<and> proxy_password_in_vault settings
                 then (case get_proxy_password v of
                         Inl e \<Rightarrow> Inl (VaultRefused e)
                       | Inr None \<Rightarrow> Inr None
                       | Inr (Some secret) \<Rightarrow> if valid_utf8 secret then Inr (Some secret)
                           else Inl (VaultRefused (Other ''vault secret is not UTF-8'')))
                 else Inr (Some (decrypt_secret pr settings ''proxyPasswordEnc'' ''proxyPasswordPlain'')))
               in case password of
                    Inl e \<Rightarrow> Inl e
                  | Inr secret \<Rightarrow>
                      (let username = get_str settings ''proxyUsername''
                       in if 255 < length (the host) then Inl (BadConnection ''proxyHost'')
                          else if 1024 < length (the_or [] username) then Inl (BadConnection ''proxyUsername'')
                          else if 16 * 1024 < length (the_or [] secret) then Inl (BadConnection ''proxyPassword'')
                          else (case proxy_config_new nm (get_str settings ''proxyType'') (the host) (the port) username secret of
                                  None \<Rightarrow> Inl (BadConnection ''proxyHost must be a host name or an IP address'')
                                | Some p \<Rightarrow> Inr (Some p)))))"

record connection_defaults =
  cn_timeout_ms :: nat
  cn_active_mode :: bool
  cn_strict_host_key :: bool
  cn_proxy :: "proxy_config option"

definition connection_defaults_of ::
  "codec \<Rightarrow> io \<Rightarrow> numerics \<Rightarrow> protector \<Rightarrow> nat \<Rightarrow> bool \<Rightarrow> store \<Rightarrow> vault
    \<Rightarrow> (settings_error + connection_defaults) \<times> store" where
  "connection_defaults_of c io nm pr timeout_ms active_mode st v =
     (case get_settings c io st of
        (settings, st1) \<Rightarrow>
          ((case saved_proxy nm pr settings v of
              Inl e \<Rightarrow> Inl e
            | Inr p \<Rightarrow> Inr \<lparr>cn_timeout_ms = timeout_ms, cn_active_mode = active_mode,
                cn_strict_host_key = strict_host_key settings, cn_proxy = p\<rparr>), st1))"

definition layout_keys :: "string list" where
  "layout_keys = [''localColumns'', ''remoteColumns'', ''localColumnWidths'', ''remoteColumnWidths'',
     ''transferColumnWidths'', ''transferColumnOrder'', ''transferHiddenColumns'', ''showLocalPane'',
     ''showRemotePane'', ''showTransferQueue'', ''transferQueueHeight'', ''logPanelHeight'', ''splitRatio'',
     ''paneOrientation'', ''transferLogSplitRatio'', ''windowBounds'', ''windowMaximized'']"

definition reset_layout_settings ::
  "codec \<Rightarrow> io \<Rightarrow> numerics \<Rightarrow> protector \<Rightarrow> store \<Rightarrow> (settings_error + json_map) \<times> store" where
  "reset_layout_settings c io nm pr st =
     set_settings c io nm pr
       (fold (\<lambda>key m. al_put key (the_or JNull (map_of default_settings key)) m) layout_keys []) st"

section \<open>Lemmas\<close>

subsection \<open>Secrets aside\<close>

lemma fold_al_del: "fold al_del ks m = filter (\<lambda>p. fst p \<notin> set ks) m"
  by (induction ks arbitrary: m) (auto simp: al_del_def conj_commute intro!: filter_cong)

lemma without_secrets_filter: "without_secrets m = filter (\<lambda>p. fst p \<notin> set proxy_secret_fields) m"
  by (simp add: without_secrets_def fold_al_del)

lemma filter_al_put: "k \<in> K \<Longrightarrow> filter (\<lambda>p. fst p \<notin> K) (al_put k v m) = filter (\<lambda>p. fst p \<notin> K) m"
  unfolding al_put_def by (induction m) auto

lemma secret_names [simp]:
  "''proxyPasswordEnc'' \<in> set proxy_secret_fields" "''proxyPasswordPlain'' \<in> set proxy_secret_fields"
  "''hasProxyPassword'' \<in> set proxy_secret_fields" "''proxyPassword'' \<in> set proxy_secret_fields"
  "''removeProxyPassword'' \<in> set proxy_secret_fields"
  by code_simp+

lemma without_secrets_put [simp]: "k \<in> set proxy_secret_fields \<Longrightarrow> without_secrets (al_put k v m) = without_secrets m"
  by (simp add: without_secrets_filter filter_al_put)

lemma without_secrets_del [simp]: "k \<in> set proxy_secret_fields \<Longrightarrow> without_secrets (al_del k m) = without_secrets m"
  by (auto simp: without_secrets_filter al_del_def intro!: filter_cong)

lemma map_of_without_secrets: "map_of (without_secrets m) k = (if k \<in> set proxy_secret_fields then None else map_of m k)"
  unfolding without_secrets_filter by (induction m) auto

lemma al_ok_without_secrets: "al_ok m \<Longrightarrow> al_ok (without_secrets m)"
  by (simp add: without_secrets_filter)

lemma placed_apart:
  assumes "place_password pr target raw rem current = Inr settings"
  shows "without_secrets settings = without_secrets current" and "al_ok current \<Longrightarrow> al_ok settings"
proof -
  have field: "k = ''proxyPasswordEnc'' \<or> k = ''proxyPasswordPlain''"
    if "encrypt_secret_with pr p (Some current) ''proxyPasswordEnc'' ''proxyPasswordPlain'' = (Some (k, v), b)" for p k v b
    using that by (auto simp: encrypt_secret_with_def protected_field_def Let_def split: option.splits if_splits)
  show "without_secrets settings = without_secrets current"
    using assms
    by (auto simp: place_password_def drop_saved_def dest!: field split: proxy_password_write.splits if_splits option.splits prod.splits bool.splits)
  show "al_ok current \<Longrightarrow> al_ok settings"
    using assms
    by (auto simp: place_password_def drop_saved_def split: proxy_password_write.splits if_splits option.splits prod.splits bool.splits)
qed

subsection \<open>Merging\<close>

lemma al_ok_merge: "al_ok base \<Longrightarrow> al_ok (merge base patch)"
  unfolding merge_def by (induction patch arbitrary: base) auto

lemma map_of_merge: "al_ok patch \<Longrightarrow> map_of (merge base patch) k = (case map_of patch k of Some v \<Rightarrow> Some v | None \<Rightarrow> map_of base k)"
proof (induction patch arbitrary: base)
  case (Cons p patch)
  obtain a b where p: "p = (a, b)" by (cases p)
  have "map_of patch a = None" using Cons.prems p by (simp add: map_of_eq_None_iff)
  then show ?case using Cons p by (auto simp: merge_def split: option.splits)
qed (simp add: merge_def)

lemma merge_keeps_keys: "map_of base k \<noteq> None \<Longrightarrow> map_of (merge base patch) k \<noteq> None"
  unfolding merge_def
proof (induction patch arbitrary: base)
  case (Cons p patch)
  obtain a b where "p = (a, b)" by (cases p)
  then show ?case using Cons.IH [of "al_put a b base"] Cons.prems by auto
qed simp

lemma default_settings_ok: "al_ok default_settings" "k \<in> set proxy_secret_fields \<Longrightarrow> map_of default_settings k = None"
proof -
  show "al_ok default_settings" by (simp add: default_settings_def settings_schema_def al_del_def)
  have "list_all (\<lambda>k. map_of default_settings k = None) proxy_secret_fields"
    by (simp add: default_settings_def settings_schema_def proxy_secret_fields_def proxy_input_def proxy_saved_def proxy_flags_def)
  then show "k \<in> set proxy_secret_fields \<Longrightarrow> map_of default_settings k = None" by (simp add: list_all_iff)
qed

subsection \<open>Reading and writing\<close>

lemma read_json_frame:
  assumes "read_json c io fits name fallback st = (v, st')"
  shows "map_of (st_folder st') name = map_of (st_folder st) name"
proof -
  have note_frame: "st_folder (note_issue n i s) = st_folder s" for n i s by (simp add: note_issue_def)
  show ?thesis
  proof (cases "read_file io (st_folder st) name")
    case (Contents raw)
    obtain kept d where a: "archive_corrupt c io name raw (st_folder st) = (kept, d)" by fastforce
    have "map_of d name = map_of (st_folder st) name" using archive_frame [OF a no_copy_simps(1)] .
    then show ?thesis
      using assms Contents a
      by (auto simp: read_json_def note_frame Let_def split: sum.splits decode_error.splits option.splits)
  qed (use assms in \<open>auto simp: read_json_def note_frame Let_def split: option.splits if_splits\<close>)
qed

lemma get_settings_frame: "get_settings c io st = (m, st') \<Longrightarrow> map_of (st_folder st') settings_file = map_of (st_folder st) settings_file"
  using read_json_frame by (fastforce simp: get_settings_def split: prod.splits)

lemma get_settings_ok: "get_settings c io st = (m, st') \<Longrightarrow> al_ok m"
  using al_ok_merge [OF default_settings_ok(1)] by (auto simp: get_settings_def split: prod.splits)

lemma get_settings_has: "get_settings c io st = (m, st') \<Longrightarrow> map_of default_settings k \<noteq> None \<Longrightarrow> map_of m k \<noteq> None"
  using merge_keeps_keys by (fastforce simp: get_settings_def split: prod.splits)

lemma write_refused: "write_json c io fits name data st = (Inl e, st') \<Longrightarrow> map_of (st_folder st') name = map_of (st_folder st) name"
  by (erule write_json_steps) simp_all

lemma settings_versioned: "is_versioned_store settings_file" by code_simp

text \<open>A save that went through, step by step.\<close>

lemma write_settings_steps:
  assumes "write_settings c io nm pr target patch st = (Inr settings, st')"
  obtains current st1 where "get_settings c io st = (current, st1)"
    "validate_settings nm (without_secrets (merge current (plain_patch patch))) False = Inr ()"
    "place_password pr target (map_of patch ''proxyPassword'') (flag_of patch ''removeProxyPassword'')
       (merge current (plain_patch patch)) = Inr settings"
    "write_json c io is_map settings_file (JObject settings) st1 = (Inr (), st')"
  using assms
  by (auto simp: write_settings_def check_merged_def split: sum.splits prod.splits)

lemma write_settings_failed:
  assumes "write_settings c io nm pr target patch st = (Inl e, st')"
  shows "map_of (st_folder st') settings_file = map_of (st_folder st) settings_file"
  using assms
  by (auto simp: write_settings_def split: sum.splits prod.splits dest!: get_settings_frame write_refused)

lemma written_settings:
  assumes "write_settings c io nm pr target patch st = (Inr settings, st')"
  shows "validate_settings nm (without_secrets settings) False = Inr ()" and "al_ok settings"
    and "map_of default_settings k \<noteq> None \<Longrightarrow> map_of settings k \<noteq> None"
proof -
  obtain current st1 where w: "get_settings c io st = (current, st1)"
    "validate_settings nm (without_secrets (merge current (plain_patch patch))) False = Inr ()"
    "place_password pr target (map_of patch ''proxyPassword'') (flag_of patch ''removeProxyPassword'')
       (merge current (plain_patch patch)) = Inr settings"
    "write_json c io is_map settings_file (JObject settings) st1 = (Inr (), st')"
    using assms by (rule write_settings_steps) blast
  show "validate_settings nm (without_secrets settings) False = Inr ()"
    using w(2) placed_apart(1) [OF w(3)] by simp
  show "al_ok settings" using placed_apart(2) [OF w(3) al_ok_merge [OF get_settings_ok [OF w(1)]]] .
  assume d: "map_of default_settings k \<noteq> None"
  then have "k \<notin> set proxy_secret_fields" by (rule contrapos_nn) (rule default_settings_ok(2))
  then have "map_of settings k = map_of (merge current (plain_patch patch)) k"
    using placed_apart(1) [OF w(3)] map_of_without_secrets [of settings k]
      map_of_without_secrets [of "merge current (plain_patch patch)" k] by simp
  then show "map_of settings k \<noteq> None" using merge_keeps_keys [OF get_settings_has [OF w(1) d]] by simp
qed

text \<open>What was saved is what is read later, field by field.\<close>

lemma saved_settings_read:
  assumes "write_settings c io nm pr target patch st = (Inr settings, st')"
    and "\<forall>v. cd_parse c (cd_render c v) = Some v" and "\<not> io_no_folder later" and "\<not> io_unreadable later settings_file"
  shows "\<exists>m. get_settings c later st' = (m, st') \<and> al_ok m \<and> map_of m = map_of settings"
proof -
  obtain st1 where w: "write_json c io is_map settings_file (JObject settings) st1 = (Inr (), st')"
    by (rule write_settings_steps [OF assms(1)])
  have "map_of (st_folder st') settings_file = Some (io_now io, cd_render c (encode_versioned_store settings_file (JObject settings)))"
    by (rule write_json_steps [OF w]) simp_all
  then have "read_json c later null_or_map settings_file JNull st' = (JObject settings, st')"
    using assms(2-4) settings_versioned
    by (intro saved_value_read) (simp_all add: saved_value_def decode_bytes_def decode_encode)
  then have g: "get_settings c later st' = (merge default_settings settings, st')" by (simp add: get_settings_def)
  have "map_of (merge default_settings settings) k = map_of settings k" for k
    using map_of_merge [OF written_settings(2) [OF assms(1)]] written_settings(3) [OF assms(1), of k]
    by (cases "map_of default_settings k") (auto split: option.splits)
  then show ?thesis using g get_settings_ok [OF g] by (intro exI [of _ "merge default_settings settings"]) auto
qed

lemma saved_settings_valid:
  assumes "write_settings c io nm pr target patch st = (Inr settings, st')" and "al_ok m" and "map_of m = map_of settings"
  shows "validate_settings nm (without_secrets m) False = Inr ()"
proof -
  have "map_of (without_secrets m) = map_of (without_secrets settings)"
    using assms(3) by (intro ext) (simp add: map_of_without_secrets)
  then show ?thesis
    using written_settings(1) [OF assms(1)]
      validate_cong [OF _ al_ok_without_secrets [OF assms(2)] al_ok_without_secrets [OF written_settings(2) [OF assms(1)]]] by blast
qed

lemma get_without_secrets:
  "k \<notin> set proxy_secret_fields \<Longrightarrow> get_str (without_secrets m) k = get_str m k"
  "k \<notin> set proxy_secret_fields \<Longrightarrow> get_bool (without_secrets m) k = get_bool m k"
  by (simp_all add: get_str_def get_bool_def map_of_without_secrets)

lemma not_secret_names [simp]:
  "''proxyEnabled'' \<notin> set proxy_secret_fields" "''proxyHost'' \<notin> set proxy_secret_fields"
  "''proxyPort'' \<notin> set proxy_secret_fields"
  by code_simp+

lemma enabled_proxy_found:
  assumes "validate_settings nm (without_secrets m) False = Inr ()" and "get_bool m ''proxyEnabled'' = Some True"
    and "map_of m ''proxyPort'' \<noteq> None"
  shows "saved_proxy nm pr m v \<noteq> Inr None"
proof -
  obtain h where h: "get_str m ''proxyHost'' = Some h" "trim_str h \<noteq> []"
    using valid_proxy_host [OF assms(1)] assms(2) by (auto simp: get_without_secrets)
  obtain x where "map_of m ''proxyPort'' = Some x" using assms(3) by blast
  then obtain n where "get_u64 m ''proxyPort'' = Some n" "1 \<le> n" "n \<le> u16_max"
    using valid_port [OF assms(1), of x] by (auto simp: map_of_without_secrets get_u64_def)
  then show ?thesis using h assms(2)
    by (simp add: saved_proxy_def Let_def split: sum.splits option.splits)
qed

subsection \<open>The vault's proxy password\<close>

lemma proxy_password_set:
  assumes "apply_secret_updates env n [u] v = (Inr (), v')"
  shows "u = SetProxyPassword p \<Longrightarrow> get_proxy_password v' = Inr (Some p)"
    and "u = DeleteProxyPassword \<Longrightarrow> get_proxy_password v' = Inr None"
  using assms by (auto simp: apply_secret_updates_def get_proxy_password_def get_key_def Let_def
      split: option.splits sum.splits prod.splits)

lemma proxy_password_kept:
  "apply_secret_updates env n us v = (Inl e, v') \<Longrightarrow> get_proxy_password v' = get_proxy_password v"
  by (auto simp: apply_secret_updates_def get_proxy_password_def get_key_def Let_def split: option.splits sum.splits prod.splits)

lemma restored: "restore_proxy_password env n previous v = (Inr (), v') \<Longrightarrow> get_proxy_password v' = Inr previous"
  using proxy_password_set by (cases previous) (auto simp: restore_proxy_password_def)

lemma map_of_merge_other: "k \<notin> fst ` set patch \<Longrightarrow> map_of (merge base patch) k = map_of base k"
  unfolding merge_def
proof (induction patch arbitrary: base)
  case (Cons p patch)
  obtain a b where "p = (a, b)" by (cases p)
  then show ?case using Cons.IH [of "al_put a b base"] Cons.prems by auto
qed simp

text \<open>A patch that passes names no saved secret.\<close>

lemma valid_patch_apart:
  assumes "validate_settings nm patch True = Inr ()" and "k \<in> {''proxyPasswordEnc'', ''proxyPasswordPlain'', ''hasProxyPassword''}"
  shows "k \<notin> fst ` set (plain_patch patch)"
proof
  assume "k \<in> fst ` set (plain_patch patch)"
  then obtain v where "(k, v) \<in> set patch" by (auto simp: plain_patch_def al_del_def)
  then have "check_field True (k, v) = None" using assms(1) by (auto simp: validate_Inr)
  moreover have "k \<in> set proxy_secret_fields" "k \<noteq> ''proxyPassword''" "k \<noteq> ''removeProxyPassword''"
    using assms(2) by auto
  ultimately show False by (auto simp: check_field_def split: if_splits)
qed

definition protector_ok :: "protector \<Rightarrow> bool" where
  "protector_ok pr \<longleftrightarrow> (\<forall>x y. pr_protect pr x = Some y \<longrightarrow> pr_unprotect pr y = Some x) \<and> (\<forall>x. pr_unb64 pr (pr_b64 pr x) = Some x)"

lemma protected_reads_back:
  assumes "protector_ok pr" and "valid_utf8 pw"
    and "protected_field pr k pw = Some (j, v)" and "get_str m k = as_str v"
  shows "decrypt_secret pr m k plain = pw"
  using assms by (auto simp: protected_field_def decrypt_secret_def protector_ok_def from_utf8_lossy_valid)

lemma placed_password:
  assumes "place_password pr Dpapi (Some (JString pw)) False current = Inr settings" and "pw \<noteq> []" "valid_utf8 pw"
    and "protector_ok pr" and "\<forall>v. map_of current ''proxyPasswordEnc'' = Some v \<longrightarrow> as_str v \<noteq> None"
  shows "decrypt_secret pr settings ''proxyPasswordEnc'' ''proxyPasswordPlain'' = pw \<and> map_of settings ''proxyPasswordPlain'' = None"
proof -
  obtain f where f: "encrypt_secret_with pr pw (Some current) ''proxyPasswordEnc'' ''proxyPasswordPlain'' = (f, False)"
    using assms(1) by (auto simp: place_password_def split: prod.splits bool.splits option.splits)
  then obtain v where v: "f = Some (''proxyPasswordEnc'', v)" and src:
    "protected_field pr ''proxyPasswordEnc'' pw = f \<or> map_of current ''proxyPasswordEnc'' = Some v
      \<and> decrypt_secret pr current ''proxyPasswordEnc'' ''proxyPasswordPlain'' = pw"
    using assms(2) by (auto simp: encrypt_secret_with_def protected_field_def Let_def split: if_splits option.splits)
  have s: "settings = al_put ''proxyPasswordEnc'' v (drop_saved current)"
    using assms(1) f v by (simp add: place_password_def)
  have enc: "get_str settings ''proxyPasswordEnc'' = as_str v" by (simp add: s get_str_def)
  have "decrypt_secret pr settings ''proxyPasswordEnc'' ''proxyPasswordPlain'' = pw"
    using src
  proof
    assume "protected_field pr ''proxyPasswordEnc'' pw = f"
    then show ?thesis using protected_reads_back [OF assms(4,3) _ enc] v by blast
  next
    assume kept: "map_of current ''proxyPasswordEnc'' = Some v
      \<and> decrypt_secret pr current ''proxyPasswordEnc'' ''proxyPasswordPlain'' = pw"
    then have "as_str v \<noteq> None" using assms(5) by blast
    moreover have "get_str current ''proxyPasswordEnc'' = as_str v" using kept by (simp add: get_str_def)
    ultimately show ?thesis using kept enc by (auto simp: decrypt_secret_def)
  qed
  then show ?thesis by (simp add: s drop_saved_def)
qed

text \<open>The vault and the settings change together or not at all, unless the report says the vault could
  not be put back.\<close>

lemma commit_then_save_whole:
  assumes "commit_then_save env n1 n2 u save st v = (r, st', v')"
    and kept: "\<forall>e s'. save st = (Inl e, s') \<longrightarrow> map_of (st_folder s') name = map_of (st_folder st) name"
  shows "r = Inr a \<Longrightarrow> save st = (Inr a, st') \<and> (\<exists>x. apply_secret_updates env n1 [u] v = (Inr x, v'))"
    and "r = Inl e \<Longrightarrow> map_of (st_folder st') name = map_of (st_folder st) name"
    and "r = Inl e \<Longrightarrow> e \<noteq> VaultNotRestored \<Longrightarrow> get_proxy_password v' = get_proxy_password v"
proof -
  show "r = Inr a \<Longrightarrow> save st = (Inr a, st') \<and> (\<exists>x. apply_secret_updates env n1 [u] v = (Inr x, v'))"
    using assms(1) by (auto simp: commit_then_save_def split: sum.splits prod.splits)
  show "r = Inl e \<Longrightarrow> map_of (st_folder st') name = map_of (st_folder st) name"
    using assms(1) kept by (auto simp: commit_then_save_def split: sum.splits prod.splits)
  show "r = Inl e \<Longrightarrow> e \<noteq> VaultNotRestored \<Longrightarrow> get_proxy_password v' = get_proxy_password v"
    using assms(1) proxy_password_kept restored
    by (auto simp: commit_then_save_def split: sum.splits prod.splits)
qed

lemma placed_in_vault:
  assumes "write_settings c io nm pr (InVault True) patch st = (Inr settings, st')"
  shows "proxy_password_in_vault settings \<and> map_of settings ''proxyPasswordEnc'' = None
    \<and> map_of settings ''proxyPasswordPlain'' = None"
  using assms
  by (rule write_settings_steps) (auto simp: place_password_def drop_saved_def proxy_password_in_vault_def get_bool_def)

section \<open>Properties\<close>


text \<open>The settings on disk keep the schema: after any save that went through, what is read back is what
  was saved, and as a whole, without the fields for secrets, it passes the same check an import does.\<close>

theorem saved_settings_keep_the_schema:
  assumes "write_settings c io nm pr target patch st = (Inr settings, st')"
    and "\<forall>v. cd_parse c (cd_render c v) = Some v" and "\<not> io_no_folder later" and "\<not> io_unreadable later settings_file"
  shows "validate_settings nm (without_secrets (fst (get_settings c later st'))) False = Inr ()
    \<and> map_of (fst (get_settings c later st')) = map_of settings \<and> snd (get_settings c later st') = st'"
proof -
  obtain m where m: "get_settings c later st' = (m, st')" "al_ok m" "map_of m = map_of settings"
    using saved_settings_read [OF assms] by blast
  then show ?thesis using saved_settings_valid [OF assms(1) m(2,3)] by simp
qed


text \<open>C34: With the vault set up, saving a new proxy password is all or nothing: reported as done, the
  password is in the vault, the settings say so and hold no copy; reported as failed, the vault gives
  the password it gave before and the settings file is as it was, unless the report is that the
  vault could not be put back.\<close>

theorem vault_save_is_all_or_nothing:
  assumes "set_settings_with_vault c io nm pr env n1 n2 patch st v = (r, st', v')" and "is_configured v"
    and "get_str patch ''proxyPassword'' = Some pw" and "pw \<noteq> []" and "\<not> flag_of patch ''removeProxyPassword''"
  shows "(\<forall>settings. r = Inr settings \<longrightarrow> get_proxy_password v' = Inr (Some pw) \<and> proxy_password_in_vault settings
      \<and> map_of settings ''proxyPasswordEnc'' = None \<and> map_of settings ''proxyPasswordPlain'' = None)
    \<and> (\<forall>e. r = Inl e \<and> e \<noteq> VaultNotRestored \<longrightarrow> get_proxy_password v' = get_proxy_password v
      \<and> map_of (st_folder st') settings_file = map_of (st_folder st) settings_file)"
proof -
  obtain current st1 where g: "get_settings c io st = (current, st1)" by fastforce
  note same = get_settings_frame [OF g]
  have run: "set_settings_with_vault_inner c io nm pr env n1 n2 patch st v = (r, st', v')"
    using assms(1,2) by (simp add: set_settings_with_vault_def)
  show ?thesis
  proof (cases "\<exists>e. r = Inl e \<and> v' = v \<and> (st' = st \<or> st' = st1)")
    case True
    then show ?thesis using same by auto
  next
    case late: False
    have pw: "nonempty (get_str patch ''proxyPassword'') = Some pw" using assms(3,4) by (simp add: nonempty_def)
    have c: "commit_then_save env n1 n2 (SetProxyPassword pw) (write_settings c io nm pr (InVault True) (plain_patch patch)) st1 v
        = (r, st', v')"
      using run late assms(5) g by (auto simp: set_settings_with_vault_inner_def pw Let_def split: sum.splits if_splits)
    have kept: "\<forall>e s'. write_settings c io nm pr (InVault True) (plain_patch patch) st1 = (Inl e, s')
        \<longrightarrow> map_of (st_folder s') settings_file = map_of (st_folder st1) settings_file"
      using write_settings_failed by blast
    note whole = commit_then_save_whole [OF c kept]
    show ?thesis
    proof (cases r)
      case (Inl e)
      then show ?thesis using whole(2,3) same by auto
    next
      case (Inr settings)
      obtain x where x: "apply_secret_updates env n1 [SetProxyPassword pw] v = (Inr x, v')"
        and w: "write_settings c io nm pr (InVault True) (plain_patch patch) st1 = (Inr settings, st')"
        using whole(1) [OF Inr] by blast
      show ?thesis using placed_in_vault [OF w] proxy_password_set(1) [of env n1 _ v v' pw] x Inr by auto
    qed
  qed
qed

text \<open>Moving the proxy password into the vault never loses it: it is in the vault with the settings'
  flag saying so, or the file still holds it and the vault gives what it gave before, unless the
  report is that the vault could not be put back.\<close>

theorem migration_keeps_the_password:
  assumes "migrate_proxy_password_to_vault c io pr env n1 n2 st v = (r, st', v')"
    and "decrypt_secret pr (fst (read_settings_file c io st)) ''proxyPasswordEnc'' ''proxyPasswordPlain'' = pw" and "pw \<noteq> []"
  shows "get_proxy_password v' = Inr (Some pw) \<and> r = Inr ()
    \<or> map_of (st_folder st') settings_file = map_of (st_folder st) settings_file
      \<and> (r \<noteq> Inl VaultNotRestored \<longrightarrow> get_proxy_password v' = get_proxy_password v)"
proof -
  obtain settings st1 where g: "read_settings_file c io st = (settings, st1)" by fastforce
  have same: "map_of (st_folder st1) settings_file = map_of (st_folder st) settings_file"
    using g read_json_frame by (fastforce simp: read_settings_file_def split: prod.splits)
  have kept: "\<forall>e s'. save_settings_map c io m st1 = (Inl e, s')
      \<longrightarrow> map_of (st_folder s') settings_file = map_of (st_folder st1) settings_file" for m
    using write_refused by (fastforce simp: save_settings_map_def split: sum.splits prod.splits)
  show ?thesis
  proof (cases "has_saved_secret settings ''proxyPasswordEnc'' ''proxyPasswordPlain''")
    case False
    then show ?thesis using assms(1) g same by (simp add: migrate_proxy_password_to_vault_def)
  next
    case True
    then have c: "commit_then_save env n1 n2 (SetProxyPassword pw)
        (save_settings_map c io (al_put ''hasProxyPassword'' (JBool True) (drop_saved settings))) st1 v = (r, st', v')"
      using assms g by (simp add: migrate_proxy_password_to_vault_def)
    note whole = commit_then_save_whole [OF c kept]
    show ?thesis
    proof (cases r)
      case (Inl e)
      then show ?thesis using whole(2,3) same by auto
    next
      case (Inr u)
      obtain x where "apply_secret_updates env n1 [SetProxyPassword pw] v = (Inr x, v')" using whole(1) [OF Inr] by blast
      then show ?thesis using proxy_password_set(1) [of env n1 _ v v' pw] Inr by simp
    qed
  qed
qed

section \<open>Witnesses\<close>

lemma shipped_fields_pass:
  assumes "map_of default_settings k = Some v"
  shows "check_field False (k, v) = None"
proof -
  have "list_all (\<lambda>(k, v). \<not> str_ok v (\<lambda>s. 4096 < length s)) default_settings"
    by (simp add: default_settings_def settings_schema_def al_del_def str_ok_def number_of_def strings_of_def panes_of_def)
  then have "\<not> str_ok v (\<lambda>s. 4096 < length s)" using map_of_SomeD [OF assms] by (auto simp: list_all_iff)
  moreover have "map_of settings_schema k = Some v" using assms by (simp add: default_settings_def split: if_splits)
  moreover have "k \<notin> set proxy_secret_fields" using default_settings_ok(2) [of k] assms by auto
  moreover have "same_type v v" by (cases v) simp_all
  ultimately show ?thesis by (simp add: check_field_def)
qed

definition toy_numerics :: numerics where "toy_numerics = \<lparr>nm_float = (\<lambda>_. 1), nm_ipv6 = (\<lambda>_. None)\<rparr>"

definition toy_protector :: protector where
  "toy_protector = \<lparr>pr_protect = (\<lambda>s. Some (CHR ''!'' # s)), pr_unprotect = (\<lambda>s. Some (tl s)), pr_b64 = id, pr_unb64 = Some\<rparr>"

definition toy_patch :: json_map where
  "toy_patch = [(''proxyEnabled'', JBool True), (''proxyHost'', JString ''h''), (''proxyPassword'', JString ''pw'')]"

definition toy_settings :: json_map where
  "toy_settings = al_put ''proxyHost'' (JString ''h'') (al_put ''proxyEnabled'' (JBool True) default_settings)"

lemma toy_merge: "merge default_settings (plain_patch toy_patch) = toy_settings" "al_ok toy_settings"
  using default_settings_ok(1) by (simp_all add: merge_def plain_patch_def toy_patch_def toy_settings_def al_del_def)

lemma toy_apart: "without_secrets toy_settings = toy_settings"
proof -
  have "k \<notin> set proxy_secret_fields" if "(k, v) \<in> set toy_settings" for k v
    using default_settings_ok(2) [of k] map_of_is_SomeI [OF toy_merge(2) that]
    by (auto simp: toy_settings_def split: if_splits)
  then show ?thesis by (auto simp: without_secrets_filter filter_id_conv)
qed


lemma shipped_values:
  "map_of default_settings ''recentSiteIds'' = Some (JArray [])"
  "map_of default_settings ''interfaceScale'' = Some (number_of 100)"
  "map_of default_settings ''concurrency'' = Some (number_of 3)"
  "map_of default_settings ''connectTimeout'' = Some (number_of 20000)"
  "map_of default_settings ''proxyPort'' = Some (number_of 1080)"
  "map_of default_settings ''vaultAutoLockMinutes'' = Some (number_of 15)"
  "map_of default_settings ''transferSpeedLimitKBps'' = Some (number_of 0)"
  "map_of default_settings ''transferQueueHeight'' = Some (number_of 116)"
  "map_of default_settings ''logPanelHeight'' = Some (number_of 116)"
  "map_of default_settings ''splitRatio'' = Some (JNumber (Float ''0.5''))"
  "map_of default_settings ''transferLogSplitRatio'' = Some (JNumber (Float ''0.5''))"
  "map_of default_settings ''localColumns'' = Some (panes_of (strings_of [''size'', ''modifiedAt'']))"
  "map_of default_settings ''remoteColumns'' = Some (panes_of (strings_of [''size'', ''modifiedAt'']))"
  "map_of default_settings ''localColumnWidths'' = Some (panes_of (JObject []))"
  "map_of default_settings ''remoteColumnWidths'' = Some (panes_of (JObject []))"
  "map_of default_settings ''transferHiddenColumns'' = Some (JArray [])"
  "map_of default_settings ''transferColumnOrder'' = Some (strings_of [''file'', ''route'', ''size'', ''transferred'', ''progress'', ''speed'', ''remaining'', ''status''])"
  "map_of default_settings ''transferColumnWidths'' = Some (JObject [])"
  "map_of default_settings ''theme'' = Some (JString ''dark'')"
  "map_of default_settings ''colorScheme'' = Some (JString ''peach'')"
  "map_of default_settings ''overwriteAction'' = Some (JString ''ask'')"
  "map_of default_settings ''proxyType'' = Some (JString ''socks5'')"
  "map_of default_settings ''paneOrientation'' = Some (JString ''horizontal'')"
  "map_of default_settings ''openWithAssociations'' = Some (JObject [])"
  "map_of default_settings ''keyboardShortcuts'' = Some (JObject [])"
  "map_of default_settings ''windowBounds'' = Some (JNull)"
  "map_of default_settings ''strictHostKeyCheck'' = Some (JBool True)"
  by (simp_all add: default_settings_def settings_schema_def)

lemma toy_checks: "\<forall>x \<in> set (settings_checks toy_numerics toy_settings False). x = None"
proof -
  have looked: "map_of toy_settings k = (if k = ''proxyHost'' then Some (JString ''h'') else if k = ''proxyEnabled''
      then Some (JBool True) else map_of default_settings k)" for k by (simp add: toy_settings_def)
  have host: "trim_str ''h'' = ''h''" "normalize_proxy_host toy_numerics ''h'' = Some ''h''" by code_simp+
  have floats: "nm_float toy_numerics = (\<lambda>_. 1)" by (simp add: toy_numerics_def)
  show ?thesis
    by (simp add: settings_checks_def bounded_settings_def allowed_values_def unless_def key_auto_lock_def shipped_values
      looked recent_ok_def in_bounds_def f64_ok_def columns_ok_def widths_ok_def pane_layout_ok_def string_map_ok_def
      window_bounds_ok_def check_proxy_def host floats Let_def get_bool_def get_str_def al_has_def
      number_of_def i64_max_def str_ok_def strings_of_def panes_of_def)
qed

lemma toy_valid: "validate_settings toy_numerics toy_settings False = Inr ()"
  "validate_settings toy_numerics toy_patch True = Inr ()" "validate_settings toy_numerics (plain_patch toy_patch) True = Inr ()"
proof -
  have new: "check_field False (''proxyHost'', JString ''h'') = None" "check_field False (''proxyEnabled'', JBool True) = None"
    by (simp_all add: check_field_def settings_schema_def proxy_secret_fields_def proxy_input_def proxy_saved_def
      proxy_flags_def str_ok_def)
  have "check_field False (k, v) = None" if "(k, v) \<in> set toy_settings" for k v
    using shipped_fields_pass [of k v] map_of_is_SomeI [OF toy_merge(2) that] new by (auto simp: toy_settings_def split: if_splits)
  then show "validate_settings toy_numerics toy_settings False = Inr ()"
    using toy_checks by (auto simp: validate_Inr)
  have host: "trim_str ''h'' = ''h''" "normalize_proxy_host toy_numerics ''h'' = Some ''h''" by code_simp+
  have p: "plain_patch toy_patch = [(''proxyEnabled'', JBool True), (''proxyHost'', JString ''h'')]"
    by (simp add: plain_patch_def toy_patch_def al_del_def)
  show "validate_settings toy_numerics (plain_patch toy_patch) True = Inr ()"
    by (simp add: p validate_Inr check_field_def settings_schema_def proxy_secret_fields_def proxy_input_def proxy_saved_def
      proxy_flags_def str_ok_def settings_checks_def bounded_settings_def allowed_values_def unless_def key_auto_lock_def
      check_proxy_def host get_bool_def get_str_def al_has_def Let_def)
  show "validate_settings toy_numerics toy_patch True = Inr ()"
    by (simp add: toy_patch_def validate_Inr check_field_def settings_schema_def proxy_secret_fields_def proxy_input_def proxy_saved_def
      proxy_flags_def str_ok_def settings_checks_def bounded_settings_def allowed_values_def unless_def key_auto_lock_def
      check_proxy_def host get_bool_def get_str_def al_has_def Let_def)
qed

lemma toy_get: "get_settings unary_codec calm blank_store = (default_settings, blank_store)"
  by (simp add: get_settings_def read_json_def read_file_def recover_def is_missing_def blank_store_def Let_def merge_def)

lemma toy_save: "\<exists>st'. write_json unary_codec calm is_map settings_file (JObject m) blank_store = (Inr (), st')"
  by (simp add: write_json_def write_json_unnamed_def ensure_writable_def blank_store_def read_file_def Let_def)

lemma toy_codec_ok: "\<forall>v. cd_parse unary_codec (cd_render unary_codec v) = Some v"
  by (simp add: unary_codec_def)

lemma toy_written:
  assumes "validate_settings toy_numerics patch True = Inr ()" and "plain_patch patch = plain_patch toy_patch"
    and "place_password toy_protector target (map_of patch ''proxyPassword'') (flag_of patch ''removeProxyPassword'') toy_settings
       = Inr settings"
  obtains st' where "write_settings unary_codec calm toy_numerics toy_protector target patch blank_store = (Inr settings, st')"
proof -
  obtain st' where "write_json unary_codec calm is_map settings_file (JObject settings) blank_store = (Inr (), st')"
    using toy_save by blast
  then have "write_settings unary_codec calm toy_numerics toy_protector target patch blank_store = (Inr settings, st')"
    using assms by (simp add: write_settings_def toy_get check_merged_def toy_merge toy_apart toy_valid)
  then show thesis by (rule that)
qed

lemma toy_placed:
  "\<exists>settings. place_password toy_protector Dpapi (map_of toy_patch ''proxyPassword'') (flag_of toy_patch ''removeProxyPassword'')
      toy_settings = Inr settings \<and> get_bool settings ''proxyEnabled'' = Some True"
proof -
  have none: "map_of toy_settings ''proxyPasswordEnc'' = None" "map_of toy_settings ''proxyPasswordPlain'' = None"
    using default_settings_ok(2) by (simp_all add: toy_settings_def)
  show ?thesis
    by (simp add: place_password_def toy_patch_def flag_of_def get_bool_def encrypt_secret_with_def none protected_field_def
      toy_protector_def get_str_def drop_saved_def Let_def) (simp add: toy_settings_def)
qed


theorem saved_settings_keep_the_schema_witness:
  "\<exists>settings st'. write_settings unary_codec calm toy_numerics toy_protector Dpapi toy_patch blank_store = (Inr settings, st')
     \<and> validate_settings toy_numerics (without_secrets (fst (get_settings unary_codec calm st'))) False = Inr ()"
proof -
  obtain settings where p: "place_password toy_protector Dpapi (map_of toy_patch ''proxyPassword'')
      (flag_of toy_patch ''removeProxyPassword'') toy_settings = Inr settings" using toy_placed by blast
  obtain st' where w: "write_settings unary_codec calm toy_numerics toy_protector Dpapi toy_patch blank_store = (Inr settings, st')"
    by (rule toy_written [OF toy_valid(2) refl p])
  show ?thesis using saved_settings_keep_the_schema [OF w toy_codec_ok, of calm] w by auto
qed


definition toy_filled :: vault where "toy_filled = toy\<lparr>va_files := al_put data_path ''d'' (va_files toy)\<rparr>"

lemma toy_filled_state: "va_state toy_filled = Some \<lparr>un_secrets = [], un_data_key = rn_key toy_random\<rparr>" "is_configured toy_filled"
proof -
  show "va_state toy_filled = Some \<lparr>un_secrets = [], un_data_key = rn_key toy_random\<rparr>"
    using toy_setup(2) [of first_password toy_values] by (simp add: toy_filled_def)
  show "is_configured toy_filled"
    using toy_setup(3) [of first_password toy_values]
    by (simp add: toy_filled_def is_configured_def has_secrets_file_def al_has_def)
qed

lemma toy_holds: "\<exists>v. apply_secret_updates tenv n [SetProxyPassword ''pw''] toy_filled = (Inr (), v)"
proof -
  have "put_entries [(proxy_password_key, ''pw'')] \<noteq> None" by (simp add: put_part_def proxy_password_key_def)
  then obtain plain where "put_entries [(proxy_password_key, ''pw'')] = Some plain" by blast
  from toy_commit [OF this toy_random_simps(1)] obtain fs where
    "commit tenv n [(proxy_password_key, ''pw'')] (rn_key toy_random) (va_files toy_filled) = (Inr (), fs)" by blast
  then show ?thesis by (simp add: apply_secret_updates_def toy_filled_state)
qed

lemma toy_first: "get_proxy_password toy_filled = Inr None"
  by (simp add: get_proxy_password_def get_key_def toy_filled_state)

theorem vault_save_is_all_or_nothing_witness:
  "\<exists>settings st' v'. set_settings_with_vault unary_codec calm toy_numerics toy_protector tenv [] [] toy_patch blank_store toy_filled
       = (Inr settings, st', v')
     \<and> get_proxy_password v' = Inr (Some ''pw'') \<and> proxy_password_in_vault settings"
proof -
  obtain v' where v': "apply_secret_updates tenv [] [SetProxyPassword ''pw''] toy_filled = (Inr (), v')" using toy_holds by blast
  obtain settings where p: "place_password toy_protector (InVault True) (map_of (plain_patch toy_patch) ''proxyPassword'')
      (flag_of (plain_patch toy_patch) ''removeProxyPassword'') toy_settings = Inr settings"
    by (simp add: place_password_def)
  have again: "plain_patch (plain_patch toy_patch) = plain_patch toy_patch" by (simp add: plain_patch_def toy_patch_def al_del_def)
  obtain st' where w: "write_settings unary_codec calm toy_numerics toy_protector (InVault True) (plain_patch toy_patch) blank_store
      = (Inr settings, st')"
    by (rule toy_written [OF toy_valid(3) again p])
  have in_patch: "get_str toy_patch ''proxyPassword'' = Some ''pw''" "\<not> flag_of toy_patch ''removeProxyPassword''"
    by (simp_all add: toy_patch_def get_str_def flag_of_def get_bool_def)
  have run: "set_settings_with_vault unary_codec calm toy_numerics toy_protector tenv [] [] toy_patch blank_store toy_filled
      = (Inr settings, st', v')"
    using v' w by (simp add: set_settings_with_vault_def set_settings_with_vault_inner_def toy_valid toy_get check_merged_def toy_merge
      toy_apart toy_filled_state is_unlocked_def commit_then_save_def toy_first in_patch nonempty_def)
  show ?thesis using vault_save_is_all_or_nothing [OF run toy_filled_state(2) in_patch(1) _ in_patch(2)] run by simp
qed

theorem migration_keeps_the_password_witness:
  "\<exists>st v'. get_proxy_password v' = Inr (Some ''pw'')
     \<and> (\<exists>st'. migrate_proxy_password_to_vault unary_codec calm toy_protector tenv [] [] st toy_filled = (Inr (), st', v'))"
proof -
  let ?m = "[(''proxyPasswordPlain'', JString ''pw'')]"
  let ?bytes = "cd_render unary_codec (encode_versioned_store settings_file (JObject ?m))"
  let ?st = "\<lparr>st_folder = [(settings_file, 9, ?bytes)], st_issues = []\<rparr>"
  have bytes: "decode_bytes unary_codec settings_file ?bytes = Inr (JObject ?m)"
    using toy_codec_ok by (simp add: decode_bytes_def decode_encode [OF settings_versioned])
  have raw: "read_file calm (st_folder ?st) settings_file = Contents ?bytes" by (simp add: read_file_def)
  have g: "read_settings_file unary_codec calm ?st = (?m, ?st)"
    using raw bytes by (simp add: read_settings_file_def read_json_def decode_as_def)
  have pw: "decrypt_secret toy_protector ?m ''proxyPasswordEnc'' ''proxyPasswordPlain'' = ''pw''"
    by (simp add: decrypt_secret_def get_str_def)
  obtain v1 where v1: "apply_secret_updates tenv [] [SetProxyPassword ''pw''] toy_filled = (Inr (), v1)" using toy_holds by blast
  obtain st' where st': "save_settings_map unary_codec calm (al_put ''hasProxyPassword'' (JBool True) (drop_saved ?m)) ?st = (Inr (), st')"
    using raw bytes by (simp add: save_settings_map_def write_json_def write_json_unnamed_def ensure_writable_def Let_def)
  have "has_saved_secret ?m ''proxyPasswordEnc'' ''proxyPasswordPlain''" by (simp add: has_saved_secret_def get_str_def)
  then have run: "migrate_proxy_password_to_vault unary_codec calm toy_protector tenv [] [] ?st toy_filled = (Inr (), st', v1)"
    by (simp add: migrate_proxy_password_to_vault_def g pw commit_then_save_def toy_first v1 st')
  have "get_proxy_password v1 = Inr (Some ''pw'') \<and> Inr () = (Inr () :: settings_error + unit)
    \<or> map_of (st_folder st') settings_file = map_of (st_folder ?st) settings_file
      \<and> (Inr () \<noteq> (Inl VaultNotRestored :: settings_error + unit) \<longrightarrow> get_proxy_password v1 = get_proxy_password toy_filled)"
    by (rule migration_keeps_the_password [OF run]) (simp_all add: g pw)
  then have "get_proxy_password v1 = Inr (Some ''pw'')"
    using proxy_password_set(1) [OF v1 refl] by blast
  then show ?thesis using run by blast
qed

end
