(* ===== verification/Progress.thy ===== *)
theory Progress
  imports Ipc
begin

text \<open>
  What the transfer rows are told (\<open>transfer/progress.rs\<close>): messages are batched per row for a
  tenth of a second, terminal ones are sent at once with the numbers still waiting, and the
  file of a folder walk reports on its parent's row. \<open>pr_timers\<close> lists the spawned flush
  timers by row, \<open>pr_waits\<close> the second timers with the instant they wait for. A status is its
  string and time a number.
\<close>

section \<open>Payloads\<close>

record folder_file =
  ff_number :: nat
  ff_count :: nat
  ff_path :: string

record payload =
  pl_id :: string
  pl_connection :: string
  pl_status :: string
  pl_bytes :: "nat option"
  pl_total :: "nat option"
  pl_error :: "string option"
  pl_error_code :: "string option"
  pl_landed :: "nat option"
  pl_file :: "folder_file option"

definition status_payload :: "string \<Rightarrow> string \<Rightarrow> string \<Rightarrow> payload" where
  "status_payload i c s = \<lparr>pl_id = i, pl_connection = c, pl_status = s, pl_bytes = None, pl_total = None,
     pl_error = None, pl_error_code = None, pl_landed = None, pl_file = None\<rparr>"

record aggregate =
  ag_parent :: string
  ag_connection :: string
  ag_base :: nat
  ag_total :: nat
  ag_landed :: nat
  ag_file :: folder_file

record emitter =
  pr_pending :: "(string \<times> payload) list"
  pr_queued_after :: "(string \<times> nat) list"
  pr_aggregates :: "(string \<times> aggregate) list"
  pr_timers :: "string list"
  pr_waits :: "(string \<times> string \<times> nat) list"
  pr_emitted :: "payload list"

definition emitter_new :: emitter where
  "emitter_new = \<lparr>pr_pending = [], pr_queued_after = [], pr_aggregates = [], pr_timers = [],
     pr_waits = [], pr_emitted = []\<rparr>"

definition queued :: string where "queued = ''queued''"
definition working :: string where "working = ''progress''"

section \<open>Operations\<close>

definition track :: "string \<Rightarrow> aggregate \<Rightarrow> emitter \<Rightarrow> emitter" where
  "track child a em = em\<lparr>pr_aggregates := al_put child a (pr_aggregates em)\<rparr>"

definition untrack :: "string \<Rightarrow> emitter \<Rightarrow> emitter" where
  "untrack child em = em\<lparr>pr_aggregates := al_del child (pr_aggregates em)\<rparr>"

definition rolled_up :: "emitter \<Rightarrow> payload \<Rightarrow> payload option" where
  "rolled_up em p =
     (if pl_status p \<noteq> working then None
      else (case map_of (pr_aggregates em) (pl_id p) of
              None \<Rightarrow> None
            | Some a \<Rightarrow> Some ((status_payload (ag_parent a) (ag_connection a) working)
                \<lparr>pl_bytes := map_option (sat_add u64_max (ag_base a)) (pl_bytes p),
                 pl_total := Some (ag_total a), pl_landed := Some (ag_landed a),
                 pl_file := Some (ag_file a)\<rparr>)))"

text \<open>The numbers a message does not carry are those of the one before.\<close>

definition carry :: "payload \<Rightarrow> payload \<Rightarrow> payload" where
  "carry prev p = p\<lparr>pl_bytes := or_opt (pl_bytes p) (pl_bytes prev), pl_total := or_opt (pl_total p) (pl_total prev),
     pl_landed := or_opt (pl_landed p) (pl_landed prev), pl_file := or_opt (pl_file p) (pl_file prev)\<rparr>"

definition enqueue :: "nat \<Rightarrow> payload \<Rightarrow> emitter \<Rightarrow> emitter" where
  "enqueue now p em =
     (if pl_status p \<noteq> queued \<and> pl_status p \<noteq> working
      then em\<lparr>pr_queued_after := al_del (pl_id p) (pr_queued_after em),
              pr_pending := al_del (pl_id p) (pr_pending em),
              pr_emitted := pr_emitted em @
                [case map_of (pr_pending em) (pl_id p) of None \<Rightarrow> p | Some prev \<Rightarrow> carry prev p]\<rparr>
      else (let em = (if pl_status p = working
                      then em\<lparr>pr_queued_after := al_del (pl_id p) (pr_queued_after em)\<rparr> else em)
            in case map_of (pr_pending em) (pl_id p) of
                 Some latest \<Rightarrow>
                   (if pl_status latest = working \<and> pl_status p = queued
                    then em\<lparr>pr_queued_after := al_put (pl_id p) now (pr_queued_after em),
                            pr_pending := al_put (pl_id p) ((carry latest p)\<lparr>pl_status := working\<rparr>) (pr_pending em)\<rparr>
                    else em\<lparr>pr_pending := al_put (pl_id p) (carry latest p) (pr_pending em)\<rparr>)
               | None \<Rightarrow> em\<lparr>pr_pending := al_put (pl_id p) p (pr_pending em),
                            pr_timers := pl_id p # pr_timers em\<rparr>))"

definition send :: "nat \<Rightarrow> payload \<Rightarrow> emitter \<Rightarrow> emitter" where
  "send now p em =
     (case rolled_up em p of
        None \<Rightarrow> enqueue now p em
      | Some up \<Rightarrow> enqueue now up (enqueue now p em))"

text \<open>The first timer of a row fires.\<close>

definition flush_row :: "string \<Rightarrow> emitter \<Rightarrow> emitter" where
  "flush_row i em0 =
     (let em = em0\<lparr>pr_timers := remove1 i (pr_timers em0)\<rparr>
      in case map_of (pr_pending em) i of
           None \<Rightarrow> em
         | Some latest \<Rightarrow>
             (let sent = em\<lparr>pr_pending := al_del i (pr_pending em), pr_emitted := pr_emitted em @ [latest]\<rparr>
              in case map_of (pr_queued_after em) i of
                   None \<Rightarrow> sent
                 | Some since \<Rightarrow> sent\<lparr>pr_waits := (i, pl_connection latest, since) # pr_waits em\<rparr>))"

text \<open>The second timer: the row reads queued only if it is still the same wait.\<close>

definition wait_over :: "nat \<Rightarrow> string \<times> string \<times> nat \<Rightarrow> emitter \<Rightarrow> emitter" where
  "wait_over now w em0 =
     (case w of (i, c, since) \<Rightarrow>
        (let em = em0\<lparr>pr_waits := remove1 w (pr_waits em0)\<rparr>
         in if map_of (pr_queued_after em) i = Some since
            then enqueue now (status_payload i c queued) (em\<lparr>pr_queued_after := al_del i (pr_queued_after em)\<rparr>)
            else em))"

datatype progress_event =
    Send nat payload
  | Flush string
  | WaitOver nat "string \<times> string \<times> nat"
  | Track string aggregate
  | Untrack string

fun progress_step :: "progress_event \<Rightarrow> emitter \<Rightarrow> emitter" where
  "progress_step (Send now p) em = send now p em"
| "progress_step (Flush i) em = flush_row i em"
| "progress_step (WaitOver now w) em = wait_over now w em"
| "progress_step (Track c a) em = track c a em"
| "progress_step (Untrack c) em = untrack c em"

section \<open>Lemmas\<close>

lemma queued_not_working [simp]: "queued \<noteq> working" "working \<noteq> queued"
  by (simp_all add: queued_def working_def)

lemma carry_frame [simp]:
  "pl_id (carry q p) = pl_id p" "pl_status (carry q p) = pl_status p" "pl_connection (carry q p) = pl_connection p"
  by (simp_all add: carry_def)

text \<open>Every waiting message is of a row at work or queued, under its own id, and has a timer.\<close>

definition emitter_ok :: "emitter \<Rightarrow> bool" where
  "emitter_ok em \<longleftrightarrow> (\<forall>i p. map_of (pr_pending em) i = Some p \<longrightarrow>
     pl_id p = i \<and> (pl_status p = queued \<or> pl_status p = working) \<and> i \<in> set (pr_timers em))"

lemma emitter_new_ok: "emitter_ok emitter_new"
  by (simp add: emitter_ok_def emitter_new_def)

lemma enqueue_ok: "emitter_ok em \<Longrightarrow> emitter_ok (enqueue now p em)"
  by (auto simp: emitter_ok_def enqueue_def Let_def split: option.split)

lemma flush_row_ok: "emitter_ok em \<Longrightarrow> emitter_ok (flush_row i em)"
  unfolding emitter_ok_def
proof (intro allI impI)
  fix j p
  assume ok: "\<forall>i p. map_of (pr_pending em) i = Some p \<longrightarrow>
     pl_id p = i \<and> (pl_status p = queued \<or> pl_status p = working) \<and> i \<in> set (pr_timers em)"
    and p: "map_of (pr_pending (flush_row i em)) j = Some p"
  have "j \<noteq> i \<and> map_of (pr_pending em) j = Some p"
    using p by (auto simp: flush_row_def Let_def split: option.splits if_splits)
  then show "pl_id p = j \<and> (pl_status p = queued \<or> pl_status p = working) \<and> j \<in> set (pr_timers (flush_row i em))"
    using ok by (auto simp: flush_row_def Let_def split: option.split)
qed

lemma progress_step_ok: "emitter_ok em \<Longrightarrow> emitter_ok (progress_step e em)"
proof (cases e)
  case (WaitOver now w)
  have frame: "emitter_ok (em\<lparr>pr_waits := ws, pr_queued_after := qs\<rparr>)"
      "emitter_ok (em\<lparr>pr_waits := ws\<rparr>)" if "emitter_ok em" for ws qs
    using that by (simp_all add: emitter_ok_def)
  assume "emitter_ok em"
  then show ?thesis
    using WaitOver frame enqueue_ok by (auto simp: wait_over_def Let_def split: prod.split)
next
  case (Send now p)
  assume "emitter_ok em"
  then show ?thesis using Send by (simp add: send_def enqueue_ok split: option.split)
qed (simp_all add: flush_row_ok, simp_all add: track_def untrack_def emitter_ok_def)

lemma progress_run_ok: "emitter_ok (fold progress_step es emitter_new)"
proof -
  have "emitter_ok (fold progress_step es em)" if "emitter_ok em" for em
    using that by (induction es arbitrary: em) (simp_all add: progress_step_ok)
  then show ?thesis using emitter_new_ok .
qed

text \<open>A batch of messages of one row folds into one.\<close>

definition last_some :: "('a \<Rightarrow> 'b option) \<Rightarrow> 'a list \<Rightarrow> 'b option" where
  "last_some f xs = find_map f (rev xs)"

lemma find_map_append: "find_map f (xs @ ys) = or_opt (find_map f xs) (find_map f ys)"
  by (induction xs) (auto split: option.split)

lemma last_some_snoc: "last_some f (xs @ [x]) = or_opt (f x) (last_some f xs)"
  by (simp add: last_some_def or_opt_def split: option.split)

definition batch_shows :: "string \<Rightarrow> payload list \<Rightarrow> payload \<Rightarrow> bool" where
  "batch_shows i ps latest \<longleftrightarrow> pl_id latest = i
     \<and> pl_bytes latest = last_some pl_bytes ps \<and> pl_total latest = last_some pl_total ps
     \<and> pl_landed latest = last_some pl_landed ps \<and> pl_file latest = last_some pl_file ps
     \<and> pl_status latest = (if \<exists>p \<in> set ps. pl_status p = working then working else queued)"

definition notice_of :: "string \<Rightarrow> payload \<Rightarrow> bool" where
  "notice_of i p \<longleftrightarrow> pl_id p = i \<and> (pl_status p = queued \<or> pl_status p = working)"

lemma enqueue_notice:
  assumes "notice_of i p" and "map_of (pr_pending em) i = Some latest"
    and "pl_status latest = queued \<or> pl_status latest = working"
  shows "map_of (pr_pending (enqueue now p em)) i = Some ((carry latest p)
       \<lparr>pl_status := if pl_status latest = working \<or> pl_status p = working then working else queued\<rparr>)
     \<and> pr_emitted (enqueue now p em) = pr_emitted em \<and> pr_timers (enqueue now p em) = pr_timers em"
proof (cases "pl_status p = working")
  case True
  then have "(carry latest p)\<lparr>pl_status := working\<rparr> = carry latest p" by (simp add: carry_def)
  then show ?thesis using assms True by (auto simp: notice_of_def enqueue_def Let_def)
next
  case False
  then have "pl_status p = queued" using assms(1) by (simp add: notice_of_def)
  moreover from this have "(carry latest p)\<lparr>pl_status := queued\<rparr> = carry latest p" by (simp add: carry_def)
  ultimately show ?thesis using assms by (auto simp: notice_of_def enqueue_def Let_def)
qed

lemma batch_pending:
  assumes "ps \<noteq> []" and "\<forall>(t, p) \<in> set ps. notice_of i p" and "map_of (pr_pending em) i = None"
  shows "\<exists>latest. map_of (pr_pending (fold (\<lambda>(t, p). enqueue t p) ps em)) i = Some latest
     \<and> batch_shows i (map snd ps) latest
     \<and> pr_emitted (fold (\<lambda>(t, p). enqueue t p) ps em) = pr_emitted em
     \<and> i \<in> set (pr_timers (fold (\<lambda>(t, p). enqueue t p) ps em))"
  using assms
proof (induction ps rule: rev_induct)
  case Nil
  then show ?case by simp
next
  case (snoc x ps)
  obtain t p where x: "x = (t, p)" by fastforce
  have p: "pl_id p = i" "pl_status p = queued \<or> pl_status p = working"
    using snoc.prems(2) x by (auto simp: notice_of_def)
  show ?case
  proof (cases "ps = []")
    case True
    then show ?thesis
      using p snoc.prems(3) x
      by (auto simp: enqueue_def Let_def batch_shows_def last_some_def split: option.split)
  next
    case False
    let ?em = "fold (\<lambda>(t, p). enqueue t p) ps em"
    obtain latest where l: "map_of (pr_pending ?em) i = Some latest" "batch_shows i (map snd ps) latest"
        "pr_emitted ?em = pr_emitted em" "i \<in> set (pr_timers ?em)"
      using snoc False by auto
    have "notice_of i p" using p by (simp add: notice_of_def)
    moreover have "pl_status latest = queued \<or> pl_status latest = working"
      using l(2) by (simp add: batch_shows_def)
    ultimately have "map_of (pr_pending (enqueue t p ?em)) i = Some ((carry latest p)
         \<lparr>pl_status := if pl_status latest = working \<or> pl_status p = working then working else queued\<rparr>)
       \<and> pr_emitted (enqueue t p ?em) = pr_emitted ?em \<and> pr_timers (enqueue t p ?em) = pr_timers ?em"
      by (intro enqueue_notice l(1))
    moreover have "batch_shows i (map snd ps @ [p]) ((carry latest p)
         \<lparr>pl_status := if pl_status latest = working \<or> pl_status p = working then working else queued\<rparr>)"
      using l(2) p(1) by (auto simp: batch_shows_def last_some_snoc carry_def)
    ultimately show ?thesis using l x by simp
  qed
qed

section \<open>Properties\<close>

text \<open>No message waits for nothing: whatever was sent, flushed, waited for or tracked, every
  row with a message still to be shown has a flush timer running.\<close>

theorem pending_rows_have_timers:
  "fst ` set (pr_pending (fold progress_step es emitter_new))
     \<subseteq> set (pr_timers (fold progress_step es emitter_new))"
proof -
  note ok = progress_run_ok [of es]
  have "i \<in> set (pr_timers (fold progress_step es emitter_new))"
    if "i \<in> fst ` set (pr_pending (fold progress_step es emitter_new))" for i
  proof -
    have "map_of (pr_pending (fold progress_step es emitter_new)) i \<noteq> None"
      using that by (simp only: map_of_eq_None_iff not_not)
    then obtain p where "map_of (pr_pending (fold progress_step es emitter_new)) i = Some p" by blast
    then show ?thesis using ok unfolding emitter_ok_def by blast
  qed
  then show ?thesis by blast
qed

text \<open>One message per row and window, with the latest of each number: a batch of queued and
  progress notices of a row, flushed, is one message whose bytes, total, landed count and
  file are each the last that any notice carried, and which reads as work if any did.\<close>

theorem flush_shows_latest:
  assumes "ps \<noteq> []" and "\<forall>(t, p) \<in> set ps. notice_of i p" and "map_of (pr_pending em) i = None"
  shows "\<exists>message. pr_emitted (flush_row i (fold (\<lambda>(t, p). enqueue t p) ps em)) = pr_emitted em @ [message]
     \<and> batch_shows i (map snd ps) message
     \<and> map_of (pr_pending (flush_row i (fold (\<lambda>(t, p). enqueue t p) ps em))) i = None"
proof -
  obtain latest where "map_of (pr_pending (fold (\<lambda>(t, p). enqueue t p) ps em)) i = Some latest"
      "batch_shows i (map snd ps) latest" "pr_emitted (fold (\<lambda>(t, p). enqueue t p) ps em) = pr_emitted em"
    using batch_pending [OF assms] by blast
  then show ?thesis by (simp add: flush_row_def Let_def split: option.split)
qed

theorem flush_shows_latest_witness:
  "\<exists>message. pr_emitted (flush_row ''r'' (enqueue 2 (status_payload ''r'' ''c'' queued)
       (enqueue 1 ((status_payload ''r'' ''c'' working)\<lparr>pl_bytes := Some 7\<rparr>) emitter_new))) = [message]
     \<and> pl_bytes message = Some 7 \<and> pl_status message = working"
proof -
  let ?ps = "[(1, (status_payload ''r'' ''c'' working)\<lparr>pl_bytes := Some 7\<rparr>), (2, status_payload ''r'' ''c'' queued)]"
  have "?ps \<noteq> []" "\<forall>(t, p) \<in> set ?ps. notice_of ''r'' p" "map_of (pr_pending emitter_new) ''r'' = None"
    by (simp_all add: notice_of_def status_payload_def emitter_new_def)
  from flush_shows_latest [OF this] show ?thesis
    by (auto simp: batch_shows_def last_some_def status_payload_def emitter_new_def)
qed

text \<open>An ending has the last word: it is sent at once, with the numbers that still waited; its
  row is left with nothing to flush, and no timer of either kind still running for it sends
  anything or puts it back to queued.\<close>

theorem ending_has_last_word:
  assumes "pl_status p \<noteq> queued" and "pl_status p \<noteq> working"
  shows "pr_emitted (enqueue now p em) = pr_emitted em @
       [case map_of (pr_pending em) (pl_id p) of None \<Rightarrow> p | Some prev \<Rightarrow> carry prev p]
     \<and> pr_emitted (flush_row (pl_id p) (enqueue now p em)) = pr_emitted (enqueue now p em)
     \<and> map_of (pr_pending (flush_row (pl_id p) (enqueue now p em))) (pl_id p) = None
     \<and> map_of (pr_pending (wait_over later (pl_id p, c, since) (enqueue now p em))) (pl_id p) = None"
  using assms by (simp add: enqueue_def flush_row_def wait_over_def Let_def)

theorem ending_has_last_word_witness:
  "pr_emitted (enqueue 3 (status_payload ''r'' ''c'' ''done'')
      (enqueue 1 ((status_payload ''r'' ''c'' working)\<lparr>pl_bytes := Some 7\<rparr>) emitter_new))
    = [(status_payload ''r'' ''c'' ''done'')\<lparr>pl_bytes := Some 7\<rparr>]"
  using ending_has_last_word [of "status_payload ''r'' ''c'' ''done''" 3
      "enqueue 1 ((status_payload ''r'' ''c'' working)\<lparr>pl_bytes := Some 7\<rparr>) emitter_new"]
  by (simp add: status_payload_def queued_def working_def enqueue_def emitter_new_def carry_def al_put_def Let_def)

text \<open>A file of a folder walk moves its parent's row and never sets it back: its count lands on
  top of what the parent had finished, within 64 bits, and its notice of having started,
  which carries no count, leaves the parent's waiting count as it is.\<close>

theorem child_reports_on_parent:
  assumes "pl_status p = working" and "map_of (pr_aggregates em) (pl_id p) = Some a"
    and "ag_parent a \<noteq> pl_id p" and "emitter_ok em"
  shows "\<exists>row. map_of (pr_pending (send now p em)) (ag_parent a) = Some row \<and> pl_status row = working
     \<and> pl_total row = Some (ag_total a) \<and> pl_landed row = Some (ag_landed a) \<and> pl_file row = Some (ag_file a)
     \<and> pl_bytes row = (case pl_bytes p of
           Some n \<Rightarrow> Some (min u64_max (ag_base a + n))
         | None \<Rightarrow> (case map_of (pr_pending em) (ag_parent a) of None \<Rightarrow> None | Some prev \<Rightarrow> pl_bytes prev))"
proof -
  let ?up = "(status_payload (ag_parent a) (ag_connection a) working)
     \<lparr>pl_bytes := map_option (sat_add u64_max (ag_base a)) (pl_bytes p),
      pl_total := Some (ag_total a), pl_landed := Some (ag_landed a), pl_file := Some (ag_file a)\<rparr>"
  let ?em = "enqueue now p em"
  have send: "send now p em = enqueue now ?up ?em"
    using assms(1,2) by (simp add: send_def rolled_up_def)
  have other: "map_of (pr_pending ?em) (ag_parent a) = map_of (pr_pending em) (ag_parent a)"
    using assms(1,3) by (simp add: enqueue_def Let_def split: option.split)
  have up: "pl_id ?up = ag_parent a" "pl_status ?up = working" by (simp_all add: status_payload_def)
  show ?thesis
  proof (cases "map_of (pr_pending em) (ag_parent a)")
    case None
    then show ?thesis
      using other up by (auto simp: send enqueue_def Let_def sat_add_def status_payload_def split: option.split)
  next
    case (Some prev)
    have "pl_status prev = queued \<or> pl_status prev = working"
      using assms(4) Some by (simp add: emitter_ok_def)
    moreover have "notice_of (ag_parent a) ?up" using up by (simp add: notice_of_def)
    ultimately show ?thesis
      using enqueue_notice [of "ag_parent a" ?up ?em prev now] Some other up
      by (auto simp: send carry_def sat_add_def status_payload_def split: option.split)
  qed
qed

theorem child_reports_on_parent_witness:
  "\<exists>row. map_of (pr_pending (send 1 ((status_payload ''w:file'' ''c'' working)\<lparr>pl_bytes := Some 5\<rparr>)
       (track ''w:file'' \<lparr>ag_parent = ''w'', ag_connection = ''c'', ag_base = 100, ag_total = 900,
          ag_landed = 2, ag_file = \<lparr>ff_number = 3, ff_count = 9, ff_path = ''x''\<rparr>\<rparr> emitter_new))) ''w'' = Some row
     \<and> pl_bytes row = Some 105"
proof -
  let ?a = "\<lparr>ag_parent = ''w'', ag_connection = ''c'', ag_base = 100, ag_total = 900,
      ag_landed = 2, ag_file = \<lparr>ff_number = 3, ff_count = 9, ff_path = ''x''\<rparr>\<rparr>"
  let ?p = "(status_payload ''w:file'' ''c'' working)\<lparr>pl_bytes := Some 5\<rparr>"
  let ?em = "track ''w:file'' ?a emitter_new"
  have "pl_status ?p = working" "map_of (pr_aggregates ?em) (pl_id ?p) = Some ?a" "ag_parent ?a \<noteq> pl_id ?p"
      "emitter_ok ?em"
    by (simp_all add: status_payload_def track_def emitter_new_def emitter_ok_def)
  from child_reports_on_parent [OF this, of 1] show ?thesis by (auto simp: status_payload_def)
qed

end
