(* ===== verification/VaultGuards.thy ===== *)
theory VaultGuards
  imports Ipc
begin

text \<open>
  Three guards around the vault and the machine: the rate limit on authentication attempts
  (\<open>security/vault_guard.rs\<close>), when an unlocked vault locks itself
  (\<open>security/auto_lock.rs\<close>), and the idle-sleep inhibitor held while transfers run
  (\<open>runtime/sleep_guard.rs\<close>). Instants and durations are milliseconds; an \<open>Instant\<close> never
  goes back. The semaphore of one is \<open>vg_busy\<close>.
\<close>

section \<open>The rate limit\<close>

datatype attempt_outcome = Accepted | Rejected | Inconclusive

text \<open>\<open>vault::is_refused\<close> of the error is the argument \<open>refused\<close>.\<close>

definition outcome_of :: "('e \<Rightarrow> bool) \<Rightarrow> 'e + unit \<Rightarrow> attempt_outcome" where
  "outcome_of refused r = (case r of Inr _ \<Rightarrow> Accepted | Inl e \<Rightarrow> if refused e then Rejected else Inconclusive)"

record vault_guard =
  vg_failures :: "nat list"
  vg_consecutive :: nat
  vg_retry_at :: "nat option"
  vg_busy :: bool
  vg_window :: nat
  vg_max_attempts :: nat
  vg_base_backoff :: nat
  vg_max_backoff :: nat

definition vault_guard_new :: "nat \<Rightarrow> nat \<Rightarrow> nat \<Rightarrow> nat \<Rightarrow> vault_guard" where
  "vault_guard_new window attempts base cap =
     \<lparr>vg_failures = [], vg_consecutive = 0, vg_retry_at = None, vg_busy = False, vg_window = window,
      vg_max_attempts = attempts, vg_base_backoff = base, vg_max_backoff = cap\<rparr>"

definition vault_guard_default :: vault_guard where
  "vault_guard_default = vault_guard_new (5 * 60 * 1000) 8 500 (30 * 1000)"

definition prune_failures :: "nat \<Rightarrow> vault_guard \<Rightarrow> vault_guard" where
  "prune_failures now g =
     (let kept = dropWhile (\<lambda>f. vg_window g \<le> now - f) (vg_failures g)
      in if vg_failures g \<noteq> [] \<and> kept = []
         then g\<lparr>vg_failures := [], vg_consecutive := 0, vg_retry_at := None\<rparr>
         else g\<lparr>vg_failures := kept\<rparr>)"

definition vault_unavailable :: string where
  "vault_unavailable = ''Vault authentication failed or temporarily unavailable''"

text \<open>\<open>acquire\<close>, once the slot is free; \<open>None\<close> while another attempt holds it.\<close>

definition vault_acquire :: "nat \<Rightarrow> vault_guard \<Rightarrow> ((string + unit) \<times> vault_guard) option" where
  "vault_acquire now g0 =
     (if vg_busy g0 then None
      else (let g = prune_failures now g0
            in if (case vg_retry_at g of None \<Rightarrow> False | Some t \<Rightarrow> now < t)
                  \<or> vg_max_attempts g \<le> length (vg_failures g)
               then Some (Inl vault_unavailable, g)
               else Some (Inr (), g\<lparr>vg_busy := True\<rparr>)))"

definition backoff :: "vault_guard \<Rightarrow> nat \<Rightarrow> nat" where
  "backoff g consecutive = min (vg_base_backoff g * 2 ^ min (consecutive - 1) 16) (vg_max_backoff g)"

definition vault_failed :: "nat \<Rightarrow> vault_guard \<Rightarrow> vault_guard" where
  "vault_failed now g =
     (let failures = vg_failures g @ [now];
          consecutive = sat_add u32_max (vg_consecutive g) 1
      in g\<lparr>vg_failures := drop (length failures - vg_max_attempts g) failures,
           vg_consecutive := consecutive, vg_retry_at := Some (now + backoff g consecutive)\<rparr>)"

definition vault_succeeded :: "vault_guard \<Rightarrow> vault_guard" where
  "vault_succeeded g = g\<lparr>vg_failures := [], vg_consecutive := 0, vg_retry_at := None\<rparr>"

definition vault_record :: "nat \<Rightarrow> attempt_outcome \<Rightarrow> vault_guard \<Rightarrow> vault_guard" where
  "vault_record now outcome g =
     (case outcome of Rejected \<Rightarrow> vault_failed now g | Accepted \<Rightarrow> vault_succeeded g | Inconclusive \<Rightarrow> g)"

text \<open>\<open>VaultPermit::finish\<close>: the outcome first, then the slot. A permit dropped without it
  frees the slot only.\<close>

definition permit_finish :: "nat \<Rightarrow> attempt_outcome \<Rightarrow> vault_guard \<Rightarrow> vault_guard" where
  "permit_finish now outcome g = (vault_record now outcome g)\<lparr>vg_busy := False\<rparr>"

section \<open>Locking an unlocked vault\<close>

datatype lock_reason = Idle | SessionLocked | WindowHidden | UserLocked

record presence =
  pr_session_locked :: bool
  pr_window_hidden :: bool

definition reason_to_lock :: "nat \<Rightarrow> nat option \<Rightarrow> presence \<Rightarrow> lock_reason option" where
  "reason_to_lock idle_for idle_timeout p =
     (if pr_session_locked p then Some SessionLocked
      else if pr_window_hidden p then Some WindowHidden
      else (case idle_timeout of
              Some timeout \<Rightarrow> if timeout \<le> idle_for then Some Idle else None
            | None \<Rightarrow> None))"

record auto_lock =
  al_idle_minutes :: nat
  al_last_activity :: nat

definition set_idle_minutes :: "nat \<Rightarrow> auto_lock \<Rightarrow> auto_lock" where
  "set_idle_minutes m l = l\<lparr>al_idle_minutes := m\<rparr>"

definition idle_timeout :: "auto_lock \<Rightarrow> nat option" where
  "idle_timeout l = (if al_idle_minutes l = 0 then None
     else Some (1000 * sat_mul u64_max (al_idle_minutes l) 60))"

definition note_activity_at :: "nat \<Rightarrow> auto_lock \<Rightarrow> auto_lock" where
  "note_activity_at t l = l\<lparr>al_last_activity := t\<rparr>"

definition idle_since :: "nat \<Rightarrow> auto_lock \<Rightarrow> nat" where
  "idle_since now l = now - al_last_activity l"

section \<open>Keeping the machine awake\<close>

text \<open>\<open>sg_signal\<close> is the one message of the channel, \<open>sg_woken\<close> the worker between receiving
  it and reading \<open>required\<close>.\<close>

record sleep_guard =
  sg_active :: nat
  sg_enabled :: bool
  sg_required :: bool
  sg_signal :: bool
  sg_woken :: bool
  sg_inhibitor :: bool

definition sleep_guard_new :: sleep_guard where
  "sleep_guard_new = \<lparr>sg_active = 0, sg_enabled = True, sg_required = False, sg_signal = False,
     sg_woken = False, sg_inhibitor = False\<rparr>"

definition sleep_request :: "bool \<Rightarrow> sleep_guard \<Rightarrow> sleep_guard" where
  "sleep_request required g = g\<lparr>sg_required := required, sg_signal := True\<rparr>"

definition transfer_started :: "sleep_guard \<Rightarrow> sleep_guard" where
  "transfer_started g0 =
     (let g = g0\<lparr>sg_active := Suc (sg_active g0)\<rparr>
      in if sg_enabled g \<and> sg_active g = 1 then sleep_request True g else g)"

definition transfer_finished :: "sleep_guard \<Rightarrow> sleep_guard" where
  "transfer_finished g0 =
     (if sg_active g0 = 0 then g0
      else (let g = g0\<lparr>sg_active := sg_active g0 - 1\<rparr>
            in if sg_enabled g \<and> sg_active g = 0 then sleep_request False g else g))"

definition set_enabled :: "bool \<Rightarrow> sleep_guard \<Rightarrow> sleep_guard" where
  "set_enabled enabled g0 =
     (if sg_enabled g0 = enabled then g0
      else (let g = g0\<lparr>sg_enabled := enabled\<rparr>
            in if 0 < sg_active g then sleep_request enabled g else g))"

definition worker_receive :: "sleep_guard \<Rightarrow> sleep_guard" where
  "worker_receive g = (if sg_signal g \<and> \<not> sg_woken g then g\<lparr>sg_signal := False, sg_woken := True\<rparr> else g)"

text \<open>\<open>created\<close>: whether the system grants an inhibitor now.\<close>

definition worker_act :: "bool \<Rightarrow> sleep_guard \<Rightarrow> sleep_guard" where
  "worker_act created g =
     (if \<not> sg_woken g then g
      else g\<lparr>sg_woken := False,
             sg_inhibitor := (if sg_required g then sg_inhibitor g \<or> created else False)\<rparr>)"

datatype sleep_event = Started | Finished | SetEnabled bool | Receive | Act bool

fun sleep_step :: "sleep_event \<Rightarrow> sleep_guard \<Rightarrow> sleep_guard" where
  "sleep_step Started g = transfer_started g"
| "sleep_step Finished g = transfer_finished g"
| "sleep_step (SetEnabled b) g = set_enabled b g"
| "sleep_step Receive g = worker_receive g"
| "sleep_step (Act created) g = worker_act created g"

lemma sleep_step_inv:
  assumes "sg_required g = (sg_enabled g \<and> 0 < sg_active g)"
    and "\<not> sg_signal g \<and> \<not> sg_woken g \<longrightarrow> sg_inhibitor g = sg_required g" and "e \<noteq> Act False"
  shows "sg_required (sleep_step e g) = (sg_enabled (sleep_step e g) \<and> 0 < sg_active (sleep_step e g))
     \<and> (\<not> sg_signal (sleep_step e g) \<and> \<not> sg_woken (sleep_step e g)
         \<longrightarrow> sg_inhibitor (sleep_step e g) = sg_required (sleep_step e g))"
  using assms
  by (cases e) (auto simp: transfer_started_def transfer_finished_def set_enabled_def worker_receive_def
      worker_act_def sleep_request_def Let_def)

text \<open>The machine is kept awake exactly while it should be: with the system granting the
  inhibitor, whenever the worker has no wakeup left to read, it holds the inhibitor if and
  only if the setting is on and a transfer is running, however the events interleaved.\<close>

theorem inhibitor_follows_transfers:
  assumes "Act False \<notin> set es"
  shows "let g = fold sleep_step es sleep_guard_new
    in sg_signal g \<or> sg_woken g \<or> sg_inhibitor g = (sg_enabled g \<and> 0 < sg_active g)"
proof -
  have "sg_required (fold sleep_step es g) = (sg_enabled (fold sleep_step es g) \<and> 0 < sg_active (fold sleep_step es g))
     \<and> (\<not> sg_signal (fold sleep_step es g) \<and> \<not> sg_woken (fold sleep_step es g)
         \<longrightarrow> sg_inhibitor (fold sleep_step es g) = sg_required (fold sleep_step es g))"
    if "sg_required g = (sg_enabled g \<and> 0 < sg_active g)"
      "\<not> sg_signal g \<and> \<not> sg_woken g \<longrightarrow> sg_inhibitor g = sg_required g" for g
    using assms that
  proof (induction es arbitrary: g)
    case Nil
    then show ?case by simp
  next
    case (Cons e es)
    note step = sleep_step_inv [OF Cons.prems(2,3), of e]
    show ?case
      unfolding fold.simps comp_def by (rule Cons.IH) (use Cons.prems(1) step in auto)
  qed
  from this [of sleep_guard_new] show ?thesis by (auto simp: sleep_guard_new_def Let_def)
qed

theorem inhibitor_follows_transfers_witness:
  "sg_inhibitor (fold sleep_step [Started, Receive, Started, Finished, Act True] sleep_guard_new)"
proof -
  have "Act False \<notin> set [Started, Receive, Started, Finished, Act True]" by simp
  moreover have "\<not> sg_signal (fold sleep_step [Started, Receive, Started, Finished, Act True] sleep_guard_new)
      \<and> \<not> sg_woken (fold sleep_step [Started, Receive, Started, Finished, Act True] sleep_guard_new)
      \<and> sg_enabled (fold sleep_step [Started, Receive, Started, Finished, Act True] sleep_guard_new)
      \<and> 0 < sg_active (fold sleep_step [Started, Receive, Started, Finished, Act True] sleep_guard_new)"
    by code_simp
  ultimately show ?thesis using inhibitor_follows_transfers unfolding Let_def by blast
qed

text \<open>Leaving the machine locks the vault whatever the idle setting; the setting alone decides
  the rest: nothing with zero minutes, otherwise exactly from the timeout after the user
  was last seen on.\<close>

theorem leaving_always_locks:
  "reason_to_lock (idle_since now (note_activity_at seen (set_idle_minutes m l)))
       (idle_timeout (note_activity_at seen (set_idle_minutes m l))) p =
     (if pr_session_locked p then Some SessionLocked
      else if pr_window_hidden p then Some WindowHidden
      else if m \<noteq> 0 \<and> seen + 1000 * min u64_max (60 * m) \<le> now then Some Idle else None)"
  by (auto simp: reason_to_lock_def idle_since_def note_activity_at_def set_idle_minutes_def idle_timeout_def
      sat_mul_def mult.commute)

section \<open>The rate limit over a run of attempts\<close>

text \<open>Attempts as they pass the one slot: when each asked, when it ended and how. The log is the
  times of the rejections recorded.\<close>

type_synonym attempt = "nat \<times> nat \<times> attempt_outcome"

fun vault_run :: "attempt list \<Rightarrow> vault_guard \<Rightarrow> nat list" where
  "vault_run [] g = []"
| "vault_run ((a, b, outcome) # later) g =
     (case vault_acquire a g of
        Some (Inr _, g') \<Rightarrow>
          (if outcome = Rejected then [b] else []) @ vault_run later (permit_finish b outcome g')
      | Some (Inl _, g') \<Rightarrow> vault_run later g'
      | None \<Rightarrow> vault_run later g)"

fun in_order :: "nat \<Rightarrow> attempt list \<Rightarrow> bool" where
  "in_order t [] = True"
| "in_order t ((a, b, outcome) # later) = (t \<le> a \<and> a \<le> b \<and> in_order b later)"

definition spaced :: "vault_guard \<Rightarrow> nat list \<Rightarrow> bool" where
  "spaced g log \<longleftrightarrow> (\<forall>i. i + vg_max_attempts g < length log
     \<longrightarrow> log ! i + vg_window g \<le> log ! (i + vg_max_attempts g))"

text \<open>The failures kept are the end of the log; what left them is a window old.\<close>

definition tracks :: "nat \<Rightarrow> vault_guard \<Rightarrow> nat list \<Rightarrow> bool" where
  "tracks t g log \<longleftrightarrow> \<not> vg_busy g \<and> spaced g log \<and> length (vg_failures g) \<le> vg_max_attempts g
     \<and> (\<exists>old. log = old @ vg_failures g \<and> (\<forall>f \<in> set old. f + vg_window g \<le> t))
     \<and> (\<forall>f \<in> set log. f \<le> t)"

lemma prune_fields:
  "vg_window (prune_failures now g) = vg_window g \<and> vg_max_attempts (prune_failures now g) = vg_max_attempts g
   \<and> vg_busy (prune_failures now g) = vg_busy g
   \<and> vg_failures (prune_failures now g) = dropWhile (\<lambda>f. vg_window g \<le> now - f) (vg_failures g)"
  by (cases "dropWhile (\<lambda>f. vg_window g \<le> now - f) (vg_failures g) = []")
     (simp_all add: prune_failures_def Let_def del: dropWhile_eq_Nil_conv)

lemma vault_acquire_cases:
  "\<not> vg_busy g \<Longrightarrow> vault_acquire now g = Some (Inl vault_unavailable, prune_failures now g)
   \<or> (vault_acquire now g = Some (Inr (), (prune_failures now g)\<lparr>vg_busy := True\<rparr>)
      \<and> length (vg_failures (prune_failures now g)) < vg_max_attempts (prune_failures now g))"
  by (simp add: vault_acquire_def Let_def)

lemma tracks_prune:
  assumes "tracks t g log" and "t \<le> now"
  shows "tracks now (prune_failures now g) log"
proof -
  let ?P = "\<lambda>f. vg_window g \<le> now - f"
  obtain old where old: "log = old @ vg_failures g" "\<forall>f \<in> set old. f + vg_window g \<le> t"
    using assms(1) by (auto simp: tracks_def)
  have le: "\<forall>f \<in> set log. f \<le> now" using assms by (fastforce simp: tracks_def)
  have "log = (old @ takeWhile ?P (vg_failures g)) @ dropWhile ?P (vg_failures g)"
    using old(1) by simp
  moreover have "\<forall>f \<in> set (old @ takeWhile ?P (vg_failures g)). f + vg_window g \<le> now"
  proof
    fix f
    assume "f \<in> set (old @ takeWhile ?P (vg_failures g))"
    then consider "f \<in> set old" | "f \<in> set (takeWhile ?P (vg_failures g))" by auto
    then show "f + vg_window g \<le> now"
    proof cases
      case 1
      then show ?thesis using old(2) assms(2) by fastforce
    next
      case 2
      then have "?P f" "f \<le> now" using set_takeWhileD [OF 2] le old(1) by auto
      then show ?thesis by simp
    qed
  qed
  moreover have "length (dropWhile ?P (vg_failures g)) \<le> vg_max_attempts g"
    using assms(1) by (simp add: tracks_def) (meson le_trans length_dropWhile_le)
  ultimately have "\<exists>old'. log = old' @ vg_failures (prune_failures now g)
      \<and> (\<forall>f \<in> set old'. f + vg_window (prune_failures now g) \<le> now)"
      "length (vg_failures (prune_failures now g)) \<le> vg_max_attempts (prune_failures now g)"
    unfolding prune_fields [THEN conjunct1] prune_fields [THEN conjunct2, THEN conjunct1]
      prune_fields [THEN conjunct2, THEN conjunct2, THEN conjunct2] by blast+
  moreover have "\<not> vg_busy (prune_failures now g)" "spaced (prune_failures now g) log"
    using assms(1) prune_fields [of now g] by (simp_all add: tracks_def spaced_def)
  ultimately show ?thesis using le unfolding tracks_def by blast
qed

lemma vault_run_spaced:
  assumes "tracks t g log" and "in_order t as" and "\<forall>(a, b, outcome) \<in> set as. outcome \<noteq> Accepted"
  shows "spaced g (log @ vault_run as g)"
  using assms
proof (induction as arbitrary: t g log)
  case Nil
  then show ?case by (simp add: tracks_def)
next
  case (Cons x as)
  obtain a b out where x: "x = (a, b, out)" by (cases x)
  have ord: "t \<le> a" "a \<le> b" "in_order b as" and out: "out \<noteq> Accepted"
    and later: "\<forall>(a, b, outcome) \<in> set as. outcome \<noteq> Accepted"
    using Cons.prems x by auto
  let ?g = "prune_failures a g"
  have pruned: "tracks a ?g log" by (rule tracks_prune [OF Cons.prems(1) ord(1)])
  have same: "spaced h = spaced g" if "vg_window h = vg_window g" "vg_max_attempts h = vg_max_attempts g" for h
    using that by (simp add: fun_eq_iff spaced_def)
  have wait: "tracks b h log"
    if "vg_failures h = vg_failures ?g" "vg_window h = vg_window g" "vg_max_attempts h = vg_max_attempts g" "\<not> vg_busy h"
    for h
  proof -
    have "\<exists>old. log = old @ vg_failures h \<and> (\<forall>f \<in> set old. f + vg_window h \<le> a)"
      using pruned that(1,2) prune_fields [of a g] unfolding tracks_def by (simp only:)
    then obtain old where "log = old @ vg_failures h" "\<forall>f \<in> set old. f + vg_window h \<le> a" by blast
    moreover from this(2) have "\<forall>f \<in> set old. f + vg_window h \<le> b" using ord(2) by fastforce
    moreover have "\<forall>f \<in> set log. f \<le> b" using pruned ord(2) by (fastforce simp: tracks_def)
    moreover have "spaced h log" "length (vg_failures h) \<le> vg_max_attempts h"
      using pruned that same [of h] same [of ?g] prune_fields [of a g] by (auto simp: tracks_def)
    ultimately show ?thesis using that(4) unfolding tracks_def by blast
  qed
  have free: "\<not> vg_busy g" using Cons.prems(1) by (simp add: tracks_def)
  consider (refused) "vault_acquire a g = Some (Inl vault_unavailable, ?g)"
    | (granted) "vault_acquire a g = Some (Inr (), ?g\<lparr>vg_busy := True\<rparr>)"
        "length (vg_failures ?g) < vg_max_attempts g"
    using vault_acquire_cases [OF free, of a] unfolding prune_fields [THEN conjunct2, THEN conjunct1] by blast
  then show ?case
  proof cases
    case refused
    have "spaced ?g (log @ vault_run as ?g)"
      by (rule Cons.IH [OF wait ord(3) later]) (use free prune_fields [of a g] in auto)
    moreover have "spaced ?g = spaced g" by (rule same) (simp_all add: prune_fields)
    ultimately show ?thesis using refused x by simp
  next
    case granted
    let ?h = "permit_finish b out (?g\<lparr>vg_busy := True\<rparr>)"
    show ?thesis
    proof (cases "out = Rejected")
      case False
      then have "out = Inconclusive" using out by (cases out) auto
      then have h: "vg_failures ?h = vg_failures ?g" "vg_window ?h = vg_window g"
          "vg_max_attempts ?h = vg_max_attempts g" "\<not> vg_busy ?h"
        using prune_fields [of a g] by (simp_all add: permit_finish_def vault_record_def)
      have "spaced ?h (log @ vault_run as ?h)" by (rule Cons.IH [OF wait [OF h] ord(3) later])
      then show ?thesis using granted x False same [OF h(2,3)] by simp
    next
      case True
      then have h: "vg_failures ?h = vg_failures ?g @ [b]" "vg_window ?h = vg_window g"
          "vg_max_attempts ?h = vg_max_attempts g" "\<not> vg_busy ?h"
        using prune_fields [of a g] granted(2)
        by (simp_all add: permit_finish_def vault_record_def vault_failed_def Let_def)
      obtain old where old: "log = old @ vg_failures ?g" "\<forall>f \<in> set old. f + vg_window g \<le> a"
        using pruned prune_fields [of a g] by (auto simp: tracks_def)
      have "spaced g (log @ [b])"
        unfolding spaced_def
      proof (intro allI impI)
        fix i
        assume i: "i + vg_max_attempts g < length (log @ [b])"
        show "(log @ [b]) ! i + vg_window g \<le> (log @ [b]) ! (i + vg_max_attempts g)"
        proof (cases "i + vg_max_attempts g < length log")
          case True
          then show ?thesis
            using pruned prune_fields [of a g] by (simp add: tracks_def spaced_def nth_append)
        next
          case False
          then have e: "i + vg_max_attempts g = length log" using i by simp
          then have "i < length old" using old(1) granted(2) by simp
          then have "log ! i \<in> set old" using old(1) by (simp add: nth_append)
          then have "log ! i + vg_window g \<le> b" using old(2) ord(2) by fastforce
          then show ?thesis using e \<open>i < length old\<close> old(1) by (simp add: nth_append)
        qed
      qed
      moreover have "\<forall>f \<in> set log. f \<le> b" using pruned ord(2) by (fastforce simp: tracks_def)
      moreover have "\<forall>f \<in> set old. f + vg_window g \<le> b" using old(2) ord(2) by fastforce
      ultimately have "tracks b ?h (log @ [b])"
        using h granted(2) old(1) same [OF h(2,3)] prune_fields [of a g] unfolding tracks_def by auto
      from Cons.IH [OF this ord(3) later] show ?thesis using granted x same [OF h(2,3)] True by simp
    qed
  qed
qed

text \<open>C8: Guessing is slow: over any run of attempts without a success, however they were spread
  or cut off, the rejection that comes a full limit after another is at least a window
  later, so no window of five minutes ever holds more than eight checked guesses.\<close>

theorem guesses_per_window_bounded:
  assumes "in_order 0 as" and "\<forall>(a, b, outcome) \<in> set as. outcome \<noteq> Accepted"
    and "i + attempts < length (vault_run as (vault_guard_new window attempts base cap))"
  shows "vault_run as (vault_guard_new window attempts base cap) ! i + window
    \<le> vault_run as (vault_guard_new window attempts base cap) ! (i + attempts)"
proof -
  let ?g = "vault_guard_new window attempts base cap"
  have "tracks 0 ?g []" by (simp add: tracks_def spaced_def vault_guard_new_def)
  from vault_run_spaced [OF this assms(1,2)] show ?thesis
    using assms(3) by (simp add: spaced_def vault_guard_new_def)
qed

theorem guesses_per_window_bounded_witness:
  "vault_run [(0, 10, Rejected), (600, 700, Inconclusive), (800, 900, Rejected), (950, 960, Rejected),
      (6000, 6010, Rejected)] (vault_guard_new 5000 2 500 1000) = [10, 900, 6010]
   \<and> 10 + 5000 \<le> (6010 :: nat)"
proof -
  let ?as = "[(0, 10, Rejected), (600, 700, Inconclusive), (800, 900, Rejected), (950, 960, Rejected),
      (6000, 6010, Rejected)]"
  let ?log = "vault_run ?as (vault_guard_new 5000 2 500 1000)"
  have log: "?log = [10, 900, 6010]"
    by (simp add: vault_acquire_def prune_failures_def permit_finish_def vault_record_def vault_failed_def
        vault_guard_new_def backoff_def sat_add_def Let_def)
  have "in_order 0 ?as" "\<forall>(a, b, outcome) \<in> set ?as. outcome \<noteq> Accepted" by simp_all
  moreover have "0 + 2 < length ?log" unfolding log by simp
  ultimately have "?log ! 0 + 5000 \<le> ?log ! (0 + 2)" by (rule guesses_per_window_bounded)
  then show ?thesis using log by simp
qed

text \<open>A lockout ends and is not prolonged: while it lasts a request changes nothing that
  decides it, an attempt that proves nothing leaves it as it was, and a full window after
  the last rejection the next attempt is let through with a clean history.\<close>

theorem lockout_ends:
  assumes "\<not> vg_busy g" and "\<forall>f \<in> set (vg_failures g). f \<le> last_fail" and "vg_failures g \<noteq> []"
    and "0 < vg_max_attempts g" and "last_fail + vg_window g \<le> now"
  shows "vault_acquire now g = Some (Inr (), g\<lparr>vg_failures := [], vg_consecutive := 0, vg_retry_at := None, vg_busy := True\<rparr>)
    \<and> permit_finish later Inconclusive (g\<lparr>vg_busy := True\<rparr>) = g"
proof -
  have "dropWhile (\<lambda>f. vg_window g \<le> now - f) (vg_failures g) = []"
    using assms(2,5) by fastforce
  then have "prune_failures now g = g\<lparr>vg_failures := [], vg_consecutive := 0, vg_retry_at := None\<rparr>"
    using assms(3) by (simp add: prune_failures_def)
  moreover have "g\<lparr>vg_busy := False\<rparr> = g" using assms(1) by (cases g) simp
  ultimately show ?thesis
    using assms by (simp add: vault_acquire_def Let_def permit_finish_def vault_record_def)
qed

theorem lockout_ends_witness:
  "fst (the (vault_acquire 300010 (vault_failed 10 vault_guard_default))) = Inr ()"
  using lockout_ends [of "vault_failed 10 vault_guard_default" 10 300010]
  by (simp add: vault_failed_def vault_guard_default_def vault_guard_new_def Let_def)

lemma failed_fields:
  "vg_failures (vault_failed t h) = drop (Suc (length (vg_failures h)) - vg_max_attempts h) (vg_failures h @ [t])
   \<and> vg_consecutive (vault_failed t h) = sat_add u32_max (vg_consecutive h) 1
   \<and> vg_retry_at (vault_failed t h) = Some (t + backoff h (sat_add u32_max (vg_consecutive h) 1))
   \<and> vg_max_attempts (vault_failed t h) = vg_max_attempts h \<and> vg_window (vault_failed t h) = vg_window h
   \<and> vg_busy (vault_failed t h) = vg_busy h \<and> backoff (vault_failed t h) = backoff h"
  by (simp add: vault_failed_def Let_def fun_eq_iff backoff_def)

lemma fold_failed:
  assumes "ts \<noteq> []" and "0 < vg_max_attempts g" and "vg_consecutive g + length ts \<le> u32_max"
  shows "let h = fold vault_failed ts g; c = vg_consecutive g + length ts
    in vg_consecutive h = c \<and> vg_retry_at h = Some (last ts + backoff g c)
      \<and> vg_failures h \<noteq> [] \<and> last (vg_failures h) = last ts
      \<and> vg_max_attempts h = vg_max_attempts g \<and> vg_window h = vg_window g \<and> vg_busy h = vg_busy g
      \<and> backoff h = backoff g"
  using assms
proof (induction ts rule: rev_induct)
  case Nil
  then show ?case by simp
next
  case (snoc t ts)
  let ?h = "fold vault_failed ts g"
  have h: "vg_consecutive ?h = vg_consecutive g + length ts" "vg_max_attempts ?h = vg_max_attempts g"
      "vg_window ?h = vg_window g" "vg_busy ?h = vg_busy g" "backoff ?h = backoff g"
    using snoc by (cases "ts = []"; simp add: Let_def)+
  let ?all = "vg_failures ?h @ [t]"
  let ?kept = "drop (length ?all - vg_max_attempts g) ?all"
  have kept: "?kept \<noteq> []" "last ?kept = t"
    using snoc.prems(2) by (simp_all add: last_drop)
  have "sat_add u32_max (vg_consecutive g + length ts) 1 = vg_consecutive g + length (ts @ [t])"
    using snoc.prems(3) by (simp add: sat_add_def)
  then show ?case
    using h kept failed_fields [of t ?h] by (simp add: Let_def)
qed

text \<open>Each refused password in a row doubles the wait: after n of them, however they came, no
  attempt is let through for the base delay times two to the n minus one, within the cap,
  from the last one on.\<close>

theorem backoff_doubles:
  assumes "ts \<noteq> []" and "0 < vg_max_attempts g" and "length ts \<le> u32_max" and "vg_consecutive g = 0"
    and "\<not> vg_busy g" and "t < last ts + min (vg_base_backoff g * 2 ^ min (length ts - 1) 16) (vg_max_backoff g)"
    and "last ts \<le> t" and "t < last ts + vg_window g"
  shows "\<exists>h. vault_acquire t (fold vault_failed ts g) = Some (Inl vault_unavailable, h) \<and> \<not> vg_busy h"
proof -
  let ?h = "fold vault_failed ts g"
  have h: "vg_retry_at ?h = Some (last ts + backoff g (length ts))" "vg_failures ?h \<noteq> []"
      "last (vg_failures ?h) = last ts" "vg_window ?h = vg_window g" "\<not> vg_busy ?h"
    using fold_failed [OF assms(1,2)] assms(3,4,5) by (simp_all add: Let_def)
  have "last ts \<in> set (vg_failures ?h)" using h(2,3) by (metis last_in_set)
  moreover have "\<not> vg_window ?h \<le> t - last ts" using assms(7,8) h(4) by simp
  ultimately have kept: "dropWhile (\<lambda>f. vg_window ?h \<le> t - f) (vg_failures ?h) \<noteq> []"
    by (auto simp: dropWhile_eq_Nil_conv)
  then have "prune_failures t ?h = ?h\<lparr>vg_failures := dropWhile (\<lambda>f. vg_window ?h \<le> t - f) (vg_failures ?h)\<rparr>"
    unfolding prune_failures_def Let_def by (simp only: if_False simp_thms)
  then show ?thesis
    using h assms(6) by (simp add: vault_acquire_def Let_def backoff_def)
qed

theorem backoff_doubles_witness:
  "\<exists>h. vault_acquire 2999 (fold vault_failed [0, 600, 1000] vault_guard_default)
     = Some (Inl vault_unavailable, h) \<and> \<not> vg_busy h"
  by (rule backoff_doubles) (simp_all add: vault_guard_default_def vault_guard_new_def)

end
