(* ===== verification/Authorization.thy ===== *)
theory Authorization
  imports SecurityPolicy Paths VaultGuards
begin

text \<open>
  One-time grants for sensitive operations (\<open>security/sensitive.rs\<close>,
  \<open>security/sensitive/plans.rs\<close>, \<open>security/open_with_intent.rs\<close>): what each operation asks of
  the user, the confirmation windows, and the tokens a command spends. What the code calls
  outside these files (the file system, serde, the vault's and the store's state) is the
  record \<open>host\<close>. Instants are milliseconds; a \<open>Uuid\<close> is a number the event supplies.
\<close>

section \<open>Operations\<close>

datatype sensitive_op =
    SitesRevealSecret
  | SettingsRevealProxyPassword
  | VaultReset
  | FsDelete
  | FsRevealPath
  | FsOpenDocument
  | FsExecutePath
  | OpenWithStart
  | AppExportSettings
  | AppImportPreview
  | AppImportApply
  | AppImportDiscard
  | SettingsSetSecurity
  | VaultUseSystemProtection
  | SitesSave
  | SessionTrustHostKey

definition all_ops :: "sensitive_op list" where
  "all_ops = [SitesRevealSecret, SettingsRevealProxyPassword, VaultReset, FsDelete, FsRevealPath,
     FsOpenDocument, FsExecutePath, OpenWithStart, AppExportSettings, AppImportPreview,
     AppImportApply, AppImportDiscard, SettingsSetSecurity, VaultUseSystemProtection, SitesSave,
     SessionTrustHostKey]"

fun op_name :: "sensitive_op \<Rightarrow> string" where
  "op_name SitesRevealSecret = ''sites_reveal_secret''"
| "op_name SettingsRevealProxyPassword = ''settings_reveal_proxy_password''"
| "op_name VaultReset = ''vault_reset''"
| "op_name FsDelete = ''fs_delete''"
| "op_name FsRevealPath = ''fs_reveal_path''"
| "op_name FsOpenDocument = ''fs_open_document''"
| "op_name FsExecutePath = ''fs_execute_path''"
| "op_name OpenWithStart = ''open_with_start''"
| "op_name AppExportSettings = ''app_export_settings''"
| "op_name AppImportPreview = ''app_import_preview''"
| "op_name AppImportApply = ''app_import_apply''"
| "op_name AppImportDiscard = ''app_import_discard''"
| "op_name SettingsSetSecurity = ''settings_set_security''"
| "op_name VaultUseSystemProtection = ''vault_use_system_protection''"
| "op_name SitesSave = ''sites_save''"
| "op_name SessionTrustHostKey = ''session_trust_host_key''"

definition op_parse :: "string \<Rightarrow> sensitive_op option" where
  "op_parse name = find (\<lambda>op. op_name op = name) all_ops"

definition token_ttl :: "sensitive_op \<Rightarrow> nat" where
  "token_ttl op = (if op = SettingsSetSecurity then 15 * 60 * 1000 else 30 * 1000)"

definition max_grants :: nat where "max_grants = 32"
definition max_pending :: nat where "max_pending = 4"

section \<open>State\<close>

record grant =
  gr_window :: string
  gr_operation :: sensitive_op
  gr_target :: string
  gr_expires :: nat
  gr_epoch :: nat

datatype confirmation_kind =
    RevealSiteSecret | RevealProxyPassword | ResetVault | VaultStartOver | ExecuteLocalFile
  | ExecuteRemoteFile | OpenWithApplication | WeakenSecuritySettings | UseSystemProtection
  | TransferSecret | TrustHostKey | ExportSecrets

record prompt =
  pm_kind :: confirmation_kind
  pm_locale :: string
  pm_target :: "string option"
  pm_local_name :: "string option"
  pm_application :: "string option"
  pm_security_changes :: "weakening option"
  pm_secret_transfer :: "secret_transfer option"
  pm_host_key :: "(string option \<times> string) option"
  pm_phrase :: "string option"
  pm_reauthenticate :: bool
  pm_system_unlock :: bool

text \<open>A pending confirmation, with the call of \<open>authorize_sensitive\<close> that waits for it.\<close>

record pending =
  pd_window :: string
  pd_prompt :: prompt
  pd_caller :: string
  pd_operation :: sensitive_op
  pd_target :: string
  pd_trusts :: "string option"

record auth =
  au_grants :: "(nat \<times> grant) list"
  au_pending :: "(nat \<times> pending) list"
  au_confirmed :: "(nat \<times> pending) list"
  au_epoch :: nat
  au_guard :: vault_guard
  au_trusted :: "string list"

definition denied :: "string \<Rightarrow> command_error" where
  "denied message = command_error_new PermissionDenied message"

record host_key_request =
  hk_host :: string
  hk_port :: nat
  hk_expected :: "string option"
  hk_actual :: string

record open_with_request =
  ow_connection :: string
  ow_remote_path :: string
  ow_application :: "string option"

record intent =
  in_connection :: string
  in_remote_path :: string
  in_local_name :: string
  in_executable :: bool
  in_application :: "string option"

text \<open>What these files call and do not define.\<close>

record host =
  canonicalize :: "string \<Rightarrow> string option"
  shell_path :: "string \<Rightarrow> string"
  parse_open_with :: "string \<Rightarrow> open_with_request option"
  canonical_application :: "string \<Rightarrow> command_error + string"
  executable_name :: "string \<Rightarrow> bool"
  render_intent :: "intent \<Rightarrow> string"
  parse_host_key :: "string \<Rightarrow> host_key_request option"
  parse_map :: "string \<Rightarrow> json_map option"
  settings_issue :: "json_map \<Rightarrow> string option"
  render_grant :: "json_map \<times> secret_transfer option \<Rightarrow> string"
  render_site :: "string \<times> secret_transfer option \<Rightarrow> string"
  saved_site :: "string \<Rightarrow> (json_map \<times> bool) option"
  settings :: json_map
  vault_configured :: bool
  vault_damaged :: bool
  vault_unlocked :: bool
  system_unlock :: bool

section \<open>Rules\<close>

definition normalized_target :: "host \<Rightarrow> sensitive_op \<Rightarrow> string \<Rightarrow> command_error + string" where
  "normalized_target h op target =
     (if op \<in> {FsDelete, FsRevealPath, FsOpenDocument, FsExecutePath}
      then (case canonicalize h target of
              Some p \<Rightarrow> Inr p | None \<Rightarrow> Inl (denied ''The selected path is unavailable''))
      else Inr target)"

definition requires_confirmation :: "sensitive_op \<Rightarrow> bool" where
  "requires_confirmation op \<longleftrightarrow> op \<in> {SitesRevealSecret, SettingsRevealProxyPassword, VaultReset,
     VaultUseSystemProtection, FsExecutePath, SessionTrustHostKey}"

definition open_with_requires_confirmation :: "intent \<Rightarrow> bool \<Rightarrow> bool" where
  "open_with_requires_confirmation i trusted \<longleftrightarrow> in_executable i \<or> in_application i \<noteq> None \<and> \<not> trusted"

definition should_show_confirmation :: "sensitive_op \<Rightarrow> bool \<Rightarrow> bool \<Rightarrow> bool" where
  "should_show_confirmation op required enabled \<longleftrightarrow>
     required \<and> (op \<in> {VaultReset, VaultUseSystemProtection, SettingsSetSecurity, SitesSave,
       SessionTrustHostKey} \<or> enabled)"

definition should_prompt :: "sensitive_op \<Rightarrow> bool \<Rightarrow> bool \<Rightarrow> bool \<Rightarrow> bool" where
  "should_prompt op required enabled reauthenticate \<longleftrightarrow>
     reauthenticate \<or> should_show_confirmation op required enabled"

definition well_formed_tag :: "string \<Rightarrow> bool" where
  "well_formed_tag tag \<longleftrightarrow> 2 \<le> length tag \<and> length tag \<le> 16
     \<and> (\<forall>c \<in> set tag. is_ascii_alnum c \<or> c = CHR ''-'')"

definition prompt_locale :: "string option \<Rightarrow> json_map \<Rightarrow> string" where
  "prompt_locale requested s =
     (let ok = (\<lambda>t. case t of None \<Rightarrow> None | Some tag \<Rightarrow> if well_formed_tag tag then Some tag else None)
      in the_or ''en'' (or_opt (ok requested) (ok (get_str s ''language''))))"

section \<open>Open with\<close>

definition trim_end_slashes :: "string \<Rightarrow> string" where
  "trim_end_slashes s = rev (dropWhile (\<lambda>c. c = CHR ''/'') (rev s))"

definition remote_name :: "string \<Rightarrow> string" where
  "remote_name path = last (split_at (\<lambda>c. c = CHR ''/'') (trim_end_slashes path))"

definition resolve_intent :: "host \<Rightarrow> open_with_request \<Rightarrow> command_error + intent" where
  "resolve_intent h r =
     (let local = safe_temp_name (remote_name (ow_remote_path r));
          make = (\<lambda>app. \<lparr>in_connection = ow_connection r, in_remote_path = ow_remote_path r,
                    in_local_name = local, in_executable = executable_name h local, in_application = app\<rparr>)
      in case ow_application r of
           None \<Rightarrow> Inr (make None)
         | Some value \<Rightarrow>
             (if trim_str value = [] then Inr (make None)
              else (case canonical_application h value of
                      Inl e \<Rightarrow> Inl e | Inr app \<Rightarrow> Inr (make (Some app)))))"

definition intent_from_request :: "host \<Rightarrow> string \<Rightarrow> command_error + intent" where
  "intent_from_request h target =
     (case parse_open_with h target of
        None \<Rightarrow> Inl (denied ''Invalid Open with request'')
      | Some r \<Rightarrow> resolve_intent h r)"

definition renamed_local_name :: "intent \<Rightarrow> string option" where
  "renamed_local_name i = (if remote_name (in_remote_path i) \<noteq> in_local_name i then Some (in_local_name i) else None)"

section \<open>Plans\<close>

record plan =
  pn_target :: string
  pn_required :: bool
  pn_prompt :: "prompt option"
  pn_trusts :: "string option"

definition plain_prompt :: "confirmation_kind \<Rightarrow> string \<Rightarrow> prompt" where
  "plain_prompt kind locale = \<lparr>pm_kind = kind, pm_locale = locale, pm_target = None, pm_local_name = None,
     pm_application = None, pm_security_changes = None, pm_secret_transfer = None, pm_host_key = None,
     pm_phrase = None, pm_reauthenticate = False, pm_system_unlock = False\<rparr>"

definition confirmation_prompt :: "host \<Rightarrow> sensitive_op \<Rightarrow> string \<Rightarrow> string \<Rightarrow> bool \<Rightarrow> command_error + prompt" where
  "confirmation_prompt h op target locale reauthenticate =
     (let make = (\<lambda>kind show. Inr ((plain_prompt kind locale)
            \<lparr>pm_target := (if show then Some (shell_path h target) else None),
             pm_phrase := (if kind = ResetVault then Some ''RESET'' else None),
             pm_reauthenticate := reauthenticate\<rparr>))
      in case op of
           SitesRevealSecret \<Rightarrow> make RevealSiteSecret False
         | SettingsRevealProxyPassword \<Rightarrow> make RevealProxyPassword False
         | VaultReset \<Rightarrow> make ResetVault False
         | VaultUseSystemProtection \<Rightarrow> make UseSystemProtection False
         | FsExecutePath \<Rightarrow> make ExecuteLocalFile True
         | AppExportSettings \<Rightarrow> make ExportSecrets False
         | _ \<Rightarrow> Inl (denied ''Unsupported confirmation operation''))"

definition open_with_prompt :: "host \<Rightarrow> intent \<Rightarrow> string \<Rightarrow> prompt" where
  "open_with_prompt h i locale =
     (plain_prompt (if in_executable i then ExecuteRemoteFile else OpenWithApplication) locale)
       \<lparr>pm_target := Some (in_remote_path i), pm_local_name := renamed_local_name i,
        pm_application := map_option (shell_path h) (in_application i)\<rparr>"

definition sane_fingerprint :: "string \<Rightarrow> bool" where
  "sane_fingerprint v \<longleftrightarrow> v \<noteq> [] \<and> length v \<le> 128 \<and> (\<forall>c \<in> set v. is_hex_digit c)"

definition host_key_from_request :: "host \<Rightarrow> string \<Rightarrow> command_error + host_key_request" where
  "host_key_from_request h target =
     (case parse_host_key h target of
        None \<Rightarrow> Inl (denied ''Invalid host key request'')
      | Some r \<Rightarrow>
          if hk_host r = [] \<or> 255 < length (hk_host r) \<or> \<not> sane_fingerprint (hk_actual r)
             \<or> (case hk_expected r of None \<Rightarrow> False | Some v \<Rightarrow> \<not> sane_fingerprint v)
          then Inl (denied ''Invalid host key request'') else Inr r)"

definition security_patch_from_request :: "host \<Rightarrow> string \<Rightarrow> command_error + json_map" where
  "security_patch_from_request h target =
     (case parse_map h target of
        None \<Rightarrow> Inl (denied ''Invalid security settings request'')
      | Some patch \<Rightarrow>
          if \<exists>k \<in> fst ` set patch. k \<notin> set protected_keys
          then Inl (denied ''Invalid security settings request'')
          else (let checked = (if (\<exists>b. map_of patch ''proxyPassword'' = Some (JBool b))
                               then al_del ''proxyPassword'' patch else patch)
                in case settings_issue h checked of
                     Some issue \<Rightarrow> Inl (command_error_new InvalidInput issue)
                   | None \<Rightarrow> Inr patch))"

definition plan_operation :: "host \<Rightarrow> sensitive_op \<Rightarrow> string \<Rightarrow> string \<Rightarrow> command_error + plan" where
  "plan_operation h op target0 locale =
     (case normalized_target h op target0 of
        Inl e \<Rightarrow> Inl e
      | Inr target \<Rightarrow>
          (let exports = (op = AppExportSettings \<and> target = ''secrets'');
               required = (requires_confirmation op \<or> exports);
               reauthenticate = (vault_configured h \<and> (exports \<or>
                 op \<in> {SitesRevealSecret, SettingsRevealProxyPassword, VaultUseSystemProtection}))
           in if op = AppExportSettings \<and> \<not> exports \<and> target \<noteq> ''native-dialog''
              then Inl (denied ''Invalid export request'')
              else if \<not> (required \<or> reauthenticate)
              then Inr \<lparr>pn_target = target, pn_required = required, pn_prompt = None, pn_trusts = None\<rparr>
              else (case confirmation_prompt h op target locale reauthenticate of
                      Inl e \<Rightarrow> Inl e
                    | Inr p \<Rightarrow> Inr \<lparr>pn_target = target, pn_required = required,
                        pn_prompt = Some (if op = VaultReset \<and> vault_damaged h
                                          then p\<lparr>pm_kind := VaultStartOver\<rparr> else p),
                        pn_trusts = None\<rparr>)))"

definition plan_open_with :: "host \<Rightarrow> string list \<Rightarrow> string \<Rightarrow> string \<Rightarrow> command_error + plan" where
  "plan_open_with h trusted target locale =
     (case intent_from_request h target of
        Inl e \<Rightarrow> Inl e
      | Inr i \<Rightarrow>
          (let untrusted = (case in_application i of
                 None \<Rightarrow> None | Some app \<Rightarrow> if app \<in> set trusted then None else Some app)
           in Inr \<lparr>pn_target = render_intent h i,
                   pn_required = open_with_requires_confirmation i (untrusted = None),
                   pn_prompt = Some (open_with_prompt h i locale), pn_trusts = untrusted\<rparr>))"

definition plan_protected_settings :: "host \<Rightarrow> string \<Rightarrow> string \<Rightarrow> command_error + plan" where
  "plan_protected_settings h target locale =
     (case security_patch_from_request h target of
        Inl e \<Rightarrow> Inl e
      | Inr patch \<Rightarrow>
          (let w = find_weakening (settings h) patch; t = proxy_transfer (settings h) patch;
               p = (plain_prompt (if weakening_empty w then TransferSecret else WeakenSecuritySettings) locale)
                     \<lparr>pm_reauthenticate := vault_configured h \<and> \<not> weakening_empty w,
                      pm_security_changes := (if weakening_empty w then None else Some w),
                      pm_secret_transfer := t\<rparr>
           in Inr \<lparr>pn_target = grant_target (render_grant h) (settings h) patch,
                   pn_required = (\<not> weakening_empty w \<or> t \<noteq> None), pn_prompt = Some p, pn_trusts = None\<rparr>))"

definition plan_host_key :: "host \<Rightarrow> string \<Rightarrow> string \<Rightarrow> command_error + plan" where
  "plan_host_key h target locale =
     (case host_key_from_request h target of
        Inl e \<Rightarrow> Inl e
      | Inr r \<Rightarrow> Inr \<lparr>pn_target = target, pn_required = True,
          pn_prompt = Some ((plain_prompt TrustHostKey locale)
            \<lparr>pm_target := Some (hk_host r @ '':'' @ show_nat (hk_port r)),
             pm_host_key := Some (hk_expected r, hk_actual r)\<rparr>), pn_trusts = None\<rparr>)"

text \<open>The panic behind \<open>site_scope\<close> cannot happen (\<open>stored_site_always_reads\<close>); it would be
  no transfer here.\<close>

definition plan_site_save :: "host \<Rightarrow> string \<Rightarrow> string \<Rightarrow> command_error + plan" where
  "plan_site_save h target locale =
     (case parse_map h target of
        None \<Rightarrow> Inl (denied ''Invalid bookmark request'')
      | Some input \<Rightarrow>
          if \<not> is_site_kind input
             \<or> \<not> (case map_of input ''password'' of None \<Rightarrow> True | Some (JBool _) \<Rightarrow> True | _ \<Rightarrow> False)
          then Inl (denied ''Invalid bookmark request'')
          else (let t = (case get_str input ''id'' of
                        None \<Rightarrow> None
                      | Some i \<Rightarrow> (case site_request_transfer (saved_site h i) input of Inr t \<Rightarrow> t | Inl _ \<Rightarrow> None))
                in Inr \<lparr>pn_target = render_site h (the_or [] (get_str input ''id''), t),
                        pn_required = (t \<noteq> None),
                        pn_prompt = Some ((plain_prompt TransferSecret locale)\<lparr>pm_secret_transfer := t\<rparr>),
                        pn_trusts = None\<rparr>))"

definition unlock_before_moving_password :: "bool \<Rightarrow> bool \<Rightarrow> command_error + unit" where
  "unlock_before_moving_password moves locked =
     (if moves \<and> locked then Inl (command_error_new VaultLocked ''Vault is locked'') else Inr ())"

definition make_plan :: "host \<Rightarrow> string list \<Rightarrow> sensitive_op \<Rightarrow> string \<Rightarrow> string \<Rightarrow> command_error + plan" where
  "make_plan h trusted op target locale =
     (if op = OpenWithStart then plan_open_with h trusted target locale
      else if op = SettingsSetSecurity then plan_protected_settings h target locale
      else if op = SitesSave then
        (case plan_site_save h target locale of
           Inl e \<Rightarrow> Inl e
         | Inr p \<Rightarrow> (case unlock_before_moving_password (pn_required p) (vault_configured h \<and> \<not> vault_unlocked h) of
                       Inl e \<Rightarrow> Inl e | Inr _ \<Rightarrow> Inr p))
      else if op = SessionTrustHostKey then plan_host_key h target locale
      else plan_operation h op target locale)"

section \<open>Grants and confirmations\<close>

definition auth_new :: auth where
  "auth_new = \<lparr>au_grants = [], au_pending = [], au_confirmed = [], au_epoch = 0,
     au_guard = vault_guard_default, au_trusted = []\<rparr>"

definition revoke_all :: "auth \<Rightarrow> auth" where
  "revoke_all a = a\<lparr>au_grants := []\<rparr>"

definition issue_token ::
  "nat \<Rightarrow> nat \<Rightarrow> string \<Rightarrow> sensitive_op \<Rightarrow> string \<Rightarrow> auth \<Rightarrow> (command_error + nat) \<times> auth" where
  "issue_token now token window op target a =
     (let live = filter (\<lambda>(t, g). now < gr_expires g) (au_grants a)
      in if max_grants \<le> length live
         then (Inl (command_error_new ResourceLimit ''Too many authorizations are waiting to be used''),
               a\<lparr>au_grants := live\<rparr>)
         else (Inr token, a\<lparr>au_grants := al_put token
                 \<lparr>gr_window = window, gr_operation = op, gr_target = target,
                  gr_expires = now + token_ttl op, gr_epoch = au_epoch a\<rparr> live\<rparr>))"

definition consume_token ::
  "host \<Rightarrow> nat \<Rightarrow> string \<Rightarrow> nat \<Rightarrow> sensitive_op \<Rightarrow> string \<Rightarrow> auth \<Rightarrow> (command_error + unit) \<times> auth" where
  "consume_token h now window token op target a =
     (if window \<noteq> ''main'' then (Inl (denied ''PermissionDenied''), a)
      else (case normalized_target h op target of
              Inl e \<Rightarrow> (Inl e, a)
            | Inr wanted \<Rightarrow>
                (case map_of (au_grants a) token of
                   None \<Rightarrow> (Inl (denied ''PermissionDenied''), a)
                 | Some g \<Rightarrow>
                     (let rest = a\<lparr>au_grants := al_del token (au_grants a)\<rparr>
                      in if gr_expires g \<le> now \<or> gr_epoch g \<noteq> au_epoch a \<or> gr_window g \<noteq> window
                            \<or> gr_operation g \<noteq> op \<or> gr_target g \<noteq> wanted
                         then (Inl (denied ''PermissionDenied''), rest) else (Inr (), rest)))))"

definition confirmation_label :: "nat \<Rightarrow> string" where
  "confirmation_label request = ''security-confirmation-'' @ show_nat request"

definition pending_prompt :: "auth \<Rightarrow> string \<Rightarrow> nat \<Rightarrow> command_error + prompt" where
  "pending_prompt a window request =
     (case map_of (au_pending a) request of
        Some p \<Rightarrow> if pd_window p = window then Inr (pd_prompt p) else Inl (denied ''PermissionDenied'')
      | None \<Rightarrow> Inl (denied ''PermissionDenied''))"

definition add_pending :: "nat \<Rightarrow> pending \<Rightarrow> auth \<Rightarrow> (command_error + unit) \<times> auth" where
  "add_pending request p a =
     (if max_pending \<le> length (au_pending a)
      then (Inl (command_error_new ResourceLimit ''Too many security confirmations are already open''), a)
      else (Inr (), a\<lparr>au_pending := al_put request p (au_pending a)\<rparr>))"

definition reject_pending :: "nat \<Rightarrow> auth \<Rightarrow> auth" where
  "reject_pending request a = a\<lparr>au_pending := al_del request (au_pending a)\<rparr>"

text \<open>What is said of a run: a question asked, an approval and whether it carried a checked
  credential, a token given out for an approved question or without one, a token spent.\<close>

datatype entry =
    Asked nat sensitive_op string bool
  | Approved nat bool
  | Granted nat "nat option" sensitive_op string
  | Spent nat sensitive_op string

definition needs_reauthentication :: "plan \<Rightarrow> bool" where
  "needs_reauthentication p = (case pn_prompt p of None \<Rightarrow> False | Some q \<Rightarrow> pm_reauthenticate q)"

text \<open>\<open>authorize_sensitive\<close> up to the wait: an error, a token at once, or a question asked.\<close>

definition authorize ::
  "host \<Rightarrow> nat \<Rightarrow> nat \<Rightarrow> nat \<Rightarrow> string \<Rightarrow> string \<Rightarrow> string \<Rightarrow> string option \<Rightarrow> auth
    \<Rightarrow> (command_error + unit) \<times> entry list \<times> auth" where
  "authorize h now token request window name target locale a =
     (case (if window = ''main'' then op_parse name else None) of
        None \<Rightarrow> (Inl (denied ''Sensitive operation is not permitted for this window''), [], a)
      | Some op \<Rightarrow>
          (case make_plan h (au_trusted a) op target (prompt_locale locale (settings h)) of
             Inl e \<Rightarrow> (Inl e, [], a)
           | Inr p \<Rightarrow>
               if \<not> should_prompt op (pn_required p) (confirmations_enabled (settings h)) (needs_reauthentication p)
               then (case issue_token now token window op (pn_target p) a of
                       (Inl e, a') \<Rightarrow> (Inl e, [], a')
                     | (Inr t, a') \<Rightarrow> (Inr (), [Granted t None op (pn_target p)], a'))
               else (case pn_prompt p of
                       None \<Rightarrow> (Inl (denied ''Unsupported confirmation operation''), [], a)
                     | Some q0 \<Rightarrow>
                         (let q = (if pm_reauthenticate q0 then q0\<lparr>pm_system_unlock := system_unlock h\<rparr> else q0)
                          in case add_pending request
                               \<lparr>pd_window = confirmation_label request, pd_prompt = q, pd_caller = window,
                                pd_operation = op, pd_target = pn_target p, pd_trusts = pn_trusts p\<rparr> a of
                               (Inl e, a') \<Rightarrow> (Inl e, [], a')
                             | (Inr _, a') \<Rightarrow>
                                 (Inr (), [Asked request op (pn_target p) (pm_reauthenticate q)], a')))))"

text \<open>\<open>respond_sensitive_confirmation\<close>; \<open>verified\<close> is what checking the password, or the system's
  own unlock, comes to.\<close>

definition respond ::
  "nat \<Rightarrow> nat \<Rightarrow> string \<Rightarrow> nat \<Rightarrow> bool \<Rightarrow> command_error + unit \<Rightarrow> auth
    \<Rightarrow> (command_error + unit) \<times> entry list \<times> auth" where
  "respond now done window request approved verified a =
     (case pending_prompt a window request of
        Inl e \<Rightarrow> (Inl e, [], a)
      | Inr q \<Rightarrow>
          (let check = (approved \<and> pm_reauthenticate q);
               refused = (\<lambda>e. ce_code e = VaultAuthFailed);
               answer = (\<lambda>b. case map_of (au_pending b) request of
                   None \<Rightarrow> (Inl (denied ''PermissionDenied''), [], b)
                 | Some p \<Rightarrow>
                     (let c = reject_pending request b
                      in if approved
                         then (Inr (), [Approved request check], c\<lparr>au_confirmed := al_put request p (au_confirmed c)\<rparr>)
                         else (Inr (), [], c)))
           in if \<not> check then answer a
              else (case vault_acquire now (au_guard a) of
                      None \<Rightarrow> (Inl (denied ''Authentication failed''), [], a)
                    | Some (Inl _, g) \<Rightarrow> (Inl (denied ''Authentication failed''), [], a\<lparr>au_guard := g\<rparr>)
                    | Some (Inr _, g) \<Rightarrow>
                        (let b = a\<lparr>au_guard := permit_finish done (outcome_of refused verified) g\<rparr>
                         in case verified of
                              Inl e \<Rightarrow> (Inl (if refused e then denied ''Authentication failed'' else e), [], b)
                            | Inr _ \<Rightarrow> answer b))))"

text \<open>The rest of \<open>authorize_sensitive\<close>, once the answer is yes.\<close>

definition complete :: "nat \<Rightarrow> nat \<Rightarrow> nat \<Rightarrow> auth \<Rightarrow> (command_error + unit) \<times> entry list \<times> auth" where
  "complete now token request a =
     (case map_of (au_confirmed a) request of
        None \<Rightarrow> (Inl (command_error_new Cancelled ''Operation was cancelled''), [], a)
      | Some p \<Rightarrow>
          (let b = a\<lparr>au_confirmed := al_del request (au_confirmed a),
                    au_trusted := (case pd_trusts p of None \<Rightarrow> au_trusted a | Some app \<Rightarrow> app # au_trusted a)\<rparr>
           in case issue_token now token (pd_caller p) (pd_operation p) (pd_target p) b of
                (Inl e, c) \<Rightarrow> (Inl e, [], c)
              | (Inr t, c) \<Rightarrow> (Inr (), [Granted t (Some request) (pd_operation p) (pd_target p)], c)))"

datatype auth_event =
    Authorize nat nat nat string string string "string option"
  | Respond nat nat string nat bool "command_error + unit"
  | Reject nat
  | Complete nat nat nat
  | Consume nat string nat sensitive_op string
  | LockVault
  | RevokeAll

fun auth_step :: "host \<times> auth_event \<Rightarrow> auth \<Rightarrow> (command_error + unit) \<times> entry list \<times> auth" where
  "auth_step (h, Authorize now token request window name target locale) a =
     authorize h now token request window name target locale a"
| "auth_step (h, Respond now done window request approved verified) a =
     respond now done window request approved verified a"
| "auth_step (h, Reject request) a = (Inr (), [], reject_pending request a)"
| "auth_step (h, Complete now token request) a = complete now token request a"
| "auth_step (h, Consume now window token op target) a =
     (case consume_token h now window token op target a of
        (Inl e, b) \<Rightarrow> (Inl e, [], b)
      | (Inr _, b) \<Rightarrow> (Inr (), (case normalized_target h op target of
            Inr wanted \<Rightarrow> [Spent token op wanted] | Inl _ \<Rightarrow> []), b))"
| "auth_step (h, LockVault) a = (Inr (), [], a\<lparr>au_epoch := Suc (au_epoch a)\<rparr>)"
| "auth_step (h, RevokeAll) a = (Inr (), [], revoke_all a)"

text \<open>A run, latest event first, with what was said of it, latest first.\<close>

fun auth_run :: "(host \<times> auth_event) list \<Rightarrow> entry list \<times> auth" where
  "auth_run [] = ([], auth_new)"
| "auth_run (e # es) =
     (case auth_run es of (log, a) \<Rightarrow> (case auth_step e a of (_, new, b) \<Rightarrow> (new @ log, b)))"

section \<open>Lemmas\<close>

lemma bind_Inr_iff: "(case x of Inl e \<Rightarrow> Inl e | Inr y \<Rightarrow> f y) = Inr z \<longleftrightarrow> (\<exists>y. x = Inr y \<and> f y = Inr z)"
  by (cases x) simp_all

lemma denied_code [simp]: "ce_code (denied m) = PermissionDenied"
  by (simp add: denied_def command_error_new_def)

lemma issue_token_cases:
  "\<exists>live. set live \<subseteq> set (au_grants a) \<and> length live \<le> length (au_grants a) \<and>
    ((\<exists>e. issue_token now token window op target a = (Inl e, a\<lparr>au_grants := live\<rparr>))
     \<or> length live < max_grants \<and> issue_token now token window op target a
         = (Inr token, a\<lparr>au_grants := al_put token \<lparr>gr_window = window, gr_operation = op, gr_target = target,
              gr_expires = now + token_ttl op, gr_epoch = au_epoch a\<rparr> live\<rparr>))"
  by (rule exI [of _ "filter (\<lambda>(t, g). now < gr_expires g) (au_grants a)"])
     (auto simp: issue_token_def Let_def not_le)

lemma consume_token_cases:
  "(\<exists>e. consume_token h now window token op target a = (Inl e, a))
   \<or> (\<exists>e. consume_token h now window token op target a = (Inl e, a\<lparr>au_grants := al_del token (au_grants a)\<rparr>))
   \<or> (\<exists>g. map_of (au_grants a) token = Some g
        \<and> consume_token h now window token op target a = (Inr (), a\<lparr>au_grants := al_del token (au_grants a)\<rparr>)
        \<and> now < gr_expires g \<and> gr_epoch g = au_epoch a \<and> gr_window g = window \<and> window = ''main''
        \<and> gr_operation g = op \<and> normalized_target h op target = Inr (gr_target g))"
proof (cases "window = ''main''")
  case False
  then show ?thesis by (simp add: consume_token_def)
next
  case main: True
  show ?thesis
  proof (cases "normalized_target h op target")
    case (Inl e)
    then show ?thesis using main by (simp add: consume_token_def)
  next
    case (Inr wanted)
    then show ?thesis
      using main by (cases "map_of (au_grants a) token") (auto simp: consume_token_def Let_def)
  qed
qed

text \<open>What \<open>authorize\<close>, \<open>respond\<close> and \<open>complete\<close> do to the state, and say.\<close>

lemma authorize_cases:
  assumes "authorize h now token request window name target locale a = (r, log, b)"
  obtains (nothing) e where "r = Inl e" "log = []" "b = a"
    | (token) op p x where "window = ''main''" "op_parse name = Some op"
        "make_plan h (au_trusted a) op target (prompt_locale locale (settings h)) = Inr p"
        "\<not> should_prompt op (pn_required p) (confirmations_enabled (settings h)) (needs_reauthentication p)"
        "issue_token now token window op (pn_target p) a = (x, b)"
        "log = (case x of Inl e \<Rightarrow> [] | Inr t \<Rightarrow> [Granted t None op (pn_target p)])"
    | (ask) op p q where "op_parse name = Some op"
        "make_plan h (au_trusted a) op target (prompt_locale locale (settings h)) = Inr p"
        "length (au_pending a) < max_pending" "log = [Asked request op (pn_target p) (pm_reauthenticate q)]"
        "pm_reauthenticate q = needs_reauthentication p"
        "b = a\<lparr>au_pending := al_put request \<lparr>pd_window = confirmation_label request, pd_prompt = q,
            pd_caller = window, pd_operation = op, pd_target = pn_target p, pd_trusts = pn_trusts p\<rparr> (au_pending a)\<rparr>"
proof (cases "if window = ''main'' then op_parse name else None")
  case None
  show ?thesis by (rule nothing) (use assms None in \<open>auto simp: authorize_def\<close>)
next
  case (Some op)
  then have op: "window = ''main''" "op_parse name = Some op" by (auto split: if_splits)
  show ?thesis
  proof (cases "make_plan h (au_trusted a) op target (prompt_locale locale (settings h))")
    case (Inl e)
    show ?thesis by (rule nothing) (use assms Some Inl in \<open>auto simp: authorize_def\<close>)
  next
    case (Inr p)
    show ?thesis
    proof (cases "should_prompt op (pn_required p) (confirmations_enabled (settings h)) (needs_reauthentication p)")
      case False
      obtain x c where x: "issue_token now token window op (pn_target p) a = (x, c)" by fastforce
      have eff: "b = c \<and> log = (case x of Inl e \<Rightarrow> [] | Inr t \<Rightarrow> [Granted t None op (pn_target p)])"
        using assms Some Inr False x by (cases x) (simp_all add: authorize_def)
      show ?thesis by (rule token [OF op Inr False, of x]) (use eff x in simp_all)
    next
      case True
      show ?thesis
      proof (cases "pn_prompt p")
        case None
        show ?thesis by (rule nothing) (use assms Some Inr True None in \<open>auto simp: authorize_def\<close>)
      next
        case q0: (Some q0)
        let ?q = "if pm_reauthenticate q0 then q0\<lparr>pm_system_unlock := system_unlock h\<rparr> else q0"
        let ?p = "\<lparr>pd_window = confirmation_label request, pd_prompt = ?q, pd_caller = window,
            pd_operation = op, pd_target = pn_target p, pd_trusts = pn_trusts p\<rparr>"
        have step: "(r, log, b) = (case add_pending request ?p a of
            (Inl e, a') \<Rightarrow> (Inl e, [], a')
          | (Inr _, a') \<Rightarrow> (Inr (), [Asked request op (pn_target p) (pm_reauthenticate ?q)], a'))"
          using assms Some Inr q0 True by (simp add: authorize_def Let_def)
        show ?thesis
        proof (cases "length (au_pending a) < max_pending")
          case True
          show ?thesis
            by (rule ask [OF op(2) Inr True, of ?q])
               (use step True q0 in \<open>auto simp: add_pending_def needs_reauthentication_def\<close>)
        next
          case False
          show ?thesis by (rule nothing) (use step False in \<open>auto simp: add_pending_def\<close>)
        qed
      qed
    qed
  qed
qed

lemma respond_cases:
  assumes "respond now done window request approved verified a = (r, log, b)"
  obtains (unanswered) "log = []" "au_grants b = au_grants a" "au_pending b = au_pending a"
      "au_confirmed b = au_confirmed a" "au_epoch b = au_epoch a"
    | (refused) "log = []" "au_grants b = au_grants a" "au_pending b = al_del request (au_pending a)"
      "au_confirmed b = au_confirmed a" "au_epoch b = au_epoch a"
    | (approved) p where "map_of (au_pending a) request = Some p"
      "log = [Approved request (pm_reauthenticate (pd_prompt p))]" "au_grants b = au_grants a"
      "au_pending b = al_del request (au_pending a)"
      "au_confirmed b = al_put request p (au_confirmed a)" "au_epoch b = au_epoch a"
proof (cases "map_of (au_pending a) request")
  case None
  show ?thesis by (rule unanswered) (use assms None in \<open>auto simp: respond_def pending_prompt_def\<close>)
next
  case (Some p)
  show ?thesis
  proof (cases "pd_window p = window")
    case False
    show ?thesis by (rule unanswered) (use assms Some False in \<open>auto simp: respond_def pending_prompt_def\<close>)
  next
    case True
    note start = assms Some True
    show ?thesis
    proof (cases "approved")
      case False
      show ?thesis
        by (rule refused)
           (use start False in \<open>auto simp: respond_def pending_prompt_def reject_pending_def Let_def\<close>)
    next
      case yes: True
      show ?thesis
      proof (cases "pm_reauthenticate (pd_prompt p)")
        case False
        show ?thesis
          by (rule approved [of p])
             (use start yes False in \<open>auto simp: respond_def pending_prompt_def reject_pending_def Let_def\<close>)
      next
        case check: True
        show ?thesis
        proof (cases "(\<exists>g x. vault_acquire now (au_guard a) = Some (Inr x, g)) \<and> is_Ok verified")
          case False
          show ?thesis
            by (rule unanswered)
               (use start yes check False in \<open>auto simp: respond_def pending_prompt_def Let_def
                  split: option.splits sum.splits prod.splits\<close>)
        next
          case True
          show ?thesis
            by (rule approved [of p])
               (use start yes check True in \<open>auto simp: respond_def pending_prompt_def reject_pending_def Let_def
                  split: sum.splits\<close>)
        qed
      qed
    qed
  qed
qed

lemma complete_cases:
  assumes "complete now token request a = (r, log, b)"
  obtains (nothing) "log = []" "b = a"
    | (token) p x c where "map_of (au_confirmed a) request = Some p"
        "au_grants c = au_grants a" "au_epoch c = au_epoch a" "au_pending c = au_pending a"
        "au_confirmed c = al_del request (au_confirmed a)"
        "issue_token now token (pd_caller p) (pd_operation p) (pd_target p) c = (x, b)"
        "log = (case x of Inl e \<Rightarrow> [] | Inr t \<Rightarrow> [Granted t (Some request) (pd_operation p) (pd_target p)])"
proof (cases "map_of (au_confirmed a) request")
  case None
  show ?thesis by (rule nothing) (use assms None in \<open>auto simp: complete_def\<close>)
next
  case (Some p)
  let ?c = "a\<lparr>au_confirmed := al_del request (au_confirmed a),
    au_trusted := (case pd_trusts p of None \<Rightarrow> au_trusted a | Some app \<Rightarrow> app # au_trusted a)\<rparr>"
  obtain x d where x: "issue_token now token (pd_caller p) (pd_operation p) (pd_target p) ?c = (x, d)"
    by fastforce
  have eff: "b = d \<and> log = (case x of Inl e \<Rightarrow> []
      | Inr t \<Rightarrow> [Granted t (Some request) (pd_operation p) (pd_target p)])"
    using assms Some x by (cases x) (simp_all add: complete_def)
  show ?thesis by (rule token [of p ?c x]) (use Some eff x in simp_all)
qed

text \<open>One step, by what it says: nothing, a token given out, a token spent, a question, a yes.\<close>

definition planned :: "host \<Rightarrow> sensitive_op \<Rightarrow> plan \<Rightarrow> bool" where
  "planned h op p \<longleftrightarrow> (\<exists>trusted target locale. make_plan h trusted op target locale = Inr p)"

definition shrinks :: "auth \<Rightarrow> auth \<Rightarrow> bool" where
  "shrinks a b \<longleftrightarrow> set (au_grants b) \<subseteq> set (au_grants a) \<and> length (au_grants b) \<le> length (au_grants a)
     \<and> set (au_pending b) \<subseteq> set (au_pending a) \<and> length (au_pending b) \<le> length (au_pending a)
     \<and> set (au_confirmed b) \<subseteq> set (au_confirmed a) \<and> au_epoch a \<le> au_epoch b"

lemma shrinks_refl [simp]: "shrinks a a"
  by (simp add: shrinks_def)

lemma set_al_del_subset: "set (al_del k m) \<subseteq> set m"
  by (auto simp: al_del_def)

lemmas shrinks_rules = shrinks_def set_al_del_subset length_al_del

lemma issue_token_effect:
  assumes "issue_token now token window op target a = (x, b)"
  obtains (full) e where "x = Inl e" "shrinks a b"
    | (given) c g where "x = Inr token" "shrinks a c" "length (au_grants c) < max_grants"
      "b = c\<lparr>au_grants := al_put token g (au_grants c)\<rparr>"
      "gr_operation g = op" "gr_target g = target" "gr_epoch g = au_epoch a"
proof -
  obtain live where live: "set live \<subseteq> set (au_grants a)" "length live \<le> length (au_grants a)"
    and disj: "(\<exists>e. issue_token now token window op target a = (Inl e, a\<lparr>au_grants := live\<rparr>))
     \<or> length live < max_grants \<and> issue_token now token window op target a
         = (Inr token, a\<lparr>au_grants := al_put token \<lparr>gr_window = window, gr_operation = op, gr_target = target,
              gr_expires = now + token_ttl op, gr_epoch = au_epoch a\<rparr> live\<rparr>)"
    using issue_token_cases by metis
  have "shrinks a (a\<lparr>au_grants := live\<rparr>)" using live by (simp add: shrinks_def)
  with disj assms show ?thesis
    using given [of "a\<lparr>au_grants := live\<rparr>"] full by auto
qed

lemma shrinks_trans: "shrinks a b \<Longrightarrow> shrinks b c \<Longrightarrow> shrinks a c"
  by (auto simp: shrinks_def)

inductive said :: "host \<Rightarrow> auth \<Rightarrow> entry list \<Rightarrow> auth \<Rightarrow> bool" for h where
  quiet: "shrinks a b \<Longrightarrow> said h a [] b"
| given: "shrinks a c \<Longrightarrow> length (au_grants c) < max_grants \<Longrightarrow> gr_epoch g = au_epoch a
    \<Longrightarrow> (case src of
          None \<Rightarrow> \<exists>p. planned h (gr_operation g) p \<and> pn_target p = gr_target g
            \<and> \<not> should_prompt (gr_operation g) (pn_required p) (confirmations_enabled (settings h)) (needs_reauthentication p)
        | Some r \<Rightarrow> \<exists>p. (r, p) \<in> set (au_confirmed a) \<and> pd_operation p = gr_operation g \<and> pd_target p = gr_target g)
    \<Longrightarrow> said h a [Granted t src (gr_operation g) (gr_target g)] (c\<lparr>au_grants := al_put t g (au_grants c)\<rparr>)"
| spent: "map_of (au_grants a) t = Some g \<Longrightarrow> gr_epoch g = au_epoch a
    \<Longrightarrow> said h a [Spent t (gr_operation g) (gr_target g)] (a\<lparr>au_grants := al_del t (au_grants a)\<rparr>)"
| asked: "planned h (pd_operation p) q \<Longrightarrow> length (au_pending a) < max_pending
    \<Longrightarrow> pm_reauthenticate (pd_prompt p) = needs_reauthentication q
    \<Longrightarrow> said h a [Asked r (pd_operation p) (pd_target p) (pm_reauthenticate (pd_prompt p))]
          (a\<lparr>au_pending := al_put r p (au_pending a)\<rparr>)"
| approved: "shrinks a c \<Longrightarrow> (r, p) \<in> set (au_pending a)
    \<Longrightarrow> said h a [Approved r (pm_reauthenticate (pd_prompt p))] (c\<lparr>au_confirmed := al_put r p (au_confirmed c)\<rparr>)"

lemma said_authorize:
  assumes "authorize h now token request window name target locale a = (r, log, b)"
  shows "said h a log b"
  using assms
proof (cases rule: authorize_cases)
  case (nothing e)
  then show ?thesis by (auto intro: said.quiet)
next
  case (token op p x)
  from token(5) show ?thesis
  proof (cases rule: issue_token_effect)
    case (full e)
    then show ?thesis using token(6) by (auto intro: said.quiet)
  next
    case (given c g)
    have "planned h op p" using token(3) by (auto simp: planned_def)
    then show ?thesis
      using given token said.given [where a = a and c = c and g = g and src = None and h = h and t = token] by auto
  qed
next
  case (ask op p q)
  let ?p = "\<lparr>pd_window = confirmation_label request, pd_prompt = q, pd_caller = window, pd_operation = op,
      pd_target = pn_target p, pd_trusts = pn_trusts p\<rparr>"
  have "planned h op p" using ask(2) by (auto simp: planned_def)
  then show ?thesis using said.asked [of h ?p p a request] ask by simp
qed

lemma said_respond:
  assumes "respond now done window request approved verified a = (r, log, b)"
  shows "said h a log b"
  using assms
proof (cases rule: respond_cases)
  case unanswered
  then show ?thesis by (auto intro!: said.quiet simp: shrinks_def)
next
  case refused
  then show ?thesis by (auto intro!: said.quiet simp: shrinks_rules del: subsetI intro: set_al_del_subset)
next
  case (approved p)
  have "shrinks a (b\<lparr>au_confirmed := au_confirmed a\<rparr>)"
    using approved by (auto simp: shrinks_rules del: subsetI intro: set_al_del_subset)
  moreover have "(request, p) \<in> set (au_pending a)" using approved(1) by (rule map_of_SomeD)
  ultimately have "said h a [Approved request (pm_reauthenticate (pd_prompt p))]
      (b\<lparr>au_confirmed := al_put request p (au_confirmed a)\<rparr>)"
    by (rule said.approved [where c = "b\<lparr>au_confirmed := au_confirmed a\<rparr>", simplified])
  moreover have "b\<lparr>au_confirmed := al_put request p (au_confirmed a)\<rparr> = b" using approved(5) by (cases b) simp
  ultimately show ?thesis using approved(2) by simp
qed

lemma said_complete:
  assumes "complete now token request a = (r, log, b)"
  shows "said h a log b"
  using assms
proof (cases rule: complete_cases)
  case nothing
  then show ?thesis by (auto intro: said.quiet)
next
  case (token p x c)
  have shrink: "shrinks a c" using token(2-5) by (simp add: shrinks_rules)
  from token(6) show ?thesis
  proof (cases rule: issue_token_effect)
    case (full e)
    then show ?thesis using token(7) shrink by (auto intro: said.quiet shrinks_trans)
  next
    case (given d g)
    have "shrinks a d" using shrink given(2) by (rule shrinks_trans)
    moreover have "(request, p) \<in> set (au_confirmed a)" using token(1) by (rule map_of_SomeD)
    ultimately show ?thesis
      using given token said.given [where a = a and c = d and g = g and src = "Some request" and h = h and t = token]
      by auto
  qed
qed

lemma said_consume:
  assumes "auth_step (h, Consume now window token op target) a = (r, log, b)"
  shows "said h a log b"
proof -
  have drop: "shrinks a (a\<lparr>au_grants := al_del token (au_grants a)\<rparr>)" by (simp add: shrinks_rules)
  consider (no) e where "consume_token h now window token op target a = (Inl e, a)"
    | (gone) e where "consume_token h now window token op target a = (Inl e, a\<lparr>au_grants := al_del token (au_grants a)\<rparr>)"
    | (yes) g where "map_of (au_grants a) token = Some g" "gr_epoch g = au_epoch a" "gr_operation g = op"
        "consume_token h now window token op target a = (Inr (), a\<lparr>au_grants := al_del token (au_grants a)\<rparr>)"
        "normalized_target h op target = Inr (gr_target g)"
    using consume_token_cases by metis
  then show ?thesis
  proof cases
    case no
    then show ?thesis using assms by (auto intro: said.quiet)
  next
    case gone
    then show ?thesis using assms drop by (auto intro: said.quiet)
  next
    case yes
    then show ?thesis using assms said.spent [of a token g h] by auto
  qed
qed

lemma said_step: "auth_step (h, e) a = (r, log, b) \<Longrightarrow> said h a log b"
proof (cases e)
  case Reject
  then show "said h a log b" if "auth_step (h, e) a = (r, log, b)"
    using that by (auto intro!: said.quiet simp: reject_pending_def shrinks_rules)
next
  case LockVault
  then show "said h a log b" if "auth_step (h, e) a = (r, log, b)"
    using that by (auto intro!: said.quiet simp: shrinks_def)
next
  case RevokeAll
  then show "said h a log b" if "auth_step (h, e) a = (r, log, b)"
    using that by (auto intro!: said.quiet simp: revoke_all_def shrinks_def)
qed (auto intro: said_authorize said_respond said_complete said_consume simp del: auth_step.simps(5))

lemma auth_run_induct [case_names new step]:
  assumes "I [] auth_new"
    and "\<And>h e es new b. (h, e) \<in> set es' \<Longrightarrow> I (fst (auth_run es)) (snd (auth_run es))
        \<Longrightarrow> said h (snd (auth_run es)) new b \<Longrightarrow> I (new @ fst (auth_run es)) b"
  shows "I (fst (auth_run es')) (snd (auth_run es'))"
proof -
  have "set es \<subseteq> set es' \<Longrightarrow> I (fst (auth_run es)) (snd (auth_run es))" for es
  proof (induction es)
    case Nil
    then show ?case using assms(1) by simp
  next
    case (Cons x es)
    obtain h e where x: "x = (h, e)" by (cases x)
    obtain r new b where s: "auth_step (h, e) (snd (auth_run es)) = (r, new, b)" by (cases "auth_step (h, e) (snd (auth_run es))")
    have "I (new @ fst (auth_run es)) b"
      using assms(2) [of h e es new b] Cons said_step [OF s] by (auto simp: x)
    then show ?case using s by (simp add: x split_beta)
  qed
  then show ?thesis by simp
qed

section \<open>Bounds, and each token once\<close>

definition gives :: "nat \<Rightarrow> entry \<Rightarrow> bool" where
  "gives t e = (case e of Granted u _ _ _ \<Rightarrow> u = t | _ \<Rightarrow> False)"

definition spends :: "nat \<Rightarrow> entry \<Rightarrow> bool" where
  "spends t e = (case e of Spent u _ _ \<Rightarrow> u = t | _ \<Rightarrow> False)"

definition times_given :: "nat \<Rightarrow> entry list \<Rightarrow> nat" where
  "times_given t log = length (filter (gives t) log)"

definition times_spent :: "nat \<Rightarrow> entry list \<Rightarrow> nat" where
  "times_spent t log = length (filter (spends t) log)"

definition tokens_ok :: "entry list \<Rightarrow> auth \<Rightarrow> bool" where
  "tokens_ok log a \<longleftrightarrow> length (au_grants a) \<le> max_grants \<and> length (au_pending a) \<le> max_pending
     \<and> (\<forall>t. times_spent t log + (if t \<in> fst ` set (au_grants a) then 1 else 0) \<le> times_given t log)"

lemma times_Cons [simp]:
  "times_given u (Granted t src op tgt # log) = times_given u log + (if u = t then 1 else 0)"
  "times_given u (Spent t op tgt # log) = times_given u log"
  "times_given u (Asked r op tgt c # log) = times_given u log"
  "times_given u (Approved r c # log) = times_given u log"
  "times_spent u (Granted t src op tgt # log) = times_spent u log"
  "times_spent u (Spent t op tgt # log) = times_spent u log + (if u = t then 1 else 0)"
  "times_spent u (Asked r op tgt c # log) = times_spent u log"
  "times_spent u (Approved r c # log) = times_spent u log"
  by (simp_all add: times_given_def times_spent_def gives_def spends_def)

lemma tokens_ok_shrink:
  assumes "shrinks a b" and "tokens_ok log a"
  shows "tokens_ok log b"
proof -
  have sub: "fst ` set (au_grants b) \<subseteq> fst ` set (au_grants a)" using assms(1) by (auto simp: shrinks_def)
  have "times_spent t log + (if t \<in> fst ` set (au_grants b) then 1 else 0) \<le> times_given t log" for t
  proof -
    have "(if t \<in> fst ` set (au_grants b) then 1 else (0::nat)) \<le> (if t \<in> fst ` set (au_grants a) then 1 else 0)"
      using sub by (simp add: subset_iff)
    then show ?thesis using assms(2) by (simp only: tokens_ok_def) (meson add_left_mono le_trans)
  qed
  then show ?thesis using assms by (simp add: tokens_ok_def shrinks_def)
qed

lemma tokens_ok_step:
  assumes "said h a new b" and "tokens_ok log a"
  shows "tokens_ok (new @ log) b"
  using assms
proof (cases rule: said.cases)
  case quiet
  then show ?thesis using tokens_ok_shrink [OF _ assms(2)] by simp
next
  case (given c g src t)
  have keys: "fst ` set (al_put t g (au_grants c)) = insert t (fst ` set (au_grants c))"
    using keys_al_put [of t g "au_grants c"] by simp
  have sub: "fst ` set (au_grants c) \<subseteq> fst ` set (au_grants a)" using given(3) by (auto simp: shrinks_def)
  have "times_spent u log + (if u \<in> insert t (fst ` set (au_grants c)) then 1 else 0)
      \<le> times_given u log + (if u = t then 1 else 0)" for u
  proof -
    have old: "times_spent u log + (if u \<in> fst ` set (au_grants a) then 1 else 0) \<le> times_given u log"
      using assms(2) by (simp add: tokens_ok_def)
    show ?thesis
    proof (cases "u = t")
      case True
      then show ?thesis using old by simp
    next
      case False
      show ?thesis
      proof (cases "u \<in> fst ` set (au_grants c)")
        case True
        then have "u \<in> fst ` set (au_grants a)" using sub by blast
        then show ?thesis using old False by simp
      qed (use old False in \<open>auto split: if_splits\<close>)
    qed
  qed
  moreover have "length (al_put t g (au_grants c)) \<le> max_grants"
    using given(4) length_al_put [of t g "au_grants c"] by simp
  ultimately show ?thesis
    using assms(2) given(1-3) by (simp add: tokens_ok_def keys [simplified] shrinks_def)
next
  case (spent t g)
  have "t \<in> fst ` set (au_grants a)" using map_of_SomeD [OF spent(3)] by force
  then have "times_spent u log + (if u = t then 1 else 0) + (if u \<in> fst ` set (al_del t (au_grants a)) then 1 else 0)
      \<le> times_given u log" for u
    using assms(2) by (cases "u = t") (force simp: tokens_ok_def set_al_del split: if_splits)+
  then show ?thesis
    using assms(2) spent length_al_del [of t "au_grants a"]
    by (simp add: tokens_ok_def)
next
  case (asked p q r)
  then show ?thesis
    using assms(2) length_al_put [of r p "au_pending a"]
    by (simp add: tokens_ok_def)
next
  case (approved c r p)
  then have "fst ` set (au_grants c) \<subseteq> fst ` set (au_grants a)" by (auto simp: shrinks_def)
  then show ?thesis
    using tokens_ok_shrink [OF approved(3) assms(2)] approved(1,2)
    by (simp add: tokens_ok_def)
qed

lemma tokens_ok_run: "tokens_ok (fst (auth_run es)) (snd (auth_run es))"
proof (induction rule: auth_run_induct)
  case new
  then show ?case by (simp add: tokens_ok_def auth_new_def times_given_def times_spent_def)
next
  case (step h e es new b)
  then show ?case by (blast intro: tokens_ok_step)
qed

section \<open>No token without an answer\<close>

text \<open>What a run keeps when some operations are always asked about, and some with the master
  password: each pending question was asked, each confirmed one approved, each token given out
  for such an operation answers an approved question about that very target, and was given out
  before it is spent.\<close>

definition answered :: "(sensitive_op \<Rightarrow> bool) \<Rightarrow> sensitive_op \<Rightarrow> string \<Rightarrow> entry list \<Rightarrow> bool" where
  "answered needs op target log \<longleftrightarrow>
     (\<exists>r c. Asked r op target c \<in> set log \<and> Approved r c \<in> set log \<and> (needs op \<longrightarrow> c))"

fun entry_ok :: "(sensitive_op \<Rightarrow> bool) \<Rightarrow> (sensitive_op \<Rightarrow> bool) \<Rightarrow> entry list \<Rightarrow> entry \<Rightarrow> bool" where
  "entry_ok must needs log (Asked r op target c) \<longleftrightarrow> (needs op \<longrightarrow> c)"
| "entry_ok must needs log (Approved r c) \<longleftrightarrow> True"
| "entry_ok must needs log (Granted t src op target) \<longleftrightarrow> (must op \<longrightarrow> answered needs op target log)"
| "entry_ok must needs log (Spent t op target) \<longleftrightarrow> (\<exists>src. Granted t src op target \<in> set log)"

fun log_ok :: "(sensitive_op \<Rightarrow> bool) \<Rightarrow> (sensitive_op \<Rightarrow> bool) \<Rightarrow> entry list \<Rightarrow> bool" where
  "log_ok must needs [] \<longleftrightarrow> True"
| "log_ok must needs (e # log) \<longleftrightarrow> entry_ok must needs log e \<and> log_ok must needs log"

definition explained :: "entry list \<Rightarrow> auth \<Rightarrow> bool" where
  "explained log a \<longleftrightarrow>
     (\<forall>(t, g) \<in> set (au_grants a). \<exists>src. Granted t src (gr_operation g) (gr_target g) \<in> set log)
   \<and> (\<forall>(r, p) \<in> set (au_pending a).
        Asked r (pd_operation p) (pd_target p) (pm_reauthenticate (pd_prompt p)) \<in> set log)
   \<and> (\<forall>(r, p) \<in> set (au_confirmed a).
        Asked r (pd_operation p) (pd_target p) (pm_reauthenticate (pd_prompt p)) \<in> set log
        \<and> Approved r (pm_reauthenticate (pd_prompt p)) \<in> set log)"

lemma ball_al_put: "P (k, v) \<Longrightarrow> \<forall>x \<in> set m. P x \<Longrightarrow> \<forall>x \<in> set (al_put k v m). P x"
  using set_al_put [of k v m] by blast

lemma explained_more: "explained log a \<Longrightarrow> explained (e # log) a"
  unfolding explained_def by fastforce

lemma explained_shrink: "shrinks a b \<Longrightarrow> explained log a \<Longrightarrow> explained log b"
  unfolding explained_def shrinks_def by (blast dest: subsetD)

lemma explained_grant:
  assumes "explained log a" and "Granted t src (gr_operation g) (gr_target g) \<in> set log"
  shows "explained log (a\<lparr>au_grants := al_put t g (au_grants a)\<rparr>)"
proof -
  have "\<forall>(t, g) \<in> set (al_put t g (au_grants a)). \<exists>src. Granted t src (gr_operation g) (gr_target g) \<in> set log"
    by (rule ball_al_put) (use assms in \<open>auto simp: explained_def\<close>)
  then show ?thesis using assms(1) by (simp add: explained_def)
qed

lemma explained_pending:
  assumes "explained log a" and "Asked r (pd_operation p) (pd_target p) (pm_reauthenticate (pd_prompt p)) \<in> set log"
  shows "explained log (a\<lparr>au_pending := al_put r p (au_pending a)\<rparr>)"
proof -
  have "\<forall>x \<in> set (al_put r p (au_pending a)). Asked (fst x) (pd_operation (snd x)) (pd_target (snd x))
      (pm_reauthenticate (pd_prompt (snd x))) \<in> set log"
    by (rule ball_al_put) (use assms in \<open>auto simp: explained_def\<close>)
  then show ?thesis using assms(1) by (auto simp: explained_def)
qed

lemma explained_confirmed:
  assumes "explained log a" and "Asked r (pd_operation p) (pd_target p) (pm_reauthenticate (pd_prompt p)) \<in> set log"
    and "Approved r (pm_reauthenticate (pd_prompt p)) \<in> set log"
  shows "explained log (a\<lparr>au_confirmed := al_put r p (au_confirmed a)\<rparr>)"
proof -
  have "\<forall>x \<in> set (al_put r p (au_confirmed a)). Asked (fst x) (pd_operation (snd x)) (pd_target (snd x))
      (pm_reauthenticate (pd_prompt (snd x))) \<in> set log \<and> Approved (fst x) (pm_reauthenticate (pd_prompt (snd x))) \<in> set log"
    by (rule ball_al_put) (use assms in \<open>auto simp: explained_def\<close>)
  then show ?thesis using assms(1) by (auto simp: explained_def)
qed

lemma explained_spent: "explained log a \<Longrightarrow> explained log (a\<lparr>au_grants := al_del t (au_grants a)\<rparr>)"
  by (rule explained_shrink [of a]) (simp_all add: shrinks_rules)

lemma log_ok_asked: "log_ok must needs log \<Longrightarrow> Asked r op target c \<in> set log \<Longrightarrow> needs op \<Longrightarrow> c"
  by (induction log) auto

lemma answered_more: "answered needs op target log \<Longrightarrow> answered needs op target (e # log)"
  by (auto simp: answered_def)

lemma log_ok_granted:
  "log_ok must needs log \<Longrightarrow> Granted t src op target \<in> set log \<Longrightarrow> must op \<Longrightarrow> answered needs op target log"
  by (induction log) (auto intro: answered_more)

lemma log_ok_spent:
  "log_ok must needs log \<Longrightarrow> Spent t op target \<in> set log \<Longrightarrow> must op \<Longrightarrow> answered needs op target log"
  by (induction log) (auto intro!: answered_more intro: log_ok_granted)

locale consent =
  fixes must needs :: "sensitive_op \<Rightarrow> bool" and host_ok :: "host \<Rightarrow> bool"
  assumes must_ask: "host_ok h \<Longrightarrow> planned h op p \<Longrightarrow> must op
      \<Longrightarrow> should_prompt op (pn_required p) (confirmations_enabled (settings h)) (needs_reauthentication p)"
    and must_check: "host_ok h \<Longrightarrow> planned h op p \<Longrightarrow> needs op \<Longrightarrow> needs_reauthentication p"
begin

lemma consent_step:
  assumes "said h a new b" and "host_ok h" and ok: "log_ok must needs log" "explained log a"
  shows "log_ok must needs (new @ log) \<and> explained (new @ log) b"
  using assms(1)
proof (cases rule: said.cases)
  case quiet
  then show ?thesis using explained_shrink ok by simp
next
  case (given c g src t)
  have "answered needs (gr_operation g) (gr_target g) log" if "must (gr_operation g)"
  proof (cases src)
    case None
    then show ?thesis using given(6) must_ask [OF assms(2) _ that] by auto
  next
    case (Some r)
    then obtain p where p: "(r, p) \<in> set (au_confirmed a)" "pd_operation p = gr_operation g"
        "pd_target p = gr_target g"
      using given(6) by auto
    then have "Asked r (gr_operation g) (gr_target g) (pm_reauthenticate (pd_prompt p)) \<in> set log"
        "Approved r (pm_reauthenticate (pd_prompt p)) \<in> set log"
      using ok(2) by (fastforce simp: explained_def)+
    then show ?thesis using log_ok_asked [OF ok(1)] unfolding answered_def by blast
  qed
  moreover have "explained (Granted t src (gr_operation g) (gr_target g) # log) b"
    unfolding given(2) by (rule explained_grant) (use explained_more [OF explained_shrink [OF given(3) ok(2)]] in auto)
  ultimately show ?thesis using ok(1) given(1) by simp
next
  case (spent t g)
  have "(t, g) \<in> set (au_grants a)" using spent(3) by (rule map_of_SomeD)
  then have "\<exists>src. Granted t src (gr_operation g) (gr_target g) \<in> set log"
    using ok(2) by (fastforce simp: explained_def)
  then show ?thesis using ok spent(1,2) by (simp add: explained_more explained_spent)
next
  case (asked p q r)
  have "needs (pd_operation p) \<longrightarrow> pm_reauthenticate (pd_prompt p)"
    using asked(3,5) must_check [OF assms(2)] by blast
  then show ?thesis using ok asked(1,2) by (simp add: explained_more explained_pending)
next
  case (approved c r p)
  have "Asked r (pd_operation p) (pd_target p) (pm_reauthenticate (pd_prompt p)) \<in> set log"
    using approved(4) ok(2) by (fastforce simp: explained_def)
  then show ?thesis
    using explained_more [OF explained_shrink [OF approved(3) ok(2)]] approved(1,2) ok(1)
    by (simp add: explained_confirmed)
qed

lemma consent_run:
  assumes "\<forall>(h, e) \<in> set es. host_ok h"
  shows "log_ok must needs (fst (auth_run es)) \<and> explained (fst (auth_run es)) (snd (auth_run es))"
proof (induction rule: auth_run_induct)
  case new
  then show ?case by (simp add: explained_def auth_new_def)
next
  case (step h e es' new b)
  from assms step(1) have "host_ok h" by blast
  then show ?case using consent_step step by blast
qed

lemma spent_was_answered:
  assumes "\<forall>(h, e) \<in> set es. host_ok h" and "Spent t op target \<in> set (fst (auth_run es))" and "must op"
  shows "answered needs op target (fst (auth_run es))"
  using consent_run [OF assms(1)] assms(2,3) log_ok_spent by blast

end

text \<open>Two readings of what the plans make: the operations that always ask, and with a configured
  vault the ones that need its password.\<close>

definition always_asks :: "sensitive_op \<Rightarrow> bool" where
  "always_asks op \<longleftrightarrow> op \<in> {VaultReset, VaultUseSystemProtection, SessionTrustHostKey}"

definition reveals :: "sensitive_op \<Rightarrow> bool" where
  "reveals op \<longleftrightarrow> op \<in> {SitesRevealSecret, SettingsRevealProxyPassword, VaultUseSystemProtection}"

lemma confirmation_prompt_reauthenticate:
  "confirmation_prompt h op target locale b = Inr p \<Longrightarrow> pm_reauthenticate p = b"
  by (cases op) (auto simp: confirmation_prompt_def)

lemma plan_operation_planned:
  assumes "plan_operation h op target locale = Inr p"
  shows "pn_required p = (requires_confirmation op \<or> op = AppExportSettings \<and> pn_target p = ''secrets'')"
    and "vault_configured h \<Longrightarrow> reveals op \<Longrightarrow> needs_reauthentication p"
  using assms
  by (auto simp: plan_operation_def Let_def reveals_def needs_reauthentication_def normalized_target_def
        dest: confirmation_prompt_reauthenticate split: sum.splits if_splits)

lemma planned_by_operation:
  assumes "planned h op p" and "op \<notin> {OpenWithStart, SettingsSetSecurity, SitesSave, SessionTrustHostKey}"
  obtains target lang where "plan_operation h op target lang = Inr p"
  using assms by (auto simp: planned_def make_plan_def)

lemma planned_host_key: "planned h SessionTrustHostKey p \<Longrightarrow> pn_required p"
  by (auto simp: planned_def make_plan_def plan_host_key_def bind_Inr_iff)

interpretation always_asked: consent always_asks "\<lambda>_. False" "\<lambda>_. True"
proof unfold_locales
  fix h op p
  assume plan: "planned h op p" and op: "always_asks op"
  have "pn_required p"
  proof (cases "op = SessionTrustHostKey")
    case True
    then show ?thesis using plan planned_host_key by blast
  next
    case False
    obtain target lang where "plan_operation h op target lang = Inr p"
      by (rule planned_by_operation [OF plan]) (use op False in \<open>auto simp: always_asks_def\<close>)
    then show ?thesis
      using plan_operation_planned(1) op False by (auto simp: always_asks_def requires_confirmation_def)
  qed
  then show "should_prompt op (pn_required p) (confirmations_enabled (settings h)) (needs_reauthentication p)"
    using op by (auto simp: should_prompt_def should_show_confirmation_def always_asks_def)
qed simp

interpretation password_checked: consent reveals reveals vault_configured
proof unfold_locales
  show check: "needs_reauthentication p" if "vault_configured h" "planned h op p" "reveals op" for h op p
  proof -
    note given = that
    obtain target lang where "plan_operation h op target lang = Inr p"
      by (rule planned_by_operation [OF given(2)]) (use given(3) in \<open>auto simp: reveals_def\<close>)
    then show ?thesis using plan_operation_planned(2) that by blast
  qed
  show "should_prompt op (pn_required p) (confirmations_enabled (settings h)) (needs_reauthentication p)"
    if "vault_configured h" "planned h op p" "reveals op" for h op p
    using check [OF that] by (simp add: should_prompt_def)
qed

section \<open>Locking\<close>

definition epochs_ok :: "auth \<Rightarrow> bool" where
  "epochs_ok a \<longleftrightarrow> (\<forall>(t, g) \<in> set (au_grants a). gr_epoch g \<le> au_epoch a)"

lemma epochs_ok_shrink: "shrinks a b \<Longrightarrow> epochs_ok a \<Longrightarrow> epochs_ok b"
  unfolding epochs_ok_def shrinks_def by fastforce

lemma epochs_ok_step:
  assumes "said h a new b" and "epochs_ok a"
  shows "epochs_ok b"
  using assms(1)
proof (cases rule: said.cases)
  case (given c g src t)
  have "\<forall>(t, g) \<in> set (al_put t g (au_grants c)). gr_epoch g \<le> au_epoch c"
    by (rule ball_al_put) (use given(3,5) epochs_ok_shrink [OF given(3) assms(2)] in \<open>auto simp: epochs_ok_def shrinks_def\<close>)
  then show ?thesis by (simp add: given(2) epochs_ok_def)
next
  case quiet
  then show ?thesis using epochs_ok_shrink [OF _ assms(2)] by simp
next
  case (approved c r p)
  then show ?thesis using epochs_ok_shrink [OF approved(3) assms(2)] by (simp add: epochs_ok_def)
qed (use assms(2) in \<open>auto simp: epochs_ok_def set_al_del\<close>)

lemma epochs_ok_run: "epochs_ok (snd (auth_run es))"
proof (induction rule: auth_run_induct)
  case new
  then show ?case by (simp add: epochs_ok_def auth_new_def)
next
  case (step h e es' new b)
  then show ?case by (blast intro: epochs_ok_step)
qed

text \<open>From an epoch on: what is out is older, or was given out since and is on the new part of the
  record.\<close>

definition fresh_since :: "nat \<Rightarrow> entry list \<Rightarrow> auth \<Rightarrow> bool" where
  "fresh_since n new a \<longleftrightarrow> n \<le> au_epoch a
     \<and> (\<forall>(t, g) \<in> set (au_grants a). gr_epoch g < n \<or> (\<exists>src. Granted t src (gr_operation g) (gr_target g) \<in> set new))
     \<and> (\<forall>t op target. Spent t op target \<in> set new \<longrightarrow> (\<exists>src. Granted t src op target \<in> set new))"

lemma fresh_since_shrink: "shrinks a b \<Longrightarrow> fresh_since n new a \<Longrightarrow> fresh_since n new b"
  unfolding fresh_since_def shrinks_def by (blast dest: subsetD intro: le_trans)

lemma fresh_since_step:
  assumes "said h a fresh b" and ok: "fresh_since n new a"
  shows "fresh_since n (fresh @ new) b"
  using assms(1)
proof (cases rule: said.cases)
  case quiet
  then show ?thesis using fresh_since_shrink [OF _ ok] by simp
next
  case (given c g src t)
  let ?new = "Granted t src (gr_operation g) (gr_target g) # new"
  have c: "fresh_since n new c" by (rule fresh_since_shrink [OF given(3) ok])
  have "\<forall>(t, g) \<in> set (al_put t g (au_grants c)).
      gr_epoch g < n \<or> (\<exists>src. Granted t src (gr_operation g) (gr_target g) \<in> set ?new)"
    by (rule ball_al_put) (use c in \<open>fastforce simp: fresh_since_def\<close>)+
  moreover have "\<forall>t op target. Spent t op target \<in> set ?new \<longrightarrow> (\<exists>src. Granted t src op target \<in> set ?new)"
    using c by (auto simp: fresh_since_def) blast
  ultimately show ?thesis using c unfolding given(1,2) fresh_since_def by simp
next
  case (spent t g)
  have "(t, g) \<in> set (au_grants a)" using spent(3) by (rule map_of_SomeD)
  moreover have "\<not> gr_epoch g < n" using spent(4) ok by (simp add: fresh_since_def)
  ultimately have "\<exists>src. Granted t src (gr_operation g) (gr_target g) \<in> set new"
    using ok by (fastforce simp: fresh_since_def)
  then show ?thesis using ok unfolding spent(1,2) fresh_since_def by (auto simp: set_al_del)
next
  case (asked p q r)
  then show ?thesis using ok by (auto simp: fresh_since_def)
next
  case (approved c r p)
  then show ?thesis using fresh_since_shrink [OF approved(3) ok] by (auto simp: fresh_since_def)
qed

lemma fresh_since_run:
  assumes "fresh_since n [] (snd (auth_run es))"
  shows "\<exists>new. fst (auth_run (later @ es)) = new @ fst (auth_run es) \<and> fresh_since n new (snd (auth_run (later @ es)))"
proof (induction later)
  case Nil
  then show ?case using assms by simp
next
  case (Cons x later)
  then obtain new where new: "fst (auth_run (later @ es)) = new @ fst (auth_run es)"
    "fresh_since n new (snd (auth_run (later @ es)))" by blast
  obtain h e where x: "x = (h, e)" by (cases x)
  obtain r fresh b where s: "auth_step (h, e) (snd (auth_run (later @ es))) = (r, fresh, b)"
    by (cases "auth_step (h, e) (snd (auth_run (later @ es)))")
  have "fresh_since n (fresh @ new) b" by (rule fresh_since_step [OF said_step [OF s] new(2)])
  then show ?case using s new(1) by (auto simp: x split_beta intro: exI [of _ "fresh @ new"])
qed

section \<open>Properties\<close>

text \<open>C5: Resetting the vault, giving up its password and trusting a changed host key always ask: such a
  token is spent only when a question about that operation and that very target was asked in a
  confirmation window and answered yes before, whatever the settings say and however the calls,
  answers and locks interleaved.\<close>

theorem spent_needs_approval:
  assumes "Spent t op target \<in> set (fst (auth_run es))"
    and "op \<in> {VaultReset, VaultUseSystemProtection, SessionTrustHostKey}"
  shows "\<exists>r c. Asked r op target c \<in> set (fst (auth_run es)) \<and> Approved r c \<in> set (fst (auth_run es))"
proof -
  have "answered (\<lambda>_. False) op target (fst (auth_run es))"
    by (rule always_asked.spent_was_answered [OF _ assms(1)]) (use assms(2) in \<open>auto simp: always_asks_def\<close>)
  then show ?thesis by (auto simp: answered_def)
qed


text \<open>Tokens are single use and few: over any run each token is spent at most as often as it was given
  out, at most 32 wait to be spent and at most four questions are open.\<close>

theorem tokens_single_use:
  "times_spent t (fst (auth_run es)) \<le> times_given t (fst (auth_run es))
   \<and> length (au_grants (snd (auth_run es))) \<le> 32 \<and> length (au_pending (snd (auth_run es))) \<le> 4"
  using tokens_ok_run [of es] by (auto simp: tokens_ok_def max_grants_def max_pending_def dest: spec [of _ t])

text \<open>Locking the vault, and revoking, end every token that is out: whatever is spent afterwards was
  given out afterwards.\<close>

theorem locking_ends_tokens:
  assumes "e = LockVault \<or> e = RevokeAll" and "fst (auth_run (later @ (h, e) # before)) = new @ fst (auth_run before)"
    and "Spent t op target \<in> set new"
  shows "\<exists>src. Granted t src op target \<in> set new"
proof -
  have out: "fst (auth_run ((h, e) # before)) = fst (auth_run before)"
    using assms(1) by (auto simp: split_beta)
  have "fresh_since (au_epoch (snd (auth_run ((h, e) # before)))) [] (snd (auth_run ((h, e) # before)))"
    using assms(1)
  proof
    assume "e = LockVault"
    then show ?thesis using epochs_ok_run [of before]
      by (fastforce simp: fresh_since_def epochs_ok_def split_beta less_Suc_eq_le)
  next
    assume "e = RevokeAll"
    then show ?thesis by (simp add: fresh_since_def revoke_all_def split_beta)
  qed
  from fresh_since_run [OF this, of later] obtain new' where
    "fst (auth_run (later @ (h, e) # before)) = new' @ fst (auth_run before)"
    "fresh_since (au_epoch (snd (auth_run ((h, e) # before)))) new' (snd (auth_run (later @ (h, e) # before)))"
    unfolding out by blast
  then show ?thesis using assms(2,3) by (auto simp: fresh_since_def)
qed

text \<open>C7: A change of protected settings that lowers a guard or moves the proxy password is never let
  through without asking, whatever the settings say: no token is given out by the request, and the
  one question it may put is about exactly that patch, with the master password when a guard is
  lowered on a vault that has one.\<close>

theorem weakening_is_asked:
  assumes "authorize h now token request window ''settings_set_security'' target lang a = (r, log, b)"
    and "security_patch_from_request h target = Inr patch" and "needs_confirmation_path (settings h) patch"
  shows "au_grants b = au_grants a \<and> (log = [] \<or> log = [Asked request SettingsSetSecurity
      (grant_target (render_grant h) (settings h) patch)
      (vault_configured h \<and> \<not> weakening_empty (find_weakening (settings h) patch))])"
proof -
  have op: "op_parse ''settings_set_security'' = Some SettingsSetSecurity" by code_simp
  have plan: "needs_reauthentication p = (vault_configured h \<and> \<not> weakening_empty (find_weakening (settings h) patch))
      \<and> pn_required p \<and> pn_target p = grant_target (render_grant h) (settings h) patch"
    if "make_plan h (au_trusted a) SettingsSetSecurity target l = Inr p" for p l
    using that assms(2,3)
    by (auto simp: make_plan_def plan_protected_settings_def Let_def needs_reauthentication_def needs_confirmation_path_def)
  from assms(1) show ?thesis
  proof (cases rule: authorize_cases)
    case (token op p x)
    then show ?thesis
      using op plan by (auto simp: should_prompt_def should_show_confirmation_def)
  qed (use op plan in auto)
qed

definition sample_host :: host where
  "sample_host = \<lparr>canonicalize = Some, shell_path = id, parse_open_with = (\<lambda>_. None),
     canonical_application = Inr, executable_name = (\<lambda>_. False), render_intent = in_remote_path,
     parse_host_key = (\<lambda>_. None), parse_map = (\<lambda>_. Some [(key_confirmations, JBool False)]),
     settings_issue = (\<lambda>_. None), render_grant = (\<lambda>_. ''patch''), render_site = fst,
     saved_site = (\<lambda>_. None), settings = [], vault_configured = True, vault_damaged = False,
     vault_unlocked = True, system_unlock = False\<rparr>"

text \<open>Latest first: a saved password is asked for, the question answered with the password checked,
  the token given out and spent.\<close>

definition sample_reveal :: "(host \<times> auth_event) list" where
  "sample_reveal = map (Pair sample_host)
     [Consume 3 ''main'' 7 SitesRevealSecret ''s1'', Complete 2 7 1,
      Respond 1 1 (confirmation_label 1) 1 True (Inr ()),
      Authorize 0 9 1 ''main'' ''sites_reveal_secret'' ''s1'' None]"

lemmas auth_eval = sample_host_def authorize_def make_plan_def plan_operation_def op_parse_def all_ops_def
    normalized_target_def requires_confirmation_def confirmation_prompt_def should_prompt_def should_show_confirmation_def needs_reauthentication_def
    add_pending_def auth_new_def Let_def max_pending_def al_put_def prompt_locale_def
  respond_def pending_prompt_def vault_acquire_def vault_guard_default_def vault_guard_new_def prune_failures_def
  reject_pending_def al_del_def outcome_of_def permit_finish_def vault_record_def vault_succeeded_def plain_prompt_def
  complete_def issue_token_def max_grants_def token_ttl_def consume_token_def sample_reveal_def
lemma sample_reveal_log: "fst (auth_run sample_reveal) =
  [Spent 7 SitesRevealSecret ''s1'', Granted 7 (Some 1) SitesRevealSecret ''s1'', Approved 1 True,
   Asked 1 SitesRevealSecret ''s1'' True]"
  by (simp add: auth_eval)

definition sample_reset :: "(host \<times> auth_event) list" where
  "sample_reset = map (Pair sample_host)
     [Consume 3 ''main'' 7 VaultReset [], Complete 2 7 1,
      Respond 1 1 (confirmation_label 1) 1 True (Inr ()),
      Authorize 0 9 1 ''main'' ''vault_reset'' [] None]"

theorem spent_needs_approval_witness:
  "\<exists>r c. Asked r VaultReset [] c \<in> set (fst (auth_run sample_reset))
     \<and> Approved r c \<in> set (fst (auth_run sample_reset))"
proof (rule spent_needs_approval [of 7])
  show "Spent 7 VaultReset [] \<in> set (fst (auth_run sample_reset))" by (simp add: sample_reset_def auth_eval)
qed simp

definition sample_before :: "(host \<times> auth_event) list" where
  "sample_before = [(sample_host, Authorize 0 9 1 ''main'' ''app_import_preview'' ''f'' None)]"
definition sample_later :: "(host \<times> auth_event) list" where
  "sample_later = [(sample_host, Consume 2 ''main'' 9 AppImportPreview ''f''), (sample_host, Authorize 0 9 1 ''main'' ''app_import_preview'' ''f'' None)]"

theorem locking_ends_tokens_witness:
  "\<exists>src. Granted 9 src AppImportPreview ''f'' \<in> set [Spent 9 AppImportPreview ''f'', Granted 9 None AppImportPreview ''f'']"
proof (rule locking_ends_tokens [of LockVault sample_later sample_host sample_before])
  show "fst (auth_run (sample_later @ (sample_host, LockVault) # sample_before))
    = [Spent 9 AppImportPreview ''f'', Granted 9 None AppImportPreview ''f''] @ fst (auth_run sample_before)"
    by (simp add: sample_later_def sample_before_def auth_eval)
qed simp_all

theorem weakening_is_asked_witness:
  "au_grants (snd (snd (authorize sample_host 0 9 1 ''main'' ''settings_set_security'' [] None auth_new))) = []"
proof -
  obtain r log b where r: "authorize sample_host 0 9 1 ''main'' ''settings_set_security'' [] None auth_new = (r, log, b)"
    by (metis prod_cases3)
  have "security_patch_from_request sample_host [] = Inr [(key_confirmations, JBool False)]" by code_simp
  moreover have "needs_confirmation_path (settings sample_host) [(key_confirmations, JBool False)]" by code_simp
  ultimately show ?thesis using weakening_is_asked [OF r] r by (simp add: auth_new_def)
qed

end
