(* ===== verification/ListParse.thy ===== *)
theory ListParse
  imports Ipc
begin

text \<open>
  The lines of an FTP listing (\<open>protocol/list_parse.rs\<close>): what LIST prints in the Unix and IIS styles,
  and the facts of MLSD. The two regular expressions are data, a list of items a matcher reads from
  the left; the matcher of the regex library and the date parser of chrono are parameters, and
  \<open>engine_ok\<close> states what the first one documents. Instants are nanoseconds since 1970.
\<close>

section \<open>Patterns\<close>

datatype cls = Among string | DigitOr string | NotSpace | White | AnyButNewline

datatype rx = Cls cls nat "nat option" | Branch "rx list" "rx list" | Open nat | Close nat

definition lit :: "string \<Rightarrow> rx list" where "lit s = map (\<lambda>ch. Cls (Among [ch]) 1 (Some 1)) s"

definition digits :: "nat \<Rightarrow> nat option \<Rightarrow> rx" where "digits lo hi = Cls (DigitOr []) lo hi"

definition posix_re :: "rx list" where
  "posix_re =
     [Open 1, Cls (Among ''-ld'') 1 (Some 1), Close 1, Open 2, Cls (Among ''-rwxsStT'') 9 (Some 9), Close 2,
      Cls White 1 None, Open 3, digits 1 None, Close 3, Cls White 1 None, Open 4, Cls NotSpace 1 None, Close 4,
      Cls White 1 None, Open 5, Cls NotSpace 1 None, Close 5, Cls White 1 None, Open 6, digits 1 None, Close 6,
      Cls White 1 None, Open 7, Cls NotSpace 1 None, Cls White 1 None, digits 1 (Some 2), Cls White 1 None,
      Branch ([digits 1 (Some 2)] @ lit '':'' @ [digits 1 (Some 2)]) [digits 4 (Some 4)], Close 7]
     @ lit '' '' @ [Open 8, Cls AnyButNewline 1 None, Close 8]"

definition dos_re :: "rx list" where
  "dos_re =
     [Open 1, digits 2 (Some 2)] @ lit ''-'' @ [digits 2 (Some 2)] @ lit ''-'' @ [digits 2 (Some 2), Cls White 1 None,
      digits 2 (Some 2)] @ lit '':'' @ [digits 2 (Some 2), Cls White 0 None, Cls (Among ''AP'') 1 (Some 1)] @ lit ''M''
     @ [Close 1, Cls White 1 None,
        Branch ([Open 2] @ lit ''<DIR>'' @ [Close 2, Branch [Cls (Among '' '') 10 (Some 10)] (lit '' '')])
               ([Open 3, Cls (DigitOr '','') 1 None, Close 3] @ lit '' ''),
        Open 4, Cls AnyButNewline 1 None, Close 4]"

type_synonym captures = "nat \<Rightarrow> string option"

record regex_lib =
  rx_digit :: "string \<Rightarrow> bool"
  rx_captures :: "rx list \<Rightarrow> string \<Rightarrow> captures option"

record chrono_lib =
  ch_date :: "string \<Rightarrow> string \<Rightarrow> int option"
  ch_datetime :: "string \<Rightarrow> string \<Rightarrow> int option"
  ch_year :: "int \<Rightarrow> int"

text \<open>What the library documents: items match in turn, a repetition takes as much as it can and gives
  back one by one, the left branch goes first, a group holds the text of its last match; characters
  are Unicode scalar values, digits and white space those of Unicode (\<open>rx_digit\<close> beyond ASCII).\<close>

fun in_cls :: "(string \<Rightarrow> bool) \<Rightarrow> cls \<Rightarrow> string \<Rightarrow> bool" where
  "in_cls u (Among s) g \<longleftrightarrow> (\<exists>ch \<in> set s. g = [ch])"
| "in_cls u (DigitOr s) g \<longleftrightarrow> (\<exists>ch \<in> set s. g = [ch]) \<or> (case g of [ch] \<Rightarrow> is_digit_char ch | _ \<Rightarrow> u g)"
| "in_cls u NotSpace g \<longleftrightarrow> g \<noteq> '' ''"
| "in_cls u White g \<longleftrightarrow> is_ws g"
| "in_cls u AnyButNewline g \<longleftrightarrow> g \<noteq> bytes [10]"

definition leading :: "(string \<Rightarrow> bool) \<Rightarrow> cls \<Rightarrow> nat option \<Rightarrow> string list \<Rightarrow> nat" where
  "leading u k hi s =
     (let n = length (takeWhile (in_cls u k) s) in case hi of None \<Rightarrow> n | Some h \<Rightarrow> min h n)"

function (sequential) run_rx ::
  "(string \<Rightarrow> bool) \<Rightarrow> rx list \<Rightarrow> string list \<Rightarrow> (nat \<Rightarrow> string list) \<Rightarrow> captures \<Rightarrow> captures option" where
  "run_rx u [] s opened caps = (if s = [] then Some caps else None)"
| "run_rx u (Cls k lo hi # ps) s opened caps =
     find_map (\<lambda>n. run_rx u ps (drop n s) opened caps) (rev [lo..<Suc (leading u k hi s)])"
| "run_rx u (Branch a b # ps) s opened caps =
     (case run_rx u (a @ ps) s opened caps of Some x \<Rightarrow> Some x | None \<Rightarrow> run_rx u (b @ ps) s opened caps)"
| "run_rx u (Open i # ps) s opened caps = run_rx u ps s (opened(i := s)) caps"
| "run_rx u (Close i # ps) s opened caps =
     run_rx u ps s opened (caps(i \<mapsto> concat (take (length (opened i) - length s) (opened i))))"
  by pat_completeness auto
termination
  by (relation "measure (\<lambda>(u, ps, s, opened, caps). size_list size ps)") auto

definition engine_ok :: "regex_lib \<Rightarrow> bool" where
  "engine_ok e \<longleftrightarrow> (\<forall>ps s. valid_utf8 s \<longrightarrow> rx_captures e ps s = run_rx (rx_digit e) ps (utf8_chars s) (\<lambda>_. []) (\<lambda>_. None))"

section \<open>Lines\<close>

record raw_entry =
  re_name :: string
  re_is_directory :: bool
  re_is_symlink :: bool
  re_size :: nat
  re_modified_at :: "int option"
  re_permissions :: "string option"
  re_owner :: "string option"
  re_group :: "string option"

definition triplet :: "char \<Rightarrow> char \<Rightarrow> char \<Rightarrow> string" where
  "triplet r w x = [if r = CHR ''r'' then r else CHR ''-'', if w = CHR ''w'' then w else CHR ''-'',
     if x \<in> {CHR ''x'', CHR ''s'', CHR ''t''} then CHR ''x'' else CHR ''-'']"

fun permission_triplets :: "string \<Rightarrow> string" where
  "permission_triplets (r # w # x # rest) = triplet r w x @ permission_triplets rest"
| "permission_triplets _ = []"

definition permissions_string :: "string \<Rightarrow> string option" where
  "permissions_string raw9 =
     (if length raw9 \<noteq> 9 \<or> (\<exists>ch \<in> set raw9. 128 \<le> code ch) then None else Some (permission_triplets raw9))"

text \<open>\<open>Duration::num_seconds\<close>, towards zero.\<close>

definition num_seconds :: "int \<Rightarrow> int" where
  "num_seconds d = (if 0 \<le> d then d div 1000000000 else - ((- d) div 1000000000))"

definition show_int :: "int \<Rightarrow> string" where
  "show_int n = (if n < 0 then CHR ''-'' # show_nat (nat (- n)) else show_nat (nat n))"

definition resolve_ambiguous_date :: "chrono_lib \<Rightarrow> string \<Rightarrow> int \<Rightarrow> int option" where
  "resolve_ambiguous_date ch token now =
     (case ch_date ch token ''%b %d %Y'' of
        Some date \<Rightarrow> Some date
      | None \<Rightarrow>
          (let this_year = ch_year ch now;
               in_year = (\<lambda>y. ch_datetime ch (token @ '' '' @ show_int y) ''%b %d %H:%M %Y'')
           in case in_year this_year of
                None \<Rightarrow> None
              | Some parsed \<Rightarrow>
                  if 180 * 24 * 3600 < num_seconds (parsed - now) then in_year (this_year - 1) else Some parsed))"

definition parse_dos_datetime :: "chrono_lib \<Rightarrow> string \<Rightarrow> int option" where
  "parse_dos_datetime ch token =
     or_opt (ch_datetime ch token ''%m-%d-%y %I:%M%p'') (ch_datetime ch token ''%m-%d-%y %I:%M %p'')"

text \<open>\<open>str::split\<close> at a text, the first piece.\<close>

fun before_text :: "string \<Rightarrow> string \<Rightarrow> string" where
  "before_text sep [] = []"
| "before_text sep (ch # cs) = (if prefix sep (ch # cs) then [] else ch # before_text sep cs)"

definition posix_entry :: "chrono_lib \<Rightarrow> captures \<Rightarrow> int \<Rightarrow> raw_entry option" where
  "posix_entry ch caps now =
     do { file_type \<leftarrow> caps 1; name_field \<leftarrow> caps 8; digits \<leftarrow> caps 6; size \<leftarrow> parse_unsigned u64_max digits;
          date \<leftarrow> caps 7; raw9 \<leftarrow> caps 2; owner \<leftarrow> caps 4; grp \<leftarrow> caps 5;
          Some \<lparr>re_name = before_text '' -> '' name_field, re_is_directory = (file_type = ''d''),
            re_is_symlink = (file_type = ''l''), re_size = size, re_modified_at = resolve_ambiguous_date ch date now,
            re_permissions = permissions_string raw9, re_owner = Some owner, re_group = Some grp\<rparr> }"

definition dos_entry :: "chrono_lib \<Rightarrow> captures \<Rightarrow> raw_entry option" where
  "dos_entry ch caps =
     do { name \<leftarrow> caps 4; date \<leftarrow> caps 1;
          Some \<lparr>re_name = name, re_is_directory = (caps 2 \<noteq> None), re_is_symlink = False,
            re_size = (if caps 2 \<noteq> None then 0
              else the_or 0 (Option.bind (map_option (filter (\<lambda>ch. ch \<noteq> CHR '','')) (caps 3)) (parse_unsigned u64_max))),
            re_modified_at = parse_dos_datetime ch date, re_permissions = None, re_owner = None, re_group = None\<rparr> }"

definition parse_line :: "regex_lib \<Rightarrow> chrono_lib \<Rightarrow> string \<Rightarrow> int \<Rightarrow> raw_entry option" where
  "parse_line e ch line now =
     (case rx_captures e posix_re line of
        Some caps \<Rightarrow> posix_entry ch caps now
      | None \<Rightarrow> (case rx_captures e dos_re line of Some caps \<Rightarrow> dos_entry ch caps | None \<Rightarrow> None))"

section \<open>MLSD\<close>

text \<open>\<open>u32::from_str_radix(value, 8)\<close>.\<close>

fun octal_value :: "string \<Rightarrow> nat \<Rightarrow> nat option" where
  "octal_value [] acc = Some acc"
| "octal_value (ch # cs) acc = (if in_range 48 55 ch then octal_value cs (acc * 8 + (code ch - 48)) else None)"

definition parse_octal :: "string \<Rightarrow> nat option" where
  "parse_octal s =
     (let ds = (case s of ch # cs \<Rightarrow> if ch = CHR ''+'' then cs else s | [] \<Rightarrow> [])
      in if ds = [] then None
         else (case octal_value ds 0 of Some n \<Rightarrow> if n \<le> u32_max then Some n else None | None \<Rightarrow> None))"

text \<open>\<open>value.get(..14)\<close>: nothing where the text is shorter or a character would be cut.\<close>

definition str_start :: "nat \<Rightarrow> string \<Rightarrow> string option" where
  "str_start n s =
     (if length s < n \<or> n < length s \<and> is_cont (s ! n) then None else Some (take n s))"

definition parse_mlsd_time :: "chrono_lib \<Rightarrow> string \<Rightarrow> int option" where
  "parse_mlsd_time ch value = Option.bind (str_start 14 value) (\<lambda>t. ch_datetime ch t ''%Y%m%d%H%M%S'')"

definition mode_char :: "nat \<Rightarrow> nat \<Rightarrow> char" where
  "mode_char mode i = (if bit mode (8 - i) then ''rwx'' ! (i mod 3) else CHR ''-'')"

definition mode_string :: "nat \<Rightarrow> string" where
  "mode_string mode = map (mode_char mode) [0..<9]"

record mlsd_facts =
  mf_kind :: "string option"
  mf_size :: nat
  mf_modified_at :: "int option"
  mf_mode :: "nat option"
  mf_owner_name :: "string option"
  mf_owner_id :: "string option"
  mf_group_name :: "string option"
  mf_group_id :: "string option"

definition no_facts :: mlsd_facts where
  "no_facts = \<lparr>mf_kind = None, mf_size = 0, mf_modified_at = None, mf_mode = None, mf_owner_name = None,
     mf_owner_id = None, mf_group_name = None, mf_group_id = None\<rparr>"

definition read_fact :: "chrono_lib \<Rightarrow> string \<Rightarrow> mlsd_facts \<Rightarrow> mlsd_facts" where
  "read_fact ch item f =
     (case split_once_at (CHR ''='') item of
        None \<Rightarrow> f
      | Some (key, value) \<Rightarrow>
          (let k = ascii_lower key
           in if k = ''type'' then f\<lparr>mf_kind := Some (ascii_lower value)\<rparr>
              else if k = ''size'' then f\<lparr>mf_size := the_or 0 (parse_unsigned u64_max value)\<rparr>
              else if k = ''modify'' then f\<lparr>mf_modified_at := parse_mlsd_time ch value\<rparr>
              else if k = ''unix.mode'' then f\<lparr>mf_mode := parse_octal value\<rparr>
              else if k = ''unix.ownername'' \<or> k = ''unix.owner'' then f\<lparr>mf_owner_name := Some value\<rparr>
              else if k = ''unix.uid'' then f\<lparr>mf_owner_id := Some value\<rparr>
              else if k = ''unix.groupname'' \<or> k = ''unix.group'' then f\<lparr>mf_group_name := Some value\<rparr>
              else if k = ''unix.gid'' then f\<lparr>mf_group_id := Some value\<rparr>
              else f))"

definition parse_mlsd_line :: "chrono_lib \<Rightarrow> string \<Rightarrow> raw_entry option" where
  "parse_mlsd_line ch line =
     (case split_once_at (CHR '' '') line of
        None \<Rightarrow> None
      | Some (facts, name) \<Rightarrow>
          if name = [] \<or> name = ''.'' \<or> name = ''..'' then None
          else (let f = fold (read_fact ch) (split_at (\<lambda>c. c = CHR '';'') facts) no_facts
            in case mf_kind f of
                 None \<Rightarrow> None
               | Some kind \<Rightarrow>
                   if kind = ''cdir'' \<or> kind = ''pdir'' then None
                   else Some \<lparr>re_name = name, re_is_directory = (kind = ''dir''),
                     re_is_symlink = (prefix ''os.unix=symlink'' kind \<or> prefix ''os.unix=slink'' kind),
                     re_size = (if kind = ''dir'' then 0 else mf_size f), re_modified_at = mf_modified_at f,
                     re_permissions = map_option mode_string (mf_mode f),
                     re_owner = or_opt (mf_owner_name f) (mf_owner_id f),
                     re_group = or_opt (mf_group_name f) (mf_group_id f)\<rparr>))"

section \<open>Lemmas\<close>

subsection \<open>Characters\<close>

lemma takeWhile_cont_append: "b = [] \<or> \<not> is_cont (hd b) \<Longrightarrow> takeWhile is_cont (a @ b) = takeWhile is_cont a
    \<and> dropWhile is_cont (a @ b) = dropWhile is_cont a @ b"
  by (induction a) (auto simp: takeWhile_eq_Nil_iff dropWhile_eq_self_iff)

lemma utf8_chars_append: "b = [] \<or> \<not> is_cont (hd b) \<Longrightarrow> utf8_chars (a @ b) = utf8_chars a @ utf8_chars b"
  by (induction a rule: utf8_chars.induct) (auto simp: takeWhile_cont_append)

lemma valid_starts: "valid_utf8 s \<Longrightarrow> s = [] \<or> \<not> is_cont (hd s)"
  using cont_cannot_lead by (cases s) (auto split: option.splits)

lemma utf8_chars_valid: "valid_utf8 b \<Longrightarrow> utf8_chars (a @ b) = utf8_chars a @ utf8_chars b"
  using valid_starts by (rule utf8_chars_append)

definition syms :: "string \<Rightarrow> string list" where "syms s = map (\<lambda>c. [c]) s"

lemma ascii_syms: "\<forall>c \<in> set s. code c < (128::nat) \<Longrightarrow> utf8_chars s = syms s \<and> valid_utf8 s"
proof (induction s)
  case (Cons c s)
  then have "takeWhile is_cont s = []" "dropWhile is_cont s = s"
    using valid_starts [of s] by (cases s; auto)+
  moreover have "utf8_follow (code c) = Some []" using Cons.prems by (simp add: utf8_follow_def)
  ultimately show ?case using Cons by (simp add: syms_def)
qed (simp add: syms_def)

lemma utf8_chars_space [simp]: "utf8_chars (CHR '' '' # s) = '' '' # utf8_chars s" if "valid_utf8 s"
  using utf8_chars_valid [OF that, of "'' ''"] by simp

subsection \<open>Matching\<close>

lemma leading_exact:
  assumes "list_all (in_cls u k) xs" and "rest = [] \<or> \<not> in_cls u k (hd rest) \<or> hi = Some (length xs)"
    and "\<forall>h. hi = Some h \<longrightarrow> length xs \<le> h"
  shows "leading u k hi (xs @ rest) = length xs"
proof -
  have t: "takeWhile (in_cls u k) (xs @ rest) = xs @ takeWhile (in_cls u k) rest"
    using assms(1) by (simp add: takeWhile_append2 list_all_iff)
  show ?thesis
  proof (cases "rest = [] \<or> \<not> in_cls u k (hd rest)")
    case True
    then have "takeWhile (in_cls u k) rest = []" by (cases rest) auto
    then show ?thesis using t assms(3) by (auto simp: leading_def Let_def split: option.splits)
  next
    case False
    then show ?thesis using t assms(2) by (auto simp: leading_def)
  qed
qed

lemma run_cls:
  assumes "list_all (in_cls u k) xs" and "rest = [] \<or> \<not> in_cls u k (hd rest) \<or> hi = Some (length xs)"
    and "\<forall>h. hi = Some h \<longrightarrow> length xs \<le> h" and "lo \<le> length xs" and "run_rx u ps rest opened caps = Some r"
  shows "run_rx u (Cls k lo hi # ps) (xs @ rest) opened caps = Some r"
proof -
  have "rev [lo..<Suc (length xs)] = length xs # rev [lo..<length xs]" using assms(4) by simp
  then show ?thesis using leading_exact [OF assms(1-3)] assms(5) by simp
qed

lemma run_group:
  assumes "list_all (in_cls u k) xs" and "rest = [] \<or> \<not> in_cls u k (hd rest) \<or> hi = Some (length xs)"
    and "\<forall>h. hi = Some h \<longrightarrow> length xs \<le> h" and "lo \<le> length xs"
    and "run_rx u ps rest (opened(i := xs @ rest)) (caps(i \<mapsto> concat xs)) = Some r"
  shows "run_rx u (Open i # Cls k lo hi # Close i # ps) (xs @ rest) opened caps = Some r"
  using run_cls [OF assms(1-4), where ps = "Close i # ps" and opened = "opened(i := xs @ rest)" and caps = caps and r = r] assms(5)
  by simp

lemma run_space:
  assumes "rest = [] \<or> \<not> is_ws (hd rest)" and "run_rx u ps rest opened caps = Some r"
  shows "run_rx u (Cls White 1 None # ps) ('' '' # rest) opened caps = Some r"
  using run_cls [of u White "['' '']" rest None 1 ps opened caps r] assms by (simp add: is_ws_def)

abbreviation is_num :: "string \<Rightarrow> bool" where
  "is_num s \<equiv> s \<noteq> [] \<and> (\<forall>c \<in> set s. is_digit_char c)"

text \<open>The last part of a date: a year, or hours and minutes.\<close>

definition stamp_ok :: "string \<Rightarrow> bool" where
  "stamp_ok y \<longleftrightarrow> is_num y \<and> length y = 4
     \<or> (\<exists>h m. y = h @ '':'' @ m \<and> is_num h \<and> length h \<le> 2 \<and> is_num m \<and> length m \<le> 2)"

lemma syms_simps [simp]: "syms [] = []" "syms (c # s) = [c] # syms s" "syms (s @ t) = syms s @ syms t"
  "length (syms s) = length s" "concat (syms s) = s" "syms s = [] \<longleftrightarrow> s = []"
  by (induction s) (simp_all add: syms_def)

lemma list_all_syms: "list_all P (syms s) \<longleftrightarrow> (\<forall>c \<in> set s. P [c])"
  by (induction s) simp_all

lemma digit_syms: "\<forall>c \<in> set s. is_digit_char c \<Longrightarrow> list_all (in_cls u (DigitOr ds)) (syms s)"
  by (induction s) auto

lemma not_digit_space [simp]: "\<not> in_cls u (DigitOr []) '' ''" "\<not> in_cls u (DigitOr []) '':''"
  by (simp_all add: in_range_def)

lemma not_digit_char [simp]: "\<not> is_digit_char (CHR '' '')" "\<not> is_digit_char (CHR '':'')"
  by (simp_all add: in_range_def)

lemma digit_not_ws: "is_digit_char c \<Longrightarrow> \<not> is_ws [c]"
  by (auto simp: is_ws_def in_range_def)

lemma num_starts: "is_num s \<Longrightarrow> \<not> is_ws (hd (syms s @ rest))"
  using digit_not_ws by (cases s) auto

lemma run_digits:
  assumes "\<forall>c \<in> set s. is_digit_char c" and "lo \<le> length s" and "rest = [] \<or> \<not> in_cls u (DigitOr []) (hd rest) \<or> hi = Some (length s)"
    and "\<forall>h. hi = Some h \<longrightarrow> length s \<le> h" and "run_rx u ps rest opened caps = Some r"
  shows "run_rx u (digits lo hi # ps) (syms s @ rest) opened caps = Some r"
  unfolding digits_def by (rule run_cls [OF digit_syms [OF assms(1)]]) (use assms(2-5) in simp_all)

lemma run_lit: "run_rx u ps rest opened caps = Some r \<Longrightarrow> run_rx u (lit [c] @ ps) ([c] # rest) opened caps = Some r"
  using run_cls [of u "Among [c]" "[[c]]" rest "Some 1" 1 ps opened caps r] by (simp add: lit_def)

lemma run_stamp:
  assumes "stamp_ok y" and run: "run_rx u ps ('' '' # rest) opened caps = Some r"
  shows "run_rx u (Branch ([digits 1 (Some 2)] @ lit '':'' @ [digits 1 (Some 2)]) [digits 4 (Some 4)] # ps)
    (syms y @ '' '' # rest) opened caps = Some r"
  using assms(1) unfolding stamp_ok_def
proof
  assume y: "is_num y \<and> length y = 4"
  then obtain a b c d where e: "y = [a, b, c, d]" by (auto simp: eval_nat_numeral length_Suc_conv)
  have "run_rx u ([digits 1 (Some 2)] @ lit '':'' @ [digits 1 (Some 2)] @ ps) (syms y @ '' '' # rest) opened caps = None"
    using y by (auto simp: e digits_def lit_def leading_def in_range_def)
  moreover have "run_rx u (digits 4 (Some 4) # ps) (syms y @ '' '' # rest) opened caps = Some r"
    using y run by (intro run_digits) auto
  ultimately show ?thesis by simp
next
  assume "\<exists>h m. y = h @ '':'' @ m \<and> is_num h \<and> length h \<le> 2 \<and> is_num m \<and> length m \<le> 2"
  then obtain h m where y: "y = h @ '':'' @ m" "is_num h" "length h \<le> 2" "is_num m" "length m \<le> 2" by blast
  have "run_rx u (digits 1 (Some 2) # ps) (syms m @ '' '' # rest) opened caps = Some r"
    using y run by (intro run_digits) (auto simp: Suc_le_eq)
  then have "run_rx u (lit '':'' @ digits 1 (Some 2) # ps) ('':'' # syms m @ '' '' # rest) opened caps = Some r"
    by (rule run_lit)
  then have "run_rx u (digits 1 (Some 2) # lit '':'' @ digits 1 (Some 2) # ps) (syms h @ '':'' # syms m @ '' '' # rest) opened caps = Some r"
    using y by (intro run_digits) (auto simp: Suc_le_eq)
  then show ?thesis by (simp add: y(1))
qed

declare run_rx.simps [simp del]

text \<open>The same, for the captures the rest of the pattern ends with.\<close>

abbreviation runs where
  "runs Q u ps s opened caps \<equiv> \<exists>r. run_rx u ps s opened caps = Some r \<and> Q r"

lemma runs_group:
  assumes "runs Q u ps rest (opened(i := xs @ rest)) (caps(i \<mapsto> concat xs))"
    and "list_all (in_cls u k) xs" and "rest = [] \<or> \<not> in_cls u k (hd rest) \<or> hi = Some (length xs)"
    and "\<forall>h. hi = Some h \<longrightarrow> length xs \<le> h" and "lo \<le> length xs"
  shows "runs Q u (Open i # Cls k lo hi # Close i # ps) (xs @ rest) opened caps"
  using run_group [OF assms(2-5)] assms(1) by blast

lemma runs_char:
  "runs Q u ps rest (opened(i := c # rest)) (caps(i \<mapsto> c)) \<Longrightarrow> in_cls u k c
    \<Longrightarrow> runs Q u (Open i # Cls k 1 (Some 1) # Close i # ps) (c # rest) opened caps"
  using runs_group [where xs = "[c]" and hi = "Some 1" and lo = 1] by simp

lemma runs_space:
  "runs Q u ps rest opened caps \<Longrightarrow> rest = [] \<or> \<not> is_ws (hd rest)
    \<Longrightarrow> runs Q u (Cls White 1 None # ps) ('' '' # rest) opened caps"
  using run_space by blast

lemma runs_number:
  "runs Q u ps ('' '' # rest) (opened(i := syms n @ '' '' # rest)) (caps(i \<mapsto> n)) \<Longrightarrow> is_num n
    \<Longrightarrow> runs Q u (Open i # digits 1 None # Close i # ps) (syms n @ '' '' # rest) opened caps"
  unfolding digits_def by (rule runs_group) (auto simp: digit_syms Suc_le_eq)

lemma runs_word:
  "runs Q u ps ('' '' # rest) (opened(i := w @ '' '' # rest)) (caps(i \<mapsto> concat w)) \<Longrightarrow> w \<noteq> [] \<Longrightarrow> '' '' \<notin> set w
    \<Longrightarrow> runs Q u (Open i # Cls NotSpace 1 None # Close i # ps) (w @ '' '' # rest) opened caps"
  by (rule runs_group) (auto simp: list_all_iff Suc_le_eq)

lemma runs_lit: "runs Q u ps rest opened caps \<Longrightarrow> runs Q u (lit '' '' @ ps) ('' '' # rest) opened caps"
  using run_lit by blast

lemma runs_rest:
  assumes "Q (caps(i \<mapsto> concat n))" and "n \<noteq> []" "bytes [10] \<notin> set n"
  shows "runs Q u [Open i, Cls AnyButNewline 1 None, Close i] n opened caps"
proof -
  have "runs Q u [Open i, Cls AnyButNewline 1 None, Close i] (n @ []) opened caps"
    by (rule runs_group) (use assms in \<open>auto simp: run_rx.simps list_all_iff Suc_le_eq\<close>)
  then show ?thesis by simp
qed

lemma runs_date:
  assumes "runs Q u ps ('' '' # rest) (opened(i := M @ '' '' # syms day @ '' '' # syms y @ '' '' # rest))
      (caps(i \<mapsto> concat M @ '' '' @ day @ '' '' @ y))"
    and M: "M \<noteq> []" "'' '' \<notin> set M" and day: "is_num day" "length day \<le> 2" and y: "stamp_ok y" "\<not> is_ws (hd (syms y))"
  shows "runs Q u (Open i # Cls NotSpace 1 None # Cls White 1 None # digits 1 (Some 2) # Cls White 1 None
      # Branch ([digits 1 (Some 2)] @ lit '':'' @ [digits 1 (Some 2)]) [digits 4 (Some 4)] # Close i # ps)
    (M @ '' '' # syms day @ '' '' # syms y @ '' '' # rest) opened caps"
proof -
  let ?s = "M @ '' '' # syms day @ '' '' # syms y @ '' '' # rest"
  obtain r where r: "run_rx u (Close i # ps) ('' '' # rest) (opened(i := ?s)) caps = Some r" "Q r"
    using assms(1) by (auto simp: run_rx.simps)
  have yne: "y \<noteq> []" using y(1) by (auto simp: stamp_ok_def)
  note r1 = run_stamp [OF y(1) r(1)]
  have r2: "run_rx u (Cls White 1 None # Branch ([digits 1 (Some 2)] @ lit '':'' @ [digits 1 (Some 2)]) [digits 4 (Some 4)] # Close i # ps)
      ('' '' # syms y @ '' '' # rest) (opened(i := ?s)) caps = Some r"
    by (rule run_space [OF _ r1]) (use y(2) yne in \<open>simp add: hd_append\<close>)
  have r3: "run_rx u (digits 1 (Some 2) # Cls White 1 None # Branch ([digits 1 (Some 2)] @ lit '':'' @ [digits 1 (Some 2)])
      [digits 4 (Some 4)] # Close i # ps) (syms day @ '' '' # syms y @ '' '' # rest) (opened(i := ?s)) caps = Some r"
    by (rule run_digits [OF _ _ _ _ r2]) (use day in \<open>auto simp: Suc_le_eq\<close>)
  have r4: "run_rx u (Cls White 1 None # digits 1 (Some 2) # Cls White 1 None # Branch ([digits 1 (Some 2)] @ lit '':'' @ [digits 1 (Some 2)])
      [digits 4 (Some 4)] # Close i # ps) ('' '' # syms day @ '' '' # syms y @ '' '' # rest) (opened(i := ?s)) caps = Some r"
    by (rule run_space [OF _ r3]) (use num_starts [OF day(1)] in simp)
  have r5: "run_rx u (Cls NotSpace 1 None # Cls White 1 None # digits 1 (Some 2) # Cls White 1 None
      # Branch ([digits 1 (Some 2)] @ lit '':'' @ [digits 1 (Some 2)]) [digits 4 (Some 4)] # Close i # ps) ?s (opened(i := ?s)) caps = Some r"
    by (rule run_cls [OF _ _ _ _ r4]) (use M in \<open>auto simp: list_all_iff Suc_le_eq\<close>)
  then show ?thesis using r(2) by (simp add: run_rx.simps)
qed

lemma posix_matches:
  assumes "t \<in> set ''-ld''" and "length p = 9" "\<forall>c \<in> set p. c \<in> set ''-rwxsStT''"
    and "is_num links" "is_num sz" "stamp_ok y" "\<not> is_ws (hd (syms y))" "is_num day" "length day \<le> 2"
    and "Ow \<noteq> []" "\<not> is_ws (hd Ow)" "'' '' \<notin> set Ow" and "G \<noteq> []" "\<not> is_ws (hd G)" "'' '' \<notin> set G"
    and "M \<noteq> []" "\<not> is_ws (hd M)" "'' '' \<notin> set M" and "N \<noteq> []" "bytes [10] \<notin> set N"
  shows "runs (\<lambda>caps. caps 1 = Some [t] \<and> caps 2 = Some p \<and> caps 4 = Some (concat Ow) \<and> caps 5 = Some (concat G)
      \<and> caps 6 = Some sz \<and> caps 7 = Some (concat M @ '' '' @ day @ '' '' @ y) \<and> caps 8 = Some (concat N))
    u posix_re ([[t]] @ syms p @ '' '' # syms links @ '' '' # Ow @ '' '' # G @ '' '' # syms sz
        @ '' '' # M @ '' '' # syms day @ '' '' # syms y @ '' '' # N) (\<lambda>_. []) (\<lambda>_. None)"
proof -
  note nums = num_starts [OF assms(4), of "[]", simplified] num_starts [OF assms(5), of "[]", simplified]
    assms(1,3) [simplified]
  show ?thesis
    unfolding posix_re_def append.simps
    apply (rule runs_char)
     apply (rule runs_group)
         apply (rule runs_space)
          apply (rule runs_number)
           apply (rule runs_space)
            apply (rule runs_word)
              apply (rule runs_space)
               apply (rule runs_word)
                 apply (rule runs_space)
                  apply (rule runs_number)
                   apply (rule runs_space)
                    apply (rule runs_date [unfolded append.simps])
                         apply (rule runs_lit)
                         apply (rule runs_rest)
    by (simp_all add: assms nums list_all_syms)
qed

subsection \<open>Texts\<close>

lemma before_text_whole: "\<not> str_contains s sep \<Longrightarrow> before_text sep s = s"
  by (induction s) auto

lemma before_text_cut: "sep \<noteq> [] \<Longrightarrow> \<not> str_contains (a @ butlast sep) sep \<Longrightarrow> before_text sep (a @ sep @ b) = a"
proof (induction a)
  case Nil
  then show ?case by (cases sep) auto
next
  case (Cons c a)
  have "\<not> prefix sep ((c # a) @ sep @ b)"
  proof
    assume p: "prefix sep ((c # a) @ sep @ b)"
    have "length sep \<le> length ((c # a) @ butlast sep)" using Cons.prems(1) by (cases sep) auto
    moreover have "prefix ((c # a) @ butlast sep) ((c # a) @ sep @ b)"
      using Cons.prems(1) append_butlast_last_id [of sep] by (metis append.assoc prefixI same_prefix_prefix)
    ultimately have "prefix sep ((c # a) @ butlast sep)" using p prefix_length_prefix by blast
    then show False using Cons.prems(2) by auto
  qed
  then show ?case using Cons by auto
qed

lemma mode_triplet:
  "triplet (if a then CHR ''r'' else CHR ''-'') (if b then CHR ''w'' else CHR ''-'') (if c then CHR ''x'' else CHR ''-'')
     = [if a then CHR ''r'' else CHR ''-'', if b then CHR ''w'' else CHR ''-'', if c then CHR ''x'' else CHR ''-'']"
  by (simp add: triplet_def)

text \<open>The printed form of a mode is one LIST's own letters keep.\<close>

lemma mode_string_read: "permissions_string (mode_string m) = Some (mode_string m)"
proof -
  have m: "mode_string m = map (\<lambda>(i, ch). if bit m i then ch else CHR ''-'') (zip [8, 7, 6, 5, 4, 3, 2, 1, 0] ''rwxrwxrwx'')"
    by (simp add: mode_string_def mode_char_def upt_rec)
  have "permission_triplets (mode_string m) = mode_string m"
    unfolding m by (simp add: triplet_def)
  then show ?thesis by (simp add: permissions_string_def) (simp add: m)
qed

section \<open>Properties\<close>

text \<open>A line as a Unix server prints it.\<close>

definition unix_line :: "char \<Rightarrow> string \<Rightarrow> string \<Rightarrow> string \<Rightarrow> string \<Rightarrow> nat \<Rightarrow> string \<Rightarrow> string \<Rightarrow> string \<Rightarrow> string \<Rightarrow> string" where
  "unix_line t p links owner grp n month day stamp name =
     t # p @ '' '' @ links @ '' '' @ owner @ '' '' @ grp @ '' '' @ show_nat n @ '' '' @ month @ '' '' @ day @ '' '' @ stamp
       @ '' '' @ name"

definition word_ok :: "string \<Rightarrow> bool" where
  "word_ok s \<longleftrightarrow> s \<noteq> [] \<and> valid_utf8 s \<and> CHR '' '' \<notin> set s \<and> \<not> is_ws (hd (utf8_chars s))"

lemma in_concat: "g \<in> set gs \<Longrightarrow> c \<in> set g \<Longrightarrow> c \<in> set (concat gs)"
  by auto

lemma word_syms:
  assumes "word_ok s"
  shows "utf8_chars s \<noteq> []" "'' '' \<notin> set (utf8_chars s)"
proof -
  show "utf8_chars s \<noteq> []" using assms concat_utf8_chars [of s] by (auto simp: word_ok_def simp del: concat_utf8_chars)
  show "'' '' \<notin> set (utf8_chars s)"
  proof
    assume "'' '' \<in> set (utf8_chars s)"
    then have "CHR '' '' \<in> set (concat (utf8_chars s))" by (rule in_concat) simp
    then show False using assms by (simp add: word_ok_def)
  qed
qed

lemma digit_ascii: "is_digit_char c \<Longrightarrow> code c < (128::nat)" by (simp add: in_range_def)

lemma stamp_digits: "stamp_ok y \<Longrightarrow> (\<forall>c \<in> set y. code c < (128::nat)) \<and> \<not> is_ws (hd (syms y))"
  using digit_ascii digit_not_ws
  by (auto simp: stamp_ok_def) (metis hd_append2 hd_in_set list.map_sel(1) syms_def)+

lemma valid_no_cont: "valid_utf8 b \<Longrightarrow> takeWhile is_cont b = [] \<and> dropWhile is_cont b = b"
  using valid_starts [of b] by (cases b) auto

lemma spaced:
  "valid_utf8 b \<Longrightarrow> utf8_chars (a @ CHR '' '' # b) = utf8_chars a @ '' '' # utf8_chars b"
  "valid_utf8 a \<Longrightarrow> valid_utf8 b \<Longrightarrow> valid_utf8 (a @ CHR '' '' # b)"
proof -
  assume b: "valid_utf8 b"
  have space: "valid_utf8 (CHR '' '' # b)" using b by (simp add: utf8_follow_def)
  show "utf8_chars (a @ CHR '' '' # b) = utf8_chars a @ '' '' # utf8_chars b"
    using utf8_chars_valid [OF space] valid_no_cont [OF b] by simp
  show "valid_utf8 a \<Longrightarrow> valid_utf8 (a @ CHR '' '' # b)" using space by (simp add: valid_utf8_append)
qed

lemma unix_line_syms:
  assumes "\<forall>c \<in> set (t # p). code c < (128::nat)" "is_num links" "word_ok owner" "word_ok grp" "word_ok month" "is_num day"
    "stamp_ok y" "valid_utf8 name"
  shows "utf8_chars (unix_line t p links owner grp n month day y name)
      = [[t]] @ syms p @ '' '' # syms links @ '' '' # utf8_chars owner @ '' '' # utf8_chars grp @ '' '' # syms (show_nat n)
        @ '' '' # utf8_chars month @ '' '' # syms day @ '' '' # syms y @ '' '' # utf8_chars name" (is ?chars)
    and "valid_utf8 (unix_line t p links owner grp n month day y name)" (is ?valid)
proof -
  note num = digit_ascii show_nat_digits
  have a: "utf8_chars (t # p) = [t] # syms p" "valid_utf8 (t # p)" using ascii_syms [OF assms(1)] by simp_all
  have parts: "utf8_chars links = syms links" "valid_utf8 links" "utf8_chars (show_nat n) = syms (show_nat n)"
    "valid_utf8 (show_nat n)" "utf8_chars day = syms day" "valid_utf8 day" "utf8_chars y = syms y" "valid_utf8 y"
    using ascii_syms [of links] ascii_syms [of "show_nat n"] ascii_syms [of day] ascii_syms [of y] assms(2,6)
      stamp_digits [OF assms(7)] num by auto
  have words: "valid_utf8 owner" "valid_utf8 grp" "valid_utf8 month" using assms(3-5) by (simp_all add: word_ok_def)
  have line: "unix_line t p links owner grp n month day y name = (t # p) @ CHR '' '' # (links @ CHR '' '' # (owner @ CHR '' '' # (grp
      @ CHR '' '' # (show_nat n @ CHR '' '' # (month @ CHR '' '' # (day @ CHR '' '' # (y @ CHR '' '' # name)))))))"
    by (simp add: unix_line_def)
  show ?chars unfolding line by (simp only: spaced a parts words assms(8)) simp
  show ?valid unfolding line by (intro spaced(2) a parts words assms(8))
qed

lemma unix_lines_read:
  assumes "engine_ok e" and "t \<in> set ''-ld''" and "length p = 9" "\<forall>c \<in> set p. c \<in> set ''-rwxsStT''"
    and "is_num links" "word_ok owner" "word_ok grp" "n \<le> u64_max" "word_ok month" "is_num day" "length day \<le> 2" "stamp_ok y"
    and "valid_utf8 name" "name \<noteq> []" "bytes [10] \<notin> set (utf8_chars name)"
  shows "parse_line e ch (unix_line t p links owner grp n month day y name) now = Some
    \<lparr>re_name = (if str_contains name '' -> '' then before_text '' -> '' name else name),
     re_is_directory = (t = CHR ''d''), re_is_symlink = (t = CHR ''l''), re_size = n,
     re_modified_at = resolve_ambiguous_date ch (month @ '' '' @ day @ '' '' @ y) now,
     re_permissions = Some (permission_triplets p), re_owner = Some owner, re_group = Some grp\<rparr>"
proof -
  have "\<forall>c \<in> set ''-ld''. code c < (128::nat)" "\<forall>c \<in> set ''-rwxsStT''. code c < (128::nat)" by simp_all
  then have "code t < (128::nat)" "\<forall>c \<in> set p. code c < (128::nat)" using assms(2,4) by blast+
  then have ascii: "\<forall>c \<in> set (t # p). code c < (128::nat)" by simp
  note syms = unix_line_syms [OF ascii assms(5,6,7,9,10,12,13), of n]
  note words = word_syms [OF assms(6)] word_syms [OF assms(7)] word_syms [OF assms(9)]
  have starts: "\<not> is_ws (hd (utf8_chars owner))" "\<not> is_ws (hd (utf8_chars grp))" "\<not> is_ws (hd (utf8_chars month))"
    using assms(6,7,9) by (simp_all add: word_ok_def)
  have size: "is_num (show_nat n)" using show_nat_nonempty show_nat_digits by blast
  have name: "utf8_chars name \<noteq> []" using assms(14) concat_utf8_chars [of name] by (auto simp del: concat_utf8_chars)
  have y: "\<not> is_ws (hd (syms y))" using stamp_digits [OF assms(12)] by blast
  note runs = posix_matches [OF assms(2,3,4,5) size assms(12) y assms(10,11) words(1) starts(1) words(2) words(3) starts(2)
      words(4,5) starts(3) words(6) name assms(15), of "rx_digit e", folded syms(1), unfolded concat_utf8_chars]
  obtain caps where run: "run_rx (rx_digit e) posix_re (utf8_chars (unix_line t p links owner grp n month day y name))
      (\<lambda>_. []) (\<lambda>_. None) = Some caps"
    and caps: "caps 1 = Some [t]" "caps 2 = Some p" "caps 4 = Some owner" "caps 5 = Some grp" "caps 6 = Some (show_nat n)"
      "caps 7 = Some (month @ '' '' @ day @ '' '' @ y)" "caps 8 = Some name"
    using runs by blast
  have perms: "permissions_string p = Some (permission_triplets p)"
    using assms(3) ascii by (auto simp: permissions_string_def not_le)
  show ?thesis
    using assms(1) syms(2) run
    by (simp add: parse_line_def engine_ok_def posix_entry_def caps caps(1) [unfolded One_nat_def] perms parse_show [OF assms(8)] before_text_whole)
qed


text \<open>A regular file whose own name holds \<open> -> \<close> is listed under the part before it, as if it were a link: the
  entry shown names another file, or none.\<close>

theorem arrow_in_a_file_name_is_cut:
  assumes "engine_ok e" and "length p = 9" "\<forall>c \<in> set p. c \<in> set ''-rwxsStT''"
    and "is_num links" "word_ok owner" "word_ok grp" "n \<le> u64_max" "word_ok month" "is_num day" "length day \<le> 2" "stamp_ok y"
    and "valid_utf8 (a @ '' -> '' @ b)" "bytes [10] \<notin> set (utf8_chars (a @ '' -> '' @ b))" "\<not> str_contains (a @ '' ->'') '' -> ''"
  shows "\<exists>en. parse_line e ch (unix_line (CHR ''-'') p links owner grp n month day y (a @ '' -> '' @ b)) now = Some en
    \<and> \<not> re_is_symlink en \<and> re_name en = a"
proof -
  have "before_text '' -> '' (a @ '' -> '' @ b) = a" using assms(14) before_text_cut [of "'' -> ''" a b] by simp
  moreover have "str_contains (a @ '' -> '' @ b) '' -> ''" unfolding str_contains_iff by blast
  ultimately show ?thesis
    using unix_lines_read [OF assms(1) _ assms(2-12) _ assms(13), of "CHR ''-''" ch now] by simp
qed

section \<open>MLSD lines\<close>

fun show_octal :: "nat \<Rightarrow> string" where
  "show_octal n = (if n < 8 then [char_of (48 + n)] else show_octal (n div 8) @ [char_of (48 + n mod 8)])"

declare show_octal.simps [simp del]

lemma octal_value_append: "octal_value (a @ b) acc = Option.bind (octal_value a acc) (octal_value b)"
  by (induction a arbitrary: acc) auto

lemma octal_value_show: "octal_value (show_octal n) 0 = Some n"
proof (induction n rule: show_octal.induct)
  case (1 n)
  show ?case
  proof (cases "n < 8")
    case True
    then show ?thesis by (subst show_octal.simps) (simp add: in_range_def)
  next
    case False
    then have "octal_value (show_octal (n div 8)) 0 = Some (n div 8)" using 1 by simp
    moreover have "in_range 48 55 (char_of (48 + n mod 8))" by (simp add: in_range_def)
    ultimately show ?thesis using False by (subst show_octal.simps) (simp add: octal_value_append)
  qed
qed

lemma show_octal_digits: "c \<in> set (show_octal n) \<Longrightarrow> in_range 48 55 c"
proof (induction n rule: show_octal.induct)
  case (1 n)
  have "in_range 48 55 (char_of (48 + n mod 8))" "n < 8 \<Longrightarrow> in_range 48 55 (char_of (48 + n))"
    by (simp_all add: in_range_def)
  then show ?case using 1 show_octal.simps [of n] by (auto split: if_splits)
qed

lemma parse_show_octal: "n \<le> u32_max \<Longrightarrow> parse_octal (CHR ''0'' # show_octal n) = Some n"
  using octal_value_show [of n] by (simp add: parse_octal_def in_range_def)

definition mlsd_line :: "string \<Rightarrow> nat \<Rightarrow> nat \<Rightarrow> string \<Rightarrow> string \<Rightarrow> string \<Rightarrow> string" where
  "mlsd_line kind n mode owner grp name =
     join_str '';'' [''type='' @ kind, ''size='' @ show_nat n, ''UNIX.mode=0'' @ show_octal mode, ''UNIX.owner='' @ owner,
       ''UNIX.group='' @ grp, []] @ '' '' @ name"

definition fact_text :: "string \<Rightarrow> bool" where
  "fact_text s \<longleftrightarrow> CHR '' '' \<notin> set s \<and> CHR '';'' \<notin> set s"

lemma split_once_at_first: "d \<notin> set a \<Longrightarrow> split_once_at d (a @ d # b) = Some (a, b)"
  by (induction a) auto

text \<open>What an MLSD server says of an entry is read back, its name byte for byte; a folder has no size, is never
  taken for a link, and the folder itself and its parent are not entries.\<close>

theorem mlsd_listing_read_back:
  assumes "fact_text kind" "fact_text owner" "fact_text grp" and "n \<le> u64_max" "mode \<le> u32_max"
    and "name \<notin> {[], ''.'', ''..''}"
  shows "parse_mlsd_line ch (mlsd_line kind n mode owner grp name) =
    (if ascii_lower kind \<in> {''cdir'', ''pdir''} then None
     else Some \<lparr>re_name = name, re_is_directory = (ascii_lower kind = ''dir''),
       re_is_symlink = (prefix ''os.unix=symlink'' (ascii_lower kind) \<or> prefix ''os.unix=slink'' (ascii_lower kind)),
       re_size = (if ascii_lower kind = ''dir'' then 0 else n), re_modified_at = None,
       re_permissions = Some (mode_string mode), re_owner = Some owner, re_group = Some grp\<rparr>)"
proof -
  let ?parts = "[''type='' @ kind, ''size='' @ show_nat n, ''UNIX.mode=0'' @ show_octal mode, ''UNIX.owner='' @ owner,
       ''UNIX.group='' @ grp, []]"
  have shown: "CHR '' '' \<notin> set (show_nat n)" "CHR '';'' \<notin> set (show_nat n)" "CHR '' '' \<notin> set (show_octal mode)"
    "CHR '';'' \<notin> set (show_octal mode)"
    by (auto simp: in_range_def dest!: show_nat_digits show_octal_digits)
  have split: "split_at (\<lambda>c. c = CHR '';'') (join_str '';'' ?parts) = ?parts"
    using assms(1-3) shown by (intro split_at_join) (auto simp: fact_text_def)
  have none: "CHR '' '' \<notin> set (join_str '';'' ?parts)" using assms(1-3) shown by (simp add: fact_text_def)
  have once: "split_once_at (CHR '' '') (mlsd_line kind n mode owner grp name) = Some (join_str '';'' ?parts, name)"
    using split_once_at_first [OF none, of name] by (simp only: mlsd_line_def append.simps)
  have lowers: "lower_char (CHR ''U'') = CHR ''u''" "lower_char (CHR ''N'') = CHR ''n''" "lower_char (CHR ''I'') = CHR ''i''"
    "lower_char (CHR ''X'') = CHR ''x''" "lower_char (CHR ''.'') = CHR ''.''"
    by code_simp+
  have "\<forall>c \<in> set ''typesizmodwngrup''. lower_char c = c" by (simp add: lower_char_def in_range_def)
  then have facts: "fold (read_fact ch) ?parts no_facts = no_facts\<lparr>mf_kind := Some (ascii_lower kind), mf_size := n,
      mf_mode := Some mode, mf_owner_name := Some owner, mf_group_name := Some grp\<rparr>"
    using parse_show [OF assms(4)] parse_show_octal [OF assms(5)] by (simp add: read_fact_def lowers no_facts_def)
  show ?thesis unfolding parse_mlsd_line_def once option.case prod.case split facts Let_def
    using assms(6) by (simp add: no_facts_def)
qed

section \<open>Witnesses\<close>

definition toy_regex :: regex_lib where
  "toy_regex = \<lparr>rx_digit = (\<lambda>_. False), rx_captures = (\<lambda>ps s. run_rx (\<lambda>_. False) ps (utf8_chars s) (\<lambda>_. []) (\<lambda>_. None))\<rparr>"

definition toy_chrono :: chrono_lib where
  "toy_chrono = \<lparr>ch_date = (\<lambda>_ _. Some 7), ch_datetime = (\<lambda>_ _. None), ch_year = (\<lambda>_. 2026)\<rparr>"

lemma toy_engine_ok: "engine_ok toy_regex" by (simp add: engine_ok_def toy_regex_def)

lemma toy_words: "word_ok ''user''" "word_ok ''grp''" "word_ok ''Nov''" "is_num ''1''" "is_num ''5''" "\<forall>c \<in> set ''rw-r--r--''. c \<in> set ''-rwxsStT''"
  by code_simp+

lemma toy_stamp: "stamp_ok ''2018''" by (simp add: stamp_ok_def in_range_def)


theorem arrow_in_a_file_name_is_cut_witness:
  "\<exists>en. parse_line toy_regex toy_chrono (unix_line (CHR ''-'') ''rw-r--r--'' ''1'' ''user'' ''grp'' 12 ''Nov'' ''5'' ''2018'' ''a -> b'') 0
     = Some en \<and> \<not> re_is_symlink en \<and> re_name en = ''a''"
proof -
  have t: "length ''rw-r--r--'' = 9" "(12::nat) \<le> u64_max" "length ''5'' \<le> 2" by simp_all
  have name: "valid_utf8 (''a'' @ '' -> '' @ ''b'')" "bytes [10] \<notin> set (utf8_chars (''a'' @ '' -> '' @ ''b''))"
    "\<not> str_contains (''a'' @ '' ->'') '' -> ''" by code_simp+
  show ?thesis
    using arrow_in_a_file_name_is_cut [OF toy_engine_ok t(1) toy_words(6,4,1,2) t(2) toy_words(3,5) t(3) toy_stamp name,
      of toy_chrono 0] by (simp only: append.simps)
qed

theorem mlsd_listing_read_back_witness:
  "\<exists>en. parse_mlsd_line toy_chrono (mlsd_line ''Dir'' 12 493 ''anna'' ''staff'' '' my folder '') = Some en
     \<and> re_name en = '' my folder '' \<and> re_is_directory en \<and> re_size en = 0 \<and> re_permissions en = Some ''rwxr-xr-x''"
proof -
  have h: "fact_text ''Dir''" "fact_text ''anna''" "fact_text ''staff''" "(12::nat) \<le> u64_max" "(493::nat) \<le> u32_max"
    "'' my folder '' \<notin> {[], ''.'', ''..''}" by (simp_all add: fact_text_def)
  have low: "lower_char (CHR ''D'') = CHR ''d''" "lower_char (CHR ''i'') = CHR ''i''" "lower_char (CHR ''r'') = CHR ''r''"
    "mode_string 493 = ''rwxr-xr-x''" by code_simp+
  show ?thesis using mlsd_listing_read_back [OF h, of toy_chrono] by (simp add: low)
qed

end
