(* ===== verification/SetAside.thy ===== *)
theory SetAside
  imports Ipc
begin

text \<open>
  Replacing a file on a server that will not rename over one (\<open>protocol/set_aside.rs\<close>), and deleting
  the staging file an attempt left (\<open>remove_staging_on\<close> and \<open>put_back_stranded\<close> of
  \<open>transfer/upload_staging.rs\<close>). The backend is a parameter, the trait's two methods used here, \<open>rename_no_replace\<close> and \<open>remove\<close> of a file; the
  locale \<open>two_versions\<close> states what a server's answer says about its files, and that a call that
  failed may still have been carried out. The map of records and the file kept between runs are the
  record \<open>asides\<close>.
\<close>

section \<open>The backend\<close>

record 's backend =
  be_rename_no_replace :: "string \<Rightarrow> string \<Rightarrow> 's \<Rightarrow> (anyhow_error + unit) \<times> 's"
  be_remove :: "string \<Rightarrow> 's \<Rightarrow> (anyhow_error + unit) \<times> 's"

definition failed :: "error_code \<Rightarrow> string \<Rightarrow> anyhow_error" where
  "failed c m = plain_error (STyped (command_error_new c m))"

section \<open>Records\<close>

record set_aside =
  sd_aside :: string
  sd_name :: string
  sd_stranded_on :: "string option"

record stranded =
  sr_server :: string
  sr_staging :: string
  sr_aside :: string
  sr_name :: string

record asides =
  as_map :: "(string \<times> set_aside) list"
  as_file :: "stranded list option"

definition max_stranded :: nat where "max_stranded = 1024"

definition own_id :: "string \<Rightarrow> string \<Rightarrow> string option" where
  "own_id suf base =
     (if prefix ''.ftpeach-'' base \<and> suffix suf (drop (length ''.ftpeach-'') base)
      then Some (take (length base - length ''.ftpeach-'' - length suf) (drop (length ''.ftpeach-'') base)) else None)"

definition own_name :: "(string \<Rightarrow> bool) \<Rightarrow> string \<Rightarrow> string \<Rightarrow> bool" where
  "own_name is_uuid suf base = (case own_id suf base of None \<Rightarrow> False | Some i \<Rightarrow> is_uuid i)"

definition is_own :: "(string \<Rightarrow> bool) \<Rightarrow> stranded \<Rightarrow> bool" where
  "is_own is_uuid r =
     (case (rsplit_once_at (CHR ''/'') (sr_name r), rsplit_once_at (CHR ''/'') (sr_staging r),
            rsplit_once_at (CHR ''/'') (sr_aside r)) of
        (Some (parent, _), Some (staging_parent, staging), Some (aside_parent, aside)) \<Rightarrow>
          parent = staging_parent \<and> parent = aside_parent \<and> own_name is_uuid ''.part'' staging \<and> own_name is_uuid ''.old'' aside
      | _ \<Rightarrow> False)"

text \<open>Reading the kept file; one that is missing, unreadable or undecodable leaves the map as it is.\<close>

definition load_record :: "(string \<Rightarrow> bool) \<Rightarrow> stranded \<Rightarrow> (string \<times> set_aside) list \<Rightarrow> (string \<times> set_aside) list" where
  "load_record is_uuid r m =
     (if \<not> is_own is_uuid r \<or> al_has (sr_staging r) m then m
      else al_put (sr_staging r) \<lparr>sd_aside = sr_aside r, sd_name = sr_name r, sd_stranded_on = Some (sr_server r)\<rparr> m)"

definition load_stranded :: "(string \<Rightarrow> bool) \<Rightarrow> asides \<Rightarrow> asides" where
  "load_stranded is_uuid st =
     (case as_file st of
        None \<Rightarrow> st
      | Some records \<Rightarrow> st\<lparr>as_map := fold (load_record is_uuid) (take max_stranded records) (as_map st)\<rparr>)"

fun to_stranded :: "string \<times> set_aside \<Rightarrow> stranded option" where
  "to_stranded (staging, entry) =
     map_option (\<lambda>server. \<lparr>sr_server = server, sr_staging = staging, sr_aside = sd_aside entry, sr_name = sd_name entry\<rparr>)
       (sd_stranded_on entry)"

text \<open>Saving, when the file system lets it: \<open>ok\<close> says whether the write or the removal went through.\<close>

definition save_stranded :: "bool \<Rightarrow> asides \<Rightarrow> asides" where
  "save_stranded ok st =
     (let records = take max_stranded (List.map_filter to_stranded (as_map st))
      in if \<not> ok then st else st\<lparr>as_file := if records = [] then None else Some records\<rparr>)"

definition settle :: "bool \<Rightarrow> string \<Rightarrow> asides \<Rightarrow> set_aside option \<times> asides" where
  "settle ok staging st =
     (let entry = map_of (as_map st) staging;
          st' = st\<lparr>as_map := al_del staging (as_map st)\<rparr>
      in (entry, if Option.bind entry sd_stranded_on \<noteq> None then save_stranded ok st' else st'))"

section \<open>Replacing\<close>

definition refused_replacement :: "platform \<Rightarrow> anyhow_error \<Rightarrow> string \<Rightarrow> anyhow_error" where
  "refused_replacement p error new_path =
     (if \<not> unexplained p error then error
      else failed ReplaceUnsupported (''The server did not let '' @ new_path @ '' be replaced: '' @ render error))"

definition aside_path :: "string \<Rightarrow> string \<Rightarrow> string" where
  "aside_path uuid new_path =
     (case rsplit_once_at (CHR ''/'') new_path of Some (parent, _) \<Rightarrow> parent | None \<Rightarrow> ''.'')
       @ ''/.ftpeach-'' @ uuid @ ''.old''"

definition replace_by_setting_aside ::
  "platform \<Rightarrow> 's backend \<Rightarrow> bool \<Rightarrow> string \<Rightarrow> string \<Rightarrow> string \<Rightarrow> 's \<Rightarrow> asides
    \<Rightarrow> (anyhow_error + unit) \<times> 's \<times> asides" where
  "replace_by_setting_aside p be ok uuid old_path new_path s st =
     (let aside = aside_path uuid new_path
      in case be_rename_no_replace be new_path aside s of
           (Inl error, s1) \<Rightarrow> (Inl (refused_replacement p error new_path), s1, st)
         | (Inr _, s1) \<Rightarrow>
             (let st1 = st\<lparr>as_map := al_put old_path \<lparr>sd_aside = aside, sd_name = new_path, sd_stranded_on = None\<rparr> (as_map st)\<rparr>
              in case be_rename_no_replace be old_path new_path s1 of
                   (Inr _, s2) \<Rightarrow>
                     (case be_remove be aside s2 of (_, s3) \<Rightarrow> (Inr (), s3, snd (settle ok old_path st1)))
                 | (Inl error, s2) \<Rightarrow>
                     (case be_rename_no_replace be aside new_path s2 of
                        (Inl _, s3) \<Rightarrow>
                          (Inl (with_context (CtxText (''The previous version of '' @ new_path @ '' is kept as '' @ aside)) error),
                           s3, st1)
                      | (Inr _, s3) \<Rightarrow> (Inl (refused_replacement p error new_path), s3, snd (settle ok old_path st1)))))"

text \<open>Putting a set-aside file back before its staging file is deleted; \<open>timed_out\<close> says whether the
  answer came too late.\<close>

definition put_back_set_aside ::
  "platform \<Rightarrow> 's backend \<Rightarrow> bool \<Rightarrow> bool \<Rightarrow> string \<Rightarrow> 's \<Rightarrow> asides \<Rightarrow> bool \<times> 's \<times> asides" where
  "put_back_set_aside p be ok timed_out staging s st =
     (case map_of (as_map st) staging of
        None \<Rightarrow> (True, s, st)
      | Some entry \<Rightarrow>
          (case be_rename_no_replace be (sd_aside entry) (sd_name entry) s of
             (r, s') \<Rightarrow>
               if timed_out then (False, s', st)
               else (case r of
                       Inr _ \<Rightarrow> (True, s', snd (settle ok staging st))
                     | Inl error \<Rightarrow>
                         if ce_code (from_anyhow p error) \<in> {AlreadyExists, NotFound}
                         then (False, s', snd (settle ok staging st))
                         else (False, s', st))))"

definition strand_set_aside :: "bool \<Rightarrow> string \<Rightarrow> string \<Rightarrow> asides \<Rightarrow> bool \<times> asides" where
  "strand_set_aside ok staging server st =
     (case map_of (as_map st) staging of
        None \<Rightarrow> (False, st)
      | Some entry \<Rightarrow>
          (True, save_stranded ok (st\<lparr>as_map := al_put staging (entry\<lparr>sd_stranded_on := Some server\<rparr>) (as_map st)\<rparr>)))"

definition stranded_on :: "string \<Rightarrow> asides \<Rightarrow> string list" where
  "stranded_on server st = map fst (filter (\<lambda>(_, entry). sd_stranded_on entry = Some server) (as_map st))"

definition remove_set_aside :: "'s backend \<Rightarrow> bool \<Rightarrow> string \<Rightarrow> 's \<Rightarrow> asides \<Rightarrow> 's \<times> asides" where
  "remove_set_aside be ok staging s st =
     (case settle ok staging st of
        (None, st') \<Rightarrow> (s, st')
      | (Some entry, st') \<Rightarrow> (snd (be_remove be (sd_aside entry) s), st'))"

section \<open>Deleting a staging file\<close>

text \<open>What each attempt met: an answer in time, or none.\<close>

fun remove_attempts :: "platform \<Rightarrow> 's backend \<Rightarrow> bool list \<Rightarrow> string \<Rightarrow> 's \<Rightarrow> 's" where
  "remove_attempts p be [] staging s = s"
| "remove_attempts p be (timed_out # later) staging s =
     (case be_remove be staging s of
        (r, s') \<Rightarrow>
          if timed_out then s'
          else (case r of
                  Inr _ \<Rightarrow> s'
                | Inl error \<Rightarrow>
                    if ce_code (from_anyhow p error) = NotFound then s' else remove_attempts p be later staging s'))"

definition remove_staging_on ::
  "platform \<Rightarrow> 's backend \<Rightarrow> bool \<Rightarrow> bool \<Rightarrow> (nat \<Rightarrow> bool) \<Rightarrow> nat \<Rightarrow> string \<Rightarrow> 's \<Rightarrow> asides \<Rightarrow> 's \<times> asides" where
  "remove_staging_on p be ok timed_out late attempts staging s st =
     (case put_back_set_aside p be ok timed_out staging s st of
        (False, s', st') \<Rightarrow> (s', st')
      | (True, s', st') \<Rightarrow> (remove_attempts p be (map late [0..<attempts]) staging s', st'))"

text \<open>On a new connection, with what each of the staging files meets.\<close>

fun put_back_each ::
  "platform \<Rightarrow> 's backend \<Rightarrow> (string \<Rightarrow> bool \<times> bool \<times> (nat \<Rightarrow> bool)) \<Rightarrow> string list \<Rightarrow> 's \<Rightarrow> asides \<Rightarrow> 's \<times> asides" where
  "put_back_each p be met [] s st = (s, st)"
| "put_back_each p be met (staging # rest) s st =
     (case met staging of
        (ok, timed_out, late) \<Rightarrow>
          (case remove_staging_on p be ok timed_out late 1 staging s st of
             (s', st') \<Rightarrow> put_back_each p be met rest s' st'))"

definition put_back_stranded ::
  "platform \<Rightarrow> 's backend \<Rightarrow> (string \<Rightarrow> bool \<times> bool \<times> (nat \<Rightarrow> bool)) \<Rightarrow> string \<Rightarrow> 's \<Rightarrow> asides \<Rightarrow> 's \<times> asides" where
  "put_back_stranded p be met server s st = put_back_each p be met (stranded_on server st) s st"

section \<open>What replacing promises\<close>

lemma save_stranded_map [simp]: "as_map (save_stranded ok st) = as_map st"
  by (simp add: save_stranded_def Let_def)

lemma settle_map: "settle ok staging st = (entry, st') \<Longrightarrow> entry = map_of (as_map st) staging \<and> as_map st' = al_del staging (as_map st)"
  by (auto simp: settle_def Let_def split: if_splits)

lemma settled_map [simp]: "as_map (snd (settle ok staging st)) = al_del staging (as_map st)"
  using settle_map [of ok staging st] by (cases "settle ok staging st") simp

locale two_versions =
  fixes be :: "'s backend"
    and files :: "'s \<Rightarrow> string \<Rightarrow> string option"
  assumes renamed: "be_rename_no_replace be a b s = (Inr (), s') \<Longrightarrow>
      files s a \<noteq> None \<and> files s b = None \<and> files s' = (files s)(a := None, b := files s a)"
    and not_renamed: "be_rename_no_replace be a b s = (Inl e, s') \<Longrightarrow>
      files s' = files s \<or> (files s a \<noteq> None \<and> files s b = None \<and> files s' = (files s)(a := None, b := files s a))"
    and removed: "be_remove be q s = (r, s') \<Longrightarrow> files s' = files s \<or> files s' = (files s)(q := None)"
begin

text \<open>Both versions of a file outlive a replacement, whichever call fails and however: done, the new one is at
  the name; failed, the old one is at the name or at the hidden one, the new one where it was or at
  the name. Nothing else changes.\<close>

lemma replacement_keeps_both:
  assumes run: "replace_by_setting_aside p be ok uuid old new s st = (r, s', st')"
    and new: "files s new = Some previous" and old: "files s old = Some fresh"
    and aside: "files s (aside_path uuid new) = None" and "old \<noteq> new"
  shows "if is_Ok r then files s' new = Some fresh \<and> files s' old = None
      else (files s' new = Some previous \<or> files s' (aside_path uuid new) = Some previous)
        \<and> (files s' old = Some fresh \<or> files s' new = Some fresh)"
    and "q \<notin> {old, new, aside_path uuid new} \<Longrightarrow> files s' q = files s q"
proof -
  let ?h = "aside_path uuid new"
  have apart: "?h \<noteq> new" "?h \<noteq> old" using new old aside by auto
  obtain r1 s1 where one: "be_rename_no_replace be new ?h s = (r1, s1)" by fastforce
  obtain r2 s2 where two: "be_rename_no_replace be old new s1 = (r2, s2)" by fastforce
  obtain r3 s3 where undo: "be_rename_no_replace be ?h new s2 = (r3, s3)" by fastforce
  obtain r4 s4 where gone: "be_remove be ?h s2 = (r4, s4)" by fastforce
  have "(if is_Ok r then files s' new = Some fresh \<and> files s' old = None
      else (files s' new = Some previous \<or> files s' ?h = Some previous) \<and> (files s' old = Some fresh \<or> files s' new = Some fresh))
      \<and> (q \<notin> {old, new, ?h} \<longrightarrow> files s' q = files s q)"
  proof (cases r1)
    case (Inl e)
    then have "r = Inl (refused_replacement p e new)" "s' = s1"
      using run one by (simp_all add: replace_by_setting_aside_def Let_def)
    then show ?thesis using not_renamed [of new ?h s e s1] one Inl new old apart assms(5) by auto
  next
    case first: (Inr u)
    then have f1: "files s1 = (files s)(new := None, ?h := Some previous)" using renamed [of new ?h s s1] one new by simp
    show ?thesis
    proof (cases r2)
      case (Inr u)
      then have f2: "files s2 = (files s1)(old := None, new := Some fresh)"
        using renamed [of old new s1 s2] two f1 old apart assms(5) by simp
      have "r = Inr ()" "s' = s4" using run one first two Inr gone by (simp_all add: replace_by_setting_aside_def Let_def)
      then show ?thesis using removed [OF gone] f1 f2 apart assms(5) by auto
    next
      case (Inl e)
      then have f2: "files s2 = files s1 \<or> files s2 = (files s1)(old := None, new := Some fresh)"
        using not_renamed [of old new s1 e s2] two f1 old apart assms(5) by simp
      have done_: "\<exists>e'. r = Inl e'" "s' = s3"
        using run one first two Inl undo by (auto simp: replace_by_setting_aside_def Let_def split: sum.splits)
      have "files s3 = files s2 \<or> files s2 new = None \<and> files s3 = (files s2)(?h := None, new := files s2 ?h)"
        using renamed [of ?h new s2 s3] not_renamed [of ?h new s2 _ s3] undo by (cases r3) auto
      then show ?thesis using done_ f1 f2 apart assms(5) old by auto
    qed
  qed
  then show "if is_Ok r then files s' new = Some fresh \<and> files s' old = None
      else (files s' new = Some previous \<or> files s' ?h = Some previous) \<and> (files s' old = Some fresh \<or> files s' new = Some fresh)"
    and "q \<notin> {old, new, ?h} \<Longrightarrow> files s' q = files s q" by blast+
qed

text \<open>Once the first rename was answered, a version that stays hidden is on record.\<close>

lemma hidden_is_recorded:
  assumes run: "replace_by_setting_aside p be ok uuid old new s st = (Inl e, s', st')"
    and new: "files s new = Some previous" and old: "files s old = Some fresh"
    and aside: "files s (aside_path uuid new) = None" and "old \<noteq> new"
    and first: "is_Ok (fst (be_rename_no_replace be new (aside_path uuid new) s))" and hidden: "files s' new \<noteq> Some previous"
  shows "map_of (as_map st') old = Some \<lparr>sd_aside = aside_path uuid new, sd_name = new, sd_stranded_on = None\<rparr>"
proof -
  let ?h = "aside_path uuid new"
  have apart: "?h \<noteq> new" "?h \<noteq> old" using new old aside by auto
  obtain s1 where one: "be_rename_no_replace be new ?h s = (Inr (), s1)" using first by (cases "be_rename_no_replace be new ?h s") auto
  then have f1: "files s1 = (files s)(new := None, ?h := Some previous)" using renamed new by fastforce
  obtain r2 s2 where two: "be_rename_no_replace be old new s1 = (r2, s2)" by fastforce
  obtain r3 s3 where undo: "be_rename_no_replace be ?h new s2 = (r3, s3)" by fastforce
  obtain e2 where r2: "r2 = Inl e2" using run one two by (cases r2) (auto simp: replace_by_setting_aside_def Let_def split: prod.splits)
  then have f2: "files s2 = files s1 \<or> files s2 = (files s1)(old := None, new := Some fresh)"
    using not_renamed [of old new s1 e2 s2] two f1 old apart assms(5) by simp
  show ?thesis
  proof (cases r3)
    case (Inl e3)
    then show ?thesis using run one two r2 undo by (auto simp: replace_by_setting_aside_def Let_def)
  next
    case (Inr u)
    then have "files s3 new = Some previous" using renamed [of ?h new s2 s3] undo f1 f2 apart by auto
    moreover have "s' = s3" using run one two r2 undo Inr by (simp add: replace_by_setting_aside_def Let_def)
    ultimately show ?thesis using hidden by simp
  qed
qed

lemma attempts_touch_staging: "q \<noteq> staging \<Longrightarrow> files (remove_attempts p be late staging s) q = files s q"
proof (induction late arbitrary: s)
  case (Cons timed_out later)
  obtain r s1 where one: "be_remove be staging s = (r, s1)" by fastforce
  then have "files s1 q = files s q" using removed [OF one] Cons.prems by auto
  then show ?case using Cons one by (auto split: sum.splits)
qed simp

text \<open>A staging file is deleted only once the file its replacement set aside is back: while that one is
  still hidden, the staging file stays as it is.\<close>

lemma staging_outlives_hidden:
  assumes run: "remove_staging_on p be ok timed_out late attempts staging s st = (s', st')"
    and entry: "map_of (as_map st) staging = Some entry" and apart: "staging \<noteq> sd_aside entry" "staging \<noteq> sd_name entry"
    and hidden: "files s' (sd_aside entry) \<noteq> None"
  shows "files s' staging = files s staging"
proof -
  obtain r s1 where one: "be_rename_no_replace be (sd_aside entry) (sd_name entry) s = (r, s1)" by fastforce
  have same: "files s1 staging = files s staging"
    using renamed [of "sd_aside entry" "sd_name entry" s s1] not_renamed [of "sd_aside entry" "sd_name entry" s _ s1] one apart
    by (cases r) auto
  obtain b s2 st1 where put2: "put_back_set_aside p be ok timed_out staging s st = (b, s2, st1)" by (metis prod_cases3)
  then have put: "put_back_set_aside p be ok timed_out staging s st = (b, s1, st1)"
    using one entry by (auto simp: put_back_set_aside_def split: sum.splits if_splits)
  show ?thesis
  proof (cases b)
    case False
    then show ?thesis using run put same by (simp add: remove_staging_on_def)
  next
    case True
    then have "r = Inr ()" using put one entry by (auto simp: put_back_set_aside_def split: sum.splits if_splits)
    then have "files s1 (sd_aside entry) = None"
      using renamed [of "sd_aside entry" "sd_name entry" s s1] one by (metis fun_upd_apply)
    moreover have "files s' (sd_aside entry) = files s1 (sd_aside entry)"
      using run put True attempts_touch_staging [of "sd_aside entry" staging] apart(1) by (auto simp: remove_staging_on_def)
    ultimately show ?thesis using hidden by simp
  qed
qed

end

section \<open>Records between runs\<close>

definition entry_of :: "stranded \<Rightarrow> set_aside" where
  "entry_of r = \<lparr>sd_aside = sr_aside r, sd_name = sr_name r, sd_stranded_on = Some (sr_server r)\<rparr>"

lemma map_of_loaded:
  "map_of (fold (load_record u) rs m) k =
     or_opt (map_of m k) (map_option entry_of (find (\<lambda>r. is_own u r \<and> sr_staging r = k) rs))"
  by (induction rs arbitrary: m) (auto simp: load_record_def entry_of_def al_has_def or_opt_def split: option.splits)

definition restarted :: "(string \<Rightarrow> bool) \<Rightarrow> asides \<Rightarrow> asides" where
  "restarted is_uuid st = load_stranded is_uuid \<lparr>as_map = [], as_file = as_file st\<rparr>"

lemma restarted_own:
  assumes "map_of (as_map (restarted is_uuid st)) k = Some entry"
  shows "\<exists>r. is_own is_uuid r \<and> sr_staging r = k \<and> entry_of r = entry"
proof (cases "as_file st")
  case None
  then show ?thesis using assms by (simp add: restarted_def load_stranded_def)
next
  case (Some records)
  then have "map_option entry_of (find (\<lambda>r. is_own is_uuid r \<and> sr_staging r = k) (take max_stranded records)) = Some entry"
    using assms by (simp add: restarted_def load_stranded_def map_of_loaded or_opt_def)
  then show ?thesis by (auto simp: find_Some_iff)
qed

lemma find_stranded:
  assumes "al_ok m" and "map_of m k = Some entry" and "sd_stranded_on entry = Some server"
  shows "find (\<lambda>r. P r \<and> sr_staging r = k) (List.map_filter to_stranded m) =
    (let r = \<lparr>sr_server = server, sr_staging = k, sr_aside = sd_aside entry, sr_name = sd_name entry\<rparr>
     in if P r then Some r else None)"
  using assms
proof (induction m)
  case (Cons x m)
  obtain a e where x: "x = (a, e)" by (cases x)
  show ?case
  proof (cases "a = k")
    case True
    have "r \<in> set (List.map_filter to_stranded m) \<Longrightarrow> sr_staging r \<noteq> k" for r
      using Cons.prems(1) x True by (force simp: List.map_filter_def)
    then have "find (\<lambda>r. P r \<and> sr_staging r = k) (List.map_filter to_stranded m) = None" by (auto simp: find_None_iff)
    then show ?thesis using Cons.prems x True by (simp add: List.map_filter_simps Let_def)
  next
    case False
    then show ?thesis using Cons x by (cases "sd_stranded_on e") (auto simp: List.map_filter_simps Let_def)
  qed
qed simp

lemma length_map_filter: "length (List.map_filter f xs) \<le> length xs"
  by (simp add: List.map_filter_def)

section \<open>Properties\<close>

text \<open>A replacement left for another connection outlives closing the program: after a restart its record
  is there with the same names, waiting on the same server, and no record the next run takes up names
  files FTPeach did not make itself, whatever the kept file holds.\<close>

theorem stranded_survives_restart:
  assumes "strand_set_aside True staging server st = (True, st1)"
    and "al_ok (as_map st)" "length (as_map st) \<le> max_stranded"
    and "map_of (as_map st) staging = Some entry"
    and "is_own is_uuid \<lparr>sr_server = server, sr_staging = staging, sr_aside = sd_aside entry, sr_name = sd_name entry\<rparr>"
  shows "staging \<in> set (stranded_on server (restarted is_uuid st1))
    \<and> map_of (as_map (restarted is_uuid st1)) staging = map_of (as_map st1) staging
    \<and> (\<forall>any k e. map_of (as_map (restarted is_uuid any)) k = Some e \<longrightarrow>
        (\<exists>r. is_own is_uuid r \<and> sr_staging r = k \<and> sr_aside r = sd_aside e \<and> sr_name r = sd_name e))"
proof -
  let ?m = "al_put staging (entry\<lparr>sd_stranded_on := Some server\<rparr>) (as_map st)"
  let ?r = "\<lparr>sr_server = server, sr_staging = staging, sr_aside = sd_aside entry, sr_name = sd_name entry\<rparr>"
  have m: "al_ok ?m" "map_of ?m staging = Some (entry\<lparr>sd_stranded_on := Some server\<rparr>)" using assms(2) by simp_all
  have "map fst ?m = map fst (as_map st)"
    using assms(4) unfolding al_put_def by (simp add: update_keys) (metis in_set_conv_decomp map_of_SomeD imageI fst_conv set_map)
  then have "length ?m \<le> max_stranded" using assms(3) by (metis length_map)
  then have whole: "take max_stranded (List.map_filter to_stranded ?m) = List.map_filter to_stranded ?m"
    using length_map_filter [of to_stranded ?m] by simp
  have found: "find (\<lambda>r. is_own is_uuid r \<and> sr_staging r = staging) (List.map_filter to_stranded ?m) = Some ?r"
    using find_stranded [OF m, of server] assms(5) by (simp add: Let_def)
  then have "List.map_filter to_stranded ?m \<noteq> []" by auto
  then have file_: "as_file st1 = Some (List.map_filter to_stranded ?m)" and map1: "as_map st1 = ?m"
    using assms(1,4) whole by (auto simp: strand_set_aside_def save_stranded_def Let_def)
  have back_: "map_of (as_map (restarted is_uuid st1)) staging = Some (entry_of ?r)"
    using found whole by (simp add: restarted_def load_stranded_def file_ map_of_loaded or_opt_def)
  then have "(staging, entry_of ?r) \<in> set (as_map (restarted is_uuid st1))" by (rule map_of_SomeD)
  then have "staging \<in> set (stranded_on server (restarted is_uuid st1))"
    by (force simp: stranded_on_def entry_of_def)
  moreover have "entry_of ?r = entry\<lparr>sd_stranded_on := Some server\<rparr>" by (simp add: entry_of_def)
  ultimately show ?thesis using back_ map1 m(2) restarted_own by (fastforce simp: entry_of_def)
qed

definition one_hidden :: asides where
  "one_hidden = \<lparr>as_map = [(''/.ftpeach-1.part'', \<lparr>sd_aside = ''/.ftpeach-2.old'', sd_name = ''/a'', sd_stranded_on = None\<rparr>)],
     as_file = None\<rparr>"

theorem stranded_survives_restart_witness:
  "''/.ftpeach-1.part'' \<in> set (stranded_on ''h'' (restarted (\<lambda>i. i \<in> {''1'', ''2''}) (snd (strand_set_aside True ''/.ftpeach-1.part'' ''h'' one_hidden))))"
proof -
  let ?st1 = "snd (strand_set_aside True ''/.ftpeach-1.part'' ''h'' one_hidden)"
  let ?entry = "\<lparr>sd_aside = ''/.ftpeach-2.old'', sd_name = ''/a'', sd_stranded_on = None\<rparr>"
  have a: "strand_set_aside True ''/.ftpeach-1.part'' ''h'' one_hidden = (True, ?st1)"
    by (simp add: strand_set_aside_def one_hidden_def)
  have b: "al_ok (as_map one_hidden)" "length (as_map one_hidden) \<le> max_stranded"
    "map_of (as_map one_hidden) ''/.ftpeach-1.part'' = Some ?entry"
    by (simp_all add: one_hidden_def max_stranded_def)
  have c: "is_own (\<lambda>i. i \<in> {''1'', ''2''}) \<lparr>sr_server = ''h'', sr_staging = ''/.ftpeach-1.part'', sr_aside = sd_aside ?entry, sr_name = sd_name ?entry\<rparr>"
    by code_simp
  show ?thesis using stranded_survives_restart [OF a b c] by blast
qed

end
