(* ===== verification/FtpBackend.thy ===== *)
theory FtpBackend
  imports ListParse SetAside Paths "HOL-Library.Multiset"
begin

text \<open>
  The FTP backend (\<open>protocol/ftp.rs\<close>, \<open>protocol/ftp/listing.rs\<close>, \<open>protocol/ftp/paths.rs\<close>): how a path is
  looked up, renamed, created and removed, and how a listing is read. The client library is a
  parameter: each command is a function of the server's state that answers or fails. A refusal
  leaves the control connection usable, any other failure drops it (\<open>with_stream\<close>).
\<close>

section \<open>The server and the connection\<close>

record 'w ftp_server =
  fv_size :: "string \<Rightarrow> 'w \<Rightarrow> (source + nat) \<times> 'w"
  fv_rename :: "string \<Rightarrow> string \<Rightarrow> 'w \<Rightarrow> (source + unit) \<times> 'w"
  fv_rm :: "string \<Rightarrow> 'w \<Rightarrow> (source + unit) \<times> 'w"
  fv_rmdir :: "string \<Rightarrow> 'w \<Rightarrow> (source + unit) \<times> 'w"
  fv_mkdir :: "string \<Rightarrow> 'w \<Rightarrow> (source + unit) \<times> 'w"
  fv_cwd :: "string \<Rightarrow> 'w \<Rightarrow> (source + unit) \<times> 'w"
  fv_pwd :: "'w \<Rightarrow> (source + string) \<times> 'w"
  fv_list :: "bool \<Rightarrow> string \<Rightarrow> 'w \<Rightarrow> (anyhow_error + string) \<times> 'w"
  fv_append :: "string \<Rightarrow> 'w \<Rightarrow> (anyhow_error + unit) \<times> 'w"

text \<open>What else the backend calls: the libraries of \<open>ListParse\<close>, the clock, RFC 3339 texts, the platform of the
  error classification and Unicode lower case.\<close>

record 'w ftp_env =
  fe_server :: "'w ftp_server"
  fe_regex :: regex_lib
  fe_chrono :: chrono_lib
  fe_now :: "'w \<Rightarrow> int"
  fe_rfc3339 :: "int \<Rightarrow> string"
  fe_platform :: platform
  fe_lowercase :: "string \<Rightarrow> string"

text \<open>The connection: whether a stream is in its slot, whether a data channel was set up, whether listings come
  by MLSD, and the folders a recursive walk saw listed as folders.\<close>

record 'w ftp =
  ft_open :: bool
  ft_data :: bool
  ft_mlsd :: bool
  ft_real_folders :: "string list"
  ft_world :: 'w

record entry_info =
  ei_name :: string
  ei_is_directory :: bool
  ei_size :: nat
  ei_modified_at :: "string option"
  ei_permissions :: "string option"
  ei_owner :: "string option"
  ei_group :: "string option"

definition max_resolved_links :: nat where "max_resolved_links = 64"
definition max_real_folders :: nat where "max_real_folders = 100000"
definition max_raw_directory_entries :: nat where "max_raw_directory_entries = 100000 + 3"
definition max_directory_text_bytes :: nat where "max_directory_text_bytes = 32 * 1024 * 1024"

fun unsupported_reply :: "nat \<Rightarrow> bool" where
  "unsupported_reply status \<longleftrightarrow> status \<in> {500, 501, 502, 504}"

fun unexpected :: "source \<Rightarrow> nat option" where
  "unexpected (SFtpUnexpected status _ _) = Some status"
| "unexpected _ = None"

definition command_refused :: "anyhow_error \<Rightarrow> bool" where
  "command_refused e \<longleftrightarrow> (\<exists>s \<in> set (chain e). case unexpected s of Some status \<Rightarrow> unsupported_reply status | None \<Rightarrow> False)"

definition refused_by_server :: "anyhow_error \<Rightarrow> bool" where
  "refused_by_server e \<longleftrightarrow>
     (\<exists>s \<in> set (chain e). case unexpected s of Some status \<Rightarrow> 400 \<le> status \<and> status \<noteq> 421 | None \<Rightarrow> False)"

definition refused_greeting :: "platform \<Rightarrow> anyhow_error \<Rightarrow> anyhow_error" where
  "refused_greeting p e =
     (if (\<exists>s \<in> set (chain e). unexpected s \<noteq> None) \<and> unexplained p e
      then with_context (CtxTyped (command_error_new ConnectionRefused ''The server refused the connection'')) e else e)"

definition active_mode_refused :: "nat \<Rightarrow> string \<Rightarrow> bool" where
  "active_mode_refused status body =
     (let t = ascii_lower (from_utf8_lossy body)
      in if status = 425 then True
         else if status \<in> {500, 501} then str_contains t ''port'' \<or> str_contains t ''connection'' else False)"

text \<open>\<open>str::lines\<close> of an announcement, for its first words.\<close>

definition feat_offers_mlsd :: "string \<Rightarrow> bool" where
  "feat_offers_mlsd feat \<longleftrightarrow>
     (\<exists>line \<in> set (split_at (\<lambda>ch. code ch = (10::nat)) feat).
        case split_whitespace line of [] \<Rightarrow> False | feature # _ \<Rightarrow> ascii_upper feature \<in> {''MLST'', ''MLSD''})"

fun optional_reply :: "source + 'a \<Rightarrow> anyhow_error + 'a option" where
  "optional_reply (Inr v) = Inr (Some v)"
| "optional_reply (Inl e) =
     (case unexpected e of Some status \<Rightarrow> if status \<noteq> 421 then Inr None else Inl (plain_error e) | None \<Rightarrow> Inl (plain_error e))"

definition no_connection :: anyhow_error where
  "no_connection = failed ConnectionLost ''No active connection to the server''"

definition with_stream :: "('w \<Rightarrow> (anyhow_error + 'a) \<times> 'w) \<Rightarrow> 'w ftp \<Rightarrow> (anyhow_error + 'a) \<times> 'w ftp" where
  "with_stream f st =
     (if \<not> ft_open st then (Inl no_connection, st)
      else (case f (ft_world st) of
              (Inl e, w) \<Rightarrow> (Inl e, st\<lparr>ft_world := w, ft_open := refused_by_server e\<rparr>)
            | (Inr a, w) \<Rightarrow> (Inr a, st\<lparr>ft_world := w\<rparr>)))"

text \<open>A command whose failure the caller sees as it is (\<open>?\<close> on the library's error).\<close>

definition sent :: "('w \<Rightarrow> (source + 'a) \<times> 'w) \<Rightarrow> 'w \<Rightarrow> (anyhow_error + 'a) \<times> 'w" where
  "sent f w = (case f w of (Inl e, w') \<Rightarrow> (Inl (plain_error e), w') | (Inr a, w') \<Rightarrow> (Inr a, w'))"

definition sent_in :: "string \<Rightarrow> ('w \<Rightarrow> (source + 'a) \<times> 'w) \<Rightarrow> 'w \<Rightarrow> (anyhow_error + 'a) \<times> 'w" where
  "sent_in context f w =
     (case f w of (Inl e, w') \<Rightarrow> (Inl (with_context (CtxText context) (plain_error e)), w') | (Inr a, w') \<Rightarrow> (Inr a, w'))"

section \<open>Listings\<close>

definition trim_slashes :: "string \<Rightarrow> string" where
  "trim_slashes s = rev (dropWhile (\<lambda>ch. ch = CHR ''/'') (rev s))"

definition or_root :: "string \<Rightarrow> string" where "or_root parent = (if parent = [] then ''/'' else parent)"

definition parent_and_name :: "string \<Rightarrow> string \<times> string" where
  "parent_and_name path =
     (case rsplit_once_at (CHR ''/'') path of
        None \<Rightarrow> (or_root [], path) | Some (parent, name) \<Rightarrow> (or_root parent, name))"

definition list_raw :: "'w ftp_env \<Rightarrow> bool \<Rightarrow> string \<Rightarrow> 'w \<Rightarrow> (anyhow_error + string list) \<times> 'w" where
  "list_raw env mlsd path w =
     (case fv_list (fe_server env) mlsd path w of
        (Inl e, w') \<Rightarrow> (Inl e, w')
      | (Inr t, w') \<Rightarrow> (Inr (filter (\<lambda>l. l \<noteq> []) (split_at (\<lambda>ch. code ch \<in> {13, 10 :: nat}) t)), w'))"

definition fetch_listing :: "'w ftp_env \<Rightarrow> string \<Rightarrow> 'w ftp \<Rightarrow> (anyhow_error + string list) \<times> 'w ftp" where
  "fetch_listing env target st =
     (if \<not> ft_data st then (Inl no_connection, st) else with_stream (list_raw env (ft_mlsd st) target) st)"

definition parse_listing_line :: "'w ftp_env \<Rightarrow> bool \<Rightarrow> int \<Rightarrow> string \<Rightarrow> raw_entry option" where
  "parse_listing_line env mlsd now line =
     (if mlsd then parse_mlsd_line (fe_chrono env) line else parse_line (fe_regex env) (fe_chrono env) line now)"

definition to_entry :: "(int \<Rightarrow> string) \<Rightarrow> raw_entry \<Rightarrow> entry_info" where
  "to_entry rfc3339 raw =
     \<lparr>ei_name = re_name raw, ei_is_directory = re_is_directory raw, ei_size = re_size raw,
      ei_modified_at = map_option rfc3339 (re_modified_at raw), ei_permissions = re_permissions raw,
      ei_owner = re_owner raw, ei_group = re_group raw\<rparr>"

fun read_lines :: "'w ftp_env \<Rightarrow> bool \<Rightarrow> int \<Rightarrow> string list \<Rightarrow> entry_info list \<Rightarrow> nat list \<Rightarrow> entry_info list \<times> nat list" where
  "read_lines env mlsd now [] entries links = (entries, links)"
| "read_lines env mlsd now (line # lines) entries links =
     (case parse_listing_line env mlsd now line of
        None \<Rightarrow> read_lines env mlsd now lines entries links
      | Some raw \<Rightarrow>
          if \<not> is_safe_path_segment (re_name raw) then read_lines env mlsd now lines entries links
          else read_lines env mlsd now lines (entries @ [to_entry (fe_rfc3339 env) raw])
                 (if re_is_symlink raw then links @ [length entries] else links))"

definition read_listing :: "'w ftp_env \<Rightarrow> string \<Rightarrow> 'w ftp \<Rightarrow> (anyhow_error + entry_info list \<times> nat list) \<times> 'w ftp" where
  "read_listing env target st =
     (case (case fetch_listing env target st of
              (Inl e, st1) \<Rightarrow>
                (if ft_mlsd st1 \<and> command_refused e then fetch_listing env target (st1\<lparr>ft_mlsd := False\<rparr>) else (Inl e, st1))
            | (Inr ls, st1) \<Rightarrow> (Inr ls, st1)) of
        (Inl e, st2) \<Rightarrow> (Inl e, st2)
      | (Inr ls, st2) \<Rightarrow>
          if max_raw_directory_entries < length ls \<or> max_directory_text_bytes < sum_list (map length ls)
          then (Inl (failed ResourceLimit ''FTP directory listing exceeds the configured limit''), st2)
          else (Inr (read_lines env (ft_mlsd st2) (fe_now env (ft_world st2)) ls [] []), st2))"

text \<open>Why the server refused a path: whether its parent lists it, or the parent is missing itself.\<close>

definition split_path :: "string \<Rightarrow> string \<times> string" where
  "split_path path =
     (case rsplit_once_at (CHR ''/'') (trim_slashes path) of None \<Rightarrow> ([], trim_slashes path) | Some pn \<Rightarrow> pn)"

lemma split_path_shorter: "split_path path = (parent, name) \<Longrightarrow> parent \<noteq> [] \<Longrightarrow> length parent < length path"
proof -
  assume "split_path path = (parent, name)" "parent \<noteq> []"
  then have "rsplit_once_at (CHR ''/'') (trim_slashes path) = Some (parent, name)" by (auto simp: split_path_def split: option.splits)
  then have "length parent < length (trim_slashes path)" using rsplit_once_at_Some by fastforce
  also have "\<dots> \<le> length path" using length_dropWhile_le [of _ "rev path"] by (simp add: trim_slashes_def)
  finally show ?thesis .
qed

definition not_found_context :: "anyhow_error \<Rightarrow> anyhow_error" where
  "not_found_context = with_context (CtxTyped (command_error_new NotFound ''File or folder not found''))"

function explain_refusal :: "'w ftp_env \<Rightarrow> string \<Rightarrow> anyhow_error \<Rightarrow> 'w ftp \<Rightarrow> anyhow_error \<times> 'w ftp" where
  "explain_refusal env path error st =
     (case split_path path of (parent, name) \<Rightarrow>
        if \<not> (refused_by_server error \<and> unexplained (fe_platform env) error) \<or> name = [] then (error, st)
        else (case read_listing env (or_root parent) st of
                (Inr (entries, _), st1) \<Rightarrow>
                  (if \<exists>en \<in> set entries. ei_name en = name
                   then with_context (CtxTyped (command_error_new PermissionDenied ''The server refused access'')) error
                   else not_found_context error, st1)
              | (Inl listing, st1) \<Rightarrow>
                  if or_root parent \<noteq> ''/'' \<and> refused_by_server listing
                  then (case explain_refusal env parent listing st1 of
                          (parent_error, st2) \<Rightarrow>
                            if ce_code (from_anyhow (fe_platform env) parent_error) \<noteq> NotFound then (error, st2)
                            else (not_found_context error, st2))
                  else (error, st1)))"
  by pat_completeness auto
termination
  by (relation "measure (\<lambda>(env, path, error, st). length path)")
     (auto simp: or_root_def split: if_splits dest: split_path_shorter [OF sym])

declare explain_refusal.simps [simp del]

text \<open>Whether the parent lists exactly the name.\<close>

definition listed :: "'w ftp_env \<Rightarrow> string \<Rightarrow> 'w ftp \<Rightarrow> (anyhow_error + bool) \<times> 'w ftp" where
  "listed env path st =
     (case parent_and_name path of
        (parent, name) \<Rightarrow>
          (case read_listing env parent st of
             (Inl e, st1) \<Rightarrow> (Inl e, st1)
           | (Inr (entries, _), st1) \<Rightarrow> (Inr (\<exists>en \<in> set entries. ei_name en = name), st1)))"

definition refuse_linked_folder :: "'w ftp_env \<Rightarrow> string \<Rightarrow> 'w ftp \<Rightarrow> (anyhow_error + unit) \<times> 'w ftp" where
  "refuse_linked_folder env target st =
     (case rsplit_once_at (CHR ''/'') (trim_slashes target) of
        None \<Rightarrow> (Inr (), st)
      | Some (parent, name) \<Rightarrow>
          if name = [] then (Inr (), st)
          else (case read_listing env (or_root parent) st of
                  (Inl _, st1) \<Rightarrow> (Inr (), st1)
                | (Inr (siblings, links), st1) \<Rightarrow>
                    if \<exists>i \<in> set links. ei_name (siblings ! i) = name
                    then (Inl (plain_error (SOther (''Recursive operations cannot traverse an FTP symbolic link: '' @ target))), st1)
                    else (Inr (), st1)))"

text \<open>Entering a folder and coming back: whether it opens, or \<open>None\<close> when that could not be found out.\<close>

definition enter :: "'w ftp_env \<Rightarrow> string \<Rightarrow> 'w \<Rightarrow> bool \<times> 'w" where
  "enter env folder w = (case fv_cwd (fe_server env) folder w of (r, w') \<Rightarrow> (is_Ok r, w'))"

definition come_back :: "'w ftp_env \<Rightarrow> string \<Rightarrow> 'w \<Rightarrow> (anyhow_error + unit) \<times> 'w" where
  "come_back env original w = sent_in ''restoring working directory'' (fv_cwd (fe_server env) original) w"

definition folder_opens :: "'w ftp_env \<Rightarrow> string \<Rightarrow> 'w ftp \<Rightarrow> bool option \<times> 'w ftp" where
  "folder_opens env folder st =
     (case with_stream (\<lambda>w.
         case sent_in ''saving working directory'' (fv_pwd (fe_server env)) w of
           (Inl e, w1) \<Rightarrow> (Inl e, w1)
         | (Inr original, w1) \<Rightarrow> (case enter env folder w1 of
             (opens, w2) \<Rightarrow> (case come_back env original w2 of
               (Inl e, w3) \<Rightarrow> (Inl e, w3) | (Inr _, w3) \<Rightarrow> (Inr opens, w3)))) st of
        (Inl _, st') \<Rightarrow> (None, st') | (Inr opens, st') \<Rightarrow> (Some opens, st'))"

fun enter_each :: "'w ftp_env \<Rightarrow> string list \<Rightarrow> 'w \<Rightarrow> bool list \<times> 'w" where
  "enter_each env [] w = ([], w)"
| "enter_each env (path # paths) w =
     (case enter env path w of (b, w1) \<Rightarrow> (case enter_each env paths w1 of (bs, w2) \<Rightarrow> (b # bs, w2)))"

definition linked_folders :: "'w ftp_env \<Rightarrow> string \<Rightarrow> string list \<Rightarrow> 'w ftp \<Rightarrow> bool list \<times> 'w ftp" where
  "linked_folders env folder names st =
     (case with_stream (\<lambda>w.
         case sent_in ''saving working directory'' (fv_pwd (fe_server env)) w of
           (Inl e, w1) \<Rightarrow> (Inl e, w1)
         | (Inr original, w1) \<Rightarrow> (case enter_each env (map (\<lambda>n. trim_slashes folder @ ''/'' @ n) names) w1 of
             (folders, w2) \<Rightarrow> (case come_back env original w2 of
               (Inl e, w3) \<Rightarrow> (Inl e, w3) | (Inr _, w3) \<Rightarrow> (Inr folders, w3)))) st of
        (Inl _, st') \<Rightarrow> (replicate (length names) False, st') | (Inr folders, st') \<Rightarrow> (folders, st'))"

fun mark_folders :: "entry_info list \<Rightarrow> nat list \<Rightarrow> bool list \<Rightarrow> entry_info list" where
  "mark_folders entries (i # links) (b # bs) = mark_folders (entries[i := (entries ! i)\<lparr>ei_is_directory := b\<rparr>]) links bs"
| "mark_folders entries _ _ = entries"

definition cannot_open :: anyhow_error where
  "cannot_open = plain_error (SFtpUnexpected 550 ''550 The folder cannot be opened''
     ''Invalid response: [550] 550 The folder cannot be opened'')"

definition base_name :: "string \<Rightarrow> string" where "base_name path = snd (split_path path)"

text \<open>A recursive operation must not start in a folder its parent lists as a link.\<close>

definition check_folder :: "'w ftp_env \<Rightarrow> string \<Rightarrow> bool \<Rightarrow> 'w ftp \<Rightarrow> (anyhow_error + unit) \<times> 'w ftp" where
  "check_folder env target resolve_links st =
     (if resolve_links then (Inr (), st)
      else if target \<in> set (ft_real_folders st)
      then (Inr (), st\<lparr>ft_real_folders := removeAll target (ft_real_folders st)\<rparr>)
      else refuse_linked_folder env target st)"

definition open_suspicious :: "'w ftp_env \<Rightarrow> string \<Rightarrow> entry_info list \<Rightarrow> 'w ftp \<Rightarrow> bool option \<times> 'w ftp" where
  "open_suspicious env target entries st =
     (if \<not> ft_mlsd st \<and> (entries = [] \<or> (length entries = 1 \<and> ei_name (hd entries) = base_name target)) \<and> target \<noteq> ''/''
      then folder_opens env target st else (None, st))"

definition remember_folders :: "string \<Rightarrow> entry_info list \<Rightarrow> 'w ftp \<Rightarrow> 'w ftp" where
  "remember_folders target entries st =
     st\<lparr>ft_real_folders := fold List.insert
          (map (\<lambda>en. trim_slashes target @ ''/'' @ ei_name en) (filter ei_is_directory entries))
          (if max_real_folders < length (ft_real_folders st) then [] else ft_real_folders st)\<rparr>"

definition list_target ::
  "'w ftp_env \<Rightarrow> string \<Rightarrow> bool \<Rightarrow> 'w ftp \<Rightarrow> (anyhow_error + entry_info list) \<times> 'w ftp" where
  "list_target env target resolve_links st =
     (case read_listing env target st of
        (Inl error, st1) \<Rightarrow> (case explain_refusal env target error st1 of (e, st2) \<Rightarrow> (Inl e, st2))
      | (Inr (entries, links), st1) \<Rightarrow>
          (case open_suspicious env target entries st1 of
             (opens, st2) \<Rightarrow>
               if opens = Some False
               then (case explain_refusal env target cannot_open st2 of (e, st3) \<Rightarrow> (Inl e, st3))
               else if \<not> resolve_links then (Inr entries, remember_folders target entries st2)
               else if links = [] then (Inr entries, st2)
               else (case linked_folders env target (map (\<lambda>i. ei_name (entries ! i)) (take max_resolved_links links)) st2 of
                       (folders, st3) \<Rightarrow> (Inr (mark_folders entries links folders), st3))))"

definition list_entries ::
  "'w ftp_env \<Rightarrow> string \<Rightarrow> bool \<Rightarrow> 'w ftp \<Rightarrow> (anyhow_error + entry_info list) \<times> 'w ftp" where
  "list_entries env path resolve_links st =
     (case check_folder env (or_root path) resolve_links st of
        (Inl e, st1) \<Rightarrow> (Inl e, st1)
      | (Inr _, st1) \<Rightarrow> list_target env (or_root path) resolve_links st1)"

section \<open>Operations on one path\<close>

definition size_probe :: "'w ftp_env \<Rightarrow> string \<Rightarrow> 'w ftp \<Rightarrow> (anyhow_error + nat option) \<times> 'w ftp" where
  "size_probe env path st =
     with_stream (\<lambda>w. case fv_size (fe_server env) path w of
         (Inr _, w') \<Rightarrow> (Inr None, w')
       | (Inl error, w') \<Rightarrow> (case unexpected error of
             Some status \<Rightarrow> (if status = 421 then Inl (plain_error error) else Inr (Some status), w')
           | None \<Rightarrow> (Inl (plain_error error), w'))) st"

definition exists_file :: "'w ftp_env \<Rightarrow> string \<Rightarrow> 'w ftp \<Rightarrow> (anyhow_error + bool) \<times> 'w ftp" where
  "exists_file env path st =
     (case size_probe env path st of
        (Inl e, st1) \<Rightarrow> (Inl e, st1)
      | (Inr None, st1) \<Rightarrow> (Inr True, st1)
      | (Inr (Some status), st1) \<Rightarrow> if status = 550 then (Inr False, st1) else listed env path st1)"

text \<open>One RNFR/RNTO; the server's refusal is an answer.\<close>

definition rename_once ::
  "'w ftp_env \<Rightarrow> string \<Rightarrow> string \<Rightarrow> 'w ftp \<Rightarrow> (anyhow_error + source option) \<times> 'w ftp" where
  "rename_once env old_path new_path st =
     with_stream (\<lambda>w. case fv_rename (fe_server env) old_path new_path w of
         (Inr _, w') \<Rightarrow> (Inr None, w')
       | (Inl error, w') \<Rightarrow> (case unexpected error of
             Some status \<Rightarrow> (if status \<noteq> 421 then Inr (Some error) else Inl (plain_error error), w')
           | None \<Rightarrow> (Inl (plain_error error), w'))) st"

definition not_replaced :: "string \<Rightarrow> anyhow_error" where
  "not_replaced path = failed AlreadyExists (path @ '' already exists on the server; it was not replaced'')"

definition rename_no_replace ::
  "'w ftp_env \<Rightarrow> string \<Rightarrow> string \<Rightarrow> 'w ftp \<Rightarrow> (anyhow_error + unit) \<times> 'w ftp" where
  "rename_no_replace env old_path new_path st =
     (let case_only = (fe_lowercase env old_path = fe_lowercase env new_path)
      in case exists_file env new_path st of
           (Inl e, st1) \<Rightarrow> (Inl e, st1)
         | (Inr there, st1) \<Rightarrow>
             (case (if there \<and> case_only then listed env new_path st1 else (Inr there, st1)) of
                (Inl e, st2) \<Rightarrow> (Inl e, st2)
              | (Inr True, st2) \<Rightarrow> (Inl (not_replaced new_path), st2)
              | (Inr False, st2) \<Rightarrow>
                  (case rename_once env old_path new_path st2 of
                     (Inl e, st3) \<Rightarrow> (Inl e, st3)
                   | (Inr None, st3) \<Rightarrow> (Inr (), st3)
                   | (Inr (Some error), st3) \<Rightarrow>
                       if case_only then (Inl (plain_error error), st3)
                       else (case exists_file env new_path st3 of
                               (Inl e, st4) \<Rightarrow> (Inl e, st4)
                             | (Inr True, st4) \<Rightarrow> (Inl (not_replaced new_path), st4)
                             | (Inr False, st4) \<Rightarrow> (Inl (plain_error error), st4)))))"

definition remove_file :: "'w ftp_env \<Rightarrow> string \<Rightarrow> 'w ftp \<Rightarrow> (anyhow_error + unit) \<times> 'w ftp" where
  "remove_file env path st =
     (case with_stream (sent (fv_rm (fe_server env) path)) st of
        (Inl error, st1) \<Rightarrow> (case explain_refusal env path error st1 of (e, st2) \<Rightarrow> (Inl e, st2))
      | (Inr _, st1) \<Rightarrow> (Inr (), st1))"

definition ftp_backend :: "'w ftp_env \<Rightarrow> 'w ftp backend" where
  "ftp_backend env = \<lparr>be_rename_no_replace = rename_no_replace env, be_remove = remove_file env\<rparr>"

text \<open>RNTO, and where the server refuses it over a file that stands there, a replacement by setting that one
  aside.\<close>

definition rename_over ::
  "'w ftp_env \<Rightarrow> bool \<Rightarrow> string \<Rightarrow> string \<Rightarrow> string \<Rightarrow> 'w ftp \<Rightarrow> asides \<Rightarrow> (anyhow_error + unit) \<times> 'w ftp \<times> asides" where
  "rename_over env ok uuid old_path new_path st asides =
     (case rename_once env old_path new_path st of
        (Inl e, st1) \<Rightarrow> (Inl e, st1, asides)
      | (Inr None, st1) \<Rightarrow> (Inr (), st1, asides)
      | (Inr (Some error), st1) \<Rightarrow>
          (case exists_file env new_path st1 of
             (Inl e, st2) \<Rightarrow> (Inl e, st2, asides)
           | (Inr False, st2) \<Rightarrow> (Inl (plain_error error), st2, asides)
           | (Inr True, st2) \<Rightarrow>
               (case exists_file env old_path st2 of
                  (Inl e, st3) \<Rightarrow> (Inl e, st3, asides)
                | (Inr False, st3) \<Rightarrow> (Inl (plain_error error), st3, asides)
                | (Inr True, st3) \<Rightarrow>
                    replace_by_setting_aside (fe_platform env) (ftp_backend env) ok uuid old_path new_path st3 asides)))"

definition create_file :: "'w ftp_env \<Rightarrow> string \<Rightarrow> 'w ftp \<Rightarrow> (anyhow_error + unit) \<times> 'w ftp" where
  "create_file env path st =
     (case exists_file env path st of
        (Inl e, st1) \<Rightarrow> (Inl e, st1)
      | (Inr True, st1) \<Rightarrow> (Inl (not_replaced path), st1)
      | (Inr False, st1) \<Rightarrow>
          if \<not> ft_data st1 then (Inl no_connection, st1)
          else (case with_stream (fv_append (fe_server env) path) st1 of
                  (Inr _, st2) \<Rightarrow> (Inr (), st2)
                | (Inl error, st2) \<Rightarrow>
                    (Inl (if \<exists>s \<in> set (chain error). unexpected s \<in> {Some 502, Some 504}
                          then with_context (CtxTyped (command_error_new CreateUnsupported
                            (''The server does not support creating '' @ path))) error
                          else error), st2)))"

definition known_size :: "'w ftp_env \<Rightarrow> string \<Rightarrow> 'w ftp \<Rightarrow> nat option \<times> 'w ftp" where
  "known_size env path st =
     (case with_stream (\<lambda>w. case fv_size (fe_server env) path w of (r, w') \<Rightarrow> (optional_reply r, w')) st of
        (Inl _, st1) \<Rightarrow> (None, st1) | (Inr answer, st1) \<Rightarrow> (answer, st1))"

subsection \<open>Folders\<close>

fun ensure_segments :: "'w ftp_env \<Rightarrow> string list \<Rightarrow> 'w \<Rightarrow> (anyhow_error + unit) \<times> 'w" where
  "ensure_segments env [] w = (Inr (), w)"
| "ensure_segments env (seg # segs) w =
     (case enter env seg w of
        (True, w1) \<Rightarrow> ensure_segments env segs w1
      | (False, w1) \<Rightarrow>
          (case sent_in ''mkd segment'' (fv_mkdir (fe_server env) seg) w1 of
             (Inl e, w2) \<Rightarrow> (Inl e, w2)
           | (Inr _, w2) \<Rightarrow> (case sent_in ''cwd into new segment'' (fv_cwd (fe_server env) seg) w2 of
               (Inl e, w3) \<Rightarrow> (Inl e, w3) | (Inr _, w3) \<Rightarrow> ensure_segments env segs w3)))"

definition ensure_dir_segments :: "'w ftp_env \<Rightarrow> string \<Rightarrow> 'w \<Rightarrow> (anyhow_error + unit) \<times> 'w" where
  "ensure_dir_segments env path w =
     (let segs = filter (\<lambda>s. s \<noteq> []) (split_at (\<lambda>ch. ch = CHR ''/'') path)
      in if prefix ''/'' path
         then (case sent_in ''cwd to root'' (fv_cwd (fe_server env) ''/'') w of
                 (Inl e, w1) \<Rightarrow> (Inl e, w1) | (Inr _, w1) \<Rightarrow> ensure_segments env segs w1)
         else ensure_segments env segs w)"

definition ensure_dir :: "'w ftp_env \<Rightarrow> string \<Rightarrow> 'w \<Rightarrow> (anyhow_error + unit) \<times> 'w" where
  "ensure_dir env path w =
     (case fv_mkdir (fe_server env) path w of
        (Inr _, w1) \<Rightarrow> (Inr (), w1)
      | (Inl error, w1) \<Rightarrow>
          if unexpected error \<noteq> Some 550 then (Inl (plain_error error), w1)
          else (case sent_in ''saving working directory'' (fv_pwd (fe_server env)) w1 of
                  (Inl e, w2) \<Rightarrow> (Inl e, w2)
                | (Inr original, w2) \<Rightarrow>
                    (case ensure_dir_segments env path w2 of
                       (result, w3) \<Rightarrow> (case come_back env original w3 of
                          (restored, w4) \<Rightarrow> (case result of Inl e \<Rightarrow> (Inl e, w4) | Inr _ \<Rightarrow> (restored, w4))))))"

definition mkdir :: "'w ftp_env \<Rightarrow> string \<Rightarrow> 'w ftp \<Rightarrow> (anyhow_error + unit) \<times> 'w ftp" where
  "mkdir env path st =
     (case with_stream (ensure_dir env path) st of
        (Inr _, st1) \<Rightarrow> (Inr (), st1)
      | (Inl error, st1) \<Rightarrow>
          (Inl (if refused_by_server error \<and> unexplained (fe_platform env) error
                then with_context (CtxTyped (command_error_new PermissionDenied (''The server refused to create '' @ path))) error
                else error), st1))"

subsection \<open>Removing a tree\<close>

text \<open>The stack holds folders to list, and folders whose entries are gone with the number the last listing held.
  \<open>Some\<close> ends the removal.\<close>

type_synonym pending = "string \<times> nat \<times> nat option"

fun remove_entries ::
  "'w ftp_env \<Rightarrow> string \<Rightarrow> nat \<Rightarrow> entry_info list \<Rightarrow> pending list \<Rightarrow> 'w ftp \<Rightarrow> anyhow_error option \<times> pending list \<times> 'w ftp" where
  "remove_entries env path depth [] stack st = (None, stack, st)"
| "remove_entries env path depth (en # entries) stack st =
     (let child = trim_slashes path @ ''/'' @ ei_name en
      in if ei_is_directory en then remove_entries env path depth entries ((child, depth + 1, None) # stack) st
         else (case remove_file env child st of
                 (Inl e, st1) \<Rightarrow> (Some e, stack, st1)
               | (Inr _, st1) \<Rightarrow> remove_entries env path depth entries stack st1))"

definition remove_step ::
  "'w ftp_env \<Rightarrow> pending \<Rightarrow> pending list \<Rightarrow> 'w ftp \<Rightarrow> anyhow_error option \<times> pending list \<times> 'w ftp" where
  "remove_step env item stack st =
     (case item of
        (path, depth, Some n) \<Rightarrow>
          (case with_stream (sent (fv_rmdir (fe_server env) path)) st of
             (Inr _, st1) \<Rightarrow> (None, stack, st1)
           | (Inl error, st1) \<Rightarrow>
               if 0 < n \<and> refused_by_server error then (None, (path, depth, None) # stack, st1)
               else (Some error, stack, st1))
      | (path, depth, None) \<Rightarrow>
          if \<not> remote_remove_depth_allowed depth
          then (Some (plain_error (SOther ''Folder nesting too deep to remove (> 1024 levels)'')), stack, st)
          else (case list_entries env path False st of
                  (Inl e, st1) \<Rightarrow> (Some e, stack, st1)
                | (Inr entries, st1) \<Rightarrow>
                    remove_entries env path depth entries ((path, depth, Some (length entries)) # stack) st1))"

text \<open>As many steps as \<open>fuel\<close>: the answer if the removal ended, and the state it is in.\<close>

fun remove_run :: "'w ftp_env \<Rightarrow> nat \<Rightarrow> pending list \<Rightarrow> 'w ftp \<Rightarrow> (anyhow_error + unit) option \<times> 'w ftp" where
  "remove_run env fuel [] st = (Some (Inr ()), st)"
| "remove_run env 0 (item # stack) st = (None, st)"
| "remove_run env (Suc fuel) (item # stack) st =
     (case remove_step env item stack st of
        (Some e, _, st1) \<Rightarrow> (Some (Inl e), st1)
      | (None, stack1, st1) \<Rightarrow> remove_run env fuel stack1 st1)"

definition remove_tree :: "'w ftp_env \<Rightarrow> nat \<Rightarrow> string \<Rightarrow> 'w ftp \<Rightarrow> (anyhow_error + unit) option \<times> 'w ftp" where
  "remove_tree env fuel root st = remove_run env fuel [(root, 0, None)] st"

section \<open>Commands that only look\<close>

text \<open>What the commands that change nothing keep.\<close>

definition reads_keep :: "'w ftp_env \<Rightarrow> ('w \<Rightarrow> bool) \<Rightarrow> bool" where
  "reads_keep env I \<longleftrightarrow> (\<forall>w. I w \<longrightarrow> (\<forall>q. I (snd (fv_size (fe_server env) q w))) \<and> (\<forall>q. I (snd (fv_cwd (fe_server env) q w)))
     \<and> I (snd (fv_pwd (fe_server env) w)) \<and> (\<forall>m q. I (snd (fv_list (fe_server env) m q w))))"

lemma reads_keepD:
  assumes "reads_keep env I" and "I w"
  shows "fv_size (fe_server env) q w = (a, w') \<Longrightarrow> I w'" "fv_cwd (fe_server env) q w = (b, w') \<Longrightarrow> I w'"
    "fv_pwd (fe_server env) w = (c, w') \<Longrightarrow> I w'" "fv_list (fe_server env) m q w = (d, w') \<Longrightarrow> I w'"
  using assms unfolding reads_keep_def by (metis snd_conv)+

lemma with_stream_keeps:
  assumes "with_stream f st = (r, st')" and "\<And>r w'. f (ft_world st) = (r, w') \<Longrightarrow> I w'" and "I (ft_world st)"
  shows "I (ft_world st')"
  using assms by (auto simp: with_stream_def split: if_splits prod.splits sum.splits)

lemma fetch_keeps:
  "reads_keep env I \<Longrightarrow> I (ft_world st) \<Longrightarrow> fetch_listing env target st = (r, st') \<Longrightarrow> I (ft_world st')"
  by (auto simp: fetch_listing_def list_raw_def split: if_splits prod.splits sum.splits
      elim!: with_stream_keeps dest: reads_keepD(4))

lemma read_listing_keeps:
  assumes "reads_keep env I" and "I (ft_world st)" and "read_listing env target st = (r, st')"
  shows "I (ft_world st')"
proof -
  obtain r1 st1 where one: "fetch_listing env target st = (r1, st1)" by fastforce
  obtain r2 st2 where two: "fetch_listing env target (st1\<lparr>ft_mlsd := False\<rparr>) = (r2, st2)" by fastforce
  have "I (ft_world st1)" using fetch_keeps [OF assms(1,2) one] .
  moreover from this have "I (ft_world st2)" using fetch_keeps [OF assms(1) _ two] by simp
  moreover have "st' = st1 \<or> st' = st2"
    using assms(3) one two by (auto simp: read_listing_def split: sum.splits if_splits)
  ultimately show ?thesis by blast
qed

lemma explain_keeps:
  "reads_keep env I \<Longrightarrow> I (ft_world st) \<Longrightarrow> I (ft_world (snd (explain_refusal env path error st)))"
proof (induction "length path" arbitrary: path error st rule: less_induct)
  case less
  obtain parent name where split: "split_path path = (parent, name)" by fastforce
  obtain r st1 where one: "read_listing env (or_root parent) st = (r, st1)" by fastforce
  have I1: "I (ft_world st1)" using read_listing_keeps [OF less(2,3) one] .
  show ?case
  proof (cases r)
    case (Inr x)
    then show ?thesis using I1 less(3) by (subst explain_refusal.simps) (auto simp: split one split: prod.splits)
  next
    case (Inl listing)
    show ?thesis
    proof (cases "or_root parent = ''/''")
      case True
      then show ?thesis using I1 less(3) Inl one [unfolded True] by (subst explain_refusal.simps) (auto simp: split True)
    next
      case False
      then have "length parent < length path" using split_path_shorter [OF split] by (auto simp: or_root_def split: if_splits)
      then have "I (ft_world (snd (explain_refusal env parent listing st1)))" using less(1,2) I1 by blast
      then show ?thesis using I1 less(3) Inl by (subst explain_refusal.simps) (auto simp: split one split: prod.splits)
    qed
  qed
qed

lemma listed_keeps: "reads_keep env I \<Longrightarrow> I (ft_world st) \<Longrightarrow> listed env path st = (r, st') \<Longrightarrow> I (ft_world st')"
  by (auto simp: listed_def split: prod.splits sum.splits dest: read_listing_keeps)

lemma size_keeps: "reads_keep env I \<Longrightarrow> I (ft_world st) \<Longrightarrow> size_probe env path st = (r, st') \<Longrightarrow> I (ft_world st')"
  unfolding size_probe_def
  by (erule with_stream_keeps) (auto split: prod.splits sum.splits option.splits if_splits dest: reads_keepD(1))

lemma exists_keeps: "reads_keep env I \<Longrightarrow> I (ft_world st) \<Longrightarrow> exists_file env path st = (r, st') \<Longrightarrow> I (ft_world st')"
  by (auto simp: exists_file_def split: prod.splits sum.splits option.splits if_splits dest: size_keeps intro: listed_keeps)

lemma linked_keeps: "reads_keep env I \<Longrightarrow> I (ft_world st) \<Longrightarrow> refuse_linked_folder env path st = (r, st') \<Longrightarrow> I (ft_world st')"
  by (auto simp: refuse_linked_folder_def split: prod.splits sum.splits option.splits if_splits dest: read_listing_keeps)

lemma opens_keeps: "reads_keep env I \<Longrightarrow> I (ft_world st) \<Longrightarrow> folder_opens env q st = (r, st') \<Longrightarrow> I (ft_world st')"
proof -
  assume keep: "reads_keep env I" and I: "I (ft_world st)" and run: "folder_opens env q st = (r, st')"
  let ?f = "\<lambda>w. case sent_in ''saving working directory'' (fv_pwd (fe_server env)) w of
           (Inl e, w1) \<Rightarrow> (Inl e, w1)
         | (Inr original, w1) \<Rightarrow> (case enter env q w1 of
             (opens, w2) \<Rightarrow> (case come_back env original w2 of
               (Inl e, w3) \<Rightarrow> (Inl e, w3) | (Inr _, w3) \<Rightarrow> (Inr opens, w3)))"
  obtain r1 st1 where one: "with_stream ?f st = (r1, st1)" by fastforce
  have "I (ft_world st1)" using one
    by (rule with_stream_keeps) (use keep I in \<open>auto simp: sent_in_def enter_def come_back_def split: prod.splits sum.splits
      dest!: reads_keepD(2,3) [OF keep, rotated]\<close>)
  then show "I (ft_world st')" using run one by (auto simp: folder_opens_def split: sum.splits)
qed

lemma list_target_keeps:
  assumes keep: "reads_keep env I" and I: "I (ft_world st)" and run: "list_target env target False st = (r, st')"
  shows "I (ft_world st')"
proof -
  obtain r1 st1 where one: "read_listing env target st = (r1, st1)" by fastforce
  have I1: "I (ft_world st1)" using read_listing_keeps [OF keep I one] .
  show ?thesis
  proof (cases r1)
    case (Inl error)
    then show ?thesis using run one explain_keeps [OF keep I1, of target error] by (auto simp: list_target_def split: prod.splits)
  next
    case (Inr x)
    obtain entries links where x: "x = (entries, links)" by fastforce
    obtain opens st2 where two: "open_suspicious env target entries st1 = (opens, st2)" by fastforce
    have I2: "I (ft_world st2)" using two opens_keeps [OF keep I1] I1 by (auto simp: open_suspicious_def split: if_splits)
    then show ?thesis
      using run one two Inr x explain_keeps [OF keep I2, of target cannot_open]
      by (auto simp: list_target_def remember_folders_def split: prod.splits if_splits)
  qed
qed

lemma list_keeps:
  assumes keep: "reads_keep env I" and I: "I (ft_world st)" and run: "list_entries env path False st = (r, st')"
  shows "I (ft_world st')"
proof -
  obtain r1 st1 where one: "check_folder env (or_root path) False st = (r1, st1)" by fastforce
  then have "I (ft_world st1)" using I linked_keeps [OF keep I] by (auto simp: check_folder_def split: if_splits)
  then show ?thesis using run one list_target_keeps [OF keep] I by (auto simp: list_entries_def split: sum.splits)
qed

lemma remove_file_frame:
  assumes keep: "reads_keep env I" and I: "I (ft_world st)" and run: "remove_file env path st = (r, st')"
    and "\<And>w. I w \<Longrightarrow> I (snd (fv_rm (fe_server env) path w))"
  shows "I (ft_world st')"
proof -
  obtain r1 st1 where one: "with_stream (sent (fv_rm (fe_server env) path)) st = (r1, st1)" by fastforce
  have "I (ft_world st1)"
    using one by (rule with_stream_keeps) (use assms(4) [OF I] I in \<open>auto simp: sent_def split: prod.splits sum.splits\<close>)
  then show ?thesis
    using run one explain_keeps [OF keep] by (auto simp: remove_file_def split: sum.splits prod.splits) (metis snd_conv)
qed

section \<open>What a listing gives\<close>

lemma raw_apart:
  "parse_listing_line env mlsd now line = Some raw \<Longrightarrow> re_is_directory raw \<Longrightarrow> \<not> re_is_symlink raw"
  by (auto simp: parse_listing_line_def parse_line_def posix_entry_def dos_entry_def parse_mlsd_line_def Let_def bind_eq_Some_conv
      split: if_splits option.splits prod.splits)

definition listing_sane :: "entry_info list \<Rightarrow> nat list \<Rightarrow> bool" where
  "listing_sane entries links \<longleftrightarrow> (\<forall>en \<in> set entries. is_safe_path_segment (ei_name en))
     \<and> (\<forall>i \<in> set links. i < length entries \<and> \<not> ei_is_directory (entries ! i)) \<and> distinct links"

lemma read_lines_sane:
  "listing_sane entries links \<Longrightarrow> read_lines env mlsd now ls entries links = (es, ks) \<Longrightarrow>
    listing_sane es ks \<and> length es \<le> length entries + length ls"
proof (induction ls arbitrary: entries links)
  case (Cons line ls)
  show ?case
  proof (cases "parse_listing_line env mlsd now line")
    case None
    then show ?thesis using Cons.IH [OF Cons.prems(1)] Cons.prems(2) by simp
  next
    case (Some raw)
    show ?thesis
    proof (cases "is_safe_path_segment (re_name raw)")
      case False
      then show ?thesis using Cons.IH [OF Cons.prems(1)] Cons.prems(2) Some by simp
    next
      case True
      let ?es = "entries @ [to_entry (fe_rfc3339 env) raw]"
      let ?ks = "if re_is_symlink raw then links @ [length entries] else links"
      have "listing_sane ?es ?ks"
        using Cons.prems(1) True raw_apart [OF Some] by (auto simp: listing_sane_def nth_append to_entry_def)
      from Cons.IH [OF this] show ?thesis using Cons.prems(2) Some True by simp
    qed
  qed
qed simp

lemma read_listing_sane:
  assumes "read_listing env target st = (Inr (entries, links), st')"
  shows "listing_sane entries links \<and> length entries \<le> max_raw_directory_entries"
proof -
  obtain ls mlsd now where "read_lines env mlsd now ls [] [] = (entries, links)" "length ls \<le> max_raw_directory_entries"
    using assms by (auto simp: read_listing_def split: sum.splits prod.splits if_splits)
  moreover have "listing_sane [] []" by (simp add: listing_sane_def)
  ultimately show ?thesis using read_lines_sane by fastforce
qed

lemma list_entries_sane:
  assumes "list_entries env path False st = (Inr entries, st')"
  shows "\<forall>en \<in> set entries. is_safe_path_segment (ei_name en)"
proof -
  obtain links st1 st2 where "read_listing env (or_root path) st1 = (Inr (entries, links), st2)"
    using assms by (auto simp: list_entries_def list_target_def split: sum.splits prod.splits if_splits)
  from read_listing_sane [OF this] show ?thesis by (simp add: listing_sane_def)
qed

section \<open>Removing a tree\<close>

text \<open>The root, or below it by names that are each one level down.\<close>

definition inside :: "string \<Rightarrow> string \<Rightarrow> bool" where
  "inside root path \<longleftrightarrow> path = root
     \<or> (\<exists>names. names \<noteq> [] \<and> (\<forall>n \<in> set names. is_safe_path_segment n) \<and> path = trim_slashes root @ concat (map (\<lambda>n. CHR ''/'' # n) names))"

lemma trim_slashes_id: "p \<noteq> [] \<Longrightarrow> last p \<noteq> CHR ''/'' \<Longrightarrow> trim_slashes p = p"
  unfolding trim_slashes_def by (cases p rule: rev_cases) auto

lemma safe_segment_end: "is_safe_path_segment n \<Longrightarrow> n \<noteq> [] \<and> last n \<noteq> CHR ''/''"
proof -
  assume n: "is_safe_path_segment n"
  have "CHR ''/'' \<in> set (bytes [92, 47, 13, 10])" by code_simp
  then show ?thesis using n last_in_set [of n] by (metis is_safe_path_segment_def)
qed

lemma inside_child:
  assumes "inside root path" and "is_safe_path_segment name"
  shows "inside root (trim_slashes path @ ''/'' @ name)"
proof -
  consider "path = root" | names where "names \<noteq> []" "\<forall>n \<in> set names. is_safe_path_segment n"
      "path = trim_slashes root @ concat (map (\<lambda>n. CHR ''/'' # n) names)"
    using assms(1) by (auto simp: inside_def)
  then show ?thesis
  proof cases
    case 1
    then show ?thesis unfolding inside_def using assms(2) by (intro disjI2 exI [of _ "[name]"]) simp
  next
    case 2
    obtain ms m where n: "names = ms @ [m]" using 2(1) by (cases names rule: rev_cases) auto
    have "path \<noteq> []" "last path \<noteq> CHR ''/''" using 2 n safe_segment_end [of m] by auto
    then have "trim_slashes path = path" by (rule trim_slashes_id)
    then show ?thesis unfolding inside_def using 2 assms(2) by (intro disjI2 exI [of _ "names @ [name]"]) simp
  qed
qed

definition deletes_keep :: "'w ftp_env \<Rightarrow> string \<Rightarrow> ('w \<Rightarrow> bool) \<Rightarrow> bool" where
  "deletes_keep env root I \<longleftrightarrow> (\<forall>q w. inside root q \<and> I w \<longrightarrow> I (snd (fv_rm (fe_server env) q w)) \<and> I (snd (fv_rmdir (fe_server env) q w)))"

lemma remove_entries_keeps:
  assumes keep: "reads_keep env I" "deletes_keep env root I"
  shows "remove_entries env path depth entries stack st = (e, stack', st') \<Longrightarrow> inside root path \<Longrightarrow> I (ft_world st)
    \<Longrightarrow> \<forall>en \<in> set entries. is_safe_path_segment (ei_name en) \<Longrightarrow> \<forall>item \<in> set stack. inside root (fst item)
    \<Longrightarrow> I (ft_world st') \<and> (\<forall>item \<in> set stack'. inside root (fst item))"
proof (induction entries arbitrary: stack st)
  case (Cons en entries)
  let ?child = "trim_slashes path @ ''/'' @ ei_name en"
  have child: "inside root ?child" using inside_child [OF Cons.prems(2), of "ei_name en"] Cons.prems(4) by simp
  show ?case
  proof (cases "ei_is_directory en")
    case True
    then show ?thesis using Cons.IH [of "(?child, depth + 1, None) # stack" st] Cons.prems child by (simp add: Let_def)
  next
    case False
    obtain r st1 where one: "remove_file env ?child st = (r, st1)" by fastforce
    have "I (ft_world st1)"
      by (rule remove_file_frame [OF keep(1) Cons.prems(3) one]) (use keep(2) child in \<open>simp add: deletes_keep_def\<close>)
    then show ?thesis using Cons False one by (cases r) (auto simp: Let_def)
  qed
qed simp

lemma remove_step_keeps:
  assumes keep: "reads_keep env I" "deletes_keep env root I" and I: "I (ft_world st)"
    and "remove_step env item stack st = (e, stack', st')" and "\<forall>x \<in> set (item # stack). inside root (fst x)"
  shows "I (ft_world st') \<and> (\<forall>x \<in> set stack'. inside root (fst x))"
proof -
  obtain path depth k where item: "item = (path, depth, k)" by (cases item)
  show ?thesis
  proof (cases k)
    case (Some n)
    obtain r st1 where one: "with_stream (sent (fv_rmdir (fe_server env) path)) st = (r, st1)" by fastforce
    have "I (ft_world st1)"
      using one by (rule with_stream_keeps)
        (use keep(2) I assms(5) item in \<open>force simp: sent_def deletes_keep_def split: prod.splits sum.splits\<close>, rule I)
    then show ?thesis using assms(4,5) item Some one by (auto simp: remove_step_def split: sum.splits if_splits)
  next
    case None
    obtain r st1 where one: "list_entries env path False st = (r, st1)" by fastforce
    have I1: "I (ft_world st1)" using list_keeps [OF keep(1) I one] .
    show ?thesis
    proof (cases "remote_remove_depth_allowed depth \<and> is_Ok r")
      case False
      then show ?thesis using assms(4,5) I I1 item None one by (auto simp: remove_step_def split: sum.splits if_splits)
    next
      case True
      then obtain entries where "r = Inr entries" by blast
      then show ?thesis
        using remove_entries_keeps [OF keep, of path depth entries "(path, depth, Some (length entries)) # stack" st1 e stack' st']
          list_entries_sane [of env path st entries st1] I1 True assms(4,5) item None one
        by (simp add: remove_step_def)
    qed
  qed
qed

lemma remove_run_keeps:
  assumes keep: "reads_keep env I" "deletes_keep env root I"
  shows "I (ft_world st) \<Longrightarrow> \<forall>x \<in> set stack. inside root (fst x) \<Longrightarrow> I (ft_world (snd (remove_run env fuel stack st)))"
proof (induction fuel arbitrary: stack st)
  case 0
  then show ?case by (cases stack) simp_all
next
  case (Suc fuel)
  show ?case
  proof (cases stack)
    case (Cons item rest)
    obtain e stack1 st1 where one: "remove_step env item rest st = (e, stack1, st1)" by (metis prod_cases3)
    note next_ = remove_step_keeps [OF keep Suc.prems(1) one]
    show ?thesis using Cons one next_ Suc by (cases e) auto
  qed (use Suc.prems in simp)
qed

subsection \<open>It ends\<close>

text \<open>The deeper a folder, the less there is left to do.\<close>

fun weight :: "pending \<Rightarrow> nat" where
  "weight (path, depth, None) = 2 * (1026 - depth) + 1"
| "weight (path, depth, Some n) = 2 * (1026 - depth)"

abbreviation weights :: "pending list \<Rightarrow> nat multiset" where
  "weights stack \<equiv> mset (map weight stack)"

lemma remove_entries_weights:
  "remove_entries env path depth entries stack st = (None, stack', st') \<Longrightarrow>
    \<exists>n. weights stack' = weights stack + replicate_mset n (2 * (1025 - depth) + 1)"
proof (induction entries arbitrary: stack st)
  case Nil
  then show ?case by (intro exI [of _ 0]) simp
next
  case (Cons en entries)
  let ?child = "trim_slashes path @ ''/'' @ ei_name en"
  show ?case
  proof (cases "ei_is_directory en")
    case True
    from Cons.IH [of "(?child, depth + 1, None) # stack" st] obtain n where
      "weights stack' = weights ((?child, depth + 1, None) # stack) + replicate_mset n (2 * (1025 - depth) + 1)"
      using Cons.prems True by (auto simp: Let_def)
    then show ?thesis by (intro exI [of _ "Suc n"]) simp
  next
    case False
    then show ?thesis using Cons by (auto simp: Let_def split: sum.splits prod.splits)
  qed
qed

lemma remove_step_lighter:
  assumes "remove_step env item stack st = (None, stack', st')"
    and "\<forall>q w e w'. fv_rmdir (fe_server env) q w = (Inl e, w') \<longrightarrow> \<not> refused_by_server (plain_error e)"
  shows "(weights stack', weights (item # stack)) \<in> mult less_than"
proof -
  obtain path depth k where item: "item = (path, depth, k)" by (cases item)
  show ?thesis
  proof (cases k)
    case (Some n)
    have "\<not> refused_by_server no_connection" by (simp add: no_connection_def refused_by_server_def failed_def plain_error_def chain_def)
    then have "stack' = stack" using assms item Some
      by (auto simp: remove_step_def with_stream_def sent_def split: sum.splits prod.splits if_splits)
    then show ?thesis using one_step_implies_mult [of "{#weight item#}" "{#}" less_than "weights stack"]
      by simp
  next
    case None
    then obtain entries st1 where deep: "depth \<le> 1024" and r:
      "remove_entries env path depth entries ((path, depth, Some (length entries)) # stack) st1 = (None, stack', st')"
      using assms(1) item by (auto simp: remove_step_def remote_remove_depth_allowed_def split: sum.splits prod.splits if_splits)
    obtain n where n: "weights stack' = weights stack + ({#2 * (1026 - depth)#} + replicate_mset n (2 * (1025 - depth) + 1))"
      using remove_entries_weights [OF r] by (auto simp: ac_simps)
    have "\<forall>x \<in> set_mset ({#2 * (1026 - depth)#} + replicate_mset n (2 * (1025 - depth) + 1)). x < weight item"
      using deep item None by (auto simp: in_replicate_mset split: if_splits)
    then have "(weights stack + ({#2 * (1026 - depth)#} + replicate_mset n (2 * (1025 - depth) + 1)), weights stack + {#weight item#})
        \<in> mult less_than"
      by (intro one_step_implies_mult) auto
    then show ?thesis using n by (simp add: ac_simps)
  qed
qed

lemma remove_run_ends:
  assumes "\<forall>q w e w'. fv_rmdir (fe_server env) q w = (Inl e, w') \<longrightarrow> \<not> refused_by_server (plain_error e)"
  shows "\<exists>fuel r. fst (remove_run env fuel stack st) = Some r"
proof -
  have "wf (inv_image (mult less_than) weights)" using wf_mult [of less_than] by simp
  then show ?thesis
  proof (induction stack arbitrary: st rule: wf_induct_rule)
    case (less stack)
    show ?case
    proof (cases stack)
      case Nil
      then show ?thesis by (intro exI [of _ 0]) simp
    next
      case (Cons item rest)
      obtain e stack1 st1 where one: "remove_step env item rest st = (e, stack1, st1)" by (metis prod_cases3)
      show ?thesis
      proof (cases e)
        case None
        then have "(stack1, stack) \<in> inv_image (mult less_than) weights"
          using remove_step_lighter [OF _ assms] one Cons by simp
        then obtain fuel r where "fst (remove_run env fuel stack1 st1) = Some r" using less by blast
        then show ?thesis using Cons one None by (intro exI [of _ "Suc fuel"]) simp
      next
        case (Some x)
        then show ?thesis using Cons one by (intro exI [of _ "Suc 0"]) simp
      qed
    qed
  qed
qed

section \<open>A server that keeps files\<close>

text \<open>A server with files under their paths. It replaces a file when another is renamed to its name, or refuses;
  an answer may get lost with the command carried out (\<open>Unanswered\<close>) or not (\<open>Cut\<close>).\<close>

datatype fate = Answered | Unanswered | Cut

record plain =
  pl_files :: "string \<Rightarrow> string option"
  pl_fates :: "fate list"
  pl_replaces :: bool

definition connection_reset :: source where
  "connection_reset = SFtpConnection \<lparr>io_os_code = None, io_kind_of = KConnectionReset, io_reply_too_large = False, io_text = ''reset''\<rparr>
     ''Connection error: reset''"

definition refusal_550 :: source where "refusal_550 = SFtpUnexpected 550 ''550 Refused'' ''Invalid response: [550] 550 Refused''"

definition with_fate :: "(plain \<Rightarrow> (source + 'a) \<times> plain) \<Rightarrow> plain \<Rightarrow> (source + 'a) \<times> plain" where
  "with_fate f w =
     (case pl_fates w of
        [] \<Rightarrow> f w
      | Answered # fs \<Rightarrow> f (w\<lparr>pl_fates := fs\<rparr>)
      | Unanswered # fs \<Rightarrow> (Inl connection_reset, snd (f (w\<lparr>pl_fates := fs\<rparr>)))
      | Cut # fs \<Rightarrow> (Inl connection_reset, w\<lparr>pl_fates := fs\<rparr>))"

definition plain_size :: "string \<Rightarrow> plain \<Rightarrow> (source + nat) \<times> plain" where
  "plain_size q w = (case pl_files w q of None \<Rightarrow> (Inl refusal_550, w) | Some text \<Rightarrow> (Inr (length text), w))"

definition moved :: "string \<Rightarrow> string \<Rightarrow> (string \<Rightarrow> string option) \<Rightarrow> string \<Rightarrow> string option" where
  "moved a b m = m(a := None, b := m a)"

definition plain_rename :: "string \<Rightarrow> string \<Rightarrow> plain \<Rightarrow> (source + unit) \<times> plain" where
  "plain_rename a b w =
     (if a = b \<or> pl_files w a = None \<or> pl_files w b \<noteq> None \<and> \<not> pl_replaces w then (Inl refusal_550, w)
      else (Inr (), w\<lparr>pl_files := moved a b (pl_files w)\<rparr>))"

definition plain_rm :: "string \<Rightarrow> plain \<Rightarrow> (source + unit) \<times> plain" where
  "plain_rm q w = (if pl_files w q = None then (Inl refusal_550, w) else (Inr (), w\<lparr>pl_files := (pl_files w)(q := None)\<rparr>))"

definition plain_server :: "plain ftp_server" where
  "plain_server =
     \<lparr>fv_size = (\<lambda>q. with_fate (plain_size q)), fv_rename = (\<lambda>a b. with_fate (plain_rename a b)),
      fv_rm = (\<lambda>q. with_fate (plain_rm q)), fv_rmdir = (\<lambda>q w. (Inl refusal_550, w)), fv_mkdir = (\<lambda>q w. (Inl refusal_550, w)),
      fv_cwd = (\<lambda>q w. (Inr (), w)), fv_pwd = (\<lambda>w. (Inr ''/'', w)), fv_list = (\<lambda>m q w. (Inr [], w)),
      fv_append = (\<lambda>q w. (Inr (), w))\<rparr>"

definition plain_env :: "plain ftp_env" where
  "plain_env = \<lparr>fe_server = plain_server, fe_regex = toy_regex, fe_chrono = toy_chrono, fe_now = (\<lambda>_. 0),
     fe_rfc3339 = (\<lambda>_. []), fe_platform = Unix, fe_lowercase = id\<rparr>"

abbreviation plain_files :: "plain ftp \<Rightarrow> string \<Rightarrow> string option" where
  "plain_files st \<equiv> pl_files (ft_world st)"

lemma plain_env_simps [simp]:
  "fv_size (fe_server plain_env) q = with_fate (plain_size q)" "fv_rename (fe_server plain_env) a b = with_fate (plain_rename a b)"
  "fv_rm (fe_server plain_env) q = with_fate (plain_rm q)" "fe_lowercase plain_env = id" "fe_platform plain_env = Unix"
  by (simp_all add: plain_env_def plain_server_def)

lemma with_fate_files:
  assumes "with_fate f w = (r, w')" and "\<And>v r v'. f v = (r, v') \<Longrightarrow> pl_files v = pl_files w \<Longrightarrow> P (pl_files v')" and "P (pl_files w)"
  shows "P (pl_files w')"
  using assms(1,3) assms(2) [of w] assms(2) [of "w\<lparr>pl_fates := tl (pl_fates w)\<rparr>"]
  by (auto simp: with_fate_def split: list.splits fate.splits) (metis prod.collapse)+

lemma with_fate_done:
  assumes "with_fate f w = (Inr a, w')"
  obtains v where "f v = (Inr a, w')" "pl_files v = pl_files w" "pl_replaces v = pl_replaces w"
  using assms by (auto simp: with_fate_def split: list.splits fate.splits)

lemma with_fate_refused:
  assumes "with_fate f w = (Inl e, w')" and "unexpected e \<noteq> None"
  obtains v where "f v = (Inl e, w')" "pl_files v = pl_files w" "pl_replaces v = pl_replaces w"
  using assms by (auto simp: with_fate_def connection_reset_def split: list.splits fate.splits)

lemma plain_reads: "reads_keep plain_env (\<lambda>w. pl_files w = F \<and> pl_replaces w = b)"
  by (auto simp: reads_keep_def plain_env_def plain_server_def plain_size_def with_fate_def split: list.splits fate.splits option.splits)

lemma plain_exists:
  assumes run: "exists_file plain_env q st = (r, st')"
  shows "plain_files st' = plain_files st" "pl_replaces (ft_world st') = pl_replaces (ft_world st)"
    "r = Inr True \<Longrightarrow> plain_files st q \<noteq> None" "r = Inr False \<Longrightarrow> plain_files st q = None"
proof -
  show "plain_files st' = plain_files st" "pl_replaces (ft_world st') = pl_replaces (ft_world st)"
    using exists_keeps [OF plain_reads _ run, of "plain_files st" "pl_replaces (ft_world st)"] by simp_all
  obtain p st1 where probe: "size_probe plain_env q st = (p, st1)" by fastforce
  then have "p = Inr None \<Longrightarrow> plain_files st q \<noteq> None" "p = Inr (Some status) \<Longrightarrow> status = 550 \<and> plain_files st q = None" for status
    by (auto simp: size_probe_def with_stream_def with_fate_def plain_size_def refusal_550_def connection_reset_def
        split: if_splits list.splits fate.splits option.splits)
  then show "r = Inr True \<Longrightarrow> plain_files st q \<noteq> None" "r = Inr False \<Longrightarrow> plain_files st q = None"
    using run probe by (auto simp: exists_file_def split: sum.splits option.splits if_splits)
qed

lemma plain_once:
  assumes run: "rename_once plain_env a b st = (r, st')"
  shows "r = Inr None \<Longrightarrow> a \<noteq> b \<and> plain_files st a \<noteq> None \<and> plain_files st' = moved a b (plain_files st)
      \<and> (plain_files st b \<noteq> None \<longrightarrow> pl_replaces (ft_world st))"
    and "r = Inr (Some e) \<Longrightarrow> plain_files st' = plain_files st \<and> unexpected e = Some 550"
    and "r = Inl e' \<Longrightarrow> plain_files st' = plain_files st \<or> (a \<noteq> b \<and> plain_files st a \<noteq> None
      \<and> plain_files st' = moved a b (plain_files st) \<and> (plain_files st b \<noteq> None \<longrightarrow> pl_replaces (ft_world st)))"
    and "pl_replaces (ft_world st') = pl_replaces (ft_world st)"
  using run
  by (auto simp: rename_once_def with_stream_def with_fate_def plain_rename_def refusal_550_def connection_reset_def no_connection_def
      split: if_splits list.splits fate.splits option.splits)

lemma plain_listed:
  assumes "listed plain_env q st = (r, st')"
  shows "plain_files st' = plain_files st" "pl_replaces (ft_world st') = pl_replaces (ft_world st)"
  using listed_keeps [OF plain_reads _ assms, of "plain_files st" "pl_replaces (ft_world st)"] by simp_all

lemma plain_no_replace:
  assumes run: "rename_no_replace plain_env a b st = (r, st')"
  shows "r = Inr () \<Longrightarrow> plain_files st a \<noteq> None \<and> plain_files st b = None \<and> plain_files st' = moved a b (plain_files st)"
    and "r = Inl e \<Longrightarrow> plain_files st' = plain_files st
      \<or> (plain_files st a \<noteq> None \<and> plain_files st b = None \<and> plain_files st' = moved a b (plain_files st))"
proof -
  obtain r1 st1 where one: "exists_file plain_env b st = (r1, st1)" by fastforce
  obtain r2 st2 where two: "(if r1 = Inr True \<and> a = b then listed plain_env b st1 else (r1, st1)) = (r2, st2)" by fastforce
  have same: "plain_files st1 = plain_files st" "plain_files st2 = plain_files st"
    using plain_exists(1) [OF one] two plain_listed(1) by (auto split: if_splits)
  have free: "plain_files st b = None \<or> a = b" if "r2 = Inr False"
    using that two plain_exists(4) [OF one] by (auto split: if_splits)
  obtain r3 st3 where three: "rename_once plain_env a b st2 = (r3, st3)" by fastforce
  obtain r4 st4 where four: "exists_file plain_env b st3 = (r4, st4)" by fastforce
  have same4: "plain_files st4 = plain_files st3" using plain_exists(1) [OF four] .
  have shape: "(r, st') = (case r2 of Inl e \<Rightarrow> (Inl e, st2) | Inr True \<Rightarrow> (Inl (not_replaced b), st2) | Inr False \<Rightarrow>
      (case r3 of Inl e \<Rightarrow> (Inl e, st3) | Inr None \<Rightarrow> (Inr (), st3) | Inr (Some error) \<Rightarrow>
        if a = b then (Inl (plain_error error), st3)
        else (case r4 of Inl e \<Rightarrow> (Inl e, st4) | Inr True \<Rightarrow> (Inl (not_replaced b), st4) | Inr False \<Rightarrow> (Inl (plain_error error), st4))))"
    using run one two three four
    by (auto simp: rename_no_replace_def Let_def split: sum.splits bool.splits option.splits if_splits)
  show "r = Inr () \<Longrightarrow> plain_files st a \<noteq> None \<and> plain_files st b = None \<and> plain_files st' = moved a b (plain_files st)"
    using shape free same plain_once(1) [OF three] by (auto split: sum.splits bool.splits option.splits if_splits)
  show "r = Inl e \<Longrightarrow> plain_files st' = plain_files st
      \<or> (plain_files st a \<noteq> None \<and> plain_files st b = None \<and> plain_files st' = moved a b (plain_files st))"
    using shape free same same4 plain_once(2,3) [OF three] by (auto split: sum.splits bool.splits option.splits if_splits)
qed

lemma plain_remove_file:
  assumes run: "remove_file plain_env q st = (r, st')"
  shows "plain_files st' = plain_files st \<or> plain_files st' = (plain_files st)(q := None)"
proof -
  obtain r1 st1 where one: "with_stream (sent (with_fate (plain_rm q))) st = (r1, st1)" by fastforce
  then have "plain_files st1 = plain_files st \<or> plain_files st1 = (plain_files st)(q := None)"
    by (auto simp: with_stream_def sent_def with_fate_def plain_rm_def split: if_splits list.splits fate.splits)
  moreover have "plain_files st' = plain_files st1"
    using run one explain_keeps [OF plain_reads, of st1 "plain_files st1" "pl_replaces (ft_world st1)"]
    by (auto simp: remove_file_def split: sum.splits prod.splits) (metis snd_conv)
  ultimately show ?thesis by simp
qed

text \<open>The backend over such a server keeps to the contract of a replacement.\<close>

interpretation over_plain: two_versions "ftp_backend plain_env" plain_files
proof
  fix a b s s' e q and r :: "anyhow_error + unit"
  show "be_rename_no_replace (ftp_backend plain_env) a b s = (Inr (), s') \<Longrightarrow>
      plain_files s a \<noteq> None \<and> plain_files s b = None \<and> plain_files s' = (plain_files s)(a := None, b := plain_files s a)"
    using plain_no_replace(1) [of a b s "Inr ()" s'] by (simp add: ftp_backend_def moved_def)
  show "be_rename_no_replace (ftp_backend plain_env) a b s = (Inl e, s') \<Longrightarrow> plain_files s' = plain_files s
      \<or> plain_files s a \<noteq> None \<and> plain_files s b = None \<and> plain_files s' = (plain_files s)(a := None, b := plain_files s a)"
    using plain_no_replace(2) [of a b s "Inl e" s' e] by (simp add: ftp_backend_def moved_def)
  show "be_remove (ftp_backend plain_env) q s = (r, s') \<Longrightarrow> plain_files s' = plain_files s \<or> plain_files s' = (plain_files s)(q := None)"
    using plain_remove_file [of q s r s'] by (simp add: ftp_backend_def)
qed

section \<open>Properties\<close>

text \<open>C36: Deleting a folder on a server never reaches outside it: whatever the server answers, and however far the
  removal gets, only paths that are the folder or lie below it by plain names are deleted, so anything
  such deletions and the commands that only look leave alone is left alone.\<close>

theorem removal_stays_inside:
  assumes "reads_keep env I" and "deletes_keep env root I" and "I (ft_world st)"
  shows "I (ft_world (snd (remove_tree env fuel root st)))"
  unfolding remove_tree_def
  by (rule remove_run_keeps [OF assms]) (simp add: inside_def)


text \<open>A listing is bounded and sane whatever the server sends: each name is a single step down, a link is never a
  folder, so a recursive walk does not enter it, and the links' places are places of the listing.\<close>

theorem listings_are_sane:
  assumes "read_listing env target st = (Inr (entries, links), st')"
  shows "length entries \<le> max_raw_directory_entries \<and> (\<forall>i. i < length entries \<longrightarrow> is_safe_path_segment (ei_name (entries ! i)))
    \<and> (\<forall>i. i \<in> set links \<longrightarrow> i < length entries \<and> \<not> ei_is_directory (entries ! i)) \<and> distinct links"
  using read_listing_sane [OF assms] by (auto simp: listing_sane_def)

lemma rename_over_cases:
  assumes run: "rename_over plain_env ok uuid old new st asides = (r, st', asides')"
  obtains (direct) "plain_files st' = plain_files st" "\<exists>e. r = Inl e"
    | (through) "old \<noteq> new" "plain_files st' = moved old new (plain_files st)"
        "plain_files st new \<noteq> None \<longrightarrow> pl_replaces (ft_world st)"
    | (aside) st3 where "plain_files st3 = plain_files st"
        "replace_by_setting_aside Unix (ftp_backend plain_env) ok uuid old new st3 asides = (r, st', asides')"
proof -
  obtain r1 st1 where one: "rename_once plain_env old new st = (r1, st1)" by fastforce
  obtain r2 st2 where two: "exists_file plain_env new st1 = (r2, st2)" by fastforce
  obtain r3 st3 where three: "exists_file plain_env old st2 = (r3, st3)" by fastforce
  note same = plain_exists(1) [OF two] plain_exists(1) [OF three]
  show thesis
  proof (cases r1)
    case (Inl e)
    then have "r = Inl e" "st' = st1" using run one by (simp_all add: rename_over_def)
    then show thesis using plain_once(3) [OF one Inl] direct through by auto
  next
    case (Inr refusal)
    show thesis
    proof (cases refusal)
      case None
      then have "st' = st1" using run one Inr by (simp add: rename_over_def)
      then show thesis using plain_once(1) [OF one] Inr None through by auto
    next
      case (Some e)
      have same1: "plain_files st1 = plain_files st" using plain_once(2) [OF one] Inr Some by simp
      consider "r2 = Inr True \<and> r3 = Inr True" | "\<exists>e. r = Inl e" "st' = st2 \<or> st' = st3"
        using run one two three Inr Some
        by (auto simp: rename_over_def split: sum.splits bool.splits)
      then show thesis
      proof cases
        case 1
        then have "replace_by_setting_aside Unix (ftp_backend plain_env) ok uuid old new st3 asides = (r, st', asides')"
          using run one two three Inr Some by (simp add: rename_over_def)
        then show thesis using aside [of st3] same same1 by simp
      next
        case 2
        then show thesis using direct same same1 by auto
      qed
    qed
  qed
qed


text \<open>While a file set aside is still hidden on the server, cleaning up leaves the staging file of its
  replacement, the only copy of the new version.\<close>

theorem staging_stays_while_hidden:
  assumes "remove_staging_on Unix (ftp_backend plain_env) ok timed_out late attempts staging st asides = (st', asides')"
    and "map_of (as_map asides) staging = Some entry" and "staging \<noteq> sd_aside entry" and "staging \<noteq> sd_name entry"
    and "plain_files st' (sd_aside entry) \<noteq> None"
  shows "plain_files st' staging = plain_files st staging"
  using assms by (rule over_plain.staging_outlives_hidden)

text \<open>C39: When the answer to the first of the two renames gets lost, the file is already hidden but nothing records
  it: the name is gone, no later connection puts the file back.\<close>

theorem lost_answer_hides_the_file:
  assumes "ft_open st" and "pl_fates (ft_world st) = [Answered, Unanswered]" and "new \<noteq> aside_path uuid new"
    and "plain_files st new = Some previous" and "plain_files st (aside_path uuid new) = None"
  shows "\<exists>e st'. replace_by_setting_aside Unix (ftp_backend plain_env) ok uuid old new st asides = (Inl e, st', asides)
    \<and> plain_files st' new = None \<and> plain_files st' (aside_path uuid new) = Some previous"
proof -
  let ?h = "aside_path uuid new"
  have "\<exists>e st'. rename_no_replace plain_env new ?h st = (Inl e, st') \<and> plain_files st' = moved new ?h (plain_files st)"
    using assms
    by (simp add: rename_no_replace_def exists_file_def size_probe_def rename_once_def with_stream_def with_fate_def plain_size_def
        plain_rename_def refusal_550_def connection_reset_def Let_def refused_by_server_def plain_error_def chain_def)
  then obtain e st' where "rename_no_replace plain_env new ?h st = (Inl e, st')" "plain_files st' = moved new ?h (plain_files st)"
    by blast
  then show ?thesis using assms
    by (intro exI [of _ "refused_replacement Unix e new"] exI [of _ st'])
      (simp add: replace_by_setting_aside_def ftp_backend_def Let_def moved_def)
qed

section \<open>Witnesses\<close>

definition two_files :: "fate list \<Rightarrow> plain ftp" where
  "two_files fates = \<lparr>ft_open = True, ft_data = True, ft_mlsd = True, ft_real_folders = [],
     ft_world = \<lparr>pl_files = [''/f'' \<mapsto> ''old'', ''/s'' \<mapsto> ''new''], pl_fates = fates, pl_replaces = False\<rparr>\<rparr>"

lemma two_files_simps [simp]:
  "plain_files (two_files fs) ''/f'' = Some ''old''" "plain_files (two_files fs) ''/s'' = Some ''new''"
  "plain_files (two_files fs) ''/.ftpeach-u.old'' = None" "aside_path ''u'' ''/f'' = ''/.ftpeach-u.old''"
  "ft_open (two_files fs)" "pl_fates (ft_world (two_files fs)) = fs" "\<not> pl_replaces (ft_world (two_files fs))"
proof -
  show "aside_path ''u'' ''/f'' = ''/.ftpeach-u.old''" by code_simp
qed (simp_all add: two_files_def)

theorem removal_stays_inside_witness:
  "plain_files (snd (remove_tree plain_env 9 ''/s'' (two_files []))) ''/f'' = Some ''old''"
proof -
  have reads: "reads_keep plain_env (\<lambda>w. pl_files w ''/f'' = Some ''old'')"
    by (auto simp: reads_keep_def plain_env_def plain_server_def plain_size_def with_fate_def split: list.splits fate.splits option.splits)
  have "q \<noteq> ''/f''" if "inside ''/s'' q" for q
  proof -
    have "trim_slashes ''/s'' = ''/s''" by code_simp
    then show ?thesis using that by (auto simp: inside_def)
  qed
  then have "deletes_keep plain_env ''/s'' (\<lambda>w. pl_files w ''/f'' = Some ''old'')"
    by (auto simp: deletes_keep_def plain_env_def plain_server_def plain_rm_def with_fate_def split: list.splits fate.splits)
  from removal_stays_inside [OF reads this] show ?thesis by simp
qed


theorem listings_are_sane_witness:
  "\<exists>entries links st'. read_listing (plain_env\<lparr>fe_server := plain_server\<lparr>fv_list := \<lambda>_ _ w. (Inr ''type=dir; sub'', w)\<rparr>\<rparr>) ''/''
     (two_files []) = (Inr (entries, links), st') \<and> entries \<noteq> [] \<and> is_safe_path_segment (ei_name (entries ! 0))"
proof -
  let ?env = "plain_env\<lparr>fe_server := plain_server\<lparr>fv_list := \<lambda>_ _ w. (Inr ''type=dir; sub'', w)\<rparr>\<rparr>"
  have cut: "filter (\<lambda>l. l \<noteq> []) (split_at (\<lambda>ch. code ch \<in> {13, 10 :: nat}) ''type=dir; sub'') = [''type=dir; sub'']" by code_simp
  have parsed: "\<exists>raw. parse_mlsd_line (fe_chrono ?env) ''type=dir; sub'' = Some raw \<and> re_name raw = ''sub''"
  proof -
    have "map_option re_name (parse_mlsd_line toy_chrono ''type=dir; sub'') = Some ''sub''" by code_simp
    then show ?thesis by (auto simp: plain_env_def)
  qed
  have safe: "is_safe_path_segment ''sub''" by code_simp
  obtain entries links st' where run: "read_listing ?env ''/'' (two_files []) = (Inr (entries, links), st')" "entries \<noteq> []"
    using parsed safe cut
    by (auto simp: read_listing_def fetch_listing_def with_stream_def list_raw_def two_files_def parse_listing_line_def
        max_raw_directory_entries_def max_directory_text_bytes_def)
  then show ?thesis using listings_are_sane [OF run(1)] by auto
qed


theorem staging_stays_while_hidden_witness:
  "\<exists>st' as. remove_staging_on Unix (ftp_backend plain_env) True False (\<lambda>_. False) 3 ''/s'' (two_files [Answered, Cut])
      \<lparr>as_map = [(''/s'', \<lparr>sd_aside = ''/f'', sd_name = ''/g'', sd_stranded_on = None\<rparr>)], as_file = None\<rparr> = (st', as)
     \<and> plain_files st' ''/s'' = Some ''new''"
proof -
  let ?entry = "\<lparr>sd_aside = ''/f'', sd_name = ''/g'', sd_stranded_on = None\<rparr>"
  let ?as = "\<lparr>as_map = [(''/s'', ?entry)], as_file = None\<rparr>"
  have step: "\<exists>e st1. rename_no_replace plain_env ''/f'' ''/g'' (two_files [Answered, Cut]) = (Inl e, st1)
      \<and> plain_files st1 ''/f'' = Some ''old'' \<and> ce_code (from_anyhow Unix e) \<notin> {AlreadyExists, NotFound}"
    by (simp add: rename_no_replace_def exists_file_def size_probe_def rename_once_def with_stream_def with_fate_def plain_size_def
        refusal_550_def connection_reset_def Let_def two_files_def) code_simp
  then obtain e st1 where one: "rename_no_replace plain_env ''/f'' ''/g'' (two_files [Answered, Cut]) = (Inl e, st1)"
    "plain_files st1 ''/f'' = Some ''old''" "ce_code (from_anyhow Unix e) \<notin> {AlreadyExists, NotFound}" by blast
  have run: "remove_staging_on Unix (ftp_backend plain_env) True False (\<lambda>_. False) 3 ''/s'' (two_files [Answered, Cut]) ?as = (st1, ?as)"
    using one by (simp add: remove_staging_on_def put_back_set_aside_def ftp_backend_def)
  from staging_stays_while_hidden [OF run, of ?entry] one(2) have "plain_files st1 ''/s'' = Some ''new''" by simp
  then show ?thesis using run by blast
qed

theorem lost_answer_hides_the_file_witness:
  "\<exists>e st'. replace_by_setting_aside Unix (ftp_backend plain_env) True ''u'' ''/s'' ''/f'' (two_files [Answered, Unanswered])
      \<lparr>as_map = [], as_file = None\<rparr> = (Inl e, st', \<lparr>as_map = [], as_file = None\<rparr>)
    \<and> plain_files st' ''/f'' = None \<and> plain_files st' ''/.ftpeach-u.old'' = Some ''old''"
  using lost_answer_hides_the_file [of "two_files [Answered, Unanswered]" "''/f''" "''u''" "''old''" True "''/s''"
    "\<lparr>as_map = [], as_file = None\<rparr>"] by simp

end
