(* ===== verification/Sites.thy ===== *)
theory Sites
  imports ProxySettings Paths
begin

text \<open>
  Saved sites, local paths and their folders (\<open>store/sites.rs\<close>, \<open>store/sites/mutations.rs\<close> and the listing
  and file-splitting part of \<open>store/sites/queries.rs\<close>). Both files hold a list of records over the stores of
  \<open>Storage\<close>; a record is a JSON map, as in the code. Each operation reads its file, changes the list and writes
  it under the file's lock, so it is one step; splitting the older file, which takes its own locks first, is
  part of the step. Fresh identifiers are arguments.
\<close>

section \<open>Records\<close>

record site_env =
  se_codec :: codec
  se_protector :: protector
  se_for_label :: "string \<Rightarrow> (string \<times> bool) option"
  se_lowercase :: "string \<Rightarrow> string"

datatype site_error =
    SiteRefused error_code string
  | NotWritten error_code
  | VaultFailed vault_error
  | RollbackFailed vault_error site_error
  | SettingsFailed settings_error
  | NotReadable string
  | NotProtected
  | NotRestored site_error site_error
  | Panicked string

abbreviation bad_input :: "string \<Rightarrow> site_error" where "bad_input \<equiv> SiteRefused InvalidInput"

definition entry_id :: "json_map \<Rightarrow> string option" where "entry_id e = get_str e ''id''"
definition entry_kind :: "json_map \<Rightarrow> string option" where "entry_kind e = get_str e ''kind''"

abbreviation is_folder :: "json_map \<Rightarrow> bool" where "is_folder e \<equiv> entry_kind e = Some ''folder''"

definition or_null :: "json_map \<Rightarrow> string \<Rightarrow> json" where "or_null m k = the_or JNull (map_of m k)"

definition text_of :: "json_map \<Rightarrow> string \<Rightarrow> string" where "text_of m k = the_or [] (get_str m k)"

definition opt_json :: "string option \<Rightarrow> json" where
  "opt_json s = (case s of None \<Rightarrow> JNull | Some t \<Rightarrow> JString t)"

section \<open>What the window may save\<close>

definition max_site_string_len :: nat where "max_site_string_len = 4096"
definition max_host_len :: nat where "max_host_len = 255"
definition max_user_len :: nat where "max_user_len = 1024"
definition max_url_or_file_len :: nat where "max_url_or_file_len = 4096"
definition max_site_connections :: nat where "max_site_connections = 128"

definition char_count :: "string \<Rightarrow> nat" where "char_count s = length (utf8_chars s)"

text \<open>The encoding a label names, by the library's table: its name and whether it keeps ASCII. \<open>None\<close> inside
  is UTF-8, which needs no relay.\<close>

definition charset_parse :: "(string \<Rightarrow> (string \<times> bool) option) \<Rightarrow> string \<Rightarrow> string option option" where
  "charset_parse for_label label =
     (if label = [] then Some None
      else (case for_label label of
              Some (name, True) \<Rightarrow> Some (if name = ''UTF-8'' then None else Some name)
            | _ \<Rightarrow> None))"

definition problem_if :: "bool \<Rightarrow> string \<Rightarrow> string option" where
  "problem_if c message = (if c then Some message else None)"

definition validate_name :: "string \<Rightarrow> string \<Rightarrow> string \<Rightarrow> string option" where
  "validate_name name empty_message too_long_message =
     (let trimmed = trim_str name
      in if trimmed = [] then Some empty_message
         else problem_if (max_site_string_len < char_count trimmed) too_long_message)"

definition secret_inputs :: "(string \<times> bool) list" where
  "secret_inputs = [(''password'', True), (''keyPassphrase'', True), (''removePassword'', False), (''removeKeyPassphrase'', False)]"

definition input_type_problem :: "json_map \<Rightarrow> string \<times> bool \<Rightarrow> string option" where
  "input_type_problem input = (\<lambda>(key, is_text).
     (case map_of input key of
        None \<Rightarrow> None
      | Some JNull \<Rightarrow> None
      | Some v \<Rightarrow> problem_if ((if is_text then as_str v = None else as_bool v = None)) (''Invalid '' @ key)))"

definition unset_or :: "json_map \<Rightarrow> string \<Rightarrow> (json \<Rightarrow> bool) \<Rightarrow> bool" where
  "unset_or input key ok = (case map_of input key of None \<Rightarrow> True | Some JNull \<Rightarrow> True | Some v \<Rightarrow> ok v)"

definition number_in :: "nat \<Rightarrow> nat \<Rightarrow> json \<Rightarrow> bool" where
  "number_in lo hi v = (case as_u64 v of None \<Rightarrow> False | Some n \<Rightarrow> lo \<le> n \<and> n \<le> hi)"

definition address_problem :: "json_map \<Rightarrow> protocol \<Rightarrow> string option" where
  "address_problem input p =
     (if p = Webdav
      then (let url = trim_str (text_of input ''webdavUrl'')
            in if url = [] then Some ''WebDAV URL is required''
               else problem_if (max_url_or_file_len < length url) ''WebDAV URL is too long'')
      else (let host = trim_str (text_of input ''host'')
            in if host = [] then Some ''Host is required''
               else problem_if (max_host_len < length host) ''Host is too long''))"

definition length_limits :: "(string \<times> nat) list" where
  "length_limits = [(''user'', max_user_len), (''remotePath'', max_remote_path_len), (''keyPath'', max_url_or_file_len),
     (''caCertPath'', max_url_or_file_len)]"

definition protocol_named :: "string \<Rightarrow> protocol option" where
  "protocol_named s =
     (if s = ''ftp'' then Some Ftp else if s = ''ftps'' then Some Ftps else if s = ''sftp'' then Some Sftp
      else if s = ''webdav'' then Some Webdav else None)"

definition server_problems :: "(string \<Rightarrow> (string \<times> bool) option) \<Rightarrow> json_map \<Rightarrow> string option list" where
  "server_problems for_label input =
     (let raw = text_of input ''protocol''
      in case protocol_named raw of
           None \<Rightarrow> [Some (''Unsupported protocol: '' @ raw)]
         | Some p \<Rightarrow>
             [address_problem input p,
              problem_if (\<not> unset_or input ''maxConnections''
                  (\<lambda>v. number_in 0 0 v \<or> number_in 2 max_site_connections v))
                ''maxConnections must be 0 (unlimited) or between 2 and 128'',
              problem_if (\<not> unset_or input ''encoding''
                  (\<lambda>v. case as_str v of None \<Rightarrow> False | Some l \<Rightarrow> charset_parse for_label l \<noteq> None))
                ''Unsupported file name encoding'',
              problem_if (\<not> unset_or input ''port'' (number_in 1 65535)) ''Port must be between 1 and 65535'']
             @ map (\<lambda>(key, limit). problem_if (limit < length (text_of input key)) (key @ '' is too long'')) length_limits
             @ map (\<lambda>key. problem_if (max_site_string_len < char_count (text_of input key)) (key @ '' is too long''))
                 [''icon'', ''color''])"

definition site_problems :: "(string \<Rightarrow> (string \<times> bool) option) \<Rightarrow> json_map \<Rightarrow> string option list" where
  "site_problems for_label input =
     [validate_name (trim_str (text_of input ''name'')) ''Site name is required'' ''Site name is too long'',
      problem_if (\<not> is_site_kind input) ''Unsupported bookmark kind'']
     @ map (input_type_problem input) secret_inputs
     @ (if entry_kind input = Some ''local''
        then [(let path = trim_str (text_of input ''localPath'')
               in problem_if (path = [] \<or> max_site_string_len < char_count path) ''A valid local folder path is required'')]
        else server_problems for_label input)"

text \<open>The first problem found refuses the input.\<close>

definition validate_site_input :: "(string \<Rightarrow> (string \<times> bool) option) \<Rightarrow> json_map \<Rightarrow> site_error + unit" where
  "validate_site_input for_label input =
     (case find_map (\<lambda>p. p) (site_problems for_label input) of
        Some message \<Rightarrow> Inl (bad_input message) | None \<Rightarrow> Inr ())"

definition parse_parent_id :: "json option \<Rightarrow> site_error + string option" where
  "parse_parent_id v =
     (case v of
        None \<Rightarrow> Inr None
      | Some JNull \<Rightarrow> Inr None
      | Some (JString s) \<Rightarrow> Inr (if s = [] then None else Some s)
      | Some _ \<Rightarrow> Inl (bad_input ''parentId must be a string or null''))"

definition has_saved_password :: "json_map \<Rightarrow> bool" where
  "has_saved_password site \<longleftrightarrow> get_bool site ''hasPassword'' = Some True \<or> has_saved_secret site ''enc'' ''plain''"

definition has_saved_key_passphrase :: "json_map \<Rightarrow> bool" where
  "has_saved_key_passphrase site \<longleftrightarrow>
     get_bool site ''hasKeyPassphrase'' = Some True \<or> has_saved_secret site ''keyEnc'' ''keyPlain''"

text \<open>A save may leave the saved password with another recipient only as the user confirmed.\<close>

definition ensure_confirmed_move ::
  "json_map option \<Rightarrow> json_map \<Rightarrow> bool \<Rightarrow> secret_transfer option \<Rightarrow> bool \<Rightarrow> site_error + unit" where
  "ensure_confirmed_move stored input replaced confirmed new_password_failed =
     (case site_transfer (map_option (\<lambda>site. (site, has_saved_password site)) stored) input replaced of
        Inl e \<Rightarrow> Inl (Panicked e)
      | Inr moved \<Rightarrow>
          if moved = confirmed then Inr ()
          else if new_password_failed
          then Inl (SiteRefused error_code.SecretNotProtected ''The new password could not be protected; the bookmark was not changed'')
          else Inl (SiteRefused PermissionDenied ''The saved password would go to a server that was not confirmed''))"

definition is_local_scope_entry :: "json_map \<Rightarrow> bool" where
  "is_local_scope_entry e \<longleftrightarrow> entry_kind e = Some ''local''
     \<or> (is_folder e \<and> get_str e ''managerScope'' = Some ''localPaths'')"

definition validate_parent ::
  "json_map list \<Rightarrow> string \<Rightarrow> string option \<Rightarrow> string option \<Rightarrow> site_error + unit" where
  "validate_parent entries ident kind parent_id =
     (case parent_id of
        None \<Rightarrow> Inr ()
      | Some parent \<Rightarrow>
          if kind = Some ''folder'' then Inl (bad_input ''Folders cannot be nested'')
          else if parent = ident then Inl (bad_input ''An entry cannot be its own parent'')
          else (case find (\<lambda>e. entry_id e = Some parent) entries of
                  None \<Rightarrow> Inl (SiteRefused NotFound (''Parent folder not found: '' @ parent))
                | Some e \<Rightarrow> if is_folder e then Inr ()
                    else Inl (bad_input (''Parent entry is not a folder: '' @ parent))))"

section \<open>The two files\<close>

definition sites_file :: string where "sites_file = ''sites.json''"
definition local_paths_file :: string where "local_paths_file = ''local-paths.json''"
definition vault_migration_file :: string where "vault_migration_file = ''vault-migration.json''"

fun is_entries :: "json \<Rightarrow> bool" where
  "is_entries (JArray vs) = (\<forall>v \<in> set vs. is_map v)" | "is_entries _ = False"

definition json_of_entries :: "json_map list \<Rightarrow> json" where "json_of_entries es = JArray (map JObject es)"

definition entries_of :: "json \<Rightarrow> json_map list" where
  "entries_of v = map (\<lambda>x. the_or [] (as_object x)) (the_or [] (as_array v))"

definition read_entries :: "site_env \<Rightarrow> io \<Rightarrow> string \<Rightarrow> store \<Rightarrow> json_map list \<times> store" where
  "read_entries env io name st =
     (case read_json (se_codec env) io is_entries name (JArray []) st of (v, st') \<Rightarrow> (entries_of v, st'))"

definition write_entries :: "site_env \<Rightarrow> io \<Rightarrow> string \<Rightarrow> json_map list \<Rightarrow> store \<Rightarrow> (site_error + unit) \<times> store" where
  "write_entries env io name es st =
     (case write_json (se_codec env) io is_entries name (json_of_entries es) st of
        (Inl e, st') \<Rightarrow> (Inl (NotWritten e), st') | (Inr _, st') \<Rightarrow> (Inr (), st'))"

text \<open>Local paths move out of an older \<open>sites.json\<close>.\<close>

definition ensure_storage_split :: "site_env \<Rightarrow> io \<Rightarrow> store \<Rightarrow> (site_error + unit) \<times> store" where
  "ensure_storage_split env io st =
     (case read_entries env io sites_file st of
        (sites, st1) \<Rightarrow>
          if \<not> (\<exists>e \<in> set sites. is_local_scope_entry e) then (Inr (), st1)
          else (case read_entries env io local_paths_file st1 of
            (merged, st2) \<Rightarrow>
              (let existing_ids = List.map_filter entry_id merged;
                   local = filter (\<lambda>e. is_local_scope_entry e
                     \<and> \<not> (case entry_id e of None \<Rightarrow> False | Some i \<Rightarrow> i \<in> set existing_ids)) sites
               in case write_entries env io local_paths_file (merged @ local) st2 of
                    (Inl e, st3) \<Rightarrow> (Inl e, st3)
                  | (Inr _, st3) \<Rightarrow> write_entries env io sites_file (filter (\<lambda>e. \<not> is_local_scope_entry e) sites) st3)))"

section \<open>What is stored\<close>

definition site_record ::
  "json_map \<Rightarrow> string \<Rightarrow> string option \<Rightarrow> json_map option \<Rightarrow> site_error + json_map" where
  "site_record input ident parent_id existing =
     (if entry_kind input = Some ''local'' then
        Inr [(''id'', JString ident), (''kind'', JString ''local''), (''name'', or_null input ''name''),
          (''localPath'', or_null input ''localPath''), (''parentId'', opt_json parent_id),
          (''icon'', or_null input ''icon''), (''color'', or_null input ''color'')]
      else (case server_from_json input of
              Inl e \<Rightarrow> Inl (bad_input e)
            | Inr server \<Rightarrow>
                (case (if al_has ''maxConnections'' input then Inr (sv_max_connections server)
                       else (case existing of
                               None \<Rightarrow> Inr None
                             | Some site \<Rightarrow> (case server_or_unset site of
                                 Inl e \<Rightarrow> Inl (Panicked e) | Inr s \<Rightarrow> Inr (sv_max_connections s)))) of
                   Inl e \<Rightarrow> Inl e
                 | Inr limit \<Rightarrow>
                     (let named_limit = (al_has ''maxConnections'' input
                            \<or> (case existing of None \<Rightarrow> False | Some site \<Rightarrow> al_has ''maxConnections'' site));
                          settings = server_to_json (server\<lparr>sv_max_connections := limit\<rparr>);
                          base = merge [(''id'', JString ident)] settings;
                          limited = (if named_limit then base else al_del ''maxConnections'' base);
                          named = fold (\<lambda>k r. al_put k (or_null input k) r) [''name'', ''icon'', ''color''] limited
                      in Inr (al_put ''parentId'' (opt_json parent_id) named)))))"

definition folder_record :: "json_map \<Rightarrow> string \<Rightarrow> json_map" where
  "folder_record input ident =
     [(''id'', JString ident), (''kind'', JString ''folder''), (''name'', or_null input ''name''), (''parentId'', JNull)]
     @ (case get_str input ''managerScope'' of
          Some scope \<Rightarrow> if scope \<in> {''bookmarks'', ''localPaths''} then [(''managerScope'', JString scope)] else []
        | None \<Rightarrow> [])"

fun put_entry :: "string \<Rightarrow> json_map \<Rightarrow> json_map list \<Rightarrow> json_map list" where
  "put_entry i r [] = [r]"
| "put_entry i r (e # es) = (if entry_id e = Some i then r # es else e # put_entry i r es)"

definition put_field :: "(string \<times> json) option \<Rightarrow> json_map \<Rightarrow> json_map" where
  "put_field f r = (case f of None \<Rightarrow> r | Some (k, v) \<Rightarrow> al_put k v r)"

definition copy_field :: "json_map \<Rightarrow> string \<Rightarrow> json_map \<Rightarrow> json_map" where
  "copy_field input k r = (case map_of input k of None \<Rightarrow> r | Some v \<Rightarrow> al_put k v r)"

definition given_id :: "json_map \<Rightarrow> string option" where
  "given_id input = (case get_str input ''id'' of None \<Rightarrow> None | Some s \<Rightarrow> if s = [] then None else Some s)"

section \<open>Changing the files\<close>

record save_outcome =
  so_id :: string
  so_not_persisted :: bool

definition the_secret ::
  "site_env \<Rightarrow> json_map \<Rightarrow> json_map option \<Rightarrow> string \<Rightarrow> string \<Rightarrow> string \<Rightarrow> string \<Rightarrow> (string \<times> json) option \<times> bool" where
  "the_secret env input existing input_field remove_field enc plain =
     (if flag_of input remove_field then (None, False)
      else encrypt_secret_with (se_protector env) (text_of input input_field) existing enc plain)"

text \<open>The record a save writes, once its entry is found, and whether a secret could not be protected.\<close>

definition saved_record ::
  "site_env \<Rightarrow> json_map \<Rightarrow> secret_transfer option \<Rightarrow> string \<Rightarrow> string option \<Rightarrow> json_map option \<Rightarrow> site_error + json_map \<times> bool" where
  "saved_record env input confirmed ident parent_id existing =
     (let is_local = (entry_kind input = Some ''local'');
          (pw_field, pw_lost) = the_secret env input existing ''password'' ''removePassword'' ''enc'' ''plain'';
          (kp_field, kp_lost) = the_secret env input existing ''keyPassphrase'' ''removeKeyPassphrase'' ''keyEnc'' ''keyPlain'';
          password = text_of input ''password'';
          new_password_failed = (password \<noteq> [] \<and> pw_lost);
          allowed = (if is_local then Inr ()
            else ensure_confirmed_move existing input
              (flag_of input ''removePassword'' \<or> password \<noteq> [] \<and> \<not> new_password_failed) confirmed new_password_failed)
      in case allowed of
           Inl e \<Rightarrow> Inl e
         | Inr _ \<Rightarrow>
             (case site_record input ident parent_id existing of
                Inl e \<Rightarrow> Inl e
              | Inr r \<Rightarrow>
                  if is_local then Inr (r, False)
                  else Inr (copy_field input ''hasKeyPassphrase'' (copy_field input ''hasPassword''
                         (put_field kp_field (put_field pw_field r))), pw_lost \<or> kp_lost)))"

definition save_site_with_protector ::
  "site_env \<Rightarrow> io \<Rightarrow> string \<Rightarrow> json_map \<Rightarrow> secret_transfer option \<Rightarrow> store \<Rightarrow> (site_error + save_outcome) \<times> store" where
  "save_site_with_protector env io fresh input confirmed st =
     (case validate_site_input (se_for_label env) input of
        Inl e \<Rightarrow> (Inl e, st)
      | Inr _ \<Rightarrow> (case parse_parent_id (map_of input ''parentId'') of
          Inl e \<Rightarrow> (Inl e, st)
        | Inr parent_id \<Rightarrow> (case ensure_storage_split env io st of
            (Inl e, st1) \<Rightarrow> (Inl e, st1)
          | (Inr _, st1) \<Rightarrow>
              (let path = (if entry_kind input = Some ''local'' then local_paths_file else sites_file)
               in case read_entries env io path st1 of
                    (sites, st2) \<Rightarrow>
                      (let ident = the_or fresh (given_id input);
                           existing = find (\<lambda>s. entry_id s = Some ident) sites
                       in if (case existing of None \<Rightarrow> False | Some e \<Rightarrow> is_folder e)
                          then (Inl (bad_input ''Cannot replace a folder with a site''), st2)
                          else (case validate_parent sites ident None parent_id of
                            Inl e \<Rightarrow> (Inl e, st2)
                          | Inr _ \<Rightarrow> (case saved_record env input confirmed ident parent_id existing of
                              Inl e \<Rightarrow> (Inl e, st2)
                            | Inr (r, lost) \<Rightarrow> (case write_entries env io path (put_entry ident r sites) st2 of
                                (Inl e, st3) \<Rightarrow> (Inl e, st3)
                              | (Inr _, st3) \<Rightarrow> (Inr \<lparr>so_id = ident, so_not_persisted = lost\<rparr>, st3)))))))))"

definition save_site :: "site_env \<Rightarrow> io \<Rightarrow> string \<Rightarrow> json_map \<Rightarrow> store \<Rightarrow> (site_error + save_outcome) \<times> store" where
  "save_site env io fresh input st = save_site_with_protector env io fresh input None st"

definition without_entry :: "string \<Rightarrow> json_map list \<Rightarrow> json_map list" where
  "without_entry i es = filter (\<lambda>e. entry_id e \<noteq> Some i) es"

fun delete_site_in :: "site_env \<Rightarrow> io \<Rightarrow> string \<Rightarrow> string list \<Rightarrow> store \<Rightarrow> (site_error + unit) \<times> store" where
  "delete_site_in env io i [] st = (Inr (), st)"
| "delete_site_in env io i (path # paths) st =
     (case read_entries env io path st of
        (sites, st1) \<Rightarrow>
          (case find (\<lambda>e. entry_id e = Some i) sites of
             None \<Rightarrow> delete_site_in env io i paths st1
           | Some e \<Rightarrow>
               if is_folder e then (Inl (bad_input ''Use the folder delete command to remove a folder''), st1)
               else write_entries env io path (without_entry i sites) st1))"

definition delete_site :: "site_env \<Rightarrow> io \<Rightarrow> string \<Rightarrow> store \<Rightarrow> (site_error + unit) \<times> store" where
  "delete_site env io i st =
     (case ensure_storage_split env io st of
        (Inl e, st1) \<Rightarrow> (Inl e, st1)
      | (Inr _, st1) \<Rightarrow> delete_site_in env io i [sites_file, local_paths_file] st1)"

definition save_folder :: "site_env \<Rightarrow> io \<Rightarrow> string \<Rightarrow> json_map \<Rightarrow> store \<Rightarrow> (site_error + string) \<times> store" where
  "save_folder env io fresh input st =
     (case validate_name (trim_str (text_of input ''name'')) ''Folder name is required'' ''Folder name is too long'' of
        Some message \<Rightarrow> (Inl (bad_input message), st)
      | None \<Rightarrow> (case ensure_storage_split env io st of
          (Inl e, st1) \<Rightarrow> (Inl e, st1)
        | (Inr _, st1) \<Rightarrow>
            (let path = (if get_str input ''managerScope'' = Some ''localPaths'' then local_paths_file else sites_file)
             in case read_entries env io path st1 of
                  (entries, st2) \<Rightarrow>
                    (let ident = the_or fresh (given_id input)
                     in if (case find (\<lambda>e. entry_id e = Some ident) entries of None \<Rightarrow> False | Some e \<Rightarrow> \<not> is_folder e)
                        then (Inl (bad_input ''Cannot replace a site with a folder''), st2)
                        else (case write_entries env io path (put_entry ident (folder_record input ident) entries) st2 of
                                (Inl e, st3) \<Rightarrow> (Inl e, st3)
                              | (Inr _, st3) \<Rightarrow> (Inr ident, st3))))))"

text \<open>The entries of a folder move to where the folder was.\<close>

definition without_folder :: "string \<Rightarrow> json_map list \<Rightarrow> json_map list" where
  "without_folder i es =
     (let grandparent = (case find (\<lambda>e. entry_id e = Some i) es of None \<Rightarrow> JNull | Some f \<Rightarrow> or_null f ''parentId'')
      in without_entry i
           (map (\<lambda>e. if get_str e ''parentId'' = Some i then al_put ''parentId'' grandparent e else e) es))"

fun delete_folder_in :: "site_env \<Rightarrow> io \<Rightarrow> string \<Rightarrow> string list \<Rightarrow> store \<Rightarrow> (site_error + unit) \<times> store" where
  "delete_folder_in env io i [] st = (Inr (), st)"
| "delete_folder_in env io i (path # paths) st =
     (case read_entries env io path st of
        (entries, st1) \<Rightarrow>
          (case find (\<lambda>e. entry_id e = Some i) entries of
             None \<Rightarrow> delete_folder_in env io i paths st1
           | Some e \<Rightarrow>
               if \<not> is_folder e then (Inl (bad_input ''Use the site delete command to remove a site''), st1)
               else write_entries env io path (without_folder i entries) st1))"

definition delete_folder :: "site_env \<Rightarrow> io \<Rightarrow> string \<Rightarrow> store \<Rightarrow> (site_error + unit) \<times> store" where
  "delete_folder env io i st =
     (case ensure_storage_split env io st of
        (Inl e, st1) \<Rightarrow> (Inl e, st1)
      | (Inr _, st1) \<Rightarrow> delete_folder_in env io i [sites_file, local_paths_file] st1)"

subsection \<open>The layout\<close>

record layout_entry =
  le_id :: string
  le_parent :: "string option"

definition covers :: "layout_entry list \<Rightarrow> json_map list \<Rightarrow> bool" where
  "covers layout current \<longleftrightarrow> length current = length layout
     \<and> (\<forall>e \<in> set current. case entry_id e of None \<Rightarrow> False | Some i \<Rightarrow> i \<in> set (map le_id layout))"

fun layout_target :: "site_env \<Rightarrow> io \<Rightarrow> layout_entry list \<Rightarrow> string list \<Rightarrow> store \<Rightarrow> string \<times> store" where
  "layout_target env io layout [] st = (sites_file, st)"
| "layout_target env io layout (path # paths) st =
     (case read_entries env io path st of
        (current, st1) \<Rightarrow> if covers layout current then (path, st1) else layout_target env io layout paths st1)"

definition by_id :: "json_map list \<Rightarrow> (string \<times> json_map) list" where
  "by_id es = fold (\<lambda>e m. case entry_id e of None \<Rightarrow> m | Some i \<Rightarrow> al_put i e m) es []"

fun layout_ids_problem :: "(string \<times> json_map) list \<Rightarrow> string list \<Rightarrow> layout_entry list \<Rightarrow> string option" where
  "layout_ids_problem known seen [] = None"
| "layout_ids_problem known seen (item # items) =
     (if le_id item \<in> set seen then Some (''Duplicate entry id in layout: '' @ le_id item)
      else if \<not> al_has (le_id item) known then Some (''Unknown entry id in layout: '' @ le_id item)
      else layout_ids_problem known (le_id item # seen) items)"

definition layout_parent_problem :: "(string \<times> json_map) list \<Rightarrow> layout_entry \<Rightarrow> site_error option" where
  "layout_parent_problem known item =
     (case validate_parent (map snd known) (le_id item) (Option.bind (map_of known (le_id item)) entry_kind) (le_parent item) of
        Inl e \<Rightarrow> Some e | Inr _ \<Rightarrow> None)"

definition moved_entry :: "(string \<times> json_map) list \<Rightarrow> layout_entry \<Rightarrow> json_map" where
  "moved_entry known item =
     (let r = the_or [] (map_of known (le_id item))
      in al_put ''parentId'' (if is_folder r then JNull else opt_json (le_parent item)) r)"

definition reordered :: "json_map list \<Rightarrow> layout_entry list \<Rightarrow> site_error + json_map list" where
  "reordered current layout =
     (let known = by_id current
      in if length layout \<noteq> length known then Inl (bad_input ''Layout must include every saved entry exactly once'')
         else (case layout_ids_problem known [] layout of
                 Some message \<Rightarrow> Inl (bad_input message)
               | None \<Rightarrow> (case find_map (layout_parent_problem known) layout of
                   Some e \<Rightarrow> Inl e
                 | None \<Rightarrow> Inr (map (moved_entry known) layout))))"

definition apply_layout :: "site_env \<Rightarrow> io \<Rightarrow> layout_entry list \<Rightarrow> store \<Rightarrow> (site_error + unit) \<times> store" where
  "apply_layout env io layout st =
     (case ensure_storage_split env io st of
        (Inl e, st1) \<Rightarrow> (Inl e, st1)
      | (Inr _, st1) \<Rightarrow> (case layout_target env io layout [sites_file, local_paths_file] st1 of
          (path, st2) \<Rightarrow> (case read_entries env io path st2 of
            (current, st3) \<Rightarrow> (case reordered current layout of
              Inl e \<Rightarrow> (Inl e, st3)
            | Inr es \<Rightarrow> write_entries env io path es st3))))"

section \<open>Reading\<close>

definition snapshot_sites :: "site_env \<Rightarrow> io \<Rightarrow> store \<Rightarrow> (site_error + json_map list) \<times> store" where
  "snapshot_sites env io st =
     (case ensure_storage_split env io st of
        (Inl e, st1) \<Rightarrow> (Inl e, st1)
      | (Inr _, st1) \<Rightarrow> (case read_entries env io sites_file st1 of
          (sites, st2) \<Rightarrow> (case ensure_writable (se_codec env) io sites_file st2 of
            (Inl e, st3) \<Rightarrow> (Inl (NotWritten e), st3)
          | (Inr _, st3) \<Rightarrow> (case read_entries env io local_paths_file st3 of
              (local, st4) \<Rightarrow> (case ensure_writable (se_codec env) io local_paths_file st4 of
                (Inl e, st5) \<Rightarrow> (Inl (NotWritten e), st5)
              | (Inr _, st5) \<Rightarrow> (Inr (sites @ local), st5))))))"

definition has_undecryptable_secret :: "site_env \<Rightarrow> io \<Rightarrow> store \<Rightarrow> bool" where
  "has_undecryptable_secret env io st =
     (\<exists>site \<in> set (fst (read_entries env io sites_file st)).
        secret_undecryptable (se_protector env) site ''enc'' \<or> secret_undecryptable (se_protector env) site ''keyEnc'')"

definition sites_have_plaintext_secret :: "site_env \<Rightarrow> io \<Rightarrow> store \<Rightarrow> bool" where
  "sites_have_plaintext_secret env io st =
     (\<exists>site \<in> set (fst (read_entries env io sites_file st)).
        secret_is_plaintext site ''plain'' \<or> secret_is_plaintext site ''keyPlain'')"

definition protected_site :: "protector \<Rightarrow> json_map \<Rightarrow> bool \<times> json_map" where
  "protected_site pr site =
     (case migrate_plaintext_field pr ''plain'' ''enc'' site of
        (changed, site1) \<Rightarrow> (case migrate_plaintext_field pr ''keyPlain'' ''keyEnc'' site1 of
          (changed', site2) \<Rightarrow> (changed \<or> changed', site2)))"

definition migrate_plaintext_secrets :: "site_env \<Rightarrow> io \<Rightarrow> store \<Rightarrow> (site_error + unit) \<times> store" where
  "migrate_plaintext_secrets env io st =
     (case read_entries env io sites_file st of
        (sites, st1) \<Rightarrow>
          (let protected_sites = map (protected_site (se_protector env)) sites
           in if \<exists>d \<in> set protected_sites. fst d then write_entries env io sites_file (map snd protected_sites) st1 else (Inr (), st1)))"

definition saved_site_credentials :: "site_env \<Rightarrow> io \<Rightarrow> string \<Rightarrow> store \<Rightarrow> (json_map \<times> bool) option \<times> store" where
  "saved_site_credentials env io i st =
     (case read_entries env io sites_file st of
        (sites, st1) \<Rightarrow>
          (map_option (\<lambda>site. (fold al_del site_saved site, has_saved_password site))
             (find (\<lambda>site. entry_id site = Some i) sites), st1))"

definition shown_entry :: "json_map \<Rightarrow> site_error + json_map" where
  "shown_entry site =
     (let get = (\<lambda>k. (k, or_null site k))
      in if is_folder site then
           Inr [get ''id'', (''kind'', JString ''folder''), get ''name'', get ''parentId'', get ''managerScope'']
         else if entry_kind site = Some ''local'' then
           Inr [get ''id'', (''kind'', JString ''local''), get ''name'', get ''localPath'', get ''parentId'', get ''icon'', get ''color'']
         else (case server_or_unset site of
                 Inl e \<Rightarrow> Inl (Panicked e)
               | Inr server \<Rightarrow>
                   Inr (merge (server_to_json server)
                     ([get ''id'', (''kind'', JString ''site''), get ''parentId'', get ''name'', get ''icon'', get ''color'',
                       (''hasPassword'', JBool (has_saved_password site)),
                       (''hasKeyPassphrase'', JBool (has_saved_key_passphrase site))]))))"

fun shown_entries :: "json_map list \<Rightarrow> site_error + json_map list" where
  "shown_entries [] = Inr []"
| "shown_entries (e # es) =
     (case shown_entry e of
        Inl x \<Rightarrow> Inl x
      | Inr r \<Rightarrow> (case shown_entries es of Inl x \<Rightarrow> Inl x | Inr rs \<Rightarrow> Inr (r # rs)))"

definition list_sites :: "site_env \<Rightarrow> io \<Rightarrow> store \<Rightarrow> (site_error + json_map list) \<times> store" where
  "list_sites env io st =
     (case ensure_storage_split env io st of
        (Inl e, st1) \<Rightarrow> (Inl e, st1)
      | (Inr _, st1) \<Rightarrow> (case migrate_plaintext_secrets env io st1 of
          (Inl e, st2) \<Rightarrow> (Inl e, st2)
        | (Inr _, st2) \<Rightarrow> (case read_entries env io sites_file st2 of
            (sites, st3) \<Rightarrow> (case read_entries env io local_paths_file st3 of
              (local, st4) \<Rightarrow> (shown_entries (sites @ local), st4)))))"

definition replace_sites_for_import :: "site_env \<Rightarrow> io \<Rightarrow> json_map list \<Rightarrow> store \<Rightarrow> (site_error + unit) \<times> store" where
  "replace_sites_for_import env io sites st =
     (case ensure_writable (se_codec env) io sites_file st of
        (Inl e, st1) \<Rightarrow> (Inl (NotWritten e), st1)
      | (Inr _, st1) \<Rightarrow> (case ensure_writable (se_codec env) io local_paths_file st1 of
          (Inl e, st2) \<Rightarrow> (Inl (NotWritten e), st2)
        | (Inr _, st2) \<Rightarrow> (case write_entries env io sites_file (filter (\<lambda>e. \<not> is_local_scope_entry e) sites) st2 of
            (Inl e, st3) \<Rightarrow> (Inl e, st3)
          | (Inr _, st3) \<Rightarrow> write_entries env io local_paths_file (filter is_local_scope_entry sites) st3)))"

end
