(* ===== verification/BookmarkFiles.thy ===== *)
theory BookmarkFiles
  imports Sites
begin

text \<open>
  What the operations of \<open>Sites\<close> promise of the two bookmark files: reading gives what was written, and the
  entries stay a forest one folder deep, with the local paths in their own file.
\<close>

section \<open>Files that hold entries\<close>

definition holds :: "codec \<Rightarrow> string \<Rightarrow> json_map list \<Rightarrow> store \<Rightarrow> bool" where
  "holds c name es st \<longleftrightarrow> saved_value c (st_folder st) name = Some (json_of_entries es)
     \<or> es = [] \<and> map_of (st_folder st) name = None \<and> map_of (st_folder st) (last_good name) = None"

lemma entries_of_json [simp]: "entries_of (json_of_entries es) = es"
  by (simp add: entries_of_def json_of_entries_def comp_def)

lemma is_entries_json [simp]: "is_entries (json_of_entries es)"
  by (simp add: json_of_entries_def)

lemma entries_of_empty [simp]: "entries_of (JArray []) = []"
  by (simp add: entries_of_def)

lemma holds_cong:
  assumes "map_of (st_folder st') name = map_of (st_folder st) name"
    and "map_of (st_folder st') (last_good name) = map_of (st_folder st) (last_good name)"
  shows "holds c name es st' = holds c name es st"
  using assms by (simp add: holds_def saved_value_def)

lemma holds_folder: "st_folder st' = st_folder st \<Longrightarrow> holds c name es st' = holds c name es st"
  by (simp add: holds_def)

text \<open>Reading gives the entries, or finds the file unreadable, which is noted.\<close>

lemma read_entries_cases:
  assumes "holds (se_codec env) name es st" and "\<not> io_no_folder io" and "read_entries env io name st = (es', st')"
  obtains (read) "es' = es" "st_folder st' = st_folder st"
    | (failed) "es' = []" "st_folder st' = st_folder st" "map_of (st_issues st') name = Some Unreadable"
proof (cases "io_unreadable io name")
  case True
  then show ?thesis using assms failed
    by (auto simp: read_entries_def read_json_def read_file_def note_issue_def split: prod.splits)
next
  case False
  show ?thesis
  proof (cases "saved_value (se_codec env) (st_folder st) name = Some (json_of_entries es)")
    case True
    then show ?thesis using assms False read saved_value_read [of "se_codec env" st name "json_of_entries es" is_entries io]
      by (auto simp: read_entries_def split: prod.splits)
  next
    case none: False
    then have "es = []" "map_of (st_folder st) name = None" "map_of (st_folder st) (last_good name) = None"
      using assms(1) by (auto simp: holds_def)
    then show ?thesis using assms(2,3) False
      by (intro read) (auto simp: read_entries_def read_json_def recover_def read_file_def is_missing_def note_issue_def Let_def
          split: prod.splits if_splits)
  qed
qed

lemma write_entries_refused:
  "map_of (st_issues st) name = Some Unreadable \<Longrightarrow> write_entries env io name es st = (Inl (NotWritten StoreUnreadable), st)"
  by (simp add: write_entries_def write_json_def write_json_unnamed_def ensure_writable_def)

lemma bookmark_files_apart:
  "is_versioned_store sites_file" "is_versioned_store local_paths_file" "sites_file \<noteq> local_paths_file"
  "no_copy sites_file (last_good local_paths_file)" "no_copy local_paths_file (last_good sites_file)"
  "last_good local_paths_file \<noteq> sites_file" "last_good sites_file \<noteq> local_paths_file"
  "last_good local_paths_file \<noteq> last_good sites_file"
  by code_simp+

text \<open>A write that goes through replaces the entries of its own file, one that does not replaces none.\<close>

lemma write_failed_frame:
  assumes "write_json c io fits name data st = (Inl e, st')" and "map_of (st_folder st) name = None"
  shows "map_of (st_folder st') (last_good name) = map_of (st_folder st) (last_good name)"
proof -
  have "ensure_writable c io name st = (x, st1) \<Longrightarrow> st1 = st" for x st1
    using assms(2) by (auto simp: ensure_writable_def read_file_def split: option.splits if_splits)
  then show ?thesis using assms
    by (auto simp: write_json_def write_json_unnamed_def keep_previous_def read_file_def publish_def Let_def
        split: sum.splits prod.splits option.splits if_splits)
qed

lemma write_entries_holds:
  assumes "\<forall>v. cd_parse (se_codec env) (cd_render (se_codec env) v) = Some v"
    and "name = sites_file \<or> name = local_paths_file"
    and "holds (se_codec env) name es st" and "write_entries env io name new st = (r, st')"
  shows "holds (se_codec env) name (if is_Ok r then new else es) st'"
proof -
  let ?c = "se_codec env"
  have v: "is_versioned_store name" using assms(2) bookmark_files_apart by auto
  obtain q where w: "write_json ?c io is_entries name (json_of_entries new) st = (q, st')" "is_Ok r = is_Ok q"
    using assms(4) by (auto simp: write_entries_def split: prod.splits sum.splits)
  show ?thesis using w(1)
  proof (cases rule: write_json_steps)
    case (written st1)
    then show ?thesis using w(2) assms(1) v by (simp add: holds_def saved_value_def decode_bytes_def decode_encode)
  next
    case (refused e)
    then have "saved_value ?c (st_folder st') name = saved_value ?c (st_folder st) name" by (simp add: saved_value_def)
    moreover have "map_of (st_folder st) name = None \<Longrightarrow>
        map_of (st_folder st') (last_good name) = map_of (st_folder st) (last_good name)"
      using write_failed_frame w(1) refused(1) by blast
    ultimately show ?thesis using assms(3) w(2) refused by (auto simp: holds_def)
  qed
qed

lemma write_entries_other:
  assumes "name = sites_file \<and> other = local_paths_file \<or> name = local_paths_file \<and> other = sites_file"
    and "write_entries env io name new st = (r, st')"
  shows "holds c other es st' = holds c other es st"
proof -
  obtain q where w: "write_json (se_codec env) io is_entries name (json_of_entries new) st = (q, st')"
    using assms(2) by (auto simp: write_entries_def split: prod.splits sum.splits)
  have "no_copy name other" "other \<noteq> name" "other \<noteq> last_good name" "no_copy name (last_good other)"
    "last_good other \<noteq> name" "last_good other \<noteq> last_good name"
    using assms(1) versioned_apart [OF bookmark_files_apart(1), of local_paths_file]
      versioned_apart [OF bookmark_files_apart(2), of sites_file] bookmark_files_apart bookmark_files_apart(3,6-8) [symmetric] by auto
  then show ?thesis by (intro holds_cong) (auto intro!: write_json_frame [OF w])
qed

section \<open>A forest one folder deep\<close>

abbreviation parent_of :: "json_map \<Rightarrow> string option" where "parent_of e \<equiv> get_str e ''parentId''"

definition forest_ok :: "json_map list \<Rightarrow> bool" where
  "forest_ok es \<longleftrightarrow> (\<forall>e \<in> set es. entry_id e \<noteq> None) \<and> distinct (map entry_id es)
     \<and> (\<forall>e \<in> set es. case parent_of e of None \<Rightarrow> True
          | Some p \<Rightarrow> \<not> is_folder e \<and> (\<exists>f \<in> set es. is_folder f \<and> entry_id f = Some p))"

lemma forest_parent:
  "forest_ok es \<Longrightarrow> e \<in> set es \<Longrightarrow> parent_of e = Some p \<Longrightarrow>
     \<not> is_folder e \<and> (\<exists>f \<in> set es. is_folder f \<and> entry_id f = Some p)"
  by (fastforce simp: forest_ok_def)

lemma forest_okI:
  assumes "\<And>e. e \<in> set es \<Longrightarrow> entry_id e \<noteq> None" and "distinct (map entry_id es)"
    and "\<And>e p. e \<in> set es \<Longrightarrow> parent_of e = Some p \<Longrightarrow>
      \<not> is_folder e \<and> (\<exists>f \<in> set es. is_folder f \<and> entry_id f = Some p)"
  shows "forest_ok es"
  using assms by (auto simp: forest_ok_def split: option.split)

lemma set_put_entry:
  "distinct (map entry_id es) \<Longrightarrow> set (put_entry i r es) = insert r {e \<in> set es. entry_id e \<noteq> Some i}"
proof (induction es)
  case (Cons e es)
  then show ?case by (cases "entry_id e = Some i") (force+)
qed simp

lemma ids_put_entry: "entry_id r = Some i \<Longrightarrow>
    map entry_id (put_entry i r es) = (if Some i \<in> entry_id ` set es then map entry_id es else map entry_id es @ [Some i])"
  by (induction es) auto

lemma forest_put:
  assumes "forest_ok es" and "entry_id r = Some i"
    and "\<And>p. parent_of r = Some p \<Longrightarrow> \<not> is_folder r \<and> p \<noteq> i \<and> (\<exists>f \<in> set es. is_folder f \<and> entry_id f = Some p)"
    and "\<And>e. e \<in> set es \<Longrightarrow> entry_id e = Some i \<Longrightarrow> is_folder e = is_folder r"
  shows "forest_ok (put_entry i r es)"
proof -
  have d: "distinct (map entry_id es)" and n: "\<forall>e \<in> set es. entry_id e \<noteq> None" using assms(1) by (auto simp: forest_ok_def)
  have "distinct (map entry_id (put_entry i r es))"
    using d ids_put_entry [OF assms(2), of es] by (auto simp: image_iff)
  moreover have "\<not> is_folder e \<and> (\<exists>f \<in> set (put_entry i r es). is_folder f \<and> entry_id f = Some p)"
    if e: "e \<in> set (put_entry i r es)" and p: "parent_of e = Some p" for e p
  proof (cases "e = r")
    case True
    then show ?thesis using assms(3) [of p] p by (auto simp: set_put_entry [OF d])
  next
    case False
    then have "e \<in> set es" using e by (auto simp: set_put_entry [OF d])
    from forest_parent [OF assms(1) this p] obtain f where f: "\<not> is_folder e" "f \<in> set es" "is_folder f" "entry_id f = Some p" by blast
    show ?thesis
    proof (cases "p = i")
      case True
      then have "is_folder r" using assms(4) [OF f(2)] f by simp
      then show ?thesis using f True assms(2) by (auto simp: set_put_entry [OF d])
    qed (use f in \<open>auto simp: set_put_entry [OF d]\<close>)
  qed
  ultimately show ?thesis using n assms(2) by (intro forest_okI) (auto simp: set_put_entry [OF d])
qed

lemma find_id: "find (\<lambda>e. entry_id e = Some i) es = Some f \<Longrightarrow> f \<in> set es \<and> entry_id f = Some i"
  by (auto simp: find_Some_iff)

lemma distinct_ids: "distinct (map entry_id es) \<Longrightarrow> e \<in> set es \<Longrightarrow> f \<in> set es \<Longrightarrow> entry_id e = entry_id f \<Longrightarrow> e = f"
  by (simp add: distinct_map inj_on_def)

lemma found_unique:
  "forest_ok es \<Longrightarrow> find (\<lambda>e. entry_id e = Some i) es = Some f \<Longrightarrow> e \<in> set es \<Longrightarrow> entry_id e = Some i \<Longrightarrow> e = f"
  using find_id [of i es f] distinct_ids [of es e f] by (simp add: forest_ok_def)

lemma valid_parent:
  assumes "validate_parent es i kind parent = Inr ()" and "parent = Some p"
  shows "kind \<noteq> Some ''folder'' \<and> p \<noteq> i \<and> (\<exists>f \<in> set es. is_folder f \<and> entry_id f = Some p)"
  using assms by (auto simp: validate_parent_def split: if_splits option.splits dest!: find_id)

lemma forest_without_site:
  assumes "forest_ok es" and "\<And>e. e \<in> set es \<Longrightarrow> entry_id e = Some i \<Longrightarrow> \<not> is_folder e"
  shows "forest_ok (without_entry i es)"
proof -
  have "\<not> is_folder e \<and> (\<exists>f \<in> set (without_entry i es). is_folder f \<and> entry_id f = Some p)"
    if "e \<in> set (without_entry i es)" "parent_of e = Some p" for e p
    using forest_parent [OF assms(1) _ that(2)] that(1) assms(2) by (fastforce simp: without_entry_def)
  then show ?thesis using assms(1)
    by (auto simp: forest_ok_def without_entry_def distinct_map inj_on_def split: option.split)
qed

lemma get_str_put [simp]: "get_str (al_put k v m) j = (if j = k then as_str v else get_str m j)"
  by (simp add: get_str_def)

lemma get_str_del [simp]: "get_str (al_del k m) j = (if j = k then None else get_str m j)"
  by (simp add: get_str_def)

lemma as_str_or_null: "as_str (or_null m k) = get_str m k"
  by (simp add: or_null_def get_str_def split: option.split)

lemma forest_without_folder:
  assumes "forest_ok es" and "find (\<lambda>e. entry_id e = Some i) es = Some f" and "is_folder f"
  shows "forest_ok (without_folder i es)"
proof -
  define up where "up = (\<lambda>e. if parent_of e = Some i then al_put ''parentId'' (or_null f ''parentId'') e else e)"
  have f: "f \<in> set es" using find_id [OF assms(2)] by simp
  have none: "parent_of f = None" using forest_parent [OF assms(1) f] assms(3) by (cases "parent_of f") auto
  have same [simp]: "entry_id (up e) = entry_id e" "entry_kind (up e) = entry_kind e" for e
    by (simp_all add: up_def entry_id_def entry_kind_def)
  have par: "parent_of (up e) = (if parent_of e = Some i then None else parent_of e)" for e
    by (simp add: up_def as_str_or_null none)
  have "without_folder i es = filter (\<lambda>e. entry_id e \<noteq> Some i) (map up es)"
    by (simp add: without_folder_def without_entry_def up_def assms(2))
  then have eq: "without_folder i es = map up (without_entry i es)" by (simp add: filter_map comp_def without_entry_def)
  have d: "distinct (map entry_id (without_entry i es))"
    using assms(1) by (simp add: forest_ok_def without_entry_def distinct_map inj_on_def)
  show ?thesis
  proof (rule forest_okI)
    fix e' p assume e': "e' \<in> set (without_folder i es)" and p: "parent_of e' = Some p"
    then obtain e where e: "e' = up e" "e \<in> set es" by (auto simp: eq without_entry_def)
    then have "parent_of e = Some p" "p \<noteq> i" using p by (auto simp: par split: if_splits)
    with forest_parent [OF assms(1) e(2)] obtain g where "\<not> is_folder e" "g \<in> set es" "is_folder g" "entry_id g = Some p" by blast
    then show "\<not> is_folder e' \<and> (\<exists>g \<in> set (without_folder i es). is_folder g \<and> entry_id g = Some p)"
      using e(1) \<open>p \<noteq> i\<close> by (auto simp: eq without_entry_def intro!: bexI [of _ g])
  qed (use assms(1) d in \<open>auto simp: eq forest_ok_def without_entry_def comp_def\<close>)
qed

subsection \<open>Layouts\<close>

lemma by_id_from:
  assumes "\<forall>e \<in> set es. entry_id e \<noteq> None" and "distinct (map entry_id es)"
    and "\<forall>e \<in> set es. the (entry_id e) \<notin> fst ` set m"
  shows "fold (\<lambda>e m. case entry_id e of None \<Rightarrow> m | Some i \<Rightarrow> al_put i e m) es m = m @ map (\<lambda>e. (the (entry_id e), e)) es"
  using assms
proof (induction es arbitrary: m)
  case (Cons e es)
  obtain i where i: "entry_id e = Some i" using Cons.prems(1) by auto
  have fresh: "\<not> al_has i m" using Cons.prems(3) i by (simp add: al_has_def map_of_eq_None_iff)
  have "\<forall>x \<in> set es. the (entry_id x) \<notin> fst ` set (m @ [(i, e)])"
  proof
    fix x assume x: "x \<in> set es"
    then obtain j where j: "entry_id x = Some j" using Cons.prems(1) by auto
    have "entry_id x \<noteq> entry_id e" using Cons.prems(2) x by (auto simp: image_iff)
    then show "the (entry_id x) \<notin> fst ` set (m @ [(i, e)])" using Cons.prems(3) x i j by force
  qed
  then have "fold (\<lambda>e m. case entry_id e of None \<Rightarrow> m | Some i \<Rightarrow> al_put i e m) es (m @ [(i, e)])
      = (m @ [(i, e)]) @ map (\<lambda>e. (the (entry_id e), e)) es"
    using Cons.prems(1,2) by (intro Cons.IH) auto
  then show ?case using fresh i by (simp add: al_put_fresh)
qed simp

lemma by_id_forest:
  assumes "forest_ok es"
  shows "by_id es = map (\<lambda>e. (the (entry_id e), e)) es"
  using by_id_from [of es "[]"] assms by (simp add: by_id_def forest_ok_def)

lemma map_of_by_id:
  assumes "forest_ok es"
  shows "map_of (by_id es) i = find (\<lambda>e. entry_id e = Some i) es"
proof -
  have "\<forall>e \<in> set es. entry_id e \<noteq> None" using assms by (simp add: forest_ok_def)
  then have "map_of (map (\<lambda>e. (the (entry_id e), e)) es) i = find (\<lambda>e. entry_id e = Some i) es"
    by (induction es) auto
  then show ?thesis by (simp add: by_id_forest [OF assms])
qed

lemma layout_ids_fine:
  "layout_ids_problem known seen layout = None \<Longrightarrow>
     distinct (map le_id layout) \<and> set (map le_id layout) \<inter> set seen = {} \<and> (\<forall>item \<in> set layout. al_has (le_id item) known)"
proof (induction layout arbitrary: seen)
  case (Cons item layout)
  then have "le_id item \<notin> set seen" "al_has (le_id item) known" "layout_ids_problem known (le_id item # seen) layout = None"
    by (auto split: if_splits)
  with Cons.IH [OF this(3)] show ?case by auto
qed simp

lemma reordered_facts:
  assumes "forest_ok es" and "reordered es layout = Inr new"
  shows "new = map (moved_entry (by_id es)) layout" and "length layout = length es"
    and "distinct (map le_id layout)" and "\<forall>item \<in> set layout. \<exists>e \<in> set es. entry_id e = Some (le_id item)"
    and "\<forall>item \<in> set layout. validate_parent es (le_id item) (Option.bind (map_of (by_id es) (le_id item)) entry_kind) (le_parent item) = Inr ()"
proof -
  have snds: "map snd (by_id es) = es" by (simp add: by_id_forest [OF assms(1)] comp_def)
  have len: "length (by_id es) = length es" by (simp add: by_id_forest [OF assms(1)])
  have known: "length layout = length es" "layout_ids_problem (by_id es) [] layout = None"
    "find_map (layout_parent_problem (by_id es)) layout = None" "new = map (moved_entry (by_id es)) layout"
    using assms(2) len by (auto simp: reordered_def Let_def split: if_splits option.splits)
  show "new = map (moved_entry (by_id es)) layout" "length layout = length es" by (fact known)+
  show "distinct (map le_id layout)" "\<forall>item \<in> set layout. \<exists>e \<in> set es. entry_id e = Some (le_id item)"
    using layout_ids_fine [OF known(2)] assms(1)
    by (auto simp: al_has_def map_of_by_id dest!: find_id)
  show "\<forall>item \<in> set layout. validate_parent es (le_id item) (Option.bind (map_of (by_id es) (le_id item)) entry_kind) (le_parent item) = Inr ()"
  proof
    fix item assume "item \<in> set layout"
    then have "layout_parent_problem (by_id es) item = None" using known(3) by (simp add: find_map_None_iff)
    then show "validate_parent es (le_id item) (Option.bind (map_of (by_id es) (le_id item)) entry_kind) (le_parent item) = Inr ()"
      by (simp add: layout_parent_problem_def snds split: sum.splits)
  qed
qed

lemma moved_entry_simps [simp]:
  "get_str (moved_entry known item) k = (if k = ''parentId''
     then (if is_folder (the_or [] (map_of known (le_id item))) then None else le_parent item)
     else get_str (the_or [] (map_of known (le_id item))) k)"
  by (simp add: moved_entry_def Let_def opt_json_def split: option.split)

lemma moved_entry_kind [simp]:
  "entry_id (moved_entry known item) = entry_id (the_or [] (map_of known (le_id item)))"
  "entry_kind (moved_entry known item) = entry_kind (the_or [] (map_of known (le_id item)))"
  "is_local_scope_entry (moved_entry known item) = is_local_scope_entry (the_or [] (map_of known (le_id item)))"
  by (simp_all add: entry_id_def entry_kind_def is_local_scope_entry_def)

lemma forest_reordered:
  assumes "forest_ok es" and "reordered es layout = Inr new"
  shows "forest_ok new" and "\<forall>e' \<in> set new. \<exists>e \<in> set es. is_local_scope_entry e' = is_local_scope_entry e"
proof -
  note facts = reordered_facts [OF assms]
  let ?rec = "\<lambda>item. the_or [] (map_of (by_id es) (le_id item))"
  have ent: "?rec item \<in> set es \<and> entry_id (?rec item) = Some (le_id item) \<and> map_of (by_id es) (le_id item) = Some (?rec item)"
    if "item \<in> set layout" for item
  proof -
    obtain e where "e \<in> set es" "entry_id e = Some (le_id item)" using facts(4) \<open>item \<in> set layout\<close> by blast
    then obtain f where f: "find (\<lambda>e. entry_id e = Some (le_id item)) es = Some f"
      by (cases "find (\<lambda>e. entry_id e = Some (le_id item)) es") (auto simp: find_None_iff)
    then show ?thesis using find_id [OF f] by (simp add: map_of_by_id [OF assms(1)])
  qed
  show "\<forall>e' \<in> set new. \<exists>e \<in> set es. is_local_scope_entry e' = is_local_scope_entry e"
    using ent by (auto simp: facts(1))
  have ids: "map entry_id new = map (\<lambda>item. Some (le_id item)) layout"
    using ent by (simp add: facts(1))
  have all: "entry_id ` set new = entry_id ` set es"
  proof (rule card_subset_eq)
    show "entry_id ` set new \<subseteq> entry_id ` set es" using ent facts(4) by (force simp: facts(1))
    have "distinct (map entry_id new)" using facts(3) unfolding ids by (simp add: distinct_map inj_on_def)
    then have "card (set (map entry_id new)) = length new" using distinct_card by fastforce
    then have "card (entry_id ` set new) = length es" using facts(1,2) by (simp del: map_map)
    moreover have "card (entry_id ` set es) = length es"
      using assms(1) distinct_card [of "map entry_id es"] by (simp add: forest_ok_def)
    ultimately show "card (entry_id ` set new) = card (entry_id ` set es)" by simp
  qed simp
  show "forest_ok new"
  proof (rule forest_okI)
    show "distinct (map entry_id new)" using facts(3) unfolding ids by (simp add: distinct_map inj_on_def)
    show "entry_id e \<noteq> None" if "e \<in> set new" for e using that ent by (auto simp: facts(1))
    fix e' p assume e': "e' \<in> set new" and p: "parent_of e' = Some p"
    then obtain item where item: "item \<in> set layout" "e' = moved_entry (by_id es) item" by (auto simp: facts(1))
    have par: "\<not> is_folder (?rec item)" "le_parent item = Some p" using p item(2) by (auto split: if_splits)
    have "validate_parent es (le_id item) (entry_kind (?rec item)) (le_parent item) = Inr ()"
      using facts(5) item(1) ent [OF item(1)] by (metis Option.bind.simps(2))
    from valid_parent [OF this par(2)] obtain f where f: "f \<in> set es" "is_folder f" "entry_id f = Some p" by blast
    have "entry_id f \<in> entry_id ` set new" using all f(1) by simp
    then obtain g where g: "g \<in> set new" "entry_id g = entry_id f" by (metis imageE)
    obtain item' where item': "item' \<in> set layout" "g = moved_entry (by_id es) item'" using g(1) facts(1) by auto
    have rec': "?rec item' \<in> set es" "entry_id (?rec item') = entry_id f"
      using ent [OF item'(1)] g(2) item'(2) by simp_all
    have "distinct (map entry_id es)" using assms(1) by (simp add: forest_ok_def)
    then have "?rec item' = f" by (rule distinct_ids) (use rec' f(1) in simp_all)
    then have "is_folder g" using f(2) item'(2) by simp
    then show "\<not> is_folder e' \<and> (\<exists>f \<in> set new. is_folder f \<and> entry_id f = Some p)"
      using par(1) item(2) g f(3) by (simp add: bexI [of _ g])
  qed
qed

section \<open>Records\<close>

definition secret_keys :: "string list" where
  "secret_keys = [''enc'', ''plain'', ''keyEnc'', ''keyPlain'', ''hasPassword'', ''hasKeyPassphrase'']"

lemma server_to_json_keys: "fst ` set (server_to_json s) =
    {''protocol'', ''host'', ''port'', ''webdavUrl'', ''user'', ''secure'', ''remotePath'', ''allowInvalidCert'',
     ''allowCleartextAuth'', ''caCertPath'', ''useKeyAuth'', ''keyPath'', ''encoding'', ''maxConnections''}"
  by (simp add: server_to_json_def)

lemma encrypted_key:
  "encrypt_secret_with pr secret existing enc plain = (Some (k, v), lost) \<Longrightarrow> k = enc \<or> k = plain"
  by (auto simp: encrypt_secret_with_def protected_field_def Let_def split: if_splits option.splits)

lemma the_secret_key:
  "the_secret env input existing input_field remove_field enc plain = (Some (k, v), lost) \<Longrightarrow> k = enc \<or> k = plain"
  by (auto simp: the_secret_def split: if_splits dest: encrypted_key)

lemma get_str_base:
  "map_of (fold (\<lambda>k r. al_put k (or_null input k) r) ks r) j = (if j \<in> set ks then Some (or_null input j) else map_of r j)"
  by (induction ks arbitrary: r) auto

lemma get_str_nil [simp]: "get_str [] k = None"
  by (simp add: get_str_def)

lemma get_str_Cons: "get_str ((k, v) # m) j = (if j = k then as_str v else get_str m j)"
  by (simp add: get_str_def)

lemma get_str_copy [simp]: "k \<noteq> j \<Longrightarrow> get_str (copy_field input k r) j = get_str r j"
  by (simp add: copy_field_def split: option.split)

lemma site_record_shape:
  assumes "site_record input i parent existing = Inr r"
  shows "get_str r ''id'' = Some i" and "parent_of r = parent"
    and "get_str r ''kind'' = (if entry_kind input = Some ''local'' then Some ''local'' else None)"
proof -
  have "get_str r ''id'' = Some i \<and> parent_of r = parent
    \<and> get_str r ''kind'' = (if entry_kind input = Some ''local'' then Some ''local'' else None)"
  proof (cases "entry_kind input = Some ''local''")
    case True
    then show ?thesis using assms
      by (auto simp: site_record_def get_str_Cons opt_json_def split: option.splits)
  next
    case False
    obtain server limit where "r = al_put ''parentId'' (opt_json parent)
        (fold (\<lambda>k r. al_put k (or_null input k) r) [''name'', ''icon'', ''color'']
          (let base = merge [(''id'', JString i)] (server_to_json (server\<lparr>sv_max_connections := limit\<rparr>))
           in if al_has ''maxConnections'' input \<or> (case existing of None \<Rightarrow> False | Some site \<Rightarrow> al_has ''maxConnections'' site)
              then base else al_del ''maxConnections'' base))"
      using assms False by (auto simp: site_record_def Let_def split: sum.splits)
    moreover have "map_of (merge [(''id'', JString i)] (server_to_json s)) k = map_of [(''id'', JString i)] k"
      if "k \<in> {''id'', ''kind''}" for s k
      using that by (intro map_of_merge_other) (auto simp: server_to_json_keys)
    ultimately show ?thesis using False
      by (auto simp: get_str_def Let_def opt_json_def split: option.splits)
  qed
  then show "get_str r ''id'' = Some i" "parent_of r = parent"
    "get_str r ''kind'' = (if entry_kind input = Some ''local'' then Some ''local'' else None)" by simp_all
qed

lemma saved_record_shape:
  assumes "saved_record env input confirmed i parent existing = Inr (r, lost)"
  shows "entry_id r = Some i" and "parent_of r = parent" and "\<not> is_folder r"
    and "is_local_scope_entry r = (entry_kind input = Some ''local'')"
proof -
  obtain pw l1 where pw: "the_secret env input existing ''password'' ''removePassword'' ''enc'' ''plain'' = (pw, l1)" by fastforce
  obtain kp l2 where kp: "the_secret env input existing ''keyPassphrase'' ''removeKeyPassphrase'' ''keyEnc'' ''keyPlain'' = (kp, l2)" by fastforce
  obtain q where q: "site_record input i parent existing = Inr q"
    "r = (if entry_kind input = Some ''local'' then q else copy_field input ''hasKeyPassphrase''
       (copy_field input ''hasPassword'' (put_field kp (put_field pw q))))"
    using assms pw kp by (auto simp: saved_record_def Let_def split: sum.splits if_splits)
  have fields: "get_str (put_field kp (put_field pw q)) k = get_str q k" if "k \<in> {''id'', ''kind'', ''parentId''}" for k
    using that the_secret_key [of env input existing "''password''" "''removePassword''" "''enc''" "''plain''"] pw
      the_secret_key [of env input existing "''keyPassphrase''" "''removeKeyPassphrase''" "''keyEnc''" "''keyPlain''"] kp
    by (auto simp: put_field_def split: option.splits)
  have same: "get_str r k = get_str q k" if "k \<in> {''id'', ''kind'', ''parentId''}" for k
    using fields [OF that] that by (auto simp: q(2))
  note shape = site_record_shape [OF q(1)]
  show "entry_id r = Some i" "parent_of r = parent" using same shape by (simp_all add: entry_id_def)
  show "\<not> is_folder r" "is_local_scope_entry r = (entry_kind input = Some ''local'')"
    using same shape by (simp_all add: entry_kind_def is_local_scope_entry_def)
qed

lemma folder_record_shape:
  "entry_id (folder_record input i) = Some i" "is_folder (folder_record input i)" "parent_of (folder_record input i) = None"
  "is_local_scope_entry (folder_record input i) = (get_str input ''managerScope'' = Some ''localPaths'')"
proof -
  have kind: "entry_kind (folder_record input i) = Some ''folder''" by (simp add: entry_kind_def folder_record_def get_str_Cons)
  show "entry_id (folder_record input i) = Some i" "is_folder (folder_record input i)" "parent_of (folder_record input i) = None"
    using kind by (auto simp: entry_id_def folder_record_def get_str_Cons split: option.split)
  show "is_local_scope_entry (folder_record input i) = (get_str input ''managerScope'' = Some ''localPaths'')"
    unfolding is_local_scope_entry_def kind by (auto simp: folder_record_def get_str_Cons split: option.split)
qed

section \<open>Both files through any operations\<close>

definition tidy :: "bool \<Rightarrow> json_map list \<Rightarrow> bool" where
  "tidy local es \<longleftrightarrow> forest_ok es \<and> (\<forall>e \<in> set es. is_local_scope_entry e = local)"

definition files_ok :: "codec \<Rightarrow> store \<Rightarrow> bool" where
  "files_ok c st \<longleftrightarrow> (\<exists>bs ls. holds c sites_file bs st \<and> tidy False bs \<and> holds c local_paths_file ls st \<and> tidy True ls)"

lemma files_ok_folder: "files_ok c st \<Longrightarrow> st_folder st' = st_folder st \<Longrightarrow> files_ok c st'"
  unfolding files_ok_def by (simp add: holds_def)

lemma tidy_put:
  assumes "tidy local es" and "entry_id r = Some i" and "is_local_scope_entry r = local"
    and "\<And>p. parent_of r = Some p \<Longrightarrow> \<not> is_folder r \<and> p \<noteq> i \<and> (\<exists>f \<in> set es. is_folder f \<and> entry_id f = Some p)"
    and "\<And>e. e \<in> set es \<Longrightarrow> entry_id e = Some i \<Longrightarrow> is_folder e = is_folder r"
  shows "tidy local (put_entry i r es)"
proof -
  have "forest_ok es" using assms(1) by (simp add: tidy_def)
  then have "distinct (map entry_id es)" by (simp add: forest_ok_def)
  then have "set (put_entry i r es) = insert r {e \<in> set es. entry_id e \<noteq> Some i}" by (rule set_put_entry)
  moreover have "forest_ok (put_entry i r es)" by (rule forest_put [OF \<open>forest_ok es\<close> assms(2,4,5)])
  ultimately show ?thesis using assms(1,3) by (simp add: tidy_def)
qed

definition file_of :: "bool \<Rightarrow> string" where "file_of local = (if local then local_paths_file else sites_file)"

text \<open>One file is read, changed and written.\<close>

lemma read_change_write:
  assumes "\<forall>v. cd_parse (se_codec env) (cd_render (se_codec env) v) = Some v" and "\<not> io_no_folder io"
    and "files_ok (se_codec env) st" and "read_entries env io (file_of local) st = (es, st1)"
    and "tidy local es \<Longrightarrow> tidy local new" and "write_entries env io (file_of local) new st1 = (r, st2)"
  shows "files_ok (se_codec env) st2"
proof -
  let ?c = "se_codec env"
  let ?other = "file_of (\<not> local)"
  obtain own others where h: "holds ?c (file_of local) own st" "tidy local own" "holds ?c ?other others st" "tidy (\<not> local) others"
    using assms(3) by (cases local) (auto simp: files_ok_def file_of_def)
  have keep: "files_ok ?c st'" if "holds ?c (file_of local) es' st'" "tidy local es'" "holds ?c ?other others st'" for es' st'
    using that h(4) by (cases local) (auto simp: files_ok_def file_of_def)
  from h(1) assms(2,4) show ?thesis
  proof (cases rule: read_entries_cases)
    case read
    have "holds ?c (file_of local) own st1" "holds ?c ?other others st1" using h(1,3) read(2) by (simp_all add: holds_def)
    then have "holds ?c (file_of local) (if is_Ok r then new else own) st2" "holds ?c ?other others st2"
      using write_entries_holds [OF assms(1) _ _ assms(6)] write_entries_other [OF _ assms(6)]
      by (auto simp: file_of_def split: if_splits)
    then show ?thesis using keep h(2) assms(5) read(1) by (auto split: if_splits)
  next
    case failed
    then show ?thesis using write_entries_refused [OF failed(3)] assms(3,6) files_ok_folder by fastforce
  qed
qed

lemma read_keeps:
  assumes "files_ok (se_codec env) st" and "\<not> io_no_folder io" and "read_entries env io (file_of local) st = (es, st1)"
  shows "st_folder st1 = st_folder st" and "tidy local es"
proof -
  obtain own where h: "holds (se_codec env) (file_of local) own st" "tidy local own"
    using assms(1) by (cases local) (auto simp: files_ok_def file_of_def)
  from h(1) assms(2,3) have "st_folder st1 = st_folder st \<and> tidy local es"
    by (cases rule: read_entries_cases) (use h(2) in \<open>auto simp: tidy_def forest_ok_def\<close>)
  then show "st_folder st1 = st_folder st" "tidy local es" by simp_all
qed

lemma split_keeps:
  assumes "files_ok (se_codec env) st" and "\<not> io_no_folder io" and "ensure_storage_split env io st = (r, st1)"
  shows "r = Inr () \<and> files_ok (se_codec env) st1"
proof -
  obtain es st2 where es: "read_entries env io (file_of False) st = (es, st2)" by fastforce
  have "\<forall>e \<in> set es. \<not> is_local_scope_entry e" using read_keeps(2) [OF assms(1,2) es] by (simp add: tidy_def)
  then have "r = Inr ()" "st1 = st2" using assms(3) es by (auto simp: ensure_storage_split_def file_of_def split: if_splits)
  then show ?thesis using files_ok_folder [OF assms(1)] read_keeps(1) [OF assms(1,2) es] by simp
qed

lemma write_after_read:
  assumes "\<forall>v. cd_parse (se_codec env) (cd_render (se_codec env) v) = Some v" and "\<not> io_no_folder io"
    and "files_ok (se_codec env) st" and "read_entries env io (file_of local) st = (es, st1)"
    and "tidy local es \<Longrightarrow> tidy local new"
  shows "files_ok (se_codec env) (snd (write_entries env io (file_of local) new st1))"
  by (rule read_change_write [OF assms]) (simp_all add: prod_eq_iff)

lemma migrate_field_keeps:
  "migrate_plaintext_field pr f e site = (changed, site') \<Longrightarrow> k \<noteq> f \<Longrightarrow> k \<noteq> e \<Longrightarrow> get_str site' k = get_str site k"
  by (auto simp: migrate_plaintext_field_def split: option.splits if_splits)

lemma protected_site_keeps:
  assumes "k \<notin> {''enc'', ''plain'', ''keyEnc'', ''keyPlain''}"
  shows "get_str (snd (protected_site pr site)) k = get_str site k"
proof -
  obtain c1 s1 where m1: "migrate_plaintext_field pr ''plain'' ''enc'' site = (c1, s1)" by fastforce
  obtain c2 s2 where m2: "migrate_plaintext_field pr ''keyPlain'' ''keyEnc'' s1 = (c2, s2)" by fastforce
  have "get_str s2 k = get_str site k"
    using migrate_field_keeps [OF m1, of k] migrate_field_keeps [OF m2, of k] assms by simp
  then show ?thesis by (simp add: protected_site_def m1 m2)
qed

lemma tidy_map:
  assumes "\<And>e k. e \<in> set es \<Longrightarrow> k \<in> {''id'', ''kind'', ''parentId'', ''managerScope''} \<Longrightarrow> get_str (f e) k = get_str e k"
    and "tidy local es"
  shows "tidy local (map f es)"
proof -
  have same: "entry_id (f e) = entry_id e" "entry_kind (f e) = entry_kind e" "parent_of (f e) = parent_of e"
    "is_local_scope_entry (f e) = is_local_scope_entry e" if "e \<in> set es" for e
    using assms(1) [OF that] by (simp_all add: entry_id_def entry_kind_def is_local_scope_entry_def)
  have ok: "forest_ok es" using assms(2) by (simp add: tidy_def)
  have "forest_ok (map f es)"
  proof (rule forest_okI)
    have "map entry_id (map f es) = map entry_id es" using same(1) by simp
    then show "distinct (map entry_id (map f es))" using ok by (simp only: forest_ok_def)
    show "entry_id e \<noteq> None" if "e \<in> set (map f es)" for e using that same(1) ok by (auto simp: forest_ok_def)
    fix e' p assume "e' \<in> set (map f es)" and p: "parent_of e' = Some p"
    then obtain e where e: "e \<in> set es" "e' = f e" by auto
    obtain g where "\<not> is_folder e" "g \<in> set es" "is_folder g" "entry_id g = Some p"
      using forest_parent [OF ok e(1)] p same(3) [OF e(1)] e(2) by auto
    then show "\<not> is_folder e' \<and> (\<exists>g \<in> set (map f es). is_folder g \<and> entry_id g = Some p)"
      using e same by (auto intro!: bexI [of _ g])
  qed
  then show ?thesis using assms(2) same(4) by (simp add: tidy_def)
qed

lemma read_sites_is: "sites_file = file_of False" "local_paths_file = file_of True"
  by (simp_all add: file_of_def)

lemma delete_in_keeps:
  assumes "\<forall>v. cd_parse (se_codec env) (cd_render (se_codec env) v) = Some v" and "\<not> io_no_folder io"
    and "\<forall>p \<in> set paths. \<exists>local. p = file_of local" and "files_ok (se_codec env) st"
  shows "files_ok (se_codec env) (snd (delete_site_in env io i paths st))"
    and "files_ok (se_codec env) (snd (delete_folder_in env io i paths st))"
proof -
  have step: "files_ok (se_codec env) (snd (delete_site_in env io i paths st))
    \<and> files_ok (se_codec env) (snd (delete_folder_in env io i paths st))"
    using assms(3,4)
  proof (induction paths arbitrary: st)
    case (Cons p paths)
    obtain local where p: "p = file_of local" using Cons.prems(1) by auto
    obtain es st1 where r: "read_entries env io p st = (es, st1)" by fastforce
    have ok1: "files_ok (se_codec env) st1" and t: "tidy local es"
      using read_keeps [OF Cons.prems(2) assms(2), of local es st1] r p files_ok_folder Cons.prems(2) by auto
    have IH: "files_ok (se_codec env) (snd (delete_site_in env io i paths st1))
      \<and> files_ok (se_codec env) (snd (delete_folder_in env io i paths st1))"
      using Cons.prems(1) ok1 by (intro Cons.IH) auto
    show ?case
    proof (cases "find (\<lambda>e. entry_id e = Some i) es")
      case None
      then show ?thesis using IH r by simp
    next
      case (Some e)
      have site: "tidy local (without_entry i es)" if "\<not> is_folder e"
        using t that forest_without_site [of es i] found_unique [OF _ Some]
        by (auto simp: tidy_def without_entry_def)
      have folder: "tidy local (without_folder i es)" if "is_folder e"
      proof -
        have "\<forall>x \<in> set (without_folder i es). is_local_scope_entry x = local"
          using t by (auto simp: tidy_def without_folder_def without_entry_def is_local_scope_entry_def entry_kind_def Let_def)
        then show ?thesis using t that forest_without_folder [OF _ Some] by (simp add: tidy_def)
      qed
      show ?thesis using Some r ok1 p
        write_after_read [OF assms(1,2) Cons.prems(2), of local es st1] site folder by auto
    qed
  qed simp
  then show "files_ok (se_codec env) (snd (delete_site_in env io i paths st))"
    "files_ok (se_codec env) (snd (delete_folder_in env io i paths st))" by simp_all
qed

lemma save_site_keeps:
  assumes "\<forall>v. cd_parse (se_codec env) (cd_render (se_codec env) v) = Some v" and "\<not> io_no_folder io"
    and "files_ok (se_codec env) st" and "save_site_with_protector env io fresh input confirmed st = (r, st')"
  shows "files_ok (se_codec env) st'"
proof -
  let ?c = "se_codec env" and ?local = "entry_kind input = Some ''local''"
  obtain x st1 where split: "ensure_storage_split env io st = (x, st1)" by fastforce
  have ok1: "x = Inr ()" "files_ok ?c st1" using split_keeps [OF assms(3,2) split] by simp_all
  obtain es st2 where r: "read_entries env io (file_of ?local) st1 = (es, st2)" by fastforce
  have ok2: "files_ok ?c st2" "tidy ?local es"
    using read_keeps [OF ok1(2) assms(2) r] files_ok_folder [OF ok1(2)] by simp_all
  have path: "(if ?local then local_paths_file else sites_file) = file_of ?local" by (simp add: file_of_def)
  let ?i = "the_or fresh (given_id input)"
  have put: "tidy ?local (put_entry ?i q es)"
    if "(case find (\<lambda>s. entry_id s = Some ?i) es of None \<Rightarrow> False | Some e \<Rightarrow> is_folder e) = False"
      "validate_parent es ?i None parent = Inr ()" "saved_record env input confirmed ?i parent ex = Inr (q, lost)"
    for q parent ex lost
  proof (rule tidy_put [OF ok2(2)])
    note shape = saved_record_shape [OF that(3)]
    show "entry_id q = Some ?i" "is_local_scope_entry q = ?local" by (fact shape)+
    show "\<not> is_folder q \<and> p \<noteq> ?i \<and> (\<exists>f \<in> set es. is_folder f \<and> entry_id f = Some p)" if "parent_of q = Some p" for p
      using valid_parent [OF \<open>validate_parent es ?i None parent = Inr ()\<close>] that shape by simp
    show "is_folder e = is_folder q" if e: "e \<in> set es" "entry_id e = Some ?i" for e
    proof -
      obtain f where "find (\<lambda>s. entry_id s = Some ?i) es = Some f"
        using e by (cases "find (\<lambda>s. entry_id s = Some ?i) es") (auto simp: find_None_iff)
      then show ?thesis using found_unique [of es ?i f e] e ok2(2) shape(3) \<open>(case find (\<lambda>s. entry_id s = Some ?i) es of None \<Rightarrow> False | Some e \<Rightarrow> is_folder e) = False\<close>
        by (auto simp: tidy_def)
    qed
  qed
  from assms(4) show ?thesis
    using put ok1 ok2(1) split assms(3) unfolding save_site_with_protector_def path
    by (auto simp: r Let_def intro: read_change_write [OF assms(1,2) ok1(2) r, rotated] split: sum.splits prod.splits if_splits)
qed

datatype site_event =
    SaveSite string json_map "secret_transfer option"
  | SaveFolder string json_map
  | DeleteSite string
  | DeleteFolder string
  | ApplyLayout "layout_entry list"
  | ListSites

fun site_step :: "site_env \<Rightarrow> io \<times> site_event \<Rightarrow> store \<Rightarrow> store" where
  "site_step env (io, SaveSite fresh input confirmed) st = snd (save_site_with_protector env io fresh input confirmed st)"
| "site_step env (io, SaveFolder fresh input) st = snd (save_folder env io fresh input st)"
| "site_step env (io, DeleteSite i) st = snd (delete_site env io i st)"
| "site_step env (io, DeleteFolder i) st = snd (delete_folder env io i st)"
| "site_step env (io, ApplyLayout layout) st = snd (apply_layout env io layout st)"
| "site_step env (io, ListSites) st = snd (list_sites env io st)"

lemma save_folder_keeps:
  assumes "\<forall>v. cd_parse (se_codec env) (cd_render (se_codec env) v) = Some v" and "\<not> io_no_folder io"
    and "files_ok (se_codec env) st" and "save_folder env io fresh input st = (r, st')"
  shows "files_ok (se_codec env) st'"
proof -
  let ?c = "se_codec env" and ?local = "get_str input ''managerScope'' = Some ''localPaths''"
  obtain x st1 where split: "ensure_storage_split env io st = (x, st1)" by fastforce
  have ok1: "x = Inr ()" "files_ok ?c st1" using split_keeps [OF assms(3,2) split] by simp_all
  obtain es st2 where r: "read_entries env io (file_of ?local) st1 = (es, st2)" by fastforce
  have ok2: "files_ok ?c st2" "tidy ?local es"
    using read_keeps [OF ok1(2) assms(2) r] files_ok_folder [OF ok1(2)] by simp_all
  have path: "(if ?local then local_paths_file else sites_file) = file_of ?local" by (simp add: file_of_def)
  let ?i = "the_or fresh (given_id input)"
  have put: "tidy ?local (put_entry ?i (folder_record input ?i) es)"
    if none: "(case find (\<lambda>e. entry_id e = Some ?i) es of None \<Rightarrow> False | Some e \<Rightarrow> \<not> is_folder e) = False"
  proof (rule tidy_put [OF ok2(2)])
    show "is_folder e = is_folder (folder_record input ?i)" if e: "e \<in> set es" "entry_id e = Some ?i" for e
    proof -
      obtain f where "find (\<lambda>s. entry_id s = Some ?i) es = Some f"
        using e by (cases "find (\<lambda>s. entry_id s = Some ?i) es") (auto simp: find_None_iff)
      then show ?thesis using found_unique [of es ?i f e] e ok2(2) none folder_record_shape(2) by (auto simp: tidy_def)
    qed
  qed (use folder_record_shape in auto)
  show ?thesis using assms(4) put ok1 ok2(1) split assms(3) unfolding save_folder_def path
    by (auto simp: r Let_def intro: read_change_write [OF assms(1,2) ok1(2) r, rotated] split: sum.splits prod.splits if_splits option.splits)
qed

lemma layout_target_keeps:
  assumes "\<not> io_no_folder io" and "\<forall>p \<in> set paths. \<exists>local. p = file_of local"
    and "files_ok (se_codec env) st" and "layout_target env io layout paths st = (path, st')"
  shows "files_ok (se_codec env) st' \<and> (\<exists>local. path = file_of local)"
  using assms(2-4)
proof (induction paths arbitrary: st)
  case Nil
  then show ?case using read_sites_is by auto
next
  case (Cons p paths)
  obtain local where p: "p = file_of local" using Cons.prems(1) by auto
  obtain es st1 where r: "read_entries env io p st = (es, st1)" by fastforce
  have "files_ok (se_codec env) st1"
    using read_keeps(1) [OF Cons.prems(2) assms(1), of local es st1] r p files_ok_folder Cons.prems(2) by auto
  then show ?case using Cons r p by (auto split: if_splits)
qed

lemma apply_layout_keeps:
  assumes "\<forall>v. cd_parse (se_codec env) (cd_render (se_codec env) v) = Some v" and "\<not> io_no_folder io"
    and "files_ok (se_codec env) st" and "apply_layout env io layout st = (r, st')"
  shows "files_ok (se_codec env) st'"
proof -
  let ?c = "se_codec env"
  obtain x st1 where split: "ensure_storage_split env io st = (x, st1)" by fastforce
  have ok1: "x = Inr ()" "files_ok ?c st1" using split_keeps [OF assms(3,2) split] by simp_all
  obtain path st2 where t: "layout_target env io layout [sites_file, local_paths_file] st1 = (path, st2)" by fastforce
  obtain local where ok2: "files_ok ?c st2" "path = file_of local"
    using layout_target_keeps [OF assms(2) _ ok1(2) t] read_sites_is by auto
  obtain es st3 where r: "read_entries env io (file_of local) st2 = (es, st3)" by fastforce
  have ok3: "files_ok ?c st3" "tidy local es"
    using read_keeps [OF ok2(1) assms(2) r] files_ok_folder [OF ok2(1)] by simp_all
  have "tidy local new" if "reordered es layout = Inr new" for new
    using forest_reordered [OF _ that] ok3(2) by (auto simp: tidy_def)
  then show ?thesis using assms(4) split ok1(1) t ok2(2) r ok3(1)
    by (auto simp: apply_layout_def intro: read_change_write [OF assms(1,2) ok2(1) r, rotated] split: sum.splits)
qed

lemma migrate_keeps:
  assumes "\<forall>v. cd_parse (se_codec env) (cd_render (se_codec env) v) = Some v" and "\<not> io_no_folder io"
    and "files_ok (se_codec env) st" and "migrate_plaintext_secrets env io st = (r, st')"
  shows "files_ok (se_codec env) st'"
proof -
  obtain es st1 where r: "read_entries env io (file_of False) st = (es, st1)" by fastforce
  have ok: "files_ok (se_codec env) st1" "tidy False es"
    using read_keeps [OF assms(3,2) r] files_ok_folder [OF assms(3)] by simp_all
  have "map snd (map (protected_site (se_protector env)) es) = map (\<lambda>e. snd (protected_site (se_protector env) e)) es" by simp
  moreover have "tidy False (map (\<lambda>e. snd (protected_site (se_protector env) e)) es)"
    using ok(2) by (intro tidy_map) (auto simp: protected_site_keeps)
  ultimately have "tidy False (map snd (map (protected_site (se_protector env)) es))" by (simp only:)
  then show ?thesis using assms(4) r ok(1)
    by (auto simp: migrate_plaintext_secrets_def read_sites_is Let_def simp del: map_map
        intro: read_change_write [OF assms(1-3) r, rotated] split: if_splits)
qed

lemma list_keeps_files:
  assumes "\<forall>v. cd_parse (se_codec env) (cd_render (se_codec env) v) = Some v" and "\<not> io_no_folder io"
    and "files_ok (se_codec env) st" and "list_sites env io st = (r, st')"
  shows "files_ok (se_codec env) st'"
proof -
  let ?c = "se_codec env"
  obtain x st1 where split: "ensure_storage_split env io st = (x, st1)" by fastforce
  have ok1: "x = Inr ()" "files_ok ?c st1" using split_keeps [OF assms(3,2) split] by simp_all
  obtain y st2 where m: "migrate_plaintext_secrets env io st1 = (y, st2)" by fastforce
  have ok2: "files_ok ?c st2" by (rule migrate_keeps [OF assms(1,2) ok1(2) m])
  obtain es st3 where r: "read_entries env io (file_of False) st2 = (es, st3)" by fastforce
  have ok3: "files_ok ?c st3" using read_keeps(1) [OF ok2 assms(2) r] files_ok_folder [OF ok2] by simp
  obtain ls st4 where l: "read_entries env io (file_of True) st3 = (ls, st4)" by fastforce
  have "files_ok ?c st4" using read_keeps(1) [OF ok3 assms(2) l] files_ok_folder [OF ok3] by simp
  then show ?thesis using assms(4) split ok1(1) m ok2 r l
    by (auto simp: list_sites_def read_sites_is split: sum.splits)
qed

lemma deletes_keep_files:
  assumes "\<forall>v. cd_parse (se_codec env) (cd_render (se_codec env) v) = Some v" and "\<not> io_no_folder io"
    and "files_ok (se_codec env) st"
  shows "files_ok (se_codec env) (snd (delete_site env io i st))" and "files_ok (se_codec env) (snd (delete_folder env io i st))"
proof -
  obtain x st1 where split: "ensure_storage_split env io st = (x, st1)" by fastforce
  have ok1: "x = Inr ()" "files_ok (se_codec env) st1" using split_keeps [OF assms(3,2) split] by simp_all
  have "\<forall>p \<in> set [sites_file, local_paths_file]. \<exists>local. p = file_of local" using read_sites_is by auto
  from delete_in_keeps [OF assms(1,2) this ok1(2)] show
    "files_ok (se_codec env) (snd (delete_site env io i st))" "files_ok (se_codec env) (snd (delete_folder env io i st))"
    using split ok1(1) by (simp_all add: delete_site_def delete_folder_def)
qed

section \<open>Who a saved password is for\<close>

definition server_keys :: "string list" where
  "server_keys = [''protocol'', ''host'', ''port'', ''webdavUrl'', ''user'', ''secure'', ''remotePath'', ''allowInvalidCert'',
     ''allowCleartextAuth'', ''caCertPath'', ''useKeyAuth'', ''keyPath'', ''encoding'']"

lemma server_from_json_frame:
  assumes "\<forall>k \<in> set server_keys. map_of r k = map_of r' k"
    and "number r ''maxConnections'' = number r' ''maxConnections''"
  shows "server_from_json r = server_from_json r'"
proof -
  have "read_protocol r = read_protocol r'" "number r ''port'' = number r' ''port''"
    using assms(1) by (auto simp: server_keys_def intro!: read_protocol_frame number_frame)
  moreover have "\<forall>k \<in> set server_keys. get_str r k = get_str r' k \<and> get_bool r k = get_bool r' k"
    using assms(1) by (simp add: get_str_def get_bool_def)
  ultimately show ?thesis using assms(2) by (simp add: server_from_json_def Let_def server_keys_def split: sum.split)
qed

lemma server_or_unset_read:
  assumes "server_from_json r = Inr s"
  shows "server_or_unset r = Inr s"
proof -
  obtain p n m where p: "read_protocol r = Inr p" "number r ''port'' = Inr n" "number r ''maxConnections'' = Inr m"
    using assms by (auto simp: server_from_json_def Let_def split: sum.splits)
  have "drop_bad_protocol r = r"
    using p(1) by (auto simp: drop_bad_protocol_def read_protocol_def Let_def split: option.splits if_splits)
  then show ?thesis using assms p by (simp add: server_or_unset_def drop_bad_number_def)
qed

lemma scope_of_record:
  assumes "site_record input i parent existing = Inr q" and "entry_kind input \<noteq> Some ''local''"
    and "\<forall>k \<in> set (''maxConnections'' # server_keys). map_of new k = map_of q k"
  shows "site_scope new = site_scope input"
proof -
  obtain server where s: "server_from_json input = Inr server"
    using assms(1,2) by (auto simp: site_record_def split: sum.splits)
  obtain limit where lim: "(if al_has ''maxConnections'' input then Inr (sv_max_connections server)
      else (case existing of None \<Rightarrow> Inr None | Some site \<Rightarrow> (case server_or_unset site of
        Inl e \<Rightarrow> Inl (Panicked e) | Inr s \<Rightarrow> Inr (sv_max_connections s)))) = Inr limit"
    using assms(1,2) s by (auto simp: site_record_def Let_def split: sum.splits)
  let ?S = "server\<lparr>sv_max_connections := limit\<rparr>"
  let ?named = "al_has ''maxConnections'' input \<or> (case existing of None \<Rightarrow> False | Some site \<Rightarrow> al_has ''maxConnections'' site)"
  let ?base = "merge [(''id'', JString i)] (server_to_json ?S)"
  have q: "q = al_put ''parentId'' (opt_json parent) (fold (\<lambda>k r. al_put k (or_null input k) r) [''name'', ''icon'', ''color'']
      (if ?named then ?base else al_del ''maxConnections'' ?base))"
    using assms(1,2) s lim by (auto simp: site_record_def Let_def)
  have "al_ok (server_to_json ?S)" by (simp add: server_to_json_def)
  then have base: "map_of ?base k = map_of (server_to_json ?S) k" if "k \<noteq> ''id''" for k
    using that by (simp add: map_of_merge split: option.split)
  have ok: "server_ok server" by (rule server_from_json_ok [OF s])
  have okS: "server_ok ?S"
  proof (cases "al_has ''maxConnections'' input \<or> existing = None")
    case True
    then show ?thesis using ok lim by (auto simp: server_ok_def split: if_splits)
  next
    case False
    then obtain site t where "existing = Some site" "server_or_unset site = Inr t" "limit = sv_max_connections t"
      using lim by (auto split: option.splits sum.splits if_splits)
    then show ?thesis using ok server_or_unset_reads [of site] by (auto simp: server_ok_def)
  qed
  have none: "limit = None" if unnamed: "\<not> ?named"
  proof (cases existing)
    case None
    then show ?thesis using unnamed lim by simp
  next
    case (Some site)
    then obtain t where t: "server_or_unset site = Inr t" "limit = sv_max_connections t"
      using unnamed lim by (auto split: sum.splits)
    let ?b = "drop_bad_number ''port'' (drop_bad_protocol site)"
    have "map_of ?b ''maxConnections'' = None"
      using unnamed Some by (simp add: drop_bad_number_frame drop_bad_protocol_frame al_has_def)
    then have "number ?b ''maxConnections'' = Inr None" by (simp add: number_def)
    then show ?thesis using t by (auto simp: server_or_unset_def server_from_json_def drop_bad_number_def Let_def split: sum.splits)
  qed
  have keys: "map_of q k = (if k = ''maxConnections'' \<and> \<not> ?named then None else map_of (server_to_json ?S) k)"
    if "k \<in> set (''maxConnections'' # server_keys)" for k
  proof -
    have "list_all (\<lambda>k. k \<notin> {''id'', ''parentId'', ''name'', ''icon'', ''color''}) (''maxConnections'' # server_keys)" by code_simp
    then have "k \<noteq> ''id''" "k \<noteq> ''parentId''" "k \<notin> set [''name'', ''icon'', ''color'']"
      using that unfolding list_all_iff by auto
    then show ?thesis using base unfolding q by (simp del: fold.simps list.set add: get_str_base)
  qed
  have "server_from_json new = server_from_json (server_to_json ?S)"
  proof (rule server_from_json_frame)
    show "\<forall>k \<in> set server_keys. map_of new k = map_of (server_to_json ?S) k"
      using assms(3) keys by (auto simp: server_keys_def)
    show "number new ''maxConnections'' = number (server_to_json ?S) ''maxConnections''"
    proof (cases ?named)
      case True
      then show ?thesis using assms(3) keys by (intro number_frame) simp
    next
      case False
      then have "map_of new ''maxConnections'' = None" using assms(3) keys by simp
      then have "number new ''maxConnections'' = Inr None" by (simp add: number_def)
      then show ?thesis using none [OF False] by (simp add: number_def server_to_json_fields json_number_of_def)
    qed
  qed
  then have "server_from_json new = Inr ?S" using server_roundtrip [OF okS] by simp
  then have "site_scope new = Inr (scope_of_server ?S)" by (simp add: site_scope_def server_or_unset_read)
  moreover have "site_scope input = Inr (scope_of_server server)" by (simp add: site_scope_def server_or_unset_read [OF s])
  ultimately show ?thesis by (simp add: scope_of_server_def)
qed

lemma saved_record_scope:
  assumes "saved_record env input confirmed i parent existing = Inr (r, lost)" and "entry_kind input \<noteq> Some ''local''"
  shows "site_scope r = site_scope input"
proof -
  obtain pw l1 where pw: "the_secret env input existing ''password'' ''removePassword'' ''enc'' ''plain'' = (pw, l1)" by fastforce
  obtain kp l2 where kp: "the_secret env input existing ''keyPassphrase'' ''removeKeyPassphrase'' ''keyEnc'' ''keyPlain'' = (kp, l2)" by fastforce
  obtain q where q: "site_record input i parent existing = Inr q"
    "r = copy_field input ''hasKeyPassphrase'' (copy_field input ''hasPassword'' (put_field kp (put_field pw q)))"
    using assms pw kp by (auto simp: saved_record_def Let_def split: sum.splits)
  show ?thesis
  proof (rule scope_of_record [OF q(1) assms(2)])
    have fields: "map_of (put_field f m) k = map_of m k" if "\<forall>a v. f = Some (a, v) \<longrightarrow> a \<noteq> k" for f m k
      using that by (auto simp: put_field_def split: option.splits)
    have copy: "map_of (copy_field input f m) k = map_of m k" if "f \<noteq> k" for f m k
      using that by (simp add: copy_field_def split: option.split)
    show "\<forall>k \<in> set (''maxConnections'' # server_keys). map_of r k = map_of q k"
    proof
      fix k assume k: "k \<in> set (''maxConnections'' # server_keys)"
      have "list_all (\<lambda>k. k \<notin> {''enc'', ''plain'', ''keyEnc'', ''keyPlain'', ''hasPassword'', ''hasKeyPassphrase''})
        (''maxConnections'' # server_keys)" by code_simp
      then have apart: "k \<notin> {''enc'', ''plain'', ''keyEnc'', ''keyPlain'', ''hasPassword'', ''hasKeyPassphrase''}"
        using k unfolding list_all_iff by blast
      have "map_of (put_field pw q) k = map_of q k"
        using the_secret_key [of env input existing "''password''" "''removePassword''" "''enc''" "''plain''"] pw apart
        by (intro fields) auto
      moreover have "map_of (put_field kp (put_field pw q)) k = map_of (put_field pw q) k"
        using the_secret_key [of env input existing "''keyPassphrase''" "''removeKeyPassphrase''" "''keyEnc''" "''keyPlain''"] kp apart
        by (intro fields) auto
      ultimately show "map_of r k = map_of q k" using apart unfolding q(2) by (metis copy insertCI)
    qed
  qed
qed

definition stored_entry :: "codec \<Rightarrow> store \<Rightarrow> string \<Rightarrow> json_map option" where
  "stored_entry c st i = Option.bind (saved_value c (st_folder st) sites_file)
     (\<lambda>v. find (\<lambda>e. entry_id e = Some i) (entries_of v))"

lemma find_put_entry: "entry_id r = Some i \<Longrightarrow> find (\<lambda>e. entry_id e = Some i) (put_entry i r es) = Some r"
  by (induction es) auto

lemma split_folder:
  assumes "files_ok (se_codec env) st" and "\<not> io_no_folder io" and "ensure_storage_split env io st = (r, st1)"
  shows "st_folder st1 = st_folder st"
proof -
  obtain es st2 where es: "read_entries env io (file_of False) st = (es, st2)" by fastforce
  have "\<forall>e \<in> set es. \<not> is_local_scope_entry e" using read_keeps(2) [OF assms(1,2) es] by (simp add: tidy_def)
  then have "st1 = st2" using assms(3) es by (auto simp: ensure_storage_split_def file_of_def split: if_splits)
  then show ?thesis using read_keeps(1) [OF assms(1,2) es] by simp
qed

lemma write_entries_refused_frame:
  assumes "write_entries env io (file_of local) new st = (Inl e, st')"
  shows "map_of (st_folder st') (file_of b) = map_of (st_folder st) (file_of b)"
proof -
  obtain x where w: "write_json (se_codec env) io is_entries (file_of local) (json_of_entries new) st = (Inl x, st')"
    using assms by (auto simp: write_entries_def split: prod.splits sum.splits)
  show ?thesis
  proof (cases "b = local")
    case True
    from w show ?thesis by (cases rule: write_json_steps) (simp_all add: True)
  next
    case False
    have v: "is_versioned_store (file_of b)" using bookmark_files_apart by (simp add: file_of_def)
    then have "no_copy (file_of local) (file_of b)" "file_of b \<noteq> last_good (file_of local)"
      using versioned_apart [OF v, of "file_of local"] by simp_all
    moreover have "file_of b \<noteq> file_of local"
      using False bookmark_files_apart(3) bookmark_files_apart(3) [symmetric] by (cases b; cases local) (simp_all add: file_of_def)
    ultimately show ?thesis using write_json_frame [OF w] by simp
  qed
qed

text \<open>A save that fails leaves both files as they were; one that goes through puts its record in the place of
  the entry of that id.\<close>

lemma site_not_saved:
  assumes "files_ok (se_codec env) st" and "\<not> io_no_folder io"
    and "save_site_with_protector env io fresh input confirmed st = (Inl e, st')"
  shows "map_of (st_folder st') (file_of b) = map_of (st_folder st) (file_of b)"
proof -
  let ?local = "entry_kind input = Some ''local''"
  obtain x st1 where split: "ensure_storage_split env io st = (x, st1)" by fastforce
  have ok1: "files_ok (se_codec env) st1" using split_keeps [OF assms(1,2) split] by simp
  have f1: "st_folder st1 = st_folder st" by (rule split_folder [OF assms(1,2) split])
  obtain es st2 where r: "read_entries env io (file_of ?local) st1 = (es, st2)" by fastforce
  have f2: "st_folder st2 = st_folder st" using read_keeps(1) [OF ok1 assms(2) r] f1 by simp
  have path: "(if ?local then local_paths_file else sites_file) = file_of ?local" by (simp add: file_of_def)
  show ?thesis using assms(3) split r f1 f2 unfolding save_site_with_protector_def path
    by (auto simp: Let_def dest!: write_entries_refused_frame [where b = b] split: sum.splits prod.splits if_splits)
qed

lemma site_saved:
  assumes "\<forall>v. cd_parse (se_codec env) (cd_render (se_codec env) v) = Some v" and "\<not> io_no_folder io"
    and "files_ok (se_codec env) st"
    and "save_site_with_protector env io fresh input confirmed st = (Inr out, st')" and "entry_kind input \<noteq> Some ''local''"
  obtains parent q lost where "so_id out = the_or fresh (given_id input)"
    and "saved_record env input confirmed (so_id out) parent (stored_entry (se_codec env) st (so_id out)) = Inr (q, lost)"
    and "stored_entry (se_codec env) st' (so_id out) = Some q"
proof -
  let ?c = "se_codec env" and ?i = "the_or fresh (given_id input)"
  obtain x st1 where split: "ensure_storage_split env io st = (x, st1)" by fastforce
  have ok1: "x = Inr ()" "files_ok ?c st1" using split_keeps [OF assms(3,2) split] by simp_all
  note folder1 = split_folder [OF assms(3,2) split]
  obtain es st2 where r: "read_entries env io sites_file st1 = (es, st2)" by fastforce
  have out: "so_id out = ?i" and steps: "\<exists>parent lost q. saved_record env input confirmed ?i parent (find (\<lambda>s. entry_id s = Some ?i) es) = Inr (q, lost)
      \<and> write_entries env io sites_file (put_entry ?i q es) st2 = (Inr (), st')"
    using assms(4,5) split ok1(1) r
    by (auto simp: save_site_with_protector_def Let_def split: sum.splits prod.splits if_splits)
  then obtain parent lost q where q: "saved_record env input confirmed ?i parent (find (\<lambda>s. entry_id s = Some ?i) es) = Inr (q, lost)"
    and w: "write_entries env io sites_file (put_entry ?i q es) st2 = (Inr (), st')" by blast
  obtain bs where h: "holds ?c sites_file bs st1" using ok1(2) by (auto simp: files_ok_def)
  have back_: "es = bs \<and> holds ?c sites_file bs st2" using h assms(2) r
  proof (cases rule: read_entries_cases)
    case failed
    then show ?thesis using write_entries_refused [OF failed(3)] w by simp
  qed (use h in \<open>simp add: holds_def\<close>)
  have found: "find (\<lambda>s. entry_id s = Some ?i) es = stored_entry ?c st ?i"
    using h back_ folder1 by (auto simp: stored_entry_def holds_def saved_value_def split: option.splits)
  have "holds ?c sites_file (put_entry ?i q es) st'"
    using write_entries_holds [OF assms(1) _ conjunct2 [OF back_] w] by simp
  moreover have "put_entry ?i q es \<noteq> []" by (cases es) auto
  ultimately have "saved_value ?c (st_folder st') sites_file = Some (json_of_entries (put_entry ?i q es))" by (simp add: holds_def)
  then have "stored_entry ?c st' ?i = Some q"
    using find_put_entry saved_record_shape(1) [OF q] by (simp add: stored_entry_def)
  then show thesis using that [OF out] q out found by simp
qed

lemma new_secret_reads:
  assumes "protector_ok pr" and "valid_utf8 pw" "pw \<noteq> []"
    and "encrypt_secret_with pr pw (Some old) ''enc'' ''plain'' = (f, False)"
    and "\<forall>v. map_of old ''enc'' = Some v \<longrightarrow> as_str v \<noteq> None" and "map_of m ''enc'' = map_of (put_field f q) ''enc''"
  shows "decrypt_secret pr m ''enc'' ''plain'' = pw"
proof -
  obtain v where v: "f = Some (''enc'', v)" and src: "protected_field pr ''enc'' pw = f
      \<or> map_of old ''enc'' = Some v \<and> decrypt_secret pr old ''enc'' ''plain'' = pw"
    using assms(3,4) by (auto simp: encrypt_secret_with_def protected_field_def Let_def split: if_splits option.splits)
  have enc: "get_str m ''enc'' = as_str v" using assms(6) v by (simp add: get_str_def put_field_def)
  from src show ?thesis
  proof
    assume "protected_field pr ''enc'' pw = f"
    then show ?thesis using protected_reads_back [OF assms(1,2) _ enc] v by blast
  next
    assume kept: "map_of old ''enc'' = Some v \<and> decrypt_secret pr old ''enc'' ''plain'' = pw"
    then have "as_str v \<noteq> None" "get_str old ''enc'' = as_str v" using assms(5) by (auto simp: get_str_def)
    then show ?thesis using kept enc by (auto simp: decrypt_secret_def)
  qed
qed

lemma saved_record_confirmed:
  assumes "saved_record env input confirmed i parent (Some old) = Inr (r, lost)" and "entry_kind input \<noteq> Some ''local''"
    and "protector_ok (se_protector env)" and "valid_utf8 (text_of input ''password'')"
    and "has_saved_password old" and "\<forall>v. map_of old ''enc'' = Some v \<longrightarrow> as_str v \<noteq> None"
  shows "flag_of input ''removePassword''
    \<or> text_of input ''password'' \<noteq> [] \<and> decrypt_secret (se_protector env) r ''enc'' ''plain'' = text_of input ''password''
    \<or> site_scope r = site_scope old
    \<or> (\<exists>tr. confirmed = Some tr \<and> site_scope old = Inr (tr_before tr) \<and> site_scope r = Inr (tr_after tr))"
proof -
  let ?pw = "text_of input ''password''" and ?rm = "flag_of input ''removePassword''"
  obtain f l1 where pw: "the_secret env input (Some old) ''password'' ''removePassword'' ''enc'' ''plain'' = (f, l1)" by fastforce
  obtain g l2 where kp: "the_secret env input (Some old) ''keyPassphrase'' ''removeKeyPassphrase'' ''keyEnc'' ''keyPlain'' = (g, l2)" by fastforce
  obtain q where q: "r = copy_field input ''hasKeyPassphrase'' (copy_field input ''hasPassword'' (put_field g (put_field f q)))"
    and move: "ensure_confirmed_move (Some old) input (?rm \<or> ?pw \<noteq> [] \<and> \<not> (?pw \<noteq> [] \<and> l1)) confirmed (?pw \<noteq> [] \<and> l1) = Inr ()"
    using assms(1,2) pw kp by (auto simp: saved_record_def Let_def split: sum.splits)
  have scope: "site_scope r = site_scope input" by (rule saved_record_scope [OF assms(1,2)])
  consider "?rm" | "\<not> ?rm" "?pw \<noteq> []" "\<not> l1" | "\<not> ?rm" "?pw = [] \<or> l1" by blast
  then show ?thesis
  proof cases
    case 2
    have "map_of r ''enc'' = map_of (put_field f q) ''enc''"
      using the_secret_key [of env input "Some old" "''keyPassphrase''" "''removeKeyPassphrase''" "''keyEnc''" "''keyPlain''"] kp
      by (auto simp: q copy_field_def put_field_def split: option.splits)
    then have "decrypt_secret (se_protector env) r ''enc'' ''plain'' = ?pw"
      using pw 2 by (intro new_secret_reads [OF assms(3,4) _ _ assms(6)]) (auto simp: the_secret_def)
    then show ?thesis using 2 by blast
  next
    case 3
    then have none: "(?rm \<or> ?pw \<noteq> [] \<and> \<not> (?pw \<noteq> [] \<and> l1)) = False" by auto
    obtain a b where ab: "site_scope old = Inr a" "site_scope input = Inr b"
      using move unfolding none
      by (auto simp: ensure_confirmed_move_def site_transfer_def get_str_def assms(2)[unfolded entry_kind_def get_str_def] split: sum.splits)
    then have "secret_move a b True False = confirmed" using move assms(2,5) unfolding none
      by (auto simp: ensure_confirmed_move_def site_transfer_def entry_kind_def split: if_splits)
    then show ?thesis using ab scope by (auto simp: secret_move_def split: if_splits)
  qed blast
qed

section \<open>Properties\<close>

text \<open>C18: The saved sites and local paths stay a forest one folder deep: through any sequence of saves, deletions
  and layouts, with any failures of the disk, each of the two files holds entries with identifiers of
  their own, every entry in a folder is in a folder of the same file, no folder is inside another, and
  local paths never mix with servers.\<close>

theorem bookmarks_stay_a_forest:
  assumes "\<forall>v. cd_parse (se_codec env) (cd_render (se_codec env) v) = Some v"
    and "\<forall>(io, ev) \<in> set evs. \<not> io_no_folder io" and "files_ok (se_codec env) st"
  shows "files_ok (se_codec env) (fold (site_step env) evs st)"
  using assms(2,3)
proof (induction evs arbitrary: st)
  case (Cons x evs)
  obtain io ev where x: "x = (io, ev)" by (cases x)
  then have io: "\<not> io_no_folder io" using Cons.prems(1) by simp
  have "files_ok (se_codec env) (site_step env x st)"
    using save_site_keeps [OF assms(1) io Cons.prems(2)] save_folder_keeps [OF assms(1) io Cons.prems(2)]
      deletes_keep_files [OF assms(1) io Cons.prems(2)] apply_layout_keeps [OF assms(1) io Cons.prems(2)]
      list_keeps_files [OF assms(1) io Cons.prems(2)]
    unfolding x by (cases ev) (simp_all add: prod_eq_iff)
  then show ?case using Cons by simp
qed simp


section \<open>Witnesses\<close>

definition toy_sites :: site_env where
  "toy_sites = \<lparr>se_codec = unary_codec, se_protector = toy_protector, se_for_label = (\<lambda>_. None), se_lowercase = ascii_lower\<rparr>"

definition kept_site :: json_map where
  "kept_site = [(''id'', JString ''1''), (''protocol'', JString ''sftp''), (''host'', JString ''a''), (''enc'', JString ''x'')]"

definition moving_input :: json_map where
  "moving_input = [(''id'', JString ''1''), (''name'', JString ''n''), (''protocol'', JString ''sftp''), (''host'', JString ''b'')]"

definition toy_move :: secret_transfer where
  "toy_move = (let b = \<lparr>cs_protocol = ''sftp'', cs_host = ''a'', cs_port = 0, cs_account = [], cs_url = [], cs_secure = False,
       cs_allow_invalid_cert = False, cs_allow_cleartext_auth = False, cs_ca_cert_path = []\<rparr>
     in \<lparr>tr_before = b, tr_after = b\<lparr>cs_host := ''b''\<rparr>, tr_from = ''sftp://a'', tr_to = ''sftp://b'', tr_less_secure = False\<rparr>)"

definition toy_bookmarks :: store where
  "toy_bookmarks = \<lparr>st_folder = [(sites_file, 0, cd_render unary_codec (encode_versioned_store sites_file (json_of_entries [kept_site])))],
     st_issues = []\<rparr>"

lemma sites_lossless: "\<forall>v. cd_parse (se_codec toy_sites) (cd_render (se_codec toy_sites) v) = Some v"
  by (simp add: toy_sites_def unary_codec_def)

lemma kept_holds: "saved_value unary_codec (st_folder toy_bookmarks) sites_file = Some (json_of_entries [kept_site])"
  by (simp add: toy_bookmarks_def saved_value_def decode_bytes_def decode_encode bookmark_files_apart unary_codec_def)

lemma toy_files_ok: "files_ok (se_codec toy_sites) toy_bookmarks"
proof -
  have "holds unary_codec sites_file [kept_site] toy_bookmarks" using kept_holds by (simp add: holds_def)
  moreover have "holds unary_codec local_paths_file [] toy_bookmarks"
    using bookmark_files_apart by (simp add: holds_def toy_bookmarks_def)
  moreover have "tidy False [kept_site]" "tidy True []"
    by (simp_all add: tidy_def forest_ok_def kept_site_def entry_id_def is_local_scope_entry_def entry_kind_def get_str_def)
  ultimately show ?thesis unfolding files_ok_def by (auto simp: toy_sites_def)
qed

theorem bookmarks_stay_a_forest_witness:
  "files_ok (se_codec toy_sites) (fold (site_step toy_sites)
     [(calm, SaveFolder ''2'' [(''name'', JString ''f'')]), (calm, SaveSite ''3'' moving_input (Some toy_move)),
      (calm, ApplyLayout [\<lparr>le_id = ''2'', le_parent = None\<rparr>, \<lparr>le_id = ''1'', le_parent = Some ''2''\<rparr>]), (calm, DeleteFolder ''2'')]
     toy_bookmarks)"
  by (rule bookmarks_stay_a_forest [OF sites_lossless _ toy_files_ok]) simp

lemma toy_servers:
  "server_from_json kept_site = Inr \<lparr>sv_protocol = Sftp, sv_host = ''a'', sv_port = None, sv_webdav_url = [], sv_user = [],
     sv_remote_path = ''/'', sv_allow_invalid_cert = False, sv_allow_cleartext_auth = False, sv_ca_cert_path = [],
     sv_use_key_auth = False, sv_key_path = [], sv_encoding = [], sv_max_connections = None\<rparr>"
  "server_from_json moving_input = Inr \<lparr>sv_protocol = Sftp, sv_host = ''b'', sv_port = None, sv_webdav_url = [], sv_user = [],
     sv_remote_path = ''/'', sv_allow_invalid_cert = False, sv_allow_cleartext_auth = False, sv_ca_cert_path = [],
     sv_use_key_auth = False, sv_key_path = [], sv_encoding = [], sv_max_connections = None\<rparr>"
  by (simp_all add: server_from_json_def number_def read_protocol_def kept_site_def moving_input_def get_str_def get_bool_def
      start_folder_def Let_def)

lemma toy_pieces:
  "ensure_confirmed_move (Some kept_site) moving_input False (Some toy_move) False = Inr ()"
  "is_Ok (site_record moving_input ''1'' None (Some kept_site))"
  "parse_parent_id (map_of moving_input ''parentId'') = Inr None" "given_id moving_input = Some ''1''"
  "entry_kind moving_input = None" "entry_id kept_site = Some ''1''" "\<not> is_folder kept_site" "\<not> is_local_scope_entry kept_site"
  "has_saved_password kept_site" "valid_utf8 (text_of moving_input ''password'')"
proof -
  have trims: "trim_str ''a'' = ''a''" "trim_str ''b'' = ''b''" "trim_str [] = []"
    "lower_char (CHR ''a'') = CHR ''a''" "lower_char (CHR ''b'') = CHR ''b''"
    by code_simp+
  have kind: "entry_kind moving_input = None" by (simp add: entry_kind_def moving_input_def get_str_def)
  show "has_saved_password kept_site"
    by (simp add: has_saved_password_def has_saved_secret_def kept_site_def get_str_def)
  then show "ensure_confirmed_move (Some kept_site) moving_input False (Some toy_move) False = Inr ()"
    using kind by (simp add: ensure_confirmed_move_def site_transfer_def site_scope_def server_or_unset_read [OF toy_servers(1)]
        server_or_unset_read [OF toy_servers(2)] scope_of_server_def trims secret_move_def scope_describe_def scope_encrypted_def
        toy_move_def entry_kind_def Let_def)
  show "is_Ok (site_record moving_input ''1'' None (Some kept_site))"
    using kind by (simp add: site_record_def toy_servers server_or_unset_read [OF toy_servers(1)] Let_def)
  show "entry_kind moving_input = None" by (fact kind)
qed code_simp+

lemma moving_valid: "validate_site_input (\<lambda>_. None) moving_input = Inr ()"
proof -
  have "trim_str ''n'' = ''n''" "trim_str ''b'' = ''b''" "char_count ''n'' = 1" "char_count [] = 0" by code_simp+
  moreover have "text_of moving_input ''name'' = ''n''" "text_of moving_input ''host'' = ''b''"
    "text_of moving_input ''protocol'' = ''sftp''" "entry_kind moving_input = None" "is_site_kind moving_input"
    "\<forall>k \<in> set (map fst secret_inputs @ [''maxConnections'', ''encoding'', ''port'']). map_of moving_input k = None"
    "\<forall>k \<in> set (map fst length_limits @ [''icon'', ''color'']). text_of moving_input k = []"
    by (simp_all add: moving_input_def text_of_def get_str_def entry_kind_def is_site_kind_def secret_inputs_def length_limits_def)
  ultimately show ?thesis
    by (simp add: validate_site_input_def site_problems_def server_problems_def validate_name_def problem_if_def
        input_type_problem_def secret_inputs_def length_limits_def address_problem_def protocol_named_def unset_or_def
        max_site_string_len_def max_host_len_def Let_def)
qed

lemma toy_record: "\<exists>r. saved_record toy_sites moving_input (Some toy_move) ''1'' None (Some kept_site) = Inr (r, False)"
proof -
  have pw: "the_secret toy_sites moving_input (Some kept_site) ''password'' ''removePassword'' ''enc'' ''plain'' = (Some (''enc'', JString ''x''), False)"
    "the_secret toy_sites moving_input (Some kept_site) ''keyPassphrase'' ''removeKeyPassphrase'' ''keyEnc'' ''keyPlain'' = (None, False)"
    by (simp_all add: the_secret_def encrypt_secret_with_def moving_input_def kept_site_def text_of_def get_str_def flag_of_def get_bool_def)
  have empty: "text_of moving_input ''password'' = []" "flag_of moving_input ''removePassword'' = False"
    by (simp_all add: moving_input_def text_of_def get_str_def flag_of_def get_bool_def)
  obtain r where "site_record moving_input ''1'' None (Some kept_site) = Inr r"
    using toy_pieces(2) by (cases "site_record moving_input ''1'' None (Some kept_site)") simp_all
  then show ?thesis using pw empty toy_pieces(1,5) by (simp add: saved_record_def)
qed

lemma calm_write:
  "ensure_writable c calm name st = (Inr (), st1) \<Longrightarrow> \<exists>st'. write_json c calm fits name data st = (Inr (), st')"
  by (simp add: write_json_def write_json_unnamed_def Let_def)

lemma kept_write: "\<exists>st'. write_entries toy_sites calm sites_file es toy_bookmarks = (Inr (), st')"
proof -
  have issues: "st_issues toy_bookmarks = []" by (simp add: toy_bookmarks_def)
  have "ensure_writable unary_codec calm sites_file toy_bookmarks = (Inr (), toy_bookmarks)"
    using kept_holds by (auto simp: ensure_writable_def read_file_def saved_value_def issues split: option.splits sum.splits)
  from calm_write [OF this, of is_entries "json_of_entries es"] show ?thesis
    by (auto simp: write_entries_def toy_sites_def)
qed

lemma kept_read: "read_entries toy_sites calm sites_file toy_bookmarks = ([kept_site], toy_bookmarks)"
  using saved_value_read [OF kept_holds, of is_entries calm] by (simp add: read_entries_def toy_sites_def)

lemma toy_label: "se_for_label toy_sites = (\<lambda>_. None)"
  by (simp add: toy_sites_def)

lemma toy_saved: "\<exists>st'. save_site_with_protector toy_sites calm ''9'' moving_input (Some toy_move) toy_bookmarks
    = (Inr \<lparr>so_id = ''1'', so_not_persisted = False\<rparr>, st')"
proof -
  have split: "ensure_storage_split toy_sites calm toy_bookmarks = (Inr (), toy_bookmarks)"
    by (simp add: ensure_storage_split_def kept_read toy_pieces)
  obtain r where "saved_record toy_sites moving_input (Some toy_move) ''1'' None (Some kept_site) = Inr (r, False)"
    using toy_record by blast
  moreover obtain st' where "write_entries toy_sites calm sites_file [r] toy_bookmarks = (Inr (), st')" using kept_write by blast
  ultimately show ?thesis
    using moving_valid by (simp add: save_site_with_protector_def toy_pieces split kept_read validate_parent_def toy_label Let_def)
qed


end
