(* ===== verification/SitesVault.thy ===== *)
theory SitesVault
  imports BookmarkFiles
begin

text \<open>
  Bookmarks whose secrets are in the vault, and the moves of secrets between the files and the vault (the rest of
  \<open>store/sites/queries.rs\<close>). Every operation here runs under the lock \<open>vault_updates\<close>, so it is one step for the
  others; what is not kept out by that lock, the vault locking itself, is the argument \<open>locks\<close>: the vault is
  locked after its update and before the file is written. \<open>io\<close> is what fails on disk, \<open>io'\<close> what fails from the
  point where an operation undoes or finishes what it began; the nonces are arguments.
\<close>

section \<open>Reading saved secrets\<close>

record site_credentials =
  sc_password :: string
  sc_key_passphrase :: string

definition vault_text :: "string \<Rightarrow> string \<Rightarrow> vault \<Rightarrow> site_error + string" where
  "vault_text i field v =
     (case get_secret i field v of
        Inl e \<Rightarrow> Inl (VaultFailed e)
      | Inr None \<Rightarrow> Inr []
      | Inr (Some secret) \<Rightarrow>
          if valid_utf8 secret then Inr secret else Inl (NotReadable ''vault secret is not UTF-8''))"

definition saved_server ::
  "site_env \<Rightarrow> io \<Rightarrow> string \<Rightarrow> store \<Rightarrow> vault \<Rightarrow> (site_error + server_settings \<times> site_credentials) \<times> store" where
  "saved_server env io i st v =
     (case migrate_plaintext_secrets env io st of
        (Inl e, st1) \<Rightarrow> (Inl e, st1)
      | (Inr _, st1) \<Rightarrow> (case read_entries env io sites_file st1 of
          (sites, st2) \<Rightarrow>
            (case find (\<lambda>site. \<not> is_folder site \<and> entry_id site = Some i) sites of
               None \<Rightarrow> (Inl (NotReadable ''saved site not found''), st2)
             | Some site \<Rightarrow> (case server_from_json site of
                 Inl e \<Rightarrow> (Inl (bad_input ''Invalid connection configuration''), st2)
               | Inr server \<Rightarrow>
                   (if \<not> is_configured v then
                      (let by_key = (sv_protocol server = Sftp \<and> sv_use_key_auth server)
                       in if secret_undecryptable (se_protector env) site (if by_key then ''keyEnc'' else ''enc'')
                          then Inl (SiteRefused SavedSecretUnreadable ''The saved password could not be read'')
                          else Inr (server, \<lparr>sc_password = decrypt_secret (se_protector env) site ''enc'' ''plain'',
                                 sc_key_passphrase = decrypt_secret (se_protector env) site ''keyEnc'' ''keyPlain''\<rparr>))
                    else (case vault_text i ''password'' v of
                            Inl e \<Rightarrow> Inl e
                          | Inr password \<Rightarrow> (case vault_text i ''keyPassphrase'' v of
                              Inl e \<Rightarrow> Inl e
                            | Inr passphrase \<Rightarrow> Inr (server, \<lparr>sc_password = password, sc_key_passphrase = passphrase\<rparr>))),
                    st2)))))"

definition reveal_dpapi_secret ::
  "site_env \<Rightarrow> io \<Rightarrow> string \<Rightarrow> string \<Rightarrow> store \<Rightarrow> (site_error + string option) \<times> store" where
  "reveal_dpapi_secret env io i field st =
     (let names = (if field = ''password'' then Some (''enc'', ''plain'')
                   else if field = ''keyPassphrase'' then Some (''keyEnc'', ''keyPlain'') else None)
      in case names of
           None \<Rightarrow> (Inl (NotReadable ''unsupported secret field''), st)
         | Some (enc, plain) \<Rightarrow> (case migrate_plaintext_secrets env io st of
             (Inl e, st1) \<Rightarrow> (Inl e, st1)
           | (Inr _, st1) \<Rightarrow> (case read_entries env io sites_file st1 of
               (sites, st2) \<Rightarrow>
                 (case find (\<lambda>site. entry_id site = Some i) sites of
                    None \<Rightarrow> (Inl (NotReadable ''saved site not found''), st2)
                  | Some site \<Rightarrow>
                      (if \<not> has_saved_secret site enc plain then Inr None
                       else (let secret = decrypt_secret (se_protector env) site enc plain
                             in if secret = [] then Inl (NotReadable ''saved secret could not be decrypted'') else Inr (Some secret)),
                       st2)))))"

section \<open>Saving and deleting under the vault\<close>

definition restore_secrets ::
  "vault_env \<Rightarrow> string \<Rightarrow> string \<Rightarrow> string option \<Rightarrow> string option \<Rightarrow> vault \<Rightarrow> (vault_error + unit) \<times> vault" where
  "restore_secrets env nonce i password key v =
     apply_secret_updates env nonce
       (map (\<lambda>(field, val). case val of Some s \<Rightarrow> SetSecret i field s | None \<Rightarrow> DeleteSecret i field)
          [(''password'', password), (''keyPassphrase'', key)]) v"

text \<open>What a save asks of the vault for one secret, and whether the bookmark has that secret afterwards.\<close>

definition secret_change :: "json_map \<Rightarrow> string \<Rightarrow> string \<Rightarrow> string \<Rightarrow> bool \<Rightarrow> secret_update list \<times> bool" where
  "secret_change input i field remove_field had =
     (let secret = text_of input field
      in if flag_of input remove_field then ([DeleteSecret i field], False)
         else if secret \<noteq> [] then ([SetSecret i field secret], True) else ([], had))"

definition stripped_input :: "json_map \<Rightarrow> bool \<Rightarrow> bool \<Rightarrow> json_map" where
  "stripped_input input has_password has_key =
     al_put ''hasKeyPassphrase'' (JBool has_key) (al_put ''hasPassword'' (JBool has_password)
       (al_put ''removeKeyPassphrase'' (JBool True) (al_put ''removePassword'' (JBool True)
         (al_put ''keyPassphrase'' (JString []) (al_put ''password'' (JString []) input)))))"

definition maybe_locked :: "bool \<Rightarrow> vault \<Rightarrow> vault" where "maybe_locked locks v = (if locks then lock_vault v else v)"

text \<open>The vault first, then the file, and the vault put back when the file cannot be changed; \<open>change\<close> is the
  change of the file.\<close>

definition vault_then_file ::
  "vault_env \<Rightarrow> string \<Rightarrow> string \<Rightarrow> bool \<Rightarrow> string \<Rightarrow> secret_update list \<Rightarrow> (store \<Rightarrow> (site_error + 'a) \<times> store) \<Rightarrow> store \<Rightarrow> vault
    \<Rightarrow> (site_error + 'a) \<times> store \<times> vault" where
  "vault_then_file venv n1 n2 locks i updates change st v =
     (case get_secret i ''password'' v of
        Inl e \<Rightarrow> (Inl (VaultFailed e), st, v)
      | Inr old_password \<Rightarrow> (case get_secret i ''keyPassphrase'' v of
          Inl e \<Rightarrow> (Inl (VaultFailed e), st, v)
        | Inr old_key \<Rightarrow> (case apply_secret_updates venv n1 updates v of
            (Inl e, v1) \<Rightarrow> (Inl (VaultFailed e), st, v1)
          | (Inr _, v1) \<Rightarrow> (case change st of
              (Inr a, st1) \<Rightarrow> (Inr a, st1, maybe_locked locks v1)
            | (Inl e, st1) \<Rightarrow> (case restore_secrets venv n2 i old_password old_key (maybe_locked locks v1) of
                (Inl x, v2) \<Rightarrow> (Inl (RollbackFailed x e), st1, v2)
              | (Inr _, v2) \<Rightarrow> (Inl e, st1, v2))))))"

definition save_site_with_vault_inner ::
  "site_env \<Rightarrow> io \<Rightarrow> io \<Rightarrow> vault_env \<Rightarrow> string \<Rightarrow> string \<Rightarrow> bool \<Rightarrow> string \<Rightarrow> json_map \<Rightarrow> secret_transfer option
    \<Rightarrow> store \<Rightarrow> vault \<Rightarrow> (site_error + save_outcome) \<times> store \<times> vault" where
  "save_site_with_vault_inner env io io' venv n1 n2 locks fresh input0 confirmed st v =
     (let vault_untouched = (given_id input0 = None \<and> text_of input0 ''password'' = [] \<and> text_of input0 ''keyPassphrase'' = [])
      in if \<not> vault_untouched \<and> \<not> is_unlocked v then (Inl (VaultFailed Locked), st, v)
         else (let i = the_or fresh (given_id input0); input = al_put ''id'' (JString i) input0
           in case validate_site_input (se_for_label env) input of
             Inl e \<Rightarrow> (Inl e, st, v)
           | Inr _ \<Rightarrow> (case snapshot_sites env io st of
               (Inl e, st1) \<Rightarrow> (Inl e, st1, v)
             | (Inr _, st1) \<Rightarrow> (case read_entries env io sites_file st1 of
                 (sites, st2) \<Rightarrow>
                   (let existing = find (\<lambda>site. entry_id site = Some i) sites
                    in case ensure_confirmed_move existing input (replaces_site_password input) confirmed False of
                         Inl e \<Rightarrow> (Inl e, st2, v)
                       | Inr _ \<Rightarrow>
                           (let had = (\<lambda>p. case existing of None \<Rightarrow> False | Some site \<Rightarrow> p site);
                                (pw_updates, has_password) = secret_change input i ''password'' ''removePassword'' (had has_saved_password);
                                (kp_updates, has_key) = secret_change input i ''keyPassphrase'' ''removeKeyPassphrase'' (had has_saved_key_passphrase);
                                save = save_site env io' fresh (stripped_input input has_password has_key)
                            in if vault_untouched
                               then (case save st2 of (r, st3) \<Rightarrow> (r, st3, v))
                               else vault_then_file venv n1 n2 locks i (pw_updates @ kp_updates) save st2 v))))))"

definition save_site_with_vault ::
  "site_env \<Rightarrow> io \<Rightarrow> io \<Rightarrow> vault_env \<Rightarrow> string \<Rightarrow> string \<Rightarrow> bool \<Rightarrow> string \<Rightarrow> json_map \<Rightarrow> secret_transfer option
    \<Rightarrow> store \<Rightarrow> vault \<Rightarrow> (site_error + save_outcome) \<times> store \<times> vault" where
  "save_site_with_vault env io io' venv n1 n2 locks fresh input confirmed st v =
     (if \<not> is_configured v
      then (case save_site_with_protector env io fresh input confirmed st of (r, st') \<Rightarrow> (r, st', v))
      else save_site_with_vault_inner env io io' venv n1 n2 locks fresh input confirmed st v)"

definition delete_site_with_vault ::
  "site_env \<Rightarrow> io \<Rightarrow> io \<Rightarrow> vault_env \<Rightarrow> string \<Rightarrow> string \<Rightarrow> bool \<Rightarrow> string \<Rightarrow> store \<Rightarrow> vault
    \<Rightarrow> (site_error + unit) \<times> store \<times> vault" where
  "delete_site_with_vault env io io' venv n1 n2 locks i st v =
     (if \<not> is_configured v then (case delete_site env io i st of (r, st') \<Rightarrow> (r, st', v))
      else (case snapshot_sites env io st of
        (Inl e, st1) \<Rightarrow> (Inl e, st1, v)
      | (Inr _, st1) \<Rightarrow>
          vault_then_file venv n1 n2 locks i [DeleteSecret i ''password'', DeleteSecret i ''keyPassphrase''] (delete_site env io' i) st1 v))"

section \<open>Moving the secrets into the vault\<close>

definition pre_vault_backup :: string where "pre_vault_backup = ''sites.pre-stronghold.bak''"

definition has_legacy_secret :: "json_map \<Rightarrow> bool" where
  "has_legacy_secret site \<longleftrightarrow> has_saved_secret site ''enc'' ''plain'' \<or> has_saved_secret site ''keyEnc'' ''keyPlain''"

definition in_vault_now :: "string \<Rightarrow> string \<Rightarrow> string \<Rightarrow> bool \<Rightarrow> json_map \<Rightarrow> json_map" where
  "in_vault_now enc plain flag moved site =
     (if moved then al_del plain (al_del enc (al_put flag (JBool True) site)) else site)"

definition site_to_vault ::
  "protector \<Rightarrow> vault_env \<Rightarrow> string \<Rightarrow> json_map \<Rightarrow> vault \<Rightarrow> (vault_error + bool \<times> json_map) \<times> vault" where
  "site_to_vault pr venv nonce site v =
     (case entry_id site of
        None \<Rightarrow> (Inr (False, site), v)
      | Some i \<Rightarrow>
          if is_folder site then (Inr (False, site), v)
          else (let password = decrypt_secret pr site ''enc'' ''plain'';
                    passphrase = decrypt_secret pr site ''keyEnc'' ''keyPlain'';
                    updates = (if password = [] then [] else [SetSecret i ''password'' password])
                      @ (if passphrase = [] then [] else [SetSecret i ''keyPassphrase'' passphrase])
                in if updates = [] then (Inr (False, site), v)
                   else (case apply_secret_updates venv nonce updates v of
                     (Inl e, v1) \<Rightarrow> (Inl e, v1)
                   | (Inr _, v1) \<Rightarrow>
                       (Inr (True, in_vault_now ''keyEnc'' ''keyPlain'' ''hasKeyPassphrase'' (passphrase \<noteq> [])
                          (in_vault_now ''enc'' ''plain'' ''hasPassword'' (password \<noteq> []) site)), v1))))"

fun sites_to_vault ::
  "protector \<Rightarrow> vault_env \<Rightarrow> (nat \<Rightarrow> string) \<Rightarrow> json_map list \<Rightarrow> vault \<Rightarrow> (vault_error + nat \<times> json_map list) \<times> vault" where
  "sites_to_vault pr venv nonce [] v = (Inr (0, []), v)"
| "sites_to_vault pr venv nonce (site # sites) v =
     (case site_to_vault pr venv (nonce 0) site v of
        (Inl e, v1) \<Rightarrow> (Inl e, v1)
      | (Inr (moved, site'), v1) \<Rightarrow> (case sites_to_vault pr venv (\<lambda>k. nonce (Suc k)) sites v1 of
          (Inl e, v2) \<Rightarrow> (Inl e, v2)
        | (Inr (n, sites'), v2) \<Rightarrow> (Inr ((if moved then Suc n else n), site' # sites'), v2)))"

definition read_marker :: "site_env \<Rightarrow> io \<Rightarrow> store \<Rightarrow> json_map \<times> store" where
  "read_marker env io st =
     (case read_json (se_codec env) io is_map vault_migration_file (JObject []) st of (m, st') \<Rightarrow> (the_or [] (as_object m), st'))"

definition write_marker :: "site_env \<Rightarrow> io \<Rightarrow> string \<Rightarrow> store \<Rightarrow> (site_error + unit) \<times> store" where
  "write_marker env io status st =
     (case write_json (se_codec env) io is_map vault_migration_file
        (JObject [(''version'', JNumber (NonNegative 1)), (''status'', JString status)]) st of
        (Inl e, st') \<Rightarrow> (Inl (NotWritten e), st') | (Inr _, st') \<Rightarrow> (Inr (), st'))"

text \<open>The copy of \<open>sites.json\<close> made before its secrets leave it, unless there is one already.\<close>

definition keep_pre_vault_copy :: "io \<Rightarrow> bool \<Rightarrow> store \<Rightarrow> (site_error + unit) \<times> store" where
  "keep_pre_vault_copy io has_legacy st =
     (if has_legacy \<and> \<not> al_has pre_vault_backup (st_folder st) \<and> al_has sites_file (st_folder st)
      then (case read_file io (st_folder st) sites_file of
              Contents raw \<Rightarrow> (case publish io pre_vault_backup raw (st_folder st) of
                (Inl e, d) \<Rightarrow> (Inl (NotWritten e), st\<lparr>st_folder := d\<rparr>) | (Inr _, d) \<Rightarrow> (Inr (), st\<lparr>st_folder := d\<rparr>))
            | _ \<Rightarrow> (Inl (NotReadable ''backing up sites before vault migration''), st))
      else (Inr (), st))"

definition put_back_copy :: "site_env \<Rightarrow> io \<Rightarrow> store \<Rightarrow> store" where
  "put_back_copy env io st =
     (if al_has pre_vault_backup (st_folder st)
      then (case read_entries env io pre_vault_backup st of (original, st1) \<Rightarrow> snd (write_entries env io sites_file original st1))
      else st)"

text \<open>The part after the checks: the vault takes the secrets, then the file lets them go. \<open>io'\<close> is what fails
  when the file could not be written.\<close>

definition move_to_vault ::
  "site_env \<Rightarrow> io \<Rightarrow> io \<Rightarrow> vault_env \<Rightarrow> (nat \<Rightarrow> string) \<Rightarrow> nat \<Rightarrow> store \<Rightarrow> vault \<Rightarrow> (site_error + nat) \<times> store \<times> vault" where
  "move_to_vault env io io' venv nonce pid st v =
     (case read_entries env io sites_file st of
        (sites, st1) \<Rightarrow>
          (let has_legacy = (\<exists>site \<in> set sites. has_legacy_secret site)
           in case keep_pre_vault_copy io has_legacy st1 of
                (Inl e, st2) \<Rightarrow> (Inl e, st2, v)
              | (Inr _, st2) \<Rightarrow> (case (if has_legacy then write_marker env io ''inProgress'' st2 else (Inr (), st2)) of
                  (Inl e, st3) \<Rightarrow> (Inl e, st3, v)
                | (Inr _, st3) \<Rightarrow> (case sites_to_vault (se_protector env) venv nonce sites v of
                    (Inl e, v1) \<Rightarrow> (Inl (VaultFailed e), st3, v1)
                  | (Inr (migrated, sites'), v1) \<Rightarrow>
                      (case (if 0 < migrated then write_entries env io sites_file sites' st3 else (Inr (), st3)) of
                         (Inl e, st4) \<Rightarrow> (Inl e, put_back_copy env io' st4, v1)
                       | (Inr _, st4) \<Rightarrow> (case (if has_legacy then write_marker env io ''complete'' st4 else (Inr (), st4)) of
                           (Inl e, st5) \<Rightarrow> (Inl e, st5, v1)
                         | (Inr _, st5) \<Rightarrow>
                             (Inr migrated, st5\<lparr>st_folder := scrub_secret_backups (se_codec env) io pid (st_folder st5)\<rparr>, v1)))))))"

definition migrate_secrets_to_vault ::
  "site_env \<Rightarrow> io \<Rightarrow> io \<Rightarrow> vault_env \<Rightarrow> string \<Rightarrow> string \<Rightarrow> (nat \<Rightarrow> string) \<Rightarrow> nat \<Rightarrow> store \<Rightarrow> vault
    \<Rightarrow> (site_error + nat) \<times> store \<times> vault" where
  "migrate_secrets_to_vault env io io' venv n1 n2 nonce pid st v =
     (if \<not> is_configured v \<or> \<not> is_unlocked v then (Inl (VaultFailed Locked), st, v)
      else (case migrate_proxy_password_to_vault (se_codec env) io (se_protector env) venv n1 n2 st v of
        (Inl e, st1, v1) \<Rightarrow> (Inl (SettingsFailed e), st1, v1)
      | (Inr _, st1, v1) \<Rightarrow> (case read_marker env io st1 of
          (marker, st2) \<Rightarrow>
            if get_str marker ''status'' = Some ''complete'' then (Inr 0, st2, v1)
            else (case migrate_plaintext_secrets env io st2 of
              (Inl e, st3) \<Rightarrow> (Inl e, st3, v1)
            | (Inr _, st3) \<Rightarrow>
                if sites_have_plaintext_secret env io st3
                then (Inl (NotReadable ''plaintext secrets could not be protected before vault migration''), st3, v1)
                else move_to_vault env io io' venv nonce pid st3 v1))))"

section \<open>Moving the secrets out of the vault\<close>

definition vault_fields :: "(string \<times> string \<times> string) list" where
  "vault_fields = [(''password'', ''enc'', ''hasPassword''), (''keyPassphrase'', ''keyEnc'', ''hasKeyPassphrase'')]"

fun fields_from_vault ::
  "protector \<Rightarrow> vault \<Rightarrow> string \<Rightarrow> (string \<times> string \<times> string) list \<Rightarrow> json_map \<Rightarrow> site_error + bool \<times> json_map" where
  "fields_from_vault pr v i [] site = Inr (False, site)"
| "fields_from_vault pr v i ((vault_field, disk_field, flag) # rest) site =
     (case get_secret i vault_field v of
        Inl e \<Rightarrow> Inl (VaultFailed e)
      | Inr None \<Rightarrow> fields_from_vault pr v i rest (al_del flag site)
      | Inr (Some secret) \<Rightarrow> (case pr_protect pr secret of
          None \<Rightarrow> Inl NotProtected
        | Some protected \<Rightarrow>
            (case fields_from_vault pr v i rest (al_del flag (al_put disk_field (JString (pr_b64 pr protected)) site)) of
               Inl e \<Rightarrow> Inl e | Inr (_, site') \<Rightarrow> Inr (True, site'))))"

fun sites_from_vault :: "protector \<Rightarrow> vault \<Rightarrow> json_map list \<Rightarrow> site_error + nat \<times> json_map list" where
  "sites_from_vault pr v [] = Inr (0, [])"
| "sites_from_vault pr v (site # sites) =
     (case (case entry_id site of
              None \<Rightarrow> Inr (False, site)
            | Some i \<Rightarrow> if is_folder site then Inr (False, site) else fields_from_vault pr v i vault_fields site) of
        Inl e \<Rightarrow> Inl e
      | Inr (changed, site') \<Rightarrow> (case sites_from_vault pr v sites of
          Inl e \<Rightarrow> Inl e
        | Inr (n, sites') \<Rightarrow> Inr ((if changed then Suc n else n), site' # sites')))"

definition migrate_secrets_from_vault ::
  "site_env \<Rightarrow> io \<Rightarrow> store \<Rightarrow> vault \<Rightarrow> (site_error + nat) \<times> store" where
  "migrate_secrets_from_vault env io st v =
     (if \<not> is_configured v \<or> \<not> is_unlocked v then (Inl (VaultFailed Locked), st)
      else (case migrate_proxy_password_from_vault (se_codec env) io (se_protector env) st v of
        (Inl e, st1) \<Rightarrow> (Inl (SettingsFailed e), st1)
      | (Inr _, st1) \<Rightarrow> (case read_entries env io sites_file st1 of
          (sites, st2) \<Rightarrow> (case sites_from_vault (se_protector env) v sites of
            Inl e \<Rightarrow> (Inl e, st2)
          | Inr (migrated, sites') \<Rightarrow> (case write_entries env io sites_file sites' st2 of
              (Inl e, st3) \<Rightarrow> (Inl e, st3) | (Inr _, st3) \<Rightarrow> (Inr migrated, st3))))))"

fun remove_marker_files :: "io \<Rightarrow> string list \<Rightarrow> store \<Rightarrow> (site_error + unit) \<times> store" where
  "remove_marker_files io [] st = (Inr (), st)"
| "remove_marker_files io (name # names) st =
     (if \<not> al_has name (st_folder st) then remove_marker_files io names st
      else (case io_remove io name of
        Some e \<Rightarrow> if e = NotFound then remove_marker_files io names st else (Inl (NotWritten e), st)
      | None \<Rightarrow> remove_marker_files io names (st\<lparr>st_folder := al_del name (st_folder st)\<rparr>)))"

definition unflagged :: "json_map \<Rightarrow> json_map" where
  "unflagged site = al_del ''hasKeyPassphrase'' (al_del ''hasPassword'' site)"

definition clear_vault_secret_flags :: "site_env \<Rightarrow> io \<Rightarrow> store \<Rightarrow> (site_error + unit) \<times> store" where
  "clear_vault_secret_flags env io st =
     (case clear_proxy_password_flag (se_codec env) io st of
        (Inl e, st1) \<Rightarrow> (Inl (NotWritten e), st1)
      | (Inr _, st1) \<Rightarrow> (case read_entries env io sites_file st1 of
          (sites, st2) \<Rightarrow> (case write_entries env io sites_file (map unflagged sites) st2 of
            (Inl e, st3) \<Rightarrow> (Inl e, st3)
          | (Inr _, st3) \<Rightarrow> remove_marker_files io [last_good vault_migration_file, vault_migration_file] st3)))"

text \<open>Putting the settings and the bookmarks back; both are tried.\<close>

definition restore_files :: "site_env \<Rightarrow> io \<Rightarrow> json_map \<Rightarrow> json_map list \<Rightarrow> store \<Rightarrow> (site_error + unit) \<times> store" where
  "restore_files env io settings sites st =
     (case replace_settings_for_import (se_codec env) io settings st of
        (r1, st1) \<Rightarrow> (case replace_sites_for_import env io sites st1 of
          (r2, st2) \<Rightarrow> ((case r1 of Inl e \<Rightarrow> Inl (NotWritten e) | Inr _ \<Rightarrow> r2), st2)))"

definition downgrade_to_system_protection ::
  "site_env \<Rightarrow> io \<Rightarrow> io \<Rightarrow> vault_env \<Rightarrow> vault_env \<Rightarrow> nat \<Rightarrow> store \<Rightarrow> vault \<Rightarrow> (site_error + unit) \<times> store \<times> vault" where
  "downgrade_to_system_protection env io io' venv venv' pid st v =
     (if \<not> is_configured v \<or> \<not> is_unlocked v then (Inl (VaultFailed Locked), st, v)
      else (case get_settings (se_codec env) io st of
        (settings, st1) \<Rightarrow> (case snapshot_sites env io st1 of
          (Inl e, st2) \<Rightarrow> (Inl e, st2, v)
        | (Inr sites, st2) \<Rightarrow>
            (case (case migrate_secrets_from_vault env io st2 v of
                     (Inl e, st3) \<Rightarrow> (Inl e, st3, v)
                   | (Inr _, st3) \<Rightarrow> (case remove_unlocked venv v of
                       (Inl e, v1) \<Rightarrow> (Inl (VaultFailed e), st3, v1) | (Inr _, v1) \<Rightarrow> (Inr (), st3, v1))) of
               (Inr _, st3, v1) \<Rightarrow> (case clear_vault_secret_flags env io' st3 of
                 (Inl e, st4) \<Rightarrow> (Inl e, st4, v1)
               | (Inr _, st4) \<Rightarrow>
                   (Inr (), st4\<lparr>st_folder := scrub_secret_backups (se_codec env) io' pid (st_folder st4)\<rparr>, v1))
             | (Inl e, st3, v1) \<Rightarrow>
                 if \<not> is_configured v1
                 then (case reset_vault venv' v1 of
                   (Inl x, v2) \<Rightarrow> (Inl (VaultFailed x), st3, v2)
                 | (Inr _, v2) \<Rightarrow> (case clear_vault_secret_flags env io' st3 of (r, st4) \<Rightarrow> (r, st4, v2)))
                 else (case restore_files env io' settings sites st3 of
                   (Inr _, st4) \<Rightarrow> (Inl e, st4, v1)
                 | (Inl x, st4) \<Rightarrow> (Inl (NotRestored e x), st4, v1))))))"

end
