(* ===== verification/SecretMoves.thy ===== *)
theory SecretMoves
  imports SitesVault
begin

text \<open>
  What the operations of \<open>SitesVault\<close> promise: the bookmark file and the vault change together or not at all, and
  no secret is lost on its way from one to the other.
\<close>

section \<open>Secrets in the vault\<close>

definition site_keys :: "string \<Rightarrow> string set" where
  "site_keys i = {secret_key i ''password'', secret_key i ''keyPassphrase''}"

lemma secret_key_eq [simp]: "secret_key i f = secret_key j f \<longleftrightarrow> i = j"
  by (simp add: secret_key_def)

lemma secret_keys_apart:
  "secret_key i ''password'' \<noteq> secret_key j ''keyPassphrase''" "secret_key i ''keyPassphrase'' \<noteq> secret_key j ''password''"
proof -
  have apart: "secret_key i ''password'' \<noteq> secret_key j ''keyPassphrase''" for i j
    by (auto simp: secret_key_def dest: arg_cong [where f = last])
  show "secret_key i ''password'' \<noteq> secret_key j ''keyPassphrase''" by (rule apart)
  show "secret_key i ''keyPassphrase'' \<noteq> secret_key j ''password''" using apart [of j i] by metis
qed

lemma apply_update_other: "update_key u \<noteq> k \<Longrightarrow> map_of (apply_update u ss) k = map_of ss k"
  by (cases u) auto

lemma fold_updates_other: "\<forall>u \<in> set us. update_key u \<noteq> k \<Longrightarrow> map_of (fold apply_update us ss) k = map_of ss k"
  by (induction us arbitrary: ss) (simp_all add: apply_update_other)

lemma updates_refused: "apply_secret_updates env n us v = (Inl e, v') \<Longrightarrow> get_key k v' = get_key k v"
  by (auto simp: apply_secret_updates_def get_key_def Let_def split: option.splits sum.splits prod.splits)

lemma updates_done:
  assumes "apply_secret_updates env n us v = (Inr (), v')"
  obtains u where "va_state v = Some u" and "va_state v' = Some (u\<lparr>un_secrets := fold apply_update us (un_secrets u)\<rparr>)"
  using assms by (auto simp: apply_secret_updates_def Let_def split: option.splits sum.splits prod.splits)

lemma get_secret_updates:
  assumes "apply_secret_updates env n us v = (Inr (), v')" and "get_secret i f v = Inr old"
    and "\<And>ss. map_of ss (secret_key i f) = old \<Longrightarrow> map_of (fold apply_update us ss) (secret_key i f) = new"
  shows "get_secret i f v' = Inr new"
proof -
  obtain u where u: "va_state v = Some u" "va_state v' = Some (u\<lparr>un_secrets := fold apply_update us (un_secrets u)\<rparr>)"
    by (rule updates_done [OF assms(1)])
  have "map_of (un_secrets u) (secret_key i f) = old" using assms(2) u(1) by (simp add: get_secret_def get_key_def)
  then show ?thesis using assms(3) u(2) by (simp add: get_secret_def get_key_def)
qed

lemma restored_secrets:
  assumes "restore_secrets env n i password key v = (Inr (), v')"
  shows "\<exists>u. va_state v = Some u \<and> (\<forall>k. get_key k v' = Inr (if k = secret_key i ''password'' then password
    else if k = secret_key i ''keyPassphrase'' then key else map_of (un_secrets u) k))"
proof -
  obtain u where u: "va_state v = Some u" "va_state v' = Some (u\<lparr>un_secrets := fold apply_update
      (map (\<lambda>(field, val). case val of Some s \<Rightarrow> SetSecret i field s | None \<Rightarrow> DeleteSecret i field)
        [(''password'', password), (''keyPassphrase'', key)]) (un_secrets u)\<rparr>)"
    using assms by (auto simp: restore_secrets_def elim!: updates_done)
  have "get_key k v' = Inr (if k = secret_key i ''password'' then password
    else if k = secret_key i ''keyPassphrase'' then key else map_of (un_secrets u) k)" for k
    using u(2) secret_keys_apart by (auto simp: get_key_def split: option.splits)
  then show ?thesis using u(1) by blast
qed

text \<open>The vault first, then the file: both or neither, unless the vault could not be put back.\<close>

lemma vault_then_file_failed:
  assumes "vault_then_file venv n1 n2 locks i updates change st v = (Inl e, st', v')"
    and "\<forall>u \<in> set updates. update_key u \<in> site_keys i" and "\<forall>x e'. e \<noteq> RollbackFailed x e'"
  shows "get_key k v' = get_key k v \<and> (st' = st \<or> change st = (Inl e, st'))"
proof -
  obtain old_password where p: "get_secret i ''password'' v = Inr old_password \<or> st' = st \<and> v' = v"
    using assms(1) that by (cases "get_secret i ''password'' v") (auto simp: vault_then_file_def)
  show ?thesis
  proof (cases "st' = st \<and> v' = v")
    case False
    then have p: "get_secret i ''password'' v = Inr old_password" using p by blast
    obtain old_key where q: "get_secret i ''keyPassphrase'' v = Inr old_key"
      using assms(1) False p by (cases "get_secret i ''keyPassphrase'' v") (auto simp: vault_then_file_def)
    obtain r1 v1 where up: "apply_secret_updates venv n1 updates v = (r1, v1)" by fastforce
    show ?thesis
    proof (cases r1)
      case (Inl x)
      then show ?thesis using assms(1) p q up updates_refused [of venv n1 updates v x v1] by (auto simp: vault_then_file_def)
    next
      case (Inr x)
      obtain u where u: "va_state v = Some u" "va_state v1 = Some (u\<lparr>un_secrets := fold apply_update updates (un_secrets u)\<rparr>)"
        using up Inr by (auto elim: updates_done)
      obtain st1 where c: "change st = (Inl e, st1)" "st' = st1"
        and back_: "restore_secrets venv n2 i old_password old_key (maybe_locked locks v1) = (Inr (), v')"
        using assms(1,3) p q up Inr by (auto simp: vault_then_file_def split: sum.splits prod.splits)
      obtain w where w: "va_state (maybe_locked locks v1) = Some w"
        and keys: "\<forall>k. get_key k v' = Inr (if k = secret_key i ''password'' then old_password
          else if k = secret_key i ''keyPassphrase'' then old_key else map_of (un_secrets w) k)"
        using restored_secrets [OF back_] by blast
      have "w = u\<lparr>un_secrets := fold apply_update updates (un_secrets u)\<rparr>"
        using w u(2) by (auto simp: maybe_locked_def lock_vault_def split: if_splits)
      moreover have "map_of (fold apply_update updates (un_secrets u)) k = map_of (un_secrets u) k" if "k \<notin> site_keys i" for k
        using assms(2) that by (intro fold_updates_other) auto
      ultimately have "get_key k v' = get_key k v"
        using keys u(1) p q by (auto simp: get_key_def get_secret_def site_keys_def)
      then show ?thesis using c by simp
    qed
  qed simp
qed

lemma vault_then_file_done:
  assumes "vault_then_file venv n1 n2 locks i updates change st v = (Inr a, st', v')"
  obtains v1 where "change st = (Inr a, st')" and "apply_secret_updates venv n1 updates v = (Inr (), v1)" and "v' = maybe_locked locks v1"
  using assms by (auto simp: vault_then_file_def split: sum.splits prod.splits)

section \<open>Saving under the vault\<close>

lemma ensure_writable_holds:
  assumes "holds c name es st" and "ensure_writable c io name st = (r, st1)"
  shows "st1 = st"
  using assms by (auto simp: ensure_writable_def holds_def saved_value_def read_file_def
      split: option.splits if_splits sum.splits prod.splits read_result.splits)

lemma snapshot_frame:
  assumes "files_ok (se_codec env) st" and "\<not> io_no_folder io" and "snapshot_sites env io st = (r, st1)"
  shows "st_folder st1 = st_folder st" and "is_Ok r \<Longrightarrow> \<not> io_unreadable io sites_file"
proof -
  let ?c = "se_codec env"
  obtain x s1 where split: "ensure_storage_split env io st = (x, s1)" by fastforce
  have ok1: "x = Inr ()" "files_ok ?c s1" "st_folder s1 = st_folder st"
    using split_keeps [OF assms(1,2) split] split_folder [OF assms(1,2) split] by simp_all
  obtain es s2 where r: "read_entries env io sites_file s1 = (es, s2)" by fastforce
  have ok2: "files_ok ?c s2" "st_folder s2 = st_folder st"
    using read_keeps(1) [OF ok1(2) assms(2), of False es s2] r ok1 files_ok_folder [OF ok1(2)] by (simp_all add: file_of_def)
  obtain q s3 where w: "ensure_writable ?c io sites_file s2 = (q, s3)" by fastforce
  obtain bs where "holds ?c sites_file bs s2" using ok2(1) by (auto simp: files_ok_def)
  then have s3: "s3 = s2" by (rule ensure_writable_holds) (rule w)
  obtain ls s4 where r2: "read_entries env io local_paths_file s3 = (ls, s4)" by fastforce
  have ok4: "files_ok ?c s4" "st_folder s4 = st_folder st"
    using read_keeps(1) [OF ok2(1) assms(2), of True ls s4] r2 s3 ok2 files_ok_folder [OF ok2(1)] by (simp_all add: file_of_def)
  obtain q' s5 where w2: "ensure_writable ?c io local_paths_file s4 = (q', s5)" by fastforce
  obtain bs' where "holds ?c local_paths_file bs' s4" using ok4(1) by (auto simp: files_ok_def)
  then have s5: "s5 = s4" by (rule ensure_writable_holds) (rule w2)
  show "st_folder st1 = st_folder st"
    using assms(3) split ok1 r ok2 w s3 r2 ok4 w2 s5 by (auto simp: snapshot_sites_def split: sum.splits)
  show "is_Ok r \<Longrightarrow> \<not> io_unreadable io sites_file"
    using assms(2,3) split ok1(1) r w by (auto simp: snapshot_sites_def ensure_writable_def read_file_def split: sum.splits option.splits)
qed

lemma read_stored:
  assumes "files_ok (se_codec env) st" and "\<not> io_no_folder io" and "\<not> io_unreadable io sites_file"
    and "read_entries env io sites_file st = (es, st1)"
  shows "st_folder st1 = st_folder st" and "find (\<lambda>e. entry_id e = Some i) es = stored_entry (se_codec env) st i"
proof -
  obtain bs where h: "holds (se_codec env) sites_file bs st" using assms(1) by (auto simp: files_ok_def)
  have "es = bs"
  proof (cases "saved_value (se_codec env) (st_folder st) sites_file = Some (json_of_entries bs)")
    case True
    then show ?thesis using assms(4) saved_value_read [OF True _ assms(2,3), of is_entries "JArray []"]
      by (simp add: read_entries_def)
  next
    case False
    then have "bs = []" "read_file io (st_folder st) sites_file = NoFile" "recover (se_codec env) io is_entries sites_file st = None"
      using h assms(2,3) by (auto simp: holds_def recover_def read_file_def)
    then show ?thesis using assms(4) by (auto simp: read_entries_def read_json_def Let_def)
  qed
  then show "find (\<lambda>e. entry_id e = Some i) es = stored_entry (se_codec env) st i"
    using h by (auto simp: stored_entry_def holds_def saved_value_def split: option.splits)
  show "st_folder st1 = st_folder st"
    using read_keeps(1) [OF assms(1,2), of False es st1] assms(4) by (simp add: file_of_def)
qed

lemma stripped_input_simps [simp]:
  "entry_kind (stripped_input input a b) = entry_kind input"
  "flag_of (stripped_input input a b) ''removePassword''" "flag_of (stripped_input input a b) ''removeKeyPassphrase''"
  "map_of (stripped_input input a b) ''hasPassword'' = Some (JBool a)"
  "map_of (stripped_input input a b) ''hasKeyPassphrase'' = Some (JBool b)"
  "get_str (stripped_input input a b) ''id'' = get_str input ''id''"
  by (simp_all add: stripped_input_def entry_kind_def flag_of_def get_bool_def)

lemma entry_kind_put [simp]: "entry_kind (al_put ''id'' w input) = entry_kind input"
  by (simp add: entry_kind_def)

lemma given_id_put [simp]: "the_or fresh (given_id (stripped_input (al_put ''id'' (JString (the_or fresh (given_id input))) input) a b))
    = the_or fresh (given_id input)"
  by (auto simp: given_id_def split: option.split)

lemma site_record_no_secrets:
  assumes "site_record input i parent existing = Inr r" and "entry_kind input \<noteq> Some ''local''" and "k \<in> set secret_keys"
  shows "map_of r k = None"
proof -
  obtain server limit where r: "r = al_put ''parentId'' (opt_json parent)
      (fold (\<lambda>k r. al_put k (or_null input k) r) [''name'', ''icon'', ''color'']
        (let base = merge [(''id'', JString i)] (server_to_json (server\<lparr>sv_max_connections := limit\<rparr>))
         in if al_has ''maxConnections'' input \<or> (case existing of None \<Rightarrow> False | Some site \<Rightarrow> al_has ''maxConnections'' site)
            then base else al_del ''maxConnections'' base))"
    using assms(1,2) by (auto simp: site_record_def Let_def split: sum.splits)
  have "map_of (merge [(''id'', JString i)] (server_to_json s)) k = map_of [(''id'', JString i)] k" for s
    using assms(3) by (intro map_of_merge_other) (auto simp: server_to_json_keys secret_keys_def)
  then show ?thesis using assms(3) by (auto simp: r secret_keys_def Let_def)
qed

text \<open>The record a save writes once the vault has the secrets: no secret of its own, and the flags it was given.\<close>

lemma stripped_record:
  assumes "saved_record env (stripped_input input a b) confirmed i parent existing = Inr (q, lost)" and "entry_kind input \<noteq> Some ''local''"
  shows "get_bool q ''hasPassword'' = Some a" and "get_bool q ''hasKeyPassphrase'' = Some b"
    and "\<not> has_saved_secret q ''enc'' ''plain''" and "\<not> has_saved_secret q ''keyEnc'' ''keyPlain''"
proof -
  let ?in = "stripped_input input a b"
  obtain r where r: "site_record ?in i parent existing = Inr r"
    and q: "q = copy_field ?in ''hasKeyPassphrase'' (copy_field ?in ''hasPassword'' r)"
    using assms by (auto simp: saved_record_def the_secret_def put_field_def Let_def split: sum.splits)
  have none: "map_of r k = None" if "k \<in> set secret_keys" for k
    using site_record_no_secrets [OF r _ that] assms(2) by simp
  show "get_bool q ''hasPassword'' = Some a" "get_bool q ''hasKeyPassphrase'' = Some b"
    by (simp_all add: q copy_field_def get_bool_def)
  show "\<not> has_saved_secret q ''enc'' ''plain''" "\<not> has_saved_secret q ''keyEnc'' ''keyPlain''"
    using none by (simp_all add: has_saved_secret_def get_str_def q copy_field_def secret_keys_def)
qed

lemma vault_save_steps:
  assumes "save_site_with_vault_inner env io io' venv n1 n2 locks fresh input confirmed st v = (r, st', v')"
    and "files_ok (se_codec env) st" and "\<not> io_no_folder io"
  obtains (stopped) e where "r = Inl e" "st_folder st' = st_folder st" "v' = v"
  | (went) i had a b us ws st2 where "i = the_or fresh (given_id input)" "st_folder st2 = st_folder st"
      "had = (\<lambda>p. case stored_entry (se_codec env) st i of None \<Rightarrow> False | Some site \<Rightarrow> p site)"
      "secret_change (al_put ''id'' (JString i) input) i ''password'' ''removePassword'' (had has_saved_password) = (us, a)"
      "secret_change (al_put ''id'' (JString i) input) i ''keyPassphrase'' ''removeKeyPassphrase'' (had has_saved_key_passphrase) = (ws, b)"
      "given_id input = None \<and> text_of input ''password'' = [] \<and> text_of input ''keyPassphrase'' = [] \<and> v' = v
         \<and> save_site env io' fresh (stripped_input (al_put ''id'' (JString i) input) a b) st2 = (r, st')
       \<or> vault_then_file venv n1 n2 locks i (us @ ws)
           (save_site env io' fresh (stripped_input (al_put ''id'' (JString i) input) a b)) st2 v = (r, st', v')"
proof (cases "\<exists>e. r = Inl e \<and> st_folder st' = st_folder st \<and> v' = v")
  case True
  then show ?thesis using stopped by blast
next
  case False
  let ?i = "the_or fresh (given_id input)" and ?c = "se_codec env"
  obtain x st1 where snap: "snapshot_sites env io st = (x, st1)" by fastforce
  note f1 = snapshot_frame [OF assms(2,3) snap]
  obtain es st2 where rd: "read_entries env io sites_file st1 = (es, st2)" by fastforce
  have ok1: "files_ok ?c st1" using files_ok_folder [OF assms(2) f1(1)] .
  have f2: "st_folder st2 = st_folder st" using read_keeps(1) [OF ok1 assms(3), of False es st2] rd f1(1) by (simp add: file_of_def)
  have x: "is_Ok x" using assms(1) snap f1(1) False
    by (cases x) (auto simp: save_site_with_vault_inner_def Let_def split: sum.splits if_splits)
  have found: "find (\<lambda>e. entry_id e = Some ?i) es = stored_entry ?c st ?i"
    using read_stored(2) [OF ok1 assms(3) f1(2) [OF x] rd] f1(1) by (simp add: stored_entry_def)
  let ?had = "\<lambda>p. case stored_entry ?c st ?i of None \<Rightarrow> False | Some site \<Rightarrow> p site"
  obtain us a where us: "secret_change (al_put ''id'' (JString ?i) input) ?i ''password'' ''removePassword'' (?had has_saved_password) = (us, a)"
    by fastforce
  obtain ws b where ws: "secret_change (al_put ''id'' (JString ?i) input) ?i ''keyPassphrase'' ''removeKeyPassphrase'' (?had has_saved_key_passphrase) = (ws, b)"
    by fastforce
  have "given_id input = None \<and> text_of input ''password'' = [] \<and> text_of input ''keyPassphrase'' = [] \<and> v' = v
         \<and> save_site env io' fresh (stripped_input (al_put ''id'' (JString ?i) input) a b) st2 = (r, st')
       \<or> vault_then_file venv n1 n2 locks ?i (us @ ws)
           (save_site env io' fresh (stripped_input (al_put ''id'' (JString ?i) input) a b)) st2 v = (r, st', v')"
    using assms(1) snap rd found us ws x f1(1) f2 False
    unfolding save_site_with_vault_inner_def Let_def
    by (auto split: sum.splits if_splits prod.splits)
  then show ?thesis using went [OF refl f2 refl us ws] by blast
qed

lemma change_keys:
  assumes "secret_change input i field remove_field had = (us, b)" and "field \<in> {''password'', ''keyPassphrase''}"
  shows "\<forall>u \<in> set us. update_key u \<in> site_keys i"
  using assms by (auto simp: secret_change_def site_keys_def Let_def split: if_splits)

text \<open>What the vault has of a secret after a save, from what it had.\<close>

definition secret_after :: "json_map \<Rightarrow> string \<Rightarrow> string \<Rightarrow> string option \<Rightarrow> string option" where
  "secret_after input field remove_field old =
     (if flag_of input remove_field then None else if text_of input field \<noteq> [] then Some (text_of input field) else old)"

lemma change_of_put [simp]:
  "field \<noteq> ''id'' \<Longrightarrow> remove_field \<noteq> ''id'' \<Longrightarrow>
     secret_change (al_put ''id'' w input) i field remove_field had = secret_change input i field remove_field had"
  by (simp add: secret_change_def text_of_def flag_of_def get_bool_def)

lemma changed_vault:
  assumes "apply_secret_updates venv n (us @ ws) v = (Inr (), v')"
    and "secret_change input i ''password'' ''removePassword'' p = (us, a)"
    and "secret_change input i ''keyPassphrase'' ''removeKeyPassphrase'' q = (ws, b)"
  shows "get_secret i ''password'' v = Inr old \<Longrightarrow>
      get_secret i ''password'' v' = Inr (secret_after input ''password'' ''removePassword'' old)"
    and "get_secret i ''keyPassphrase'' v = Inr old \<Longrightarrow>
      get_secret i ''keyPassphrase'' v' = Inr (secret_after input ''keyPassphrase'' ''removeKeyPassphrase'' old)"
proof -
  have us: "map_of (fold apply_update us ss) (secret_key i ''password'')
      = secret_after input ''password'' ''removePassword'' (map_of ss (secret_key i ''password''))"
    "map_of (fold apply_update us ss) (secret_key i ''keyPassphrase'') = map_of ss (secret_key i ''keyPassphrase'')" for ss
    using assms(2) secret_keys_apart by (auto simp: secret_change_def secret_after_def Let_def split: if_splits)
  have ws: "map_of (fold apply_update ws ss) (secret_key i ''keyPassphrase'')
      = secret_after input ''keyPassphrase'' ''removeKeyPassphrase'' (map_of ss (secret_key i ''keyPassphrase''))"
    "map_of (fold apply_update ws ss) (secret_key i ''password'') = map_of ss (secret_key i ''password'')" for ss
    using assms(3) secret_keys_apart by (auto simp: secret_change_def secret_after_def Let_def split: if_splits)
  show "get_secret i ''password'' v = Inr old \<Longrightarrow>
      get_secret i ''password'' v' = Inr (secret_after input ''password'' ''removePassword'' old)"
    by (erule get_secret_updates [OF assms(1)]) (simp add: us ws)
  show "get_secret i ''keyPassphrase'' v = Inr old \<Longrightarrow>
      get_secret i ''keyPassphrase'' v' = Inr (secret_after input ''keyPassphrase'' ''removeKeyPassphrase'' old)"
    by (erule get_secret_updates [OF assms(1)]) (simp add: us ws)
qed

lemma updates_need_unlocked: "apply_secret_updates venv n us v = (Inr (), v') \<Longrightarrow> \<exists>old. get_secret i f v = Inr old"
  by (auto elim: updates_done simp: get_secret_def get_key_def)

lemma vault_saved:
  assumes "\<forall>v. cd_parse (se_codec env) (cd_render (se_codec env) v) = Some v" and "\<not> io_no_folder io" "\<not> io_no_folder io'"
    and "files_ok (se_codec env) st" and "is_configured v" and "entry_kind input \<noteq> Some ''local''"
    and "save_site_with_vault env io io' venv n1 n2 False fresh input confirmed st v = (Inr out, st', v')"
  obtains i had a b us ws q where "i = the_or fresh (given_id input)" "so_id out = i"
      "had = (\<lambda>p. case stored_entry (se_codec env) st i of None \<Rightarrow> False | Some site \<Rightarrow> p site)"
      "secret_change input i ''password'' ''removePassword'' (had has_saved_password) = (us, a)"
      "secret_change input i ''keyPassphrase'' ''removeKeyPassphrase'' (had has_saved_key_passphrase) = (ws, b)"
      "stored_entry (se_codec env) st' i = Some q" "get_bool q ''hasPassword'' = Some a" "get_bool q ''hasKeyPassphrase'' = Some b"
      "\<not> has_saved_secret q ''enc'' ''plain''" "\<not> has_saved_secret q ''keyEnc'' ''keyPlain''"
      "given_id input = None \<and> text_of input ''password'' = [] \<and> text_of input ''keyPassphrase'' = [] \<and> v' = v
       \<or> (\<exists>p k. get_secret i ''password'' v = Inr p \<and> get_secret i ''keyPassphrase'' v = Inr k
           \<and> get_secret i ''password'' v' = Inr (secret_after input ''password'' ''removePassword'' p)
           \<and> get_secret i ''keyPassphrase'' v' = Inr (secret_after input ''keyPassphrase'' ''removeKeyPassphrase'' k))"
proof -
  have inner: "save_site_with_vault_inner env io io' venv n1 n2 False fresh input confirmed st v = (Inr out, st', v')"
    using assms(5,7) by (simp add: save_site_with_vault_def)
  from inner assms(4,2) show thesis
  proof (cases rule: vault_save_steps)
    case (went i had a b us ws st2)
    let ?in = "stripped_input (al_put ''id'' (JString i) input) a b"
    have ok2: "files_ok (se_codec env) st2" using files_ok_folder [OF assms(4) went(2)] .
    have kind: "entry_kind ?in \<noteq> Some ''local''" using assms(6) by simp
    have saved: "save_site_with_protector env io' fresh ?in None st2 = (Inr out, st')"
      using went(6) by (auto simp: save_site_def elim!: vault_then_file_done)
    obtain parent q lost where q: "so_id out = the_or fresh (given_id ?in)"
      "saved_record env ?in None (so_id out) parent (stored_entry (se_codec env) st2 (so_id out)) = Inr (q, lost)"
      "stored_entry (se_codec env) st' (so_id out) = Some q"
      by (rule site_saved [OF assms(1,3) ok2 saved kind])
    have out: "so_id out = i" using q(1) by (simp add: went(1))
    have "given_id input = None \<and> text_of input ''password'' = [] \<and> text_of input ''keyPassphrase'' = [] \<and> v' = v
       \<or> (\<exists>p k. get_secret i ''password'' v = Inr p \<and> get_secret i ''keyPassphrase'' v = Inr k
           \<and> get_secret i ''password'' v' = Inr (secret_after input ''password'' ''removePassword'' p)
           \<and> get_secret i ''keyPassphrase'' v' = Inr (secret_after input ''keyPassphrase'' ''removeKeyPassphrase'' k))"
      using went(6)
    proof
      assume "vault_then_file venv n1 n2 False i (us @ ws) (save_site env io' fresh ?in) st2 v = (Inr out, st', v')"
      then obtain v1 where v1: "apply_secret_updates venv n1 (us @ ws) v = (Inr (), v1)" "v' = v1"
        by (auto simp: maybe_locked_def elim: vault_then_file_done)
      obtain p k where "get_secret i ''password'' v = Inr p" "get_secret i ''keyPassphrase'' v = Inr k"
        using updates_need_unlocked [OF v1(1)] by blast
      then show ?thesis using changed_vault [OF v1(1), of input] went(4,5) v1(2) by simp
    qed simp
    moreover have "entry_kind (al_put ''id'' (JString i) input) \<noteq> Some ''local''" using assms(6) by simp
    ultimately show thesis
      using that [OF went(1) out went(3)] went(4,5) q(3) stripped_record [OF q(2)] out by simp
  qed simp
qed

section \<open>Properties\<close>

definition flag_true :: "(json_map \<Rightarrow> bool) \<Rightarrow> string \<Rightarrow> codec \<Rightarrow> store \<Rightarrow> vault \<Rightarrow> string \<Rightarrow> bool" where
  "flag_true has field c st v i \<longleftrightarrow>
     ((case stored_entry c st i of None \<Rightarrow> False | Some e \<Rightarrow> has e)
      = (case get_secret i field v of Inr (Some s) \<Rightarrow> True | _ \<Rightarrow> False))"

definition secrets_agree :: "codec \<Rightarrow> store \<Rightarrow> vault \<Rightarrow> string \<Rightarrow> bool" where
  "secrets_agree c st v i \<longleftrightarrow> flag_true has_saved_password ''password'' c st v i
     \<and> flag_true has_saved_key_passphrase ''keyPassphrase'' c st v i"

text \<open>C20: Saving a bookmark under the vault is all or nothing: a save that fails, wherever it fails and whether or not
  the vault locks itself meanwhile, leaves every secret of the vault and both bookmark files as they were, unless
  the report is that the vault could not be put back.\<close>

theorem failed_save_changes_nothing:
  assumes "files_ok (se_codec env) st" and "\<not> io_no_folder io" "\<not> io_no_folder io'"
    and "save_site_with_vault env io io' venv n1 n2 locks fresh input confirmed st v = (Inl e, st', v')"
    and "\<forall>x e'. e \<noteq> RollbackFailed x e'"
  shows "get_key k v' = get_key k v \<and> map_of (st_folder st') (file_of local) = map_of (st_folder st) (file_of local)"
proof (cases "is_configured v")
  case False
  then show ?thesis using assms(4) site_not_saved [OF assms(1,2)]
    by (auto simp: save_site_with_vault_def split: prod.splits)
next
  case True
  then have "save_site_with_vault_inner env io io' venv n1 n2 locks fresh input confirmed st v = (Inl e, st', v')"
    using assms(4) by (simp add: save_site_with_vault_def)
  from this assms(1,2) show ?thesis
  proof (cases rule: vault_save_steps)
    case (went i had a b us ws st2)
    have ok2: "files_ok (se_codec env) st2" using files_ok_folder [OF assms(1) went(2)] .
    have keys: "\<forall>u \<in> set (us @ ws). update_key u \<in> site_keys i" using change_keys [OF went(4)] change_keys [OF went(5)] by auto
    from went(6) show ?thesis
    proof
      assume "vault_then_file venv n1 n2 locks i (us @ ws)
        (save_site env io' fresh (stripped_input (al_put ''id'' (JString i) input) a b)) st2 v = (Inl e, st', v')"
      from vault_then_file_failed [OF this keys assms(5), of k] show ?thesis
        using site_not_saved [OF ok2 assms(3), where b = local] went(2) unfolding save_site_def by fastforce
    qed (use site_not_saved [OF ok2 assms(3)] went(2) in \<open>auto simp: save_site_def\<close>)
  qed simp
qed

text \<open>C21: What a bookmark says it has saved is what the vault holds: a save under the vault keeps the two in
  agreement for the password and the key passphrase, and a new password is in the vault just as it was given.\<close>

theorem saved_flags_match_the_vault:
  assumes "\<forall>v. cd_parse (se_codec env) (cd_render (se_codec env) v) = Some v" and "\<not> io_no_folder io" "\<not> io_no_folder io'"
    and "files_ok (se_codec env) st" and "is_configured v" and "entry_kind input \<noteq> Some ''local''"
    and "save_site_with_vault env io io' venv n1 n2 False fresh input confirmed st v = (Inr out, st', v')"
    and "secrets_agree (se_codec env) st v (so_id out)"
    and "given_id input = None \<Longrightarrow> stored_entry (se_codec env) st fresh = None"
  shows "secrets_agree (se_codec env) st' v' (so_id out)
    \<and> (text_of input ''password'' \<noteq> [] \<and> \<not> flag_of input ''removePassword''
       \<longrightarrow> get_secret (so_id out) ''password'' v' = Inr (Some (text_of input ''password'')))"
proof (rule vault_saved [OF assms(1-7)])
  fix i had a b us ws q
  assume i: "i = the_or fresh (given_id input)" "so_id out = i"
    and had: "had = (\<lambda>p. case stored_entry (se_codec env) st i of None \<Rightarrow> False | Some site \<Rightarrow> p site)"
    and a: "secret_change input i ''password'' ''removePassword'' (had has_saved_password) = (us, a)"
    and b: "secret_change input i ''keyPassphrase'' ''removeKeyPassphrase'' (had has_saved_key_passphrase) = (ws, b)"
    and q: "stored_entry (se_codec env) st' i = Some q" "get_bool q ''hasPassword'' = Some a" "get_bool q ''hasKeyPassphrase'' = Some b"
      "\<not> has_saved_secret q ''enc'' ''plain''" "\<not> has_saved_secret q ''keyEnc'' ''keyPlain''"
    and vault: "given_id input = None \<and> text_of input ''password'' = [] \<and> text_of input ''keyPassphrase'' = [] \<and> v' = v
       \<or> (\<exists>p k. get_secret i ''password'' v = Inr p \<and> get_secret i ''keyPassphrase'' v = Inr k
           \<and> get_secret i ''password'' v' = Inr (secret_after input ''password'' ''removePassword'' p)
           \<and> get_secret i ''keyPassphrase'' v' = Inr (secret_after input ''keyPassphrase'' ''removeKeyPassphrase'' k))"
  have has: "has_saved_password q = a" "has_saved_key_passphrase q = b"
    using q(2-5) by (simp_all add: has_saved_password_def has_saved_key_passphrase_def)
  have before: "had has_saved_password = (case get_secret i ''password'' v of Inr (Some s) \<Rightarrow> True | _ \<Rightarrow> False)"
    "had has_saved_key_passphrase = (case get_secret i ''keyPassphrase'' v of Inr (Some s) \<Rightarrow> True | _ \<Rightarrow> False)"
    using assms(8) by (auto simp: secrets_agree_def flag_true_def had i(2))
  have none: "given_id input = None \<Longrightarrow> \<not> had p" for p
    using assms(9) by (simp add: had i(1))
  show "secrets_agree (se_codec env) st' v' (so_id out)
    \<and> (text_of input ''password'' \<noteq> [] \<and> \<not> flag_of input ''removePassword''
       \<longrightarrow> get_secret (so_id out) ''password'' v' = Inr (Some (text_of input ''password'')))"
    using vault a b before none has q(1)
    by (auto simp: secrets_agree_def flag_true_def i(2) secret_change_def secret_after_def Let_def split: if_splits option.splits)
qed

text \<open>C24: Until a bookmark's password has been moved into the vault, any save of the bookmark under the unlocked vault
  loses it: the protected copy leaves the file, the vault does not get it, and the bookmark goes on saying
  that it has a password.\<close>

theorem unmoved_password_is_lost:
  assumes "\<forall>v. cd_parse (se_codec env) (cd_render (se_codec env) v) = Some v" and "\<not> io_no_folder io" "\<not> io_no_folder io'"
    and "files_ok (se_codec env) st" and "is_configured v" and "entry_kind input \<noteq> Some ''local''"
    and "save_site_with_vault env io io' venv n1 n2 False fresh input confirmed st v = (Inr out, st', v')"
    and "given_id input = Some i" and "stored_entry (se_codec env) st i = Some old" and "has_saved_secret old ''enc'' ''plain''"
    and "get_secret i ''password'' v = Inr None" and "text_of input ''password'' = []" and "\<not> flag_of input ''removePassword''"
  shows "\<exists>new. stored_entry (se_codec env) st' i = Some new \<and> has_saved_password new
    \<and> \<not> has_saved_secret new ''enc'' ''plain'' \<and> get_secret i ''password'' v' = Inr None"
proof (rule vault_saved [OF assms(1-7)])
  fix j had a b us ws q
  assume j: "j = the_or fresh (given_id input)" "so_id out = j"
    and had: "had = (\<lambda>p. case stored_entry (se_codec env) st j of None \<Rightarrow> False | Some site \<Rightarrow> p site)"
    and a: "secret_change input j ''password'' ''removePassword'' (had has_saved_password) = (us, a)"
    and q: "stored_entry (se_codec env) st' j = Some q" "get_bool q ''hasPassword'' = Some a" "\<not> has_saved_secret q ''enc'' ''plain''"
    and vault: "given_id input = None \<and> text_of input ''password'' = [] \<and> text_of input ''keyPassphrase'' = [] \<and> v' = v
       \<or> (\<exists>p k. get_secret j ''password'' v = Inr p \<and> get_secret j ''keyPassphrase'' v = Inr k
           \<and> get_secret j ''password'' v' = Inr (secret_after input ''password'' ''removePassword'' p)
           \<and> get_secret j ''keyPassphrase'' v' = Inr (secret_after input ''keyPassphrase'' ''removeKeyPassphrase'' k))"
  have i: "j = i" using j(1) assms(8) by simp
  have "a" using a assms(9,10,12,13) by (simp add: secret_change_def had i has_saved_password_def)
  then show "\<exists>new. stored_entry (se_codec env) st' i = Some new \<and> has_saved_password new
    \<and> \<not> has_saved_secret new ''enc'' ''plain'' \<and> get_secret i ''password'' v' = Inr None"
    using q vault assms(8,11,12,13) i by (auto simp: has_saved_password_def secret_after_def)
qed

section \<open>Into the vault\<close>

text \<open>The files the moves touch beside \<open>sites.json\<close> leave it, its backup and the copy made before alone.\<close>

definition watched :: "string list" where "watched = [sites_file, last_good sites_file, pre_vault_backup, local_paths_file, last_good local_paths_file]"

lemma watched_apart:
  assumes "n \<in> set watched" and "m = settings_file \<or> m = vault_migration_file"
  shows "no_copy m n" "n \<noteq> m" "n \<noteq> last_good m"
proof -
  have "\<forall>n \<in> set watched. \<forall>m \<in> {settings_file, vault_migration_file}. no_copy m n \<and> n \<noteq> m \<and> n \<noteq> last_good m" by code_simp
  then show "no_copy m n" "n \<noteq> m" "n \<noteq> last_good m" using assms by auto
qed

definition same_sites :: "store \<Rightarrow> store \<Rightarrow> bool" where
  "same_sites st st' \<longleftrightarrow> (\<forall>n \<in> set watched. map_of (st_folder st') n = map_of (st_folder st) n)"

lemma same_sites_refl [simp]: "same_sites st st"
  by (simp add: same_sites_def)

lemma same_sites_trans: "same_sites a b \<Longrightarrow> same_sites b d \<Longrightarrow> same_sites a d"
  by (simp add: same_sites_def)

lemma same_sites_holds: "same_sites st st' \<Longrightarrow> holds c sites_file es st' = holds c sites_file es st"
  by (intro holds_cong) (simp_all add: same_sites_def watched_def)

lemma same_sites_files: "same_sites st st' \<Longrightarrow> files_ok c st' = files_ok c st"
  by (simp add: files_ok_def holds_def same_sites_def watched_def saved_value_def)

lemma same_sites_entry: "same_sites st st' \<Longrightarrow> stored_entry c st' i = stored_entry c st i"
  by (simp add: same_sites_def watched_def stored_entry_def saved_value_def)

lemma read_json_other:
  assumes "read_json c io fits name fallback st = (w, st')" and "no_copy name n"
  shows "map_of (st_folder st') n = map_of (st_folder st) n"
proof -
  have note_frame: "st_folder (note_issue m i s) = st_folder s" for m i s by (simp add: note_issue_def)
  show ?thesis
  proof (cases "read_file io (st_folder st) name")
    case (Contents raw)
    obtain kept d where a: "archive_corrupt c io name raw (st_folder st) = (kept, d)" by fastforce
    have "map_of d n = map_of (st_folder st) n" by (rule archive_frame [OF a assms(2)])
    then show ?thesis using assms(1) Contents a
      by (auto simp: read_json_def note_frame Let_def split: sum.splits decode_error.splits option.splits)
  qed (use assms(1) in \<open>auto simp: read_json_def note_frame Let_def split: option.splits if_splits\<close>)
qed

lemma other_read: "read_json c io fits m fallback st = (w, st') \<Longrightarrow> m = settings_file \<or> m = vault_migration_file \<Longrightarrow> same_sites st st'"
  using read_json_other watched_apart(1) by (fastforce simp: same_sites_def)

lemma other_written: "write_json c io fits m data st = (r, st') \<Longrightarrow> m = settings_file \<or> m = vault_migration_file \<Longrightarrow> same_sites st st'"
  using write_json_frame watched_apart by (metis same_sites_def)

lemma commit_then_save_store:
  "commit_then_save venv n1 n2 u save st v = (r, st', v') \<Longrightarrow> st' = st \<or> (\<exists>q. save st = (q, st'))"
  by (auto simp: commit_then_save_def split: sum.splits prod.splits)

lemma save_settings_apart: "save_settings_map c io m st = (r, st') \<Longrightarrow> same_sites st st'"
  by (auto simp: save_settings_map_def split: prod.splits sum.splits dest!: other_written [OF _ disjI1 [OF refl]])

lemma read_settings_apart: "read_settings_file c io st = (m, st') \<Longrightarrow> same_sites st st'"
  by (auto simp: read_settings_file_def split: prod.splits dest!: other_read [OF _ disjI1 [OF refl]])

lemma proxy_to_vault_apart:
  assumes "migrate_proxy_password_to_vault c io pr venv n1 n2 st v = (r, st', v')"
  shows "same_sites st st'"
proof -
  obtain m st1 where g: "read_settings_file c io st = (m, st1)" by fastforce
  have "st' = st1 \<or> (\<exists>q k. save_settings_map c io k st1 = (q, st'))"
    using assms g by (auto simp: migrate_proxy_password_to_vault_def Let_def dest: commit_then_save_store split: if_splits)
  then show ?thesis using read_settings_apart [OF g] save_settings_apart same_sites_trans by blast
qed

lemma marker_apart:
  "read_marker env io st = (m, st') \<Longrightarrow> same_sites st st'"
  "write_marker env io status st = (r, st'') \<Longrightarrow> same_sites st st''"
  by (auto simp: read_marker_def write_marker_def split: prod.splits sum.splits
      dest!: other_read [OF _ disjI2 [OF refl]] other_written [OF _ disjI2 [OF refl]])

definition secret_places :: "(string \<times> string \<times> string) list" where
  "secret_places = [(''password'', ''enc'', ''plain''), (''keyPassphrase'', ''keyEnc'', ''keyPlain'')]"

lemma updates_other:
  assumes "apply_secret_updates venv n us v = (r, v')" and "\<forall>u \<in> set us. update_key u \<noteq> k"
  shows "get_key k v' = get_key k v"
proof (cases r)
  case (Inl e)
  then show ?thesis using assms(1) updates_refused by blast
next
  case (Inr x)
  then obtain u where "va_state v = Some u" "va_state v' = Some (u\<lparr>un_secrets := fold apply_update us (un_secrets u)\<rparr>)"
    using assms(1) by (auto elim: updates_done)
  then show ?thesis using fold_updates_other [OF assms(2)] by (simp add: get_key_def)
qed

lemma site_to_vault_other:
  assumes "site_to_vault pr venv n site v = (r, v')" and "entry_id site \<noteq> Some i" and "(field, enc, plain) \<in> set secret_places"
  shows "get_secret i field v' = get_secret i field v"
proof (cases "entry_id site = None \<or> is_folder site")
  case True
  then show ?thesis using assms(1) by (auto simp: site_to_vault_def split: option.splits)
next
  case False
  then obtain j where j: "entry_id site = Some j" "\<not> is_folder site" "j \<noteq> i" using assms(2) by auto
  define us where "us = (if decrypt_secret pr site ''enc'' ''plain'' = [] then [] else [SetSecret j ''password'' (decrypt_secret pr site ''enc'' ''plain'')])
    @ (if decrypt_secret pr site ''keyEnc'' ''keyPlain'' = [] then [] else [SetSecret j ''keyPassphrase'' (decrypt_secret pr site ''keyEnc'' ''keyPlain'')])"
  have "v' = v \<or> (\<exists>q. apply_secret_updates venv n us v = (q, v'))"
    using assms(1) j(1,2) by (auto simp: site_to_vault_def Let_def us_def split: sum.splits prod.splits if_splits)
  moreover have "\<forall>u \<in> set us. update_key u \<noteq> secret_key i field"
    using j(3) assms(3) secret_keys_apart by (auto simp: us_def secret_places_def)
  ultimately show ?thesis using updates_other unfolding get_secret_def by blast
qed

lemma site_to_vault_done:
  assumes "site_to_vault pr venv n site v = (Inr (moved, site'), v')" and "entry_id site = Some i" and "\<not> is_folder site"
    and "(field, enc, plain) \<in> set secret_places" and "decrypt_secret pr site enc plain = pw" "pw \<noteq> []"
  shows "get_secret i field v' = Inr (Some pw)"
proof -
  define us where "us = (if decrypt_secret pr site ''enc'' ''plain'' = [] then [] else [SetSecret i ''password'' (decrypt_secret pr site ''enc'' ''plain'')])
    @ (if decrypt_secret pr site ''keyEnc'' ''keyPlain'' = [] then [] else [SetSecret i ''keyPassphrase'' (decrypt_secret pr site ''keyEnc'' ''keyPlain'')])"
  have "us \<noteq> []" using assms(4-6) by (auto simp: us_def secret_places_def)
  then have "apply_secret_updates venv n us v = (Inr (), v')"
    using assms(1-3) by (auto simp: site_to_vault_def Let_def us_def split: sum.splits prod.splits if_splits)
  then obtain u where "va_state v' = Some (u\<lparr>un_secrets := fold apply_update us (un_secrets u)\<rparr>)"
    by (auto elim: updates_done)
  moreover have "map_of (fold apply_update us ss) (secret_key i field) = Some pw" for ss
    using assms(4-6) secret_keys_apart by (auto simp: us_def secret_places_def)
  ultimately show ?thesis by (simp add: get_secret_def get_key_def)
qed

lemma sites_to_vault_other:
  assumes "sites_to_vault pr venv nonce sites v = (r, v')" and "\<forall>e \<in> set sites. entry_id e \<noteq> Some i"
    and "(field, enc, plain) \<in> set secret_places"
  shows "get_secret i field v' = get_secret i field v"
  using assms(1,2)
proof (induction sites arbitrary: nonce v r v')
  case (Cons e sites)
  obtain q v1 where q: "site_to_vault pr venv (nonce 0) e v = (q, v1)" by fastforce
  have same: "get_secret i field v1 = get_secret i field v" using site_to_vault_other [OF q _ assms(3)] Cons.prems(2) by simp
  show ?case
  proof (cases q)
    case (Inl x)
    then show ?thesis using Cons.prems(1) q same by simp
  next
    case (Inr p)
    obtain q2 v2 where q2: "sites_to_vault pr venv (\<lambda>k. nonce (Suc k)) sites v1 = (q2, v2)" by fastforce
    then have "v' = v2" using Cons.prems(1) q Inr by (auto split: sum.splits prod.splits)
    then show ?thesis using Cons.IH [OF q2] Cons.prems(2) same by simp
  qed
qed simp

lemma sites_to_vault_done:
  assumes "sites_to_vault pr venv nonce sites v = (Inr m, v')" and "distinct (map entry_id sites)"
    and "e \<in> set sites" and "entry_id e = Some i" and "\<not> is_folder e"
    and place: "(field, enc, plain) \<in> set secret_places" and "decrypt_secret pr e enc plain = pw" "pw \<noteq> []"
  shows "get_secret i field v' = Inr (Some pw)"
  using assms(1-3)
proof (induction sites arbitrary: nonce v m v')
  case (Cons s sites)
  obtain moved s' v1 where q: "site_to_vault pr venv (nonce 0) s v = (Inr (moved, s'), v1)"
    using Cons.prems(1) by (auto split: sum.splits prod.splits)
  obtain m2 where q2: "sites_to_vault pr venv (\<lambda>k. nonce (Suc k)) sites v1 = (Inr m2, v')"
    using Cons.prems(1) q by (auto split: sum.splits prod.splits)
  show ?case
  proof (cases "s = e")
    case True
    have "get_secret i field v1 = Inr (Some pw)"
      using site_to_vault_done [OF q [unfolded True] assms(4,5) place assms(7,8)] .
    moreover have "\<forall>x \<in> set sites. entry_id x \<noteq> Some i" using Cons.prems(2) True assms(4) by force
    ultimately show ?thesis using sites_to_vault_other [OF q2 _ place] by simp
  next
    case False
    then show ?thesis using Cons.IH [OF q2] Cons.prems(2,3) by simp
  qed
qed simp

subsection \<open>What the file holds meanwhile\<close>

lemma plaintext_migrated:
  assumes "\<forall>v. cd_parse (se_codec env) (cd_render (se_codec env) v) = Some v" and "\<not> io_no_folder io"
    and "holds (se_codec env) sites_file es st" and "migrate_plaintext_secrets env io st = (r, st')"
  obtains es' where "holds (se_codec env) sites_file es' st'"
    and "es' = es \<or> es' = map (\<lambda>s. snd (protected_site (se_protector env) s)) es"
proof -
  obtain rs st1 where rd: "read_entries env io sites_file st = (rs, st1)" by fastforce
  have h1: "holds (se_codec env) sites_file es st1"
    by (rule read_entries_cases [OF assms(3,2) rd]) (use assms(3) in \<open>simp_all add: holds_def\<close>)
  show thesis
  proof (cases "\<exists>d \<in> set (map (protected_site (se_protector env)) rs). fst d")
    case False
    then show thesis using that [OF _ disjI1 [OF refl]] h1 assms(4) rd by (simp add: migrate_plaintext_secrets_def Let_def)
  next
    case True
    then have w: "write_entries env io sites_file (map (\<lambda>s. snd (protected_site (se_protector env) s)) rs) st1 = (r, st')"
      using assms(4) rd by (simp add: migrate_plaintext_secrets_def Let_def comp_def)
    have "rs = es"
      by (rule read_entries_cases [OF assms(3,2) rd]) (use True in auto)
    then show thesis using that write_entries_holds [OF assms(1) disjI1 [OF refl] h1 w] by (cases "is_Ok r") auto
  qed
qed

lemma holds_entry: "holds c sites_file es st \<Longrightarrow> stored_entry c st i = find (\<lambda>e. entry_id e = Some i) es"
  by (auto simp: stored_entry_def holds_def saved_value_def)

lemma store_tmp_pid_sites: "store_tmp_pid sites_file = None"
  by code_simp

lemma remove_quietly_other: "n \<noteq> name \<Longrightarrow> map_of (remove_quietly io name d) n = map_of d n"
  by (simp add: remove_quietly_def)

lemma scrub_backup_other:
  assumes "n \<noteq> last_good name"
  shows "map_of (scrub_backup c io name d) n = map_of d n"
proof -
  have "map_of (snd (write_backup c io name w d)) n = map_of d n" for w
    using assms by (auto simp: write_backup_def publish_def split: option.split)
  then show ?thesis by (auto simp: scrub_backup_def Let_def split: option.split)
qed

lemma scrub_keeps_sites: "map_of (scrub_secret_backups c io pid d) sites_file = map_of d sites_file"
proof -
  have apart: "sites_file \<noteq> last_good ''settings.json''" "sites_file \<noteq> last_good ''sites.json''"
    "sites_file \<noteq> last_good migration_marker" "sites_file \<noteq> ''sites.pre-stronghold.bak''"
    by code_simp+
  have "map_of (fold (\<lambda>(n, _) d. case store_tmp_pid n of
      Some p \<Rightarrow> if p \<noteq> pid then remove_quietly io n d else d | None \<Rightarrow> d) xs d) sites_file = map_of d sites_file"
    for xs :: folder and d
  proof (induction xs arbitrary: d)
    case (Cons x xs)
    obtain n y where x: "x = (n, y)" by (cases x)
    have "map_of (case store_tmp_pid n of Some p \<Rightarrow> if p \<noteq> pid then remove_quietly io n d else d | None \<Rightarrow> d) sites_file
        = map_of d sites_file"
      using store_tmp_pid_sites remove_quietly_other [of sites_file n io d] by (cases "n = sites_file") (auto split: option.split)
    then show ?case using Cons.IH by (simp add: x)
  qed simp
  then show ?thesis
    using apart by (auto simp: scrub_secret_backups_def Let_def remove_quietly_other scrub_backup_other)
qed

lemma find_mapped: "\<forall>e \<in> set es. P (f e) = P e \<Longrightarrow> find P (map f es) = map_option f (find P es)"
  by (induction es) auto

lemma protected_site_decrypt:
  assumes "(field, enc, plain) \<in> set secret_places" and "map_of e plain = None"
  shows "decrypt_secret pr (snd (protected_site pr e)) enc plain = decrypt_secret pr e enc plain"
proof -
  obtain c1 s1 where m1: "migrate_plaintext_field pr ''plain'' ''enc'' e = (c1, s1)" by fastforce
  obtain c2 s2 where m2: "migrate_plaintext_field pr ''keyPlain'' ''keyEnc'' s1 = (c2, s2)" by fastforce
  have "get_str s2 k = get_str e k" if "k = enc \<or> k = plain" for k
  proof (cases "plain = ''plain''")
    case True
    then have "s1 = e" using m1 assms(2) by (simp add: migrate_plaintext_field_def)
    then show ?thesis using migrate_field_keeps [OF m2, of k] assms(1) that True by (auto simp: secret_places_def)
  next
    case False
    then have "enc = ''keyEnc''" "plain = ''keyPlain''" using assms(1) by (auto simp: secret_places_def)
    moreover have "map_of s1 ''keyPlain'' = map_of e ''keyPlain''"
      using m1 by (auto simp: migrate_plaintext_field_def split: option.splits if_splits)
    ultimately have "s2 = s1" using m2 assms(2) by (simp add: migrate_plaintext_field_def)
    then show ?thesis using migrate_field_keeps [OF m1, of k] that \<open>enc = ''keyEnc''\<close> \<open>plain = ''keyPlain''\<close> by auto
  qed
  then have "get_str s2 enc = get_str e enc" "get_str s2 plain = get_str e plain" by blast+
  then show ?thesis by (simp add: protected_site_def m1 m2 decrypt_secret_def split: option.split)
qed

lemma copy_made_apart:
  assumes "keep_pre_vault_copy io legacy st = (x, st')"
  shows "holds c sites_file es st' = holds c sites_file es st"
proof -
  have "pre_vault_backup \<noteq> sites_file" "pre_vault_backup \<noteq> last_good sites_file" by code_simp+
  then show ?thesis using assms
    by (intro holds_cong) (auto simp: keep_pre_vault_copy_def publish_def split: read_result.splits option.splits if_splits)
qed

lemma move_to_vault_keeps:
  assumes "\<not> io_no_folder io" and "holds (se_codec env) sites_file es st" and "distinct (map entry_id es)"
    and "move_to_vault env io io' venv nonce pid st v = (r, st', v')"
    and "find (\<lambda>e. entry_id e = Some i) es = Some e" and "\<not> is_folder e"
    and place: "(field, enc, plain) \<in> set secret_places" and "decrypt_secret (se_protector env) e enc plain = pw" "pw \<noteq> []"
  shows "get_secret i field v' = Inr (Some pw) \<or> stored_entry (se_codec env) st' i = Some e"
proof -
  let ?c = "se_codec env"
  obtain rs st1 where rd: "read_entries env io sites_file st = (rs, st1)" by fastforce
  show ?thesis
  proof (rule read_entries_cases [OF assms(2,1) rd])
    assume rs: "rs = []" "st_folder st1 = st_folder st"
    then have "r = Inr 0 \<and> v' = v \<and> st_folder st' = scrub_secret_backups ?c io pid (st_folder st1)"
      using assms(4) rd by (auto simp: move_to_vault_def keep_pre_vault_copy_def)
    then have "stored_entry ?c st' i = stored_entry ?c st i"
      using scrub_keeps_sites [of ?c io pid "st_folder st"] rs(2) by (simp add: stored_entry_def saved_value_def)
    then show ?thesis using holds_entry [OF assms(2), of i] assms(5) by simp
  next
    assume rs: "rs = es" "st_folder st1 = st_folder st"
    define legacy where "legacy = (\<exists>site \<in> set es. has_legacy_secret site)"
    obtain x st2 where copy: "keep_pre_vault_copy io legacy st1 = (x, st2)" by fastforce
    have h2: "holds ?c sites_file es st2" using copy_made_apart [OF copy] holds_folder [OF rs(2)] assms(2) by simp
    obtain q st3 where mark: "(if legacy then write_marker env io ''inProgress'' st2 else (Inr (), st2)) = (q, st3)" by fastforce
    have h3: "holds ?c sites_file es st3"
      using mark marker_apart(2) [of env io "''inProgress''" st2 q st3] same_sites_holds h2 by (auto split: if_splits)
    note entry = holds_entry [OF h2, of i] holds_entry [OF h3, of i] assms(5)
    obtain m v1 where vault: "sites_to_vault (se_protector env) venv nonce es v = (m, v1)" by fastforce
    have "(st' = st2 \<or> st' = st3) \<or> v' = v1 \<and> is_Ok m"
      using assms(4) rd rs(1) copy mark vault unfolding move_to_vault_def legacy_def [symmetric]
      by (auto simp: legacy_def [symmetric] Let_def split: sum.splits prod.splits if_splits)
    then show ?thesis
    proof
      assume v1: "v' = v1 \<and> is_Ok m"
      have e: "e \<in> set es" "entry_id e = Some i" using find_id [OF assms(5)] by simp_all
      obtain k where "m = Inr k" using v1 by (cases m) auto
      then have "get_secret i field v1 = Inr (Some pw)"
        using sites_to_vault_done [OF _ assms(3) e assms(6) place assms(8,9)] vault by blast
      then show ?thesis using v1 by simp
    qed (use entry in auto)
  qed
qed


text \<open>When the file cannot take the bookmarks whose secrets went into the vault, the copy made before is written
  over it. If that copy cannot be read at that moment, the file ends with no bookmark at all.\<close>

lemma unreadable_copy_empties_the_bookmarks:
  assumes "\<forall>v. cd_parse (se_codec env) (cd_render (se_codec env) v) = Some v" and "\<not> io_no_folder io"
    and "al_has pre_vault_backup (st_folder st)" and "io_unreadable io pre_vault_backup"
    and "write_entries env io sites_file [] (note_issue pre_vault_backup Unreadable st) = (Inr (), st')"
  shows "put_back_copy env io st = st' \<and> saved_value (se_codec env) (st_folder st') sites_file = Some (json_of_entries [])"
proof -
  have "read_entries env io pre_vault_backup st = ([], note_issue pre_vault_backup Unreadable st)"
    using assms(2,4) by (simp add: read_entries_def read_json_def read_file_def)
  moreover obtain q where w: "write_json (se_codec env) io is_entries sites_file (json_of_entries [])
      (note_issue pre_vault_backup Unreadable st) = (q, st')" "is_Ok q"
    using assms(5) by (auto simp: write_entries_def split: prod.splits sum.splits)
  moreover have "saved_value (se_codec env) (st_folder st') sites_file = Some (json_of_entries [])" using w(1)
  proof (cases rule: write_json_steps)
    case (written st1)
    then show ?thesis using assms(1) bookmark_files_apart(1) by (simp add: saved_value_def decode_bytes_def decode_encode)
  qed (use w(2) in simp)
  ultimately show ?thesis using assms(3,5) by (simp add: put_back_copy_def)
qed

section \<open>Out of the vault\<close>

lemma vault_fields_taken:
  assumes "fields_from_vault pr v i vault_fields site = Inr (changed, site')"
  shows "k \<notin> {''enc'', ''keyEnc'', ''hasPassword'', ''hasKeyPassphrase''} \<Longrightarrow> get_str site' k = get_str site k"
    and "(field, enc, plain) \<in> set secret_places \<Longrightarrow> get_secret i field v = Inr (Some pw) \<Longrightarrow>
      \<exists>protected. pr_protect pr pw = Some protected \<and> get_str site' enc = Some (pr_b64 pr protected)"
  using assms by (auto simp: vault_fields_def secret_places_def split: sum.splits option.splits prod.splits)

lemma sites_from_vault_found:
  assumes "sites_from_vault pr v es = Inr (n, es')" and "find (\<lambda>e. entry_id e = Some i) es = Some e" and "\<not> is_folder e"
    and "(field, enc, plain) \<in> set secret_places" and "get_secret i field v = Inr (Some pw)" and "protector_ok pr" and "valid_utf8 pw"
  shows "\<exists>e'. find (\<lambda>e. entry_id e = Some i) es' = Some e' \<and> decrypt_secret pr e' enc plain = pw"
  using assms(1,2)
proof (induction es arbitrary: n es')
  case (Cons s es)
  obtain c s' where s': "(case entry_id s of None \<Rightarrow> Inr (False, s)
      | Some i \<Rightarrow> if is_folder s then Inr (False, s) else fields_from_vault pr v i vault_fields s) = Inr (c, s')"
    using Cons.prems(1) by (auto split: sum.splits prod.splits)
  obtain m rest where rest: "sites_from_vault pr v es = Inr (m, rest)" "es' = s' # rest"
    using Cons.prems(1) s' by (auto split: sum.splits prod.splits)
  have id: "entry_id s' = entry_id s"
    using s' vault_fields_taken(1) by (auto simp: entry_id_def split: option.splits if_splits)
  show ?case
  proof (cases "entry_id s = Some i")
    case True
    then have "s = e" using Cons.prems(2) by simp
    then have "fields_from_vault pr v i vault_fields s = Inr (c, s')" using s' True assms(3) by simp
    from vault_fields_taken(2) [OF this assms(4,5)] have "decrypt_secret pr s' enc plain = pw"
      using assms(6,7) by (auto simp: decrypt_secret_def protector_ok_def from_utf8_lossy_valid)
    then show ?thesis using rest(2) id True by simp
  next
    case False
    then show ?thesis using Cons.IH [OF rest(1)] Cons.prems(2) rest(2) id by simp
  qed
qed simp

lemma proxy_from_vault_apart: "migrate_proxy_password_from_vault c io pr st v = (r, st') \<Longrightarrow> same_sites st st'"
proof -
  assume run: "migrate_proxy_password_from_vault c io pr st v = (r, st')"
  obtain m st1 where g: "read_settings_file c io st = (m, st1)" by fastforce
  have "st' = st1 \<or> (\<exists>q k. save_settings_map c io k st1 = (q, st'))"
    using run g unfolding migrate_proxy_password_from_vault_def Let_def by (auto split: sum.splits option.splits if_splits)
  then show ?thesis using read_settings_apart [OF g] save_settings_apart same_sites_trans by blast
qed

text \<open>A read that is followed by a write that goes through has given the entries of the file.\<close>

lemma read_then_written:
  assumes "\<forall>v. cd_parse (se_codec env) (cd_render (se_codec env) v) = Some v" and "\<not> io_no_folder io"
    and "holds (se_codec env) sites_file es st" and "read_entries env io sites_file st = (rs, st1)"
    and "write_entries env io sites_file new st1 = (r, st2)"
  shows "r = Inr () \<and> rs = es \<and> holds (se_codec env) sites_file new st2 \<or> (\<exists>x. r = Inl x) \<and> holds (se_codec env) sites_file es st2"
proof (rule read_entries_cases [OF assms(3,2,4)])
  assume a: "rs = es" "st_folder st1 = st_folder st"
  have "holds (se_codec env) sites_file es st1" using holds_folder [OF a(2)] assms(3) by simp
  from write_entries_holds [OF assms(1) disjI1 [OF refl] this assms(5)] show ?thesis using a(1) by (cases r) auto
next
  assume a: "st_folder st1 = st_folder st" "map_of (st_issues st1) sites_file = Some Unreadable"
  then have "r = Inl (NotWritten StoreUnreadable)" "st2 = st1" using write_entries_refused [OF a(2)] assms(5) by simp_all
  then show ?thesis using holds_folder [OF a(1)] assms(3) by simp
qed

lemma copied_out:
  assumes "\<forall>v. cd_parse (se_codec env) (cd_render (se_codec env) v) = Some v" and "\<not> io_no_folder io"
    and "holds (se_codec env) sites_file es st" and "migrate_secrets_from_vault env io st v = (Inr n, st')"
    and "find (\<lambda>e. entry_id e = Some i) es = Some e" and "\<not> is_folder e"
    and "(field, enc, plain) \<in> set secret_places" and "get_secret i field v = Inr (Some pw)"
    and "protector_ok (se_protector env)" and "valid_utf8 pw"
  shows "\<exists>es' e'. holds (se_codec env) sites_file es' st' \<and> find (\<lambda>e. entry_id e = Some i) es' = Some e'
    \<and> decrypt_secret (se_protector env) e' enc plain = pw"
proof -
  obtain x st1 where p: "migrate_proxy_password_from_vault (se_codec env) io (se_protector env) st v = (x, st1)" by fastforce
  have h1: "holds (se_codec env) sites_file es st1" using same_sites_holds [OF proxy_from_vault_apart [OF p]] assms(3) by simp
  obtain rs st2 where rd: "read_entries env io sites_file st1 = (rs, st2)" by fastforce
  obtain m new where new: "sites_from_vault (se_protector env) v rs = Inr (m, new)"
    and w: "write_entries env io sites_file new st2 = (Inr (), st')"
    using assms(4) p rd by (auto simp: migrate_secrets_from_vault_def split: if_splits sum.splits prod.splits)
  have "rs = es" "holds (se_codec env) sites_file new st'" using read_then_written [OF assms(1,2) h1 rd w] by auto
  then show ?thesis using sites_from_vault_found [OF new] assms(5-10) by blast
qed

lemma markers_removed: "remove_marker_files io names st = (r, st') \<Longrightarrow> sites_file \<notin> set names \<Longrightarrow>
    map_of (st_folder st') sites_file = map_of (st_folder st) sites_file"
  by (induction names arbitrary: st) (auto split: if_splits option.splits)

lemma flags_cleared:
  assumes "\<forall>v. cd_parse (se_codec env) (cd_render (se_codec env) v) = Some v" and "\<not> io_no_folder io"
    and "holds (se_codec env) sites_file es st" and "clear_vault_secret_flags env io st = (r, st')"
    and "find (\<lambda>e. entry_id e = Some i) es = Some e" and "(field, enc, plain) \<in> set secret_places"
  shows "\<exists>e'. stored_entry (se_codec env) st' i = Some e' \<and> decrypt_secret pr e' enc plain = decrypt_secret pr e enc plain"
proof -
  let ?c = "se_codec env"
  obtain x st1 where p: "clear_proxy_password_flag ?c io st = (x, st1)" by fastforce
  obtain m s1 where g: "read_settings_file ?c io st = (m, s1)" by fastforce
  have "st1 = s1 \<or> (\<exists>q k. write_json ?c io is_map settings_file k s1 = (q, st1))"
    using p g by (auto simp: clear_proxy_password_flag_def split: if_splits)
  then have same: "same_sites st st1"
    using read_settings_apart [OF g] other_written [of ?c io is_map settings_file] same_sites_trans by blast
  have h1: "holds ?c sites_file es st1" using same_sites_holds [OF same] assms(3) by simp
  obtain rs st2 where rd: "read_entries env io sites_file st1 = (rs, st2)" by fastforce
  obtain q st3 where w: "write_entries env io sites_file (map unflagged rs) st2 = (q, st3)" by fastforce
  have h3: "holds ?c sites_file (map unflagged es) st3 \<or> holds ?c sites_file es st3"
    using read_then_written [OF assms(1,2) h1 rd w] by auto
  have "entry_id (unflagged s) = entry_id s" for s by (simp add: unflagged_def entry_id_def)
  then have "find (\<lambda>e. entry_id e = Some i) (map unflagged es) = Some (unflagged e)"
    by (subst find_mapped) (simp_all add: assms(5))
  moreover have "decrypt_secret pr (unflagged e) enc plain = decrypt_secret pr e enc plain"
    using assms(6) by (auto simp: decrypt_secret_def unflagged_def secret_places_def split: option.split)
  ultimately have "\<exists>e'. stored_entry ?c st3 i = Some e' \<and> decrypt_secret pr e' enc plain = decrypt_secret pr e enc plain"
    using h3 holds_entry assms(5) by metis
  moreover have "sites_file \<notin> set [last_good vault_migration_file, vault_migration_file]" by code_simp
  ultimately show ?thesis
    using assms(4,5) p rd w holds_entry [OF h1, of i] markers_removed [of io "[last_good vault_migration_file, vault_migration_file]" st3]
    by (auto simp: clear_vault_secret_flags_def stored_entry_def saved_value_def split: sum.splits)
qed

lemma removed_files: "remove_present venv names fs = (r, fs') \<Longrightarrow> map_of fs' n = map_of fs n \<or> map_of fs' n = None"
proof (induction names arbitrary: fs)
  case (Cons p names)
  have one: "map_of (snd (remove_file venv p fs)) n = map_of fs n \<or> map_of (snd (remove_file venv p fs)) n = None"
    by (auto simp: remove_file_def split: option.split)
  obtain q fs1 where q: "remove_file venv p fs = (q, fs1)" by fastforce
  then have "fs' = fs1 \<or> remove_present venv names fs1 = (r, fs')"
    using Cons.prems by (auto split: sum.splits if_splits)
  then show ?case using Cons.IH one q by fastforce
qed simp


section \<open>Witnesses\<close>

definition toy_entry :: "json_map \<Rightarrow> json_map" where
  "toy_entry secret = [(''id'', JString ''1''), (''protocol'', JString ''sftp''), (''host'', JString ''a'')] @ secret"

definition toy_input :: "string \<Rightarrow> json_map" where
  "toy_input password = [(''id'', JString ''1''), (''name'', JString ''n''), (''protocol'', JString ''sftp''), (''host'', JString ''a''),
     (''password'', JString password)]"

definition toy_with :: "json_map \<Rightarrow> store" where
  "toy_with e = \<lparr>st_folder = [(sites_file, 0, cd_render unary_codec (encode_versioned_store sites_file (json_of_entries [e])))],
     st_issues = []\<rparr>"

definition under_enc :: json_map where "under_enc = [(''enc'', JString ''!pw'')]"

abbreviation "unreadable \<equiv> calm\<lparr>io_unreadable := (\<lambda>n. n = sites_file)\<rparr>"

lemma toy_with_saved: "saved_value unary_codec (st_folder (toy_with e)) sites_file = Some (json_of_entries [e])"
  by (simp add: toy_with_def saved_value_def decode_bytes_def decode_encode bookmark_files_apart unary_codec_def)

lemma toy_entry_simps:
  assumes "secret \<in> {[], under_enc}"
  shows "entry_id (toy_entry secret) = Some ''1''" "\<not> is_folder (toy_entry secret)" "\<not> is_local_scope_entry (toy_entry secret)"
    "parent_of (toy_entry secret) = None"
  using assms by (auto simp: entry_id_def entry_kind_def is_local_scope_entry_def toy_entry_def under_enc_def get_str_def)

lemma toy_with_ok:
  assumes "secret \<in> {[], under_enc}"
  shows "files_ok (se_codec toy_sites) (toy_with (toy_entry secret))"
proof -
  have "holds unary_codec sites_file [toy_entry secret] (toy_with (toy_entry secret))" using toy_with_saved by (simp add: holds_def)
  moreover have "holds unary_codec local_paths_file [] (toy_with (toy_entry secret))"
    using bookmark_files_apart by (simp add: holds_def toy_with_def)
  moreover have "tidy False [toy_entry secret]" "tidy True []"
    using toy_entry_simps [OF assms] by (simp_all add: tidy_def forest_ok_def)
  ultimately show ?thesis unfolding files_ok_def by (auto simp: toy_sites_def)
qed

lemma toy_with_entry:
  assumes "secret \<in> {[], under_enc}"
  shows "stored_entry (se_codec toy_sites) (toy_with (toy_entry secret)) ''1'' = Some (toy_entry secret)"
  using toy_with_saved [of "toy_entry secret"] toy_entry_simps(1) [OF assms] by (simp add: stored_entry_def toy_sites_def)

lemma put_entries_short:
  "\<forall>(k, x) \<in> set ss. length k \<le> u32_max \<and> length x \<le> u32_max \<Longrightarrow> put_entries ss \<noteq> None"
proof (induction ss rule: put_entries.induct)
  case (2 name w rest)
  then have "put_entries rest \<noteq> None" by (simp add: put_part_def)
  then show ?case using 2 by (auto simp: put_part_def)
qed simp

lemma toy_updates:
  assumes "va_state v = Some \<lparr>un_secrets = ss, un_data_key = rn_key toy_random\<rparr>"
    and "\<forall>(k, x) \<in> set (fold apply_update us ss). length k \<le> u32_max \<and> length x \<le> u32_max"
  shows "\<exists>v'. apply_secret_updates tenv n us v = (Inr (), v')
    \<and> va_state v' = Some \<lparr>un_secrets = fold apply_update us ss, un_data_key = rn_key toy_random\<rparr>"
proof -
  obtain plain where "put_entries (fold apply_update us ss) = Some plain" using put_entries_short [OF assms(2)] by blast
  from toy_commit [OF this toy_random_simps(1)] obtain fs where
    "commit tenv n (fold apply_update us ss) (rn_key toy_random) (va_files v) = (Inr (), fs)" by blast
  then show ?thesis by (simp add: apply_secret_updates_def assms(1))
qed

definition toy_stripped :: "bool \<Rightarrow> bool \<Rightarrow> json_map" where
  "toy_stripped a b = stripped_input (al_put ''id'' (JString ''1'') (toy_input [])) a b"

lemma stripped_toy:
  "al_put ''id'' (JString ''1'') (toy_input p) = toy_input p" "stripped_input (toy_input p) a b = toy_stripped a b"
  by (simp_all add: toy_stripped_def stripped_input_def toy_input_def al_put_def al_has_def)

lemma toy_valid_input:
  assumes "(\<forall>k. k \<notin> {''password'', ''keyPassphrase'', ''removePassword'', ''removeKeyPassphrase'', ''hasPassword'', ''hasKeyPassphrase''}
      \<longrightarrow> map_of input k = map_of (toy_input []) k)"
    and "\<forall>k \<in> set secret_inputs. input_type_problem input k = None"
  shows "validate_site_input (\<lambda>_. None) input = Inr ()"
proof -
  have words: "trim_str ''n'' = ''n''" "trim_str ''a'' = ''a''" "char_count ''n'' = 1" "char_count [] = 0" by code_simp+
  have get: "get_str input k = get_str (toy_input []) k"
    if "k \<notin> {''password'', ''keyPassphrase'', ''removePassword'', ''removeKeyPassphrase'', ''hasPassword'', ''hasKeyPassphrase''}" for k
    using assms(1) that by (simp add: get_str_def)
  have texts: "text_of input ''name'' = ''n''" "text_of input ''host'' = ''a''" "text_of input ''protocol'' = ''sftp''"
    "text_of input ''user'' = []" "text_of input ''remotePath'' = []" "text_of input ''keyPath'' = []" "text_of input ''caCertPath'' = []"
    "text_of input ''icon'' = []" "text_of input ''color'' = []" "entry_kind input = None"
    by (simp_all add: text_of_def entry_kind_def get) (simp_all add: toy_input_def get_str_def)
  have none: "map_of input ''maxConnections'' = None" "map_of input ''encoding'' = None" "map_of input ''port'' = None"
    "map_of input ''kind'' = None"
    using assms(1) by (simp_all add: toy_input_def)
  have "is_site_kind input" using none(4) by (simp add: is_site_kind_def)
  then show ?thesis using assms(2) words texts none
    by (simp add: validate_site_input_def site_problems_def server_problems_def validate_name_def problem_if_def
        secret_inputs_def length_limits_def address_problem_def protocol_named_def unset_or_def
        max_site_string_len_def max_host_len_def Let_def)
qed

lemma toy_valid_inputs: "validate_site_input (\<lambda>_. None) (toy_input p) = Inr ()" "validate_site_input (\<lambda>_. None) (toy_stripped a b) = Inr ()"
proof -
  show "validate_site_input (\<lambda>_. None) (toy_input p) = Inr ()"
    by (rule toy_valid_input) (simp_all add: toy_input_def input_type_problem_def secret_inputs_def problem_if_def)
  show "validate_site_input (\<lambda>_. None) (toy_stripped a b) = Inr ()"
    by (rule toy_valid_input)
      (simp_all add: toy_stripped_def stripped_input_def toy_input_def input_type_problem_def secret_inputs_def problem_if_def)
qed

lemma toy_server:
  assumes "\<forall>k \<in> set server_keys. map_of r k = map_of (toy_entry []) k" and "map_of r ''maxConnections'' = None"
  shows "server_from_json r = Inr \<lparr>sv_protocol = Sftp, sv_host = ''a'', sv_port = None, sv_webdav_url = [], sv_user = [],
     sv_remote_path = ''/'', sv_allow_invalid_cert = False, sv_allow_cleartext_auth = False, sv_ca_cert_path = [],
     sv_use_key_auth = False, sv_key_path = [], sv_encoding = [], sv_max_connections = None\<rparr>"
proof -
  have "server_from_json r = server_from_json (toy_entry [])"
    by (rule server_from_json_frame [OF assms(1)]) (use assms(2) in \<open>simp add: number_def toy_entry_def\<close>)
  then show ?thesis
    by (simp add: server_from_json_def number_def read_protocol_def toy_entry_def get_str_def get_bool_def start_folder_def Let_def)
qed

lemma toy_pieces_vault:
  assumes "secret \<in> {[], under_enc}"
  shows "site_scope (toy_entry secret) = site_scope (toy_input p)" "site_scope (toy_entry secret) = site_scope (toy_stripped a b)"
    "is_Ok (site_scope (toy_entry secret))" "entry_kind (toy_input p) = None" "entry_kind (toy_stripped a b) = None"
    "given_id (toy_input p) = Some ''1''" "given_id (toy_stripped a b) = Some ''1''"
    "parse_parent_id (map_of (toy_stripped a b) ''parentId'') = Inr None"
    "is_Ok (site_record (toy_stripped a b) ''1'' None (Some (toy_entry secret)))"
proof -
  have e: "\<forall>k \<in> set server_keys. map_of (toy_entry secret) k = map_of (toy_entry []) k"
    "map_of (toy_entry secret) ''maxConnections'' = None"
    using assms by (elim insertE; simp add: server_keys_def toy_entry_def under_enc_def)+
  have i: "\<forall>k \<in> set server_keys. map_of (toy_input p) k = map_of (toy_entry []) k" "map_of (toy_input p) ''maxConnections'' = None"
    by (simp_all add: server_keys_def toy_entry_def toy_input_def)
  have s: "\<forall>k \<in> set server_keys. map_of (toy_stripped a b) k = map_of (toy_entry []) k" "map_of (toy_stripped a b) ''maxConnections'' = None"
    by (simp_all add: server_keys_def toy_entry_def toy_input_def toy_stripped_def stripped_input_def)
  show "site_scope (toy_entry secret) = site_scope (toy_input p)" "site_scope (toy_entry secret) = site_scope (toy_stripped a b)"
    "is_Ok (site_scope (toy_entry secret))"
    unfolding site_scope_def server_or_unset_read [OF toy_server [OF e]] server_or_unset_read [OF toy_server [OF i]]
      server_or_unset_read [OF toy_server [OF s]] by simp_all
  show "entry_kind (toy_input p) = None" "entry_kind (toy_stripped a b) = None"
    by (simp_all add: entry_kind_def toy_input_def toy_stripped_def stripped_input_def get_str_def)
  show "given_id (toy_input p) = Some ''1''" "given_id (toy_stripped a b) = Some ''1''"
    by (simp_all add: given_id_def toy_input_def toy_stripped_def stripped_input_def get_str_def)
  show "is_Ok (site_record (toy_stripped a b) ''1'' None (Some (toy_entry secret)))"
    using \<open>entry_kind (toy_stripped a b) = None\<close> unfolding site_record_def toy_server [OF s] by (simp add: Let_def server_or_unset_read [OF toy_server [OF e]])
  show "parse_parent_id (map_of (toy_stripped a b) ''parentId'') = Inr None"
    by (simp add: parse_parent_id_def toy_input_def toy_stripped_def stripped_input_def)
qed

lemma same_place_confirmed:
  assumes "site_scope e = site_scope input" and "is_Ok (site_scope e)"
  shows "ensure_confirmed_move (Some e) input replaced None lost = Inr ()"
  using assms by (cases "site_scope input") (auto simp: ensure_confirmed_move_def site_transfer_def secret_move_def)

lemma toy_codec_is: "se_codec toy_sites = unary_codec" by (simp add: toy_sites_def)

lemma toy_calm_read:
  "read_entries toy_sites calm sites_file (toy_with e) = ([e], toy_with e)"
  using saved_value_read [OF toy_with_saved, where fits = is_entries and io = calm] by (simp add: read_entries_def toy_sites_def)

lemma toy_local_read: "read_entries toy_sites calm local_paths_file (toy_with e) = ([], toy_with e)"
  using bookmark_files_apart
  by (simp add: read_entries_def read_json_def recover_def read_file_def toy_with_def is_missing_def Let_def)

lemma toy_writable: "n = sites_file \<or> n = local_paths_file \<Longrightarrow> ensure_writable unary_codec calm n (toy_with e) = (Inr (), toy_with e)"
  using toy_with_saved [of e] bookmark_files_apart
  by (auto simp: ensure_writable_def read_file_def saved_value_def toy_with_def split: option.splits sum.splits)

lemma toy_split: "\<not> is_local_scope_entry e \<Longrightarrow> ensure_storage_split toy_sites calm (toy_with e) = (Inr (), toy_with e)"
  by (simp add: ensure_storage_split_def toy_calm_read)

lemma toy_snapshot: "\<not> is_local_scope_entry e \<Longrightarrow> snapshot_sites toy_sites calm (toy_with e) = (Inr [e], toy_with e)"
  using toy_writable [of sites_file e] toy_writable [of local_paths_file e]
  by (simp add: snapshot_sites_def toy_split toy_calm_read toy_local_read toy_codec_is)

abbreviation "toy_changes p e \<equiv> secret_change (toy_input p) ''1'' ''password'' ''removePassword'' (has_saved_password e)"

lemma toy_vault_save:
  assumes "secret \<in> {[], under_enc}" and "toy_changes p (toy_entry secret) = (us, a)"
  shows "save_site_with_vault toy_sites calm io' tenv [] [] False ''9'' (toy_input p) None (toy_with (toy_entry secret)) toy_filled
    = vault_then_file tenv [] [] False ''1'' us (save_site toy_sites io' ''9'' (toy_stripped a False)) (toy_with (toy_entry secret)) toy_filled"
proof -
  note e = toy_entry_simps [OF assms(1)] and pieces = toy_pieces_vault [OF assms(1)]
  have ok: "ensure_confirmed_move (Some (toy_entry secret)) (toy_input p) replaced None False = Inr ()" for replaced
    by (rule same_place_confirmed) (use pieces in auto)
  have kp: "secret_change (toy_input p) ''1'' ''keyPassphrase'' ''removeKeyPassphrase'' (has_saved_key_passphrase (toy_entry secret)) = ([], False)"
    using assms(1) by (auto simp: secret_change_def toy_input_def toy_entry_def under_enc_def text_of_def get_str_def flag_of_def
        get_bool_def has_saved_key_passphrase_def has_saved_secret_def)
  have label: "se_for_label toy_sites = (\<lambda>_. None)" by (simp add: toy_sites_def)
  show ?thesis
    using toy_filled_state(2) pieces(6) e(1) assms(2)
    by (simp add: save_site_with_vault_def save_site_with_vault_inner_def is_unlocked_def toy_filled_state(1) stripped_toy toy_valid_inputs label
        toy_snapshot [OF e(3)] toy_calm_read ok kp)
qed

lemma toy_saved_record:
  assumes "secret \<in> {[], under_enc}"
  shows "\<exists>q. saved_record toy_sites (toy_stripped a b) None ''1'' None (Some (toy_entry secret)) = Inr (q, False)"
proof -
  note pieces = toy_pieces_vault [OF assms]
  have flags: "flag_of (toy_stripped a b) ''removePassword''" "flag_of (toy_stripped a b) ''removeKeyPassphrase''"
    by (simp_all add: toy_stripped_def)
  obtain r where r: "site_record (toy_stripped a b) ''1'' None (Some (toy_entry secret)) = Inr r"
    using pieces(9) [of a b] by (cases "site_record (toy_stripped a b) ''1'' None (Some (toy_entry secret))") simp_all
  have "ensure_confirmed_move (Some (toy_entry secret)) (toy_stripped a b) replaced None lost = Inr ()" for replaced lost
    by (rule same_place_confirmed) (use pieces in auto)
  then show ?thesis using r pieces(5) flags by (simp add: saved_record_def the_secret_def)
qed

lemma toy_saved_under_vault:
  assumes "secret \<in> {[], under_enc}"
  shows "\<exists>st'. save_site toy_sites calm ''9'' (toy_stripped a b) (toy_with (toy_entry secret))
    = (Inr \<lparr>so_id = ''1'', so_not_persisted = False\<rparr>, st')"
proof -
  note e = toy_entry_simps [OF assms] and pieces = toy_pieces_vault [OF assms]
  obtain q where q: "saved_record toy_sites (toy_stripped a b) None ''1'' None (Some (toy_entry secret)) = Inr (q, False)"
    using toy_saved_record [OF assms] by blast
  obtain st' where "write_json unary_codec calm is_entries sites_file (json_of_entries [q]) (toy_with (toy_entry secret)) = (Inr (), st')"
    using calm_write [OF toy_writable [OF disjI1 [OF refl]]] by blast
  then have "write_entries toy_sites calm sites_file [q] (toy_with (toy_entry secret)) = (Inr (), st')"
    by (simp add: write_entries_def toy_codec_is)
  then show ?thesis
    using toy_valid_inputs(2) [of a b] e pieces q
    by (simp add: save_site_def save_site_with_protector_def toy_split toy_calm_read validate_parent_def toy_label Let_def)
qed

lemma unreadable_not_saved: "save_site toy_sites unreadable ''9'' (toy_stripped a b) st \<noteq> (Inr out, st')"
proof
  assume run: "save_site toy_sites unreadable ''9'' (toy_stripped a b) st = (Inr out, st')"
  have kind: "entry_kind (toy_stripped a b) = None" using toy_pieces_vault(5) [of "[]"] by simp
  have "\<exists>x. fst (write_entries toy_sites unreadable sites_file es st1) = Inl x" for es st1
    by (auto simp: write_entries_def write_json_def write_json_unnamed_def ensure_writable_def read_file_def
        split: option.splits sum.splits prod.splits)
  then show False using run kind
    by (auto simp: save_site_def save_site_with_protector_def Let_def split: sum.splits prod.splits if_splits) (metis fst_conv Inl_Inr_False)+
qed

lemma plain_errors:
  "validate_site_input f input \<noteq> Inl (RollbackFailed x y)"
  "parse_parent_id j \<noteq> Inl (RollbackFailed x y)"
  "validate_parent es i kind p \<noteq> Inl (RollbackFailed x y)"
  "write_entries env io name es st \<noteq> (Inl (RollbackFailed x y), st')"
  "site_record input i p old \<noteq> Inl (RollbackFailed x y)"
  "ensure_confirmed_move stored input replaced confirmed lost \<noteq> Inl (RollbackFailed x y)"
  by (auto simp: validate_site_input_def parse_parent_id_def validate_parent_def write_entries_def site_record_def
      ensure_confirmed_move_def Let_def split: option.splits json.splits if_splits sum.splits prod.splits)

lemma save_site_no_rollback: "save_site env io fresh input st \<noteq> (Inl (RollbackFailed x y), st')"
proof -
  have split: "ensure_storage_split env io s \<noteq> (Inl (RollbackFailed x y), s')" for s s'
    by (auto simp: ensure_storage_split_def Let_def plain_errors(4) split: prod.splits sum.splits if_splits)
  have rec: "saved_record env input confirmed i p old \<noteq> Inl (RollbackFailed x y)" for confirmed i p old
    by (auto simp: saved_record_def Let_def plain_errors(5,6) split: prod.splits sum.splits if_splits)
  show ?thesis
  proof
    assume "save_site env io fresh input st = (Inl (RollbackFailed x y), st')"
    then show False
      by (auto simp: save_site_def save_site_with_protector_def Let_def split rec plain_errors(1-4)
          split: prod.splits sum.splits if_splits)
  qed
qed

text \<open>The save of a new password that the file then refuses: the vault is put back.\<close>

lemma toy_failed_save:
  "\<exists>e st' v'. save_site_with_vault toy_sites calm unreadable tenv [] [] False ''9'' (toy_input ''pw'') None
      (toy_with (toy_entry [])) toy_filled = (Inl e, st', v') \<and> (\<forall>x e'. e \<noteq> RollbackFailed x e')"
proof -
  let ?us = "[SetSecret ''1'' ''password'' ''pw'']" and ?save = "save_site toy_sites unreadable ''9'' (toy_stripped True False)"
  have us: "toy_changes ''pw'' (toy_entry []) = (?us, True)"
    by (simp add: secret_change_def toy_input_def text_of_def get_str_def flag_of_def get_bool_def)
  obtain v1 where v1: "apply_secret_updates tenv [] ?us toy_filled = (Inr (), v1)"
    "va_state v1 = Some \<lparr>un_secrets = fold apply_update ?us [], un_data_key = rn_key toy_random\<rparr>"
    using toy_updates [OF toy_filled_state(1), of ?us "[]"] by (auto simp: secret_key_def)
  obtain e st1 where save: "?save (toy_with (toy_entry [])) = (Inl e, st1)"
    using unreadable_not_saved by (metis sum.exhaust surj_pair)
  obtain v2 where v2: "restore_secrets tenv [] ''1'' None None (maybe_locked False v1) = (Inr (), v2)"
    using toy_updates [OF v1(2), of "[DeleteSecret ''1'' ''password'', DeleteSecret ''1'' ''keyPassphrase'']" "[]"]
    by (auto simp: restore_secrets_def maybe_locked_def al_del_def secret_key_def)
  have "get_secret ''1'' f toy_filled = Inr None" for f by (simp add: get_secret_def get_key_def toy_filled_state(1))
  then have "save_site_with_vault toy_sites calm unreadable tenv [] [] False ''9'' (toy_input ''pw'') None
      (toy_with (toy_entry [])) toy_filled = (Inl e, st1, v2)"
    using toy_vault_save [OF _ us, of unreadable] v1(1) save v2 by (simp add: vault_then_file_def)
  then show ?thesis using save save_site_no_rollback by blast
qed

theorem failed_save_changes_nothing_witness:
  "\<exists>e st' v'. save_site_with_vault toy_sites calm unreadable tenv [] [] False ''9'' (toy_input ''pw'') None
      (toy_with (toy_entry [])) toy_filled = (Inl e, st', v')
    \<and> get_key (secret_key ''1'' ''password'') v' = get_key (secret_key ''1'' ''password'') toy_filled"
proof -
  obtain e st' v' where run: "save_site_with_vault toy_sites calm unreadable tenv [] [] False ''9'' (toy_input ''pw'') None
      (toy_with (toy_entry [])) toy_filled = (Inl e, st', v')" "\<forall>x e'. e \<noteq> RollbackFailed x e'"
    using toy_failed_save by blast
  have "files_ok (se_codec toy_sites) (toy_with (toy_entry []))" by (rule toy_with_ok) simp
  from failed_save_changes_nothing [OF this _ _ run] show ?thesis using run(1) by auto
qed

lemma toy_done_save:
  assumes "secret \<in> {[], under_enc}" and "p = [] \<or> p = ''pw''"
  shows "\<exists>st' v'. save_site_with_vault toy_sites calm calm tenv [] [] False ''9'' (toy_input p) None
      (toy_with (toy_entry secret)) toy_filled = (Inr \<lparr>so_id = ''1'', so_not_persisted = False\<rparr>, st', v')"
proof -
  obtain us a where us: "toy_changes p (toy_entry secret) = (us, a)" by fastforce
  have "us = [] \<or> us = [SetSecret ''1'' ''password'' ''pw'']"
    using us assms(2) by (auto simp: secret_change_def toy_input_def text_of_def get_str_def flag_of_def get_bool_def)
  then obtain v1 where v1: "apply_secret_updates tenv [] us toy_filled = (Inr (), v1)"
    using toy_updates [OF toy_filled_state(1), of us "[]"] by (auto simp: secret_key_def)
  obtain st' where "save_site toy_sites calm ''9'' (toy_stripped a False) (toy_with (toy_entry secret))
    = (Inr \<lparr>so_id = ''1'', so_not_persisted = False\<rparr>, st')" using toy_saved_under_vault [OF assms(1)] by blast
  moreover have "get_secret ''1'' f toy_filled = Inr None" for f by (simp add: get_secret_def get_key_def toy_filled_state(1))
  ultimately show ?thesis using toy_vault_save [OF assms(1) us, of calm] v1 by (simp add: vault_then_file_def)
qed

theorem saved_flags_match_the_vault_witness:
  "\<exists>st' v'. save_site_with_vault toy_sites calm calm tenv [] [] False ''9'' (toy_input ''pw'') None (toy_with (toy_entry [])) toy_filled
      = (Inr \<lparr>so_id = ''1'', so_not_persisted = False\<rparr>, st', v')
    \<and> get_secret ''1'' ''password'' v' = Inr (Some ''pw'')"
proof -
  obtain st' v' where run: "save_site_with_vault toy_sites calm calm tenv [] [] False ''9'' (toy_input ''pw'') None
      (toy_with (toy_entry [])) toy_filled = (Inr \<lparr>so_id = ''1'', so_not_persisted = False\<rparr>, st', v')"
    using toy_done_save [of "[]" "''pw''"] by blast
  have agree: "secrets_agree (se_codec toy_sites) (toy_with (toy_entry [])) toy_filled ''1''"
    using toy_with_entry [of "[]"]
    by (simp add: secrets_agree_def flag_true_def get_secret_def get_key_def toy_filled_state(1) has_saved_password_def
        has_saved_key_passphrase_def has_saved_secret_def toy_entry_def get_str_def get_bool_def)
  have text_pw: "text_of (toy_input ''pw'') ''password'' = ''pw''" "\<not> flag_of (toy_input ''pw'') ''removePassword''"
    by (simp_all add: toy_input_def text_of_def get_str_def flag_of_def get_bool_def)
  have "files_ok (se_codec toy_sites) (toy_with (toy_entry []))" by (rule toy_with_ok) simp
  from saved_flags_match_the_vault [OF sites_lossless _ _ this toy_filled_state(2) _ run]
  show ?thesis using agree run text_pw toy_pieces_vault(4,6) [of "[]" "''pw''"] by simp
qed

theorem unmoved_password_is_lost_witness:
  "\<exists>st' v' new. save_site_with_vault toy_sites calm calm tenv [] [] False ''9'' (toy_input []) None (toy_with (toy_entry under_enc)) toy_filled
      = (Inr \<lparr>so_id = ''1'', so_not_persisted = False\<rparr>, st', v')
    \<and> decrypt_secret (se_protector toy_sites) (toy_entry under_enc) ''enc'' ''plain'' = ''pw''
    \<and> stored_entry (se_codec toy_sites) st' ''1'' = Some new \<and> has_saved_password new
    \<and> \<not> has_saved_secret new ''enc'' ''plain'' \<and> get_secret ''1'' ''password'' v' = Inr None"
proof -
  obtain st' v' where run: "save_site_with_vault toy_sites calm calm tenv [] [] False ''9'' (toy_input []) None
      (toy_with (toy_entry under_enc)) toy_filled = (Inr \<lparr>so_id = ''1'', so_not_persisted = False\<rparr>, st', v')"
    using toy_done_save [of under_enc "[]"] by blast
  have "files_ok (se_codec toy_sites) (toy_with (toy_entry under_enc))" by (rule toy_with_ok) simp
  note lost = unmoved_password_is_lost [OF sites_lossless _ _ this toy_filled_state(2) _ run]
  have "decrypt_secret (se_protector toy_sites) (toy_entry under_enc) ''enc'' ''plain'' = ''pw''" by code_simp
  moreover have "has_saved_secret (toy_entry under_enc) ''enc'' ''plain''" by code_simp
  moreover have "get_secret ''1'' ''password'' toy_filled = Inr None" by (simp add: get_secret_def get_key_def toy_filled_state(1))
  moreover have "text_of (toy_input []) ''password'' = []" "\<not> flag_of (toy_input []) ''removePassword''" by code_simp+
  ultimately show ?thesis
    using lost [of "''1''"] run toy_with_entry [of under_enc] toy_pieces_vault(4,6) [of "[]" "[]"] by simp
qed



end
