(* ===== verification/SitesImport.thy ===== *)
theory SitesImport
  imports SecretMoves ListParse
begin

text \<open>
  Bookmarks moving between installations (\<open>store/sites/transfer.rs\<close>): the saved secrets an export seals, and an
  import, which is planned on copies of the two lists, written once to the vault and once to each file, and can
  be undone. It holds the locks of the vault and of both files until it is kept or undone, so it is one step.
  Fresh identifiers are drawn from a sequence, the argument \<open>fresh\<close>.
\<close>

section \<open>Secrets for an export\<close>

definition import_fields :: "(string \<times> string \<times> string \<times> string) list" where
  "import_fields = [(''password'', ''enc'', ''plain'', ''hasPassword''), (''keyPassphrase'', ''keyEnc'', ''keyPlain'', ''hasKeyPassphrase'')]"

record saved_secrets =
  ss_password :: "string option"
  ss_key_passphrase :: "string option"

record exportable_secrets =
  es_by_id :: "(string \<times> saved_secrets) list"
  es_unreadable :: "(string \<times> string) list"

definition entry_name :: "json_map \<Rightarrow> string" where "entry_name r = text_of r ''name''"

text \<open>One secret of a bookmark and whether it could be read.\<close>

definition exported_secret ::
  "protector \<Rightarrow> bool \<Rightarrow> vault \<Rightarrow> json_map \<Rightarrow> string \<Rightarrow> string \<times> string \<times> string \<times> string \<Rightarrow> site_error + string option \<times> bool" where
  "exported_secret pr in_vault v site i = (\<lambda>(field, enc, plain, flag).
     (if in_vault then
        (case get_secret i field v of
           Inl e \<Rightarrow> Inl (VaultFailed e)
         | Inr None \<Rightarrow> Inr (None, True)
         | Inr (Some raw) \<Rightarrow> Inr (if valid_utf8 raw then (nonempty (Some raw), True) else (None, False)))
      else if secret_undecryptable pr site enc then Inr (None, False)
      else Inr (nonempty (Some (decrypt_secret pr site enc plain)), True)))"

fun export_each ::
  "protector \<Rightarrow> bool \<Rightarrow> vault \<Rightarrow> json_map list \<Rightarrow> exportable_secrets \<Rightarrow> site_error + exportable_secrets" where
  "export_each pr in_vault v [] acc = Inr acc"
| "export_each pr in_vault v (site # sites) acc =
     (case entry_id site of
        None \<Rightarrow> export_each pr in_vault v sites acc
      | Some i \<Rightarrow>
          if is_folder site then export_each pr in_vault v sites acc
          else (case exported_secret pr in_vault v site i (import_fields ! 0) of
            Inl e \<Rightarrow> Inl e
          | Inr (password, ok1) \<Rightarrow> (case exported_secret pr in_vault v site i (import_fields ! 1) of
              Inl e \<Rightarrow> Inl e
            | Inr (passphrase, ok2) \<Rightarrow>
                export_each pr in_vault v sites
                  (if \<not> (ok1 \<and> ok2) then acc\<lparr>es_unreadable := es_unreadable acc @ [(i, entry_name site)]\<rparr>
                   else if password \<noteq> None \<or> passphrase \<noteq> None
                   then acc\<lparr>es_by_id := al_put i \<lparr>ss_password = password, ss_key_passphrase = passphrase\<rparr> (es_by_id acc)\<rparr>
                   else acc))))"

definition secrets_for_export :: "site_env \<Rightarrow> io \<Rightarrow> store \<Rightarrow> vault \<Rightarrow> (site_error + exportable_secrets) \<times> store" where
  "secrets_for_export env io st v =
     (case ensure_storage_split env io st of
        (Inl e, st1) \<Rightarrow> (Inl e, st1)
      | (Inr _, st1) \<Rightarrow> (case migrate_plaintext_secrets env io st1 of
          (Inl e, st2) \<Rightarrow> (Inl e, st2)
        | (Inr _, st2) \<Rightarrow>
            if is_configured v \<and> \<not> is_unlocked v then (Inl (VaultFailed Locked), st2)
            else (case read_entries env io sites_file st2 of
              (sites, st3) \<Rightarrow>
                (export_each (se_protector env) (is_configured v) v sites \<lparr>es_by_id = [], es_unreadable = []\<rparr>, st3))))"

section \<open>What is the same bookmark\<close>

definition normalize_identity_part :: "site_env \<Rightarrow> string \<Rightarrow> string" where
  "normalize_identity_part env s = se_lowercase env (trim_str s)"

definition folder_identity_key :: "site_env \<Rightarrow> json_map \<Rightarrow> string" where
  "folder_identity_key env r =
     ''folder|'' @ (if get_str r ''managerScope'' = Some ''localPaths'' then ''localPaths'' else ''bookmarks'') @ ''|''
       @ normalize_identity_part env (entry_name r)"

definition site_identity_key :: "site_env \<Rightarrow> json_map \<Rightarrow> string" where
  "site_identity_key env r =
     (if entry_kind r = Some ''local'' then ''local|'' @ normalize_identity_part env (text_of r ''localPath'')
      else (let protocol = text_of r ''protocol'';
                address = text_of r (if protocol = ''webdav'' then ''webdavUrl'' else ''host'');
                port = (case Option.bind (map_of r ''port'') as_i64 of None \<Rightarrow> [] | Some p \<Rightarrow> if p = 0 then [] else show_int p)
            in protocol @ ''|'' @ normalize_identity_part env address @ ''|'' @ port @ ''|''
                 @ normalize_identity_part env (text_of r ''user'')))"

section \<open>Placing a secret\<close>

record imported_secret =
  is_scope :: credential_scope
  is_password :: "string option"
  is_key_passphrase :: "string option"

record sites_imported =
  si_added :: nat
  si_skipped :: nat
  si_secrets_saved :: nat
  si_flags_restored :: nat
  si_scope_mismatches :: "string list"
  si_unmatched :: "string list"

text \<open>A secret planned for the vault: the bookmark, the field, the value.\<close>

type_synonym planned = "(string \<times> string \<times> string) list"

fun place_fields ::
  "protector \<Rightarrow> vault option \<Rightarrow> string \<Rightarrow> ((string \<times> string \<times> string \<times> string) \<times> string option) list
    \<Rightarrow> json_map \<times> planned \<times> sites_imported \<Rightarrow> site_error + json_map \<times> planned \<times> sites_imported" where
  "place_fields pr target i [] s = Inr s"
| "place_fields pr target i (((field, enc, plain, flag), val) # rest) (entry, plan, out) =
     (case nonempty val of
        None \<Rightarrow> place_fields pr target i rest (entry, plan, out)
      | Some secret \<Rightarrow>
          (case target of
             Some v \<Rightarrow>
               (case (if \<exists>w. (i, field, w) \<in> set plan then Inr True
                      else (case get_secret i field v of Inl e \<Rightarrow> Inl e | Inr s \<Rightarrow> Inr (s \<noteq> None))) of
                  Inl e \<Rightarrow> Inl (VaultFailed e)
                | Inr saved \<Rightarrow>
                    place_fields pr target i rest
                      (al_put flag (JBool True) entry,
                       if saved then plan else plan @ [(i, field, secret)],
                       if \<not> saved then out\<lparr>si_secrets_saved := Suc (si_secrets_saved out)\<rparr>
                       else if map_of entry flag \<noteq> Some (JBool True) then out\<lparr>si_flags_restored := Suc (si_flags_restored out)\<rparr>
                       else out))
           | None \<Rightarrow>
               if has_saved_secret entry enc plain then place_fields pr target i rest (entry, plan, out)
               else (case pr_protect pr secret of
                 None \<Rightarrow> Inl NotProtected
               | Some protected \<Rightarrow>
                   place_fields pr target i rest
                     (al_put flag (JBool True) (al_put enc (JString (pr_b64 pr protected)) entry), plan,
                      out\<lparr>si_secrets_saved := Suc (si_secrets_saved out)\<rparr>))))"

definition place_secret ::
  "protector \<Rightarrow> vault option \<Rightarrow> imported_secret \<Rightarrow> json_map \<Rightarrow> planned \<Rightarrow> sites_imported
    \<Rightarrow> site_error + json_map \<times> planned \<times> sites_imported" where
  "place_secret pr target secret entry plan out =
     place_fields pr target (text_of entry ''id'') (zip import_fields [is_password secret, is_key_passphrase secret]) (entry, plan, out)"

section \<open>Planning an import\<close>

record import_state =
  im_bookmarks :: "json_map list"
  im_local :: "json_map list"
  im_outcome :: sites_imported
  im_planned :: planned
  im_folder_ids :: "(string \<times> string \<times> bool) list"
  im_known_folders :: "(string \<times> string) list"
  im_known_sites :: "string list"
  im_secrets :: "(string \<times> imported_secret) list"
  im_next :: nat

definition known_folders_of :: "site_env \<Rightarrow> json_map list \<Rightarrow> (string \<times> string) list" where
  "known_folders_of env es =
     fold (\<lambda>e m. if is_folder e then (case entry_id e of None \<Rightarrow> m | Some i \<Rightarrow> al_put (folder_identity_key env e) i m) else m) es []"

definition import_folder :: "site_env \<Rightarrow> (nat \<Rightarrow> string) \<Rightarrow> json_map \<Rightarrow> import_state \<Rightarrow> import_state" where
  "import_folder env fresh r s =
     (let is_local_paths = (get_str r ''managerScope'' = Some ''localPaths''); key = folder_identity_key env r;
          (i, s1) = (case map_of (im_known_folders s) key of
             Some existing \<Rightarrow> (existing, s\<lparr>im_outcome := (im_outcome s)\<lparr>si_skipped := Suc (si_skipped (im_outcome s))\<rparr>\<rparr>)
           | None \<Rightarrow>
               (let i = fresh (im_next s); folder = folder_record r i;
                    placed = (if is_local_paths then s\<lparr>im_local := im_local s @ [folder]\<rparr> else s\<lparr>im_bookmarks := im_bookmarks s @ [folder]\<rparr>)
                in (i, placed\<lparr>im_known_folders := al_put key i (im_known_folders s), im_next := Suc (im_next s),
                     im_outcome := (im_outcome s)\<lparr>si_added := Suc (si_added (im_outcome s))\<rparr>\<rparr>)))
      in case entry_id r of
           None \<Rightarrow> s1 | Some old \<Rightarrow> s1\<lparr>im_folder_ids := al_put old (i, is_local_paths) (im_folder_ids s1)\<rparr>)"

text \<open>The secret a record brings, if it was saved for just where the record points.\<close>

definition take_secret :: "json_map \<Rightarrow> import_state \<Rightarrow> imported_secret option \<times> import_state" where
  "take_secret r s =
     (case entry_id r of
        None \<Rightarrow> (None, s)
      | Some i \<Rightarrow> (case map_of (im_secrets s) i of
          None \<Rightarrow> (None, s)
        | Some secret \<Rightarrow>
            (let s1 = s\<lparr>im_secrets := al_del i (im_secrets s)\<rparr>
             in if site_scope r = Inr (is_scope secret) then (Some secret, s1)
                else (None, s1\<lparr>im_outcome := (im_outcome s)\<lparr>si_scope_mismatches := si_scope_mismatches (im_outcome s) @ [entry_name r]\<rparr>\<rparr>))))"

text \<open>The bookmarks here that a secret was saved for, by their positions.\<close>

definition same_recipient :: "credential_scope \<Rightarrow> json_map list \<Rightarrow> nat list" where
  "same_recipient scope es = filter (\<lambda>k. \<not> is_folder (es ! k) \<and> site_scope (es ! k) = Inr scope) [0..<length es]"

definition give_to_known ::
  "protector \<Rightarrow> vault option \<Rightarrow> json_map \<Rightarrow> imported_secret \<Rightarrow> import_state \<Rightarrow> site_error + import_state" where
  "give_to_known pr target r secret s =
     (case same_recipient (is_scope secret) (im_bookmarks s) of
        [k] \<Rightarrow> (case place_secret pr target secret (im_bookmarks s ! k) (im_planned s) (im_outcome s) of
                  Inl e \<Rightarrow> Inl e
                | Inr (entry, plan, out) \<Rightarrow>
                    Inr (s\<lparr>im_bookmarks := (im_bookmarks s)[k := entry], im_planned := plan, im_outcome := out\<rparr>))
      | _ \<Rightarrow> Inr (s\<lparr>im_outcome := (im_outcome s)\<lparr>si_unmatched := si_unmatched (im_outcome s) @ [entry_name r]\<rparr>\<rparr>))"

text \<open>The folder a record goes into: one of its own kind of list, or the root.\<close>

definition new_parent :: "json_map \<Rightarrow> import_state \<Rightarrow> string option" where
  "new_parent r s =
     (case Option.bind (get_str r ''parentId'') (map_of (im_folder_ids s)) of
        None \<Rightarrow> None
      | Some (i, folder_is_local) \<Rightarrow> if folder_is_local = (entry_kind r = Some ''local'') then Some i else None)"

definition add_site ::
  "protector \<Rightarrow> vault option \<Rightarrow> (nat \<Rightarrow> string) \<Rightarrow> json_map \<Rightarrow> string \<Rightarrow> imported_secret option \<Rightarrow> import_state \<Rightarrow> site_error + import_state" where
  "add_site pr target fresh r key secret s =
     (let i = fresh (im_next s); s1 = s\<lparr>im_next := Suc (im_next s), im_known_sites := key # im_known_sites s\<rparr>;
          counted = (\<lambda>out. out\<lparr>si_added := Suc (si_added out)\<rparr>)
      in case site_record r i (new_parent r s) None of
           Inl e \<Rightarrow> Inl e
         | Inr entry \<Rightarrow>
             if entry_kind r = Some ''local''
             then Inr (s1\<lparr>im_local := im_local s @ [entry], im_outcome := counted (im_outcome s)\<rparr>)
             else (let flagged = al_put ''hasKeyPassphrase'' (JBool False) (al_put ''hasPassword'' (JBool False) entry)
                   in case (case secret of None \<Rightarrow> Inr (flagged, im_planned s, im_outcome s)
                            | Some x \<Rightarrow> place_secret pr target x flagged (im_planned s) (im_outcome s)) of
                        Inl e \<Rightarrow> Inl e
                      | Inr (entry', plan, out) \<Rightarrow>
                          Inr (s1\<lparr>im_bookmarks := im_bookmarks s @ [entry'], im_planned := plan, im_outcome := counted out\<rparr>)))"

definition import_site ::
  "site_env \<Rightarrow> vault option \<Rightarrow> (nat \<Rightarrow> string) \<Rightarrow> json_map \<Rightarrow> import_state \<Rightarrow> site_error + import_state" where
  "import_site env target fresh r s0 =
     (case take_secret r s0 of
        (secret, s) \<Rightarrow>
          (let key = site_identity_key env r
           in if key \<in> set (im_known_sites s)
              then (let s1 = s\<lparr>im_outcome := (im_outcome s)\<lparr>si_skipped := Suc (si_skipped (im_outcome s))\<rparr>\<rparr>
                    in case secret of None \<Rightarrow> Inr s1 | Some x \<Rightarrow> give_to_known (se_protector env) target r x s1)
              else add_site (se_protector env) target fresh r key secret s))"

fun import_each ::
  "site_env \<Rightarrow> vault option \<Rightarrow> (nat \<Rightarrow> string) \<Rightarrow> json_map list \<Rightarrow> import_state \<Rightarrow> site_error + import_state" where
  "import_each env target fresh [] s = Inr s"
| "import_each env target fresh (r # rs) s =
     (case import_site env target fresh r s of Inl e \<Rightarrow> Inl e | Inr s' \<Rightarrow> import_each env target fresh rs s')"

definition no_sites_imported :: sites_imported where
  "no_sites_imported = \<lparr>si_added = 0, si_skipped = 0, si_secrets_saved = 0, si_flags_restored = 0, si_scope_mismatches = [], si_unmatched = []\<rparr>"

definition plan_import ::
  "site_env \<Rightarrow> vault option \<Rightarrow> (nat \<Rightarrow> string) \<Rightarrow> json_map list \<Rightarrow> (string \<times> imported_secret) list \<Rightarrow> json_map list \<Rightarrow> json_map list
    \<Rightarrow> site_error + import_state" where
  "plan_import env target fresh sites secrets bookmarks local =
     import_each env target fresh (filter (\<lambda>r. \<not> is_folder r) sites)
       (fold (import_folder env fresh) (filter is_folder sites)
         \<lparr>im_bookmarks = bookmarks, im_local = local, im_outcome = no_sites_imported, im_planned = [], im_folder_ids = [],
          im_known_folders = known_folders_of env (bookmarks @ local),
          im_known_sites = map (site_identity_key env) (filter (\<lambda>e. \<not> is_folder e) (bookmarks @ local)),
          im_secrets = secrets, im_next = 0\<rparr>)"

section \<open>Writing and undoing an import\<close>

record sites_import =
  sm_bookmarks_before :: "json_map list option"
  sm_local_before :: "json_map list option"
  sm_vault_keys :: "(string \<times> string) list"

definition put_file_back :: "site_env \<Rightarrow> io \<Rightarrow> string \<Rightarrow> json_map list option \<Rightarrow> store \<Rightarrow> string list \<times> store" where
  "put_file_back env io name before st =
     (case before of
        None \<Rightarrow> ([], st)
      | Some es \<Rightarrow> (case write_entries env io name es st of (Inl _, st') \<Rightarrow> ([name], st') | (Inr _, st') \<Rightarrow> ([], st')))"

text \<open>Every step is tried; what could not be undone is returned.\<close>

definition rollback_import ::
  "site_env \<Rightarrow> io \<Rightarrow> vault_env \<Rightarrow> string \<Rightarrow> sites_import \<Rightarrow> store \<Rightarrow> vault \<Rightarrow> string list \<times> store \<times> vault" where
  "rollback_import env io venv nonce m st v =
     (case (if sm_vault_keys m = [] then ([], v)
            else (case apply_secret_updates venv nonce (map (\<lambda>(i, field). DeleteSecret i field) (sm_vault_keys m)) v of
                    (Inl _, v1) \<Rightarrow> ([''vault''], v1) | (Inr _, v1) \<Rightarrow> ([], v1))) of
        (left0, v1) \<Rightarrow> (case put_file_back env io sites_file (sm_bookmarks_before m) st of
          (left1, st1) \<Rightarrow> (case put_file_back env io local_paths_file (sm_local_before m) st1 of
            (left2, st2) \<Rightarrow> (left0 @ left1 @ left2, st2, v1))))"

definition write_changed :: "site_env \<Rightarrow> io \<Rightarrow> string \<Rightarrow> json_map list \<Rightarrow> json_map list \<Rightarrow> store
    \<Rightarrow> (site_error + json_map list option) \<times> store" where
  "write_changed env io name new before st =
     (if new = before then (Inr None, st)
      else (case write_entries env io name new st of (Inl e, st') \<Rightarrow> (Inl e, st') | (Inr _, st') \<Rightarrow> (Inr (Some before), st')))"

definition commit_import ::
  "site_env \<Rightarrow> io \<Rightarrow> io \<Rightarrow> vault_env \<Rightarrow> string \<Rightarrow> string \<Rightarrow> json_map list \<Rightarrow> json_map list \<Rightarrow> import_state \<Rightarrow> store \<Rightarrow> vault
    \<Rightarrow> ((site_error \<times> string list) + sites_imported \<times> sites_import) \<times> store \<times> vault" where
  "commit_import env io io' venv n1 n2 bookmarks local s st v =
     (case (if im_planned s = [] then (Inr (), v)
            else apply_secret_updates venv n1 (map (\<lambda>(i, field, val). SetSecret i field val) (im_planned s)) v) of
        (Inl e, v1) \<Rightarrow> (Inl (VaultFailed e, []), st, v1)
      | (Inr _, v1) \<Rightarrow>
          (let m = \<lparr>sm_bookmarks_before = None, sm_local_before = None, sm_vault_keys = map (\<lambda>(i, field, _). (i, field)) (im_planned s)\<rparr>;
               fail = (\<lambda>e m st. case rollback_import env io' venv n2 m st v1 of (not_restored, st', v') \<Rightarrow> (Inl (e, not_restored), st', v'))
           in case write_changed env io sites_file (im_bookmarks s) bookmarks st of
                (Inl e, st1) \<Rightarrow> fail e m st1
              | (Inr b, st1) \<Rightarrow>
                  (case write_changed env io local_paths_file (im_local s) local st1 of
                     (Inl e, st2) \<Rightarrow> fail e (m\<lparr>sm_bookmarks_before := b\<rparr>) st2
                   | (Inr l, st2) \<Rightarrow> (Inr (im_outcome s, m\<lparr>sm_bookmarks_before := b, sm_local_before := l\<rparr>), st2, v1))))"

definition import_sites ::
  "site_env \<Rightarrow> io \<Rightarrow> io \<Rightarrow> vault_env \<Rightarrow> string \<Rightarrow> string \<Rightarrow> (nat \<Rightarrow> string) \<Rightarrow> json_map list \<Rightarrow> (string \<times> imported_secret) list
    \<Rightarrow> store \<Rightarrow> vault \<Rightarrow> ((site_error \<times> string list) + sites_imported \<times> sites_import) \<times> store \<times> vault" where
  "import_sites env io io' venv n1 n2 fresh sites secrets st v =
     (case ensure_storage_split env io st of
        (Inl e, st1) \<Rightarrow> (Inl (e, []), st1, v)
      | (Inr _, st1) \<Rightarrow> (case ensure_writable (se_codec env) io sites_file st1 of
          (Inl e, st2) \<Rightarrow> (Inl (NotWritten e, []), st2, v)
        | (Inr _, st2) \<Rightarrow> (case ensure_writable (se_codec env) io local_paths_file st2 of
            (Inl e, st3) \<Rightarrow> (Inl (NotWritten e, []), st3, v)
          | (Inr _, st3) \<Rightarrow> (case read_entries env io sites_file st3 of
              (bookmarks, st4) \<Rightarrow> (case read_entries env io local_paths_file st4 of
                (local, st5) \<Rightarrow>
                  if is_configured v \<and> secrets \<noteq> [] \<and> \<not> is_unlocked v then (Inl (VaultFailed Locked, []), st5, v)
                  else (case plan_import env (if is_configured v then Some v else None) fresh sites secrets bookmarks local of
                    Inl e \<Rightarrow> (Inl (e, []), st5, v)
                  | Inr s \<Rightarrow> commit_import env io io' venv n1 n2 bookmarks local s st5 v))))))"

end
