(* ===== verification/ImportedSites.thy ===== *)
theory ImportedSites
  imports SitesImport
begin

text \<open>
  What an import of bookmarks (\<open>SitesImport\<close>) promises: it never replaces a saved secret, gives a secret only to a
  bookmark for the recipient the secret was saved for, and can be undone.
\<close>

section \<open>What stays of a bookmark\<close>

definition keeps :: "json_map \<Rightarrow> json_map \<Rightarrow> bool" where
  "keeps e e' \<longleftrightarrow> entry_id e' = entry_id e \<and> site_scope e' = site_scope e
     \<and> (\<forall>(field, enc, plain) \<in> set secret_places. has_saved_secret e enc plain
          \<longrightarrow> get_str e' enc = get_str e enc \<and> get_str e' plain = get_str e plain)"

lemma keeps_refl [simp]: "keeps e e"
  by (simp add: keeps_def)

lemma keeps_trans:
  assumes "keeps e f" and "keeps f g"
  shows "keeps e g"
proof -
  have "get_str g enc = get_str e enc \<and> get_str g plain = get_str e plain"
    if "(field, enc, plain) \<in> set secret_places" "has_saved_secret e enc plain" for field enc plain
  proof -
    have f: "get_str f enc = get_str e enc \<and> get_str f plain = get_str e plain"
      using assms(1) that by (auto simp: keeps_def)
    then have "has_saved_secret f enc plain" using that(2) by (simp add: has_saved_secret_def)
    then show ?thesis using assms(2) that(1) f by (auto simp: keeps_def)
  qed
  then show ?thesis using assms by (auto simp: keeps_def)
qed

definition scope_keys :: "string list" where "scope_keys = ''maxConnections'' # server_keys"

lemma scope_agrees:
  assumes "\<forall>k \<in> set scope_keys. map_of r k = map_of r' k"
  shows "site_scope r = site_scope r'"
proof -
  have number: "\<forall>k \<in> set scope_keys. map_of (drop_bad_number j q) k = map_of (drop_bad_number j q') k"
    if "\<forall>k \<in> set scope_keys. map_of q k = map_of q' k" "j \<in> set scope_keys" for j q q'
    using number_frame [of q j q'] that by (auto simp: drop_bad_number_def split: sum.split)
  have "get_str r ''protocol'' = get_str r' ''protocol''" using assms by (simp add: get_str_def scope_keys_def server_keys_def)
  then have "\<forall>k \<in> set scope_keys. map_of (drop_bad_protocol r) k = map_of (drop_bad_protocol r') k"
    using assms by (auto simp: drop_bad_protocol_def split: option.split)
  then have agree: "\<forall>k \<in> set scope_keys. map_of (drop_bad_number ''maxConnections'' (drop_bad_number ''port'' (drop_bad_protocol r))) k
      = map_of (drop_bad_number ''maxConnections'' (drop_bad_number ''port'' (drop_bad_protocol r'))) k"
    by (intro number) (simp_all add: scope_keys_def server_keys_def)
  have "server_or_unset r = server_or_unset r'" unfolding server_or_unset_def
  proof (rule server_from_json_frame)
    show "\<forall>k \<in> set server_keys. map_of (drop_bad_number ''maxConnections'' (drop_bad_number ''port'' (drop_bad_protocol r))) k
      = map_of (drop_bad_number ''maxConnections'' (drop_bad_number ''port'' (drop_bad_protocol r'))) k"
      using agree unfolding scope_keys_def by (meson list.set_intros(2))
  qed (rule number_frame, use agree in \<open>simp add: scope_keys_def\<close>)
  then show ?thesis by (simp add: site_scope_def)
qed

lemma import_field_cases:
  assumes "(field, enc, plain, flag) \<in> set import_fields"
  shows "(field = ''password'' \<and> enc = ''enc'' \<and> plain = ''plain'' \<and> flag = ''hasPassword'')
    \<or> (field = ''keyPassphrase'' \<and> enc = ''keyEnc'' \<and> plain = ''keyPlain'' \<and> flag = ''hasKeyPassphrase'')"
  using assms by (simp add: import_fields_def)

lemma keeps_flag:
  assumes "(field, enc, plain, flag) \<in> set import_fields"
  shows "keeps e (al_put flag w e)"
proof -
  have "flag \<notin> set scope_keys" using import_field_cases [OF assms] by (elim disjE) (simp_all add: scope_keys_def server_keys_def)
  then have "site_scope (al_put flag w e) = site_scope e" by (intro scope_agrees) auto
  then show ?thesis using import_field_cases [OF assms] by (elim disjE) (simp_all add: keeps_def entry_id_def secret_places_def)
qed

lemma keeps_new_secret:
  assumes "(field, enc, plain, flag) \<in> set import_fields" and "\<not> has_saved_secret e enc plain"
  shows "keeps e (al_put enc w e)"
proof -
  have "enc \<notin> set scope_keys" using import_field_cases [OF assms(1)] by (elim disjE) (simp_all add: scope_keys_def server_keys_def)
  then have "site_scope (al_put enc w e) = site_scope e" by (intro scope_agrees) auto
  then show ?thesis using import_field_cases [OF assms(1)] assms(2)
    by (elim disjE) (simp_all add: keeps_def entry_id_def secret_places_def)
qed

section \<open>Placing secrets\<close>

definition plan_ok :: "vault option \<Rightarrow> planned \<Rightarrow> bool" where
  "plan_ok target plan \<longleftrightarrow> (\<forall>(i, f, w) \<in> set plan. \<exists>v. target = Some v \<and> get_secret i f v = Inr None)"

text \<open>What a plan has gained: secrets of the bookmark \<open>i\<close>, from the values at hand.\<close>

definition gained :: "string \<Rightarrow> ((string \<times> string \<times> string \<times> string) \<times> string option) list \<Rightarrow> planned \<Rightarrow> planned \<Rightarrow> bool" where
  "gained i fs plan plan' \<longleftrightarrow> set plan \<subseteq> set plan'
     \<and> (\<forall>j f w. (j, f, w) \<in> set plan' \<longrightarrow> (j, f, w) \<in> set plan \<or> j = i \<and> (\<exists>e p g. ((f, e, p, g), Some w) \<in> set fs))"

lemma gained_more: "gained i fs plan plan' \<Longrightarrow> gained i (x # fs) plan plan'"
  unfolding gained_def by (metis list.set_intros(2))

lemma gained_added:
  "gained i fs (plan @ [(i, field, secret)]) plan' \<Longrightarrow> gained i (((field, enc, plain, flag), Some secret) # fs) plan plan'"
  unfolding gained_def by auto blast

lemma place_fields_facts:
  assumes "place_fields pr target i fs (entry, plan, out) = Inr (entry', plan', out')"
    and "fst ` set fs \<subseteq> set import_fields" and "plan_ok target plan"
  shows "keeps entry entry' \<and> plan_ok target plan' \<and> gained i fs plan plan'"
  using assms
proof (induction fs arbitrary: entry plan out)
  case (Cons x fs)
  obtain field enc plain flag val where x: "x = ((field, enc, plain, flag), val)" by (metis prod_cases4 surj_pair)
  have mem: "(field, enc, plain, flag) \<in> set import_fields" using Cons.prems(2) by (auto simp: x)
  have sub: "fst ` set fs \<subseteq> set import_fields" using Cons.prems(2) by auto
  show ?case
  proof (cases "nonempty val")
    case None
    then show ?thesis using Cons.IH [OF _ sub Cons.prems(3), of entry out] Cons.prems(1) gained_more by (simp add: x)
  next
    case (Some secret)
    then have val: "val = Some secret" by (auto simp: nonempty_def split: option.splits if_splits)
    show ?thesis
    proof (cases target)
      case None
      show ?thesis
      proof (cases "has_saved_secret entry enc plain")
        case True
        then show ?thesis using Cons.IH [OF _ sub Cons.prems(3), of entry out] Cons.prems(1) Some None gained_more by (simp add: x)
      next
        case False
        obtain protected where p: "pr_protect pr secret = Some protected"
          "place_fields pr target i fs (al_put flag (JBool True) (al_put enc (JString (pr_b64 pr protected)) entry), plan,
             out\<lparr>si_secrets_saved := Suc (si_secrets_saved out)\<rparr>) = Inr (entry', plan', out')"
          using Cons.prems(1) Some None False by (auto simp: x split: option.splits)
        have "keeps entry (al_put flag (JBool True) (al_put enc (JString (pr_b64 pr protected)) entry))"
          using keeps_trans [OF keeps_new_secret [OF mem False] keeps_flag [OF mem]] .
        then show ?thesis using Cons.IH [OF p(2) sub Cons.prems(3)] keeps_trans gained_more by blast
      qed
    next
      case v: (Some v)
      obtain saved out1 where s: "(if \<exists>w. (i, field, w) \<in> set plan then Inr True
          else (case get_secret i field v of Inl e \<Rightarrow> Inl e | Inr s \<Rightarrow> Inr (s \<noteq> None))) = Inr saved"
        and rest: "place_fields pr target i fs (al_put flag (JBool True) entry, if saved then plan else plan @ [(i, field, secret)], out1)
          = Inr (entry', plan', out')"
        using Cons.prems(1) Some v by (auto simp: x split: sum.splits)
      let ?plan = "if saved then plan else plan @ [(i, field, secret)]"
      have ok: "plan_ok target ?plan"
        using Cons.prems(3) s v by (auto simp: plan_ok_def split: if_splits sum.splits)
      note ih = Cons.IH [OF rest sub ok]
      have "keeps entry entry'" using keeps_trans [OF keeps_flag [OF mem]] ih by blast
      moreover have "gained i (x # fs) plan plan'"
        using ih gained_more gained_added [of i fs plan field secret plan' enc plain flag] by (cases saved) (simp_all add: x val)
      ultimately show ?thesis using ih by blast
    qed
  qed
qed (simp add: gained_def)

definition of_secret :: "imported_secret \<Rightarrow> string \<Rightarrow> string \<Rightarrow> bool" where
  "of_secret x f w \<longleftrightarrow> f = ''password'' \<and> is_password x = Some w \<or> f = ''keyPassphrase'' \<and> is_key_passphrase x = Some w"

lemma place_secret_facts:
  assumes "place_secret pr target x entry plan out = Inr (entry', plan', out')" and "plan_ok target plan"
  shows "keeps entry entry'" and "plan_ok target plan'" and "set plan \<subseteq> set plan'"
    and "\<forall>(j, f, w) \<in> set plan'. (j, f, w) \<in> set plan \<or> j = text_of entry ''id'' \<and> of_secret x f w"
proof -
  have sub: "fst ` set (zip import_fields [is_password x, is_key_passphrase x]) \<subseteq> set import_fields"
    by (auto dest: set_zip_leftD)
  note facts = place_fields_facts [OF assms(1) [unfolded place_secret_def] sub assms(2)]
  show "keeps entry entry'" "plan_ok target plan'" using facts by blast+
  show "set plan \<subseteq> set plan'" using facts by (simp add: gained_def)
  have "of_secret x f w" if "((f, e, p, g), Some w) \<in> set (zip import_fields [is_password x, is_key_passphrase x])" for f e p g w
    using that by (auto simp: of_secret_def import_fields_def)
  then show "\<forall>(j, f, w) \<in> set plan'. (j, f, w) \<in> set plan \<or> j = text_of entry ''id'' \<and> of_secret x f w"
    using facts unfolding gained_def by fast
qed

section \<open>The plan\<close>

definition recipient :: "(string \<times> imported_secret) list \<Rightarrow> json_map list \<Rightarrow> string \<Rightarrow> string \<Rightarrow> string \<Rightarrow> bool" where
  "recipient secrets bs i f w \<longleftrightarrow> (\<exists>e \<in> set bs. text_of e ''id'' = i
     \<and> (\<exists>j x. (j, x) \<in> set secrets \<and> site_scope e = Inr (is_scope x) \<and> of_secret x f w))"

definition extends :: "json_map list \<Rightarrow> json_map list \<Rightarrow> bool" where
  "extends olds bs \<longleftrightarrow> (\<exists>ys zs. bs = ys @ zs \<and> list_all2 keeps olds ys)"

definition plan_well :: "(string \<times> imported_secret) list \<Rightarrow> vault option \<Rightarrow> json_map list \<Rightarrow> import_state \<Rightarrow> bool" where
  "plan_well secrets target olds s \<longleftrightarrow> plan_ok target (im_planned s) \<and> set (im_secrets s) \<subseteq> set secrets
     \<and> extends olds (im_bookmarks s)
     \<and> (\<forall>(i, f, w) \<in> set (im_planned s). recipient secrets (im_bookmarks s) i f w)"

lemma keeps_id: "keeps e e' \<Longrightarrow> text_of e' ''id'' = text_of e ''id''"
  by (simp add: keeps_def text_of_def entry_id_def)

lemma extends_append: "extends olds bs \<Longrightarrow> extends olds (bs @ cs)"
  unfolding extends_def by (metis append.assoc)

lemma recipient_append: "recipient secrets bs i f w \<Longrightarrow> recipient secrets (bs @ cs) i f w"
  unfolding recipient_def by (metis Un_iff set_append)

lemma extends_update:
  assumes "extends olds bs" and "k < length bs" and "keeps (bs ! k) e"
  shows "extends olds (bs[k := e])"
proof -
  obtain ys zs where bs: "bs = ys @ zs" "list_all2 keeps olds ys" using assms(1) by (auto simp: extends_def)
  show ?thesis
  proof (cases "k < length ys")
    case True
    have "list_all2 keeps olds (ys[k := e])"
      unfolding list_all2_conv_all_nth
    proof (intro conjI allI impI)
      show "length olds = length (ys[k := e])" using list_all2_lengthD [OF bs(2)] by simp
      fix n assume n: "n < length olds"
      have "keeps (olds ! n) (ys ! n)" using list_all2_nthD [OF bs(2) n] .
      then show "keeps (olds ! n) (ys[k := e] ! n)"
        using keeps_trans [of "olds ! n" "ys ! n" e] assms(3) True by (cases "n = k") (simp_all add: bs(1) nth_append)
    qed
    then show ?thesis unfolding extends_def using True by (metis bs(1) list_update_append1)
  next
    case False
    then show ?thesis unfolding extends_def using bs by (metis leI list_update_append)
  qed
qed

lemma recipient_update:
  assumes "recipient secrets bs i f w" and "k < length bs" and "keeps (bs ! k) e"
  shows "recipient secrets (bs[k := e]) i f w"
proof -
  obtain j x m where m: "m < length bs" "text_of (bs ! m) ''id'' = i" "(j, x) \<in> set secrets"
    "site_scope (bs ! m) = Inr (is_scope x)" "of_secret x f w"
    using assms(1) unfolding recipient_def by (metis in_set_conv_nth)
  have "bs[k := e] ! m \<in> set (bs[k := e])" using m(1) by simp
  moreover have kept: "keeps (bs ! m) (bs[k := e] ! m)" using assms(2,3) by (cases "m = k") simp_all
  have "text_of (bs[k := e] ! m) ''id'' = i" using keeps_id [OF kept] m(2) by simp
  moreover have "site_scope (bs[k := e] ! m) = Inr (is_scope x)" using kept m(4) by (simp add: keeps_def)
  ultimately show ?thesis unfolding recipient_def using m(3,5) by blast
qed

lemma import_folder_frame:
  "im_planned (import_folder env fresh r s) = im_planned s \<and> im_secrets (import_folder env fresh r s) = im_secrets s
    \<and> (\<exists>cs. im_bookmarks (import_folder env fresh r s) = im_bookmarks s @ cs)"
proof (cases "map_of (im_known_folders s) (folder_identity_key env r)")
  case None
  then show ?thesis by (cases "entry_id r"; cases "get_str r ''managerScope'' = Some ''localPaths''") (simp_all add: import_folder_def Let_def)
next
  case (Some i)
  then show ?thesis by (cases "entry_id r") (simp_all add: import_folder_def Let_def)
qed

lemma import_folder_well:
  assumes "plan_well secrets target olds s"
  shows "plan_well secrets target olds (import_folder env fresh r s)"
proof -
  let ?s = "import_folder env fresh r s"
  obtain cs where cs: "im_bookmarks ?s = im_bookmarks s @ cs" using import_folder_frame by blast
  have same: "im_planned ?s = im_planned s" "im_secrets ?s = im_secrets s" using import_folder_frame by blast+
  show ?thesis unfolding plan_well_def cs same
  proof (intro conjI)
    show "extends olds (im_bookmarks s @ cs)" using assms by (intro extends_append) (simp add: plan_well_def)
    show "\<forall>(i, f, w) \<in> set (im_planned s). recipient secrets (im_bookmarks s @ cs) i f w"
      using assms recipient_append unfolding plan_well_def by fast
  qed (use assms in \<open>simp_all add: plan_well_def\<close>)
qed

lemma import_folders_well:
  "plan_well secrets target olds s \<Longrightarrow> plan_well secrets target olds (fold (import_folder env fresh) rs s)"
  by (induction rs arbitrary: s) (simp_all add: import_folder_well)

lemma take_secret_well:
  assumes "take_secret r s = (x, s')" and "plan_well secrets target olds s"
  shows "plan_well secrets target olds s'"
    and "x = Some secret \<Longrightarrow> site_scope r = Inr (is_scope secret) \<and> (\<exists>j. (j, secret) \<in> set secrets)"
proof -
  have sub: "set (al_del i (im_secrets s)) \<subseteq> set (im_secrets s)" for i by (simp add: al_del_def)
  have mem: "map_of (im_secrets s) i = Some y \<Longrightarrow> (i, y) \<in> set secrets" for i y
    using assms(2) map_of_SomeD by (fastforce simp: plan_well_def)
  show "plan_well secrets target olds s'"
    using assms sub by (auto simp: take_secret_def plan_well_def Let_def al_del_def split: option.splits if_splits)
  show "x = Some secret \<Longrightarrow> site_scope r = Inr (is_scope secret) \<and> (\<exists>j. (j, secret) \<in> set secrets)"
    using assms(1) mem by (fastforce simp: take_secret_def Let_def split: option.splits if_splits)
qed

lemma give_to_known_well:
  assumes "give_to_known pr target r secret s = Inr s'" and "plan_well secrets target olds s" and "(j, secret) \<in> set secrets"
  shows "plan_well secrets target olds s'"
proof (cases "\<exists>k. same_recipient (is_scope secret) (im_bookmarks s) = [k]")
  case False
  then have "\<exists>out. s' = s\<lparr>im_outcome := out\<rparr>" using assms(1) by (auto simp: give_to_known_def split: list.splits)
  then show ?thesis using assms(2) by (auto simp: plan_well_def)
next
  case True
  then obtain k where k: "same_recipient (is_scope secret) (im_bookmarks s) = [k]" by blast
  then have "k \<in> set (same_recipient (is_scope secret) (im_bookmarks s))" by simp
  then have at: "k < length (im_bookmarks s)" "site_scope (im_bookmarks s ! k) = Inr (is_scope secret)"
    by (simp_all add: same_recipient_def)
  obtain entry plan out where p: "place_secret pr target secret (im_bookmarks s ! k) (im_planned s) (im_outcome s) = Inr (entry, plan, out)"
    and s': "s' = s\<lparr>im_bookmarks := (im_bookmarks s)[k := entry], im_planned := plan, im_outcome := out\<rparr>"
    using assms(1) k by (auto simp: give_to_known_def split: sum.splits)
  have ok: "plan_ok target (im_planned s)" using assms(2) by (simp add: plan_well_def)
  note facts = place_secret_facts [OF p ok]
  have new: "recipient secrets ((im_bookmarks s)[k := entry]) (text_of (im_bookmarks s ! k) ''id'') f w" if "of_secret secret f w" for f w
  proof -
    have "entry \<in> set ((im_bookmarks s)[k := entry])" using at(1) by (rule set_update_memI)
    moreover have "site_scope entry = Inr (is_scope secret)" using facts(1) at(2) by (simp add: keeps_def)
    ultimately show ?thesis unfolding recipient_def using keeps_id [OF facts(1)] assms(3) that by blast
  qed
  have "recipient secrets ((im_bookmarks s)[k := entry]) i f w" if "(i, f, w) \<in> set plan" for i f w
    using that facts(4) assms(2) recipient_update [OF _ at(1) facts(1)] new by (fastforce simp: plan_well_def)
  moreover have "extends olds ((im_bookmarks s)[k := entry])"
    using assms(2) by (intro extends_update at(1) facts(1)) (simp add: plan_well_def)
  ultimately show ?thesis using assms(2) facts(2) by (auto simp: plan_well_def s')
qed

lemma add_site_well:
  assumes "add_site pr target fresh r key x s = Inr s'" and "plan_well secrets target olds s"
    and "\<And>secret. x = Some secret \<Longrightarrow> site_scope r = Inr (is_scope secret) \<and> (\<exists>j. (j, secret) \<in> set secrets)"
  shows "plan_well secrets target olds s'"
proof -
  obtain entry where q: "site_record r (fresh (im_next s)) (new_parent r s) None = Inr entry"
    using assms(1) by (auto simp: add_site_def Let_def split: sum.splits)
  show ?thesis
  proof (cases "entry_kind r = Some ''local''")
    case True
    then show ?thesis using assms(1,2) q by (auto simp: add_site_def plan_well_def Let_def)
  next
    case False
    let ?flagged = "al_put ''hasKeyPassphrase'' (JBool False) (al_put ''hasPassword'' (JBool False) entry)"
    obtain e plan out where e: "(case x of None \<Rightarrow> Inr (?flagged, im_planned s, im_outcome s)
        | Some y \<Rightarrow> place_secret pr target y ?flagged (im_planned s) (im_outcome s)) = Inr (e, plan, out)"
      and s': "im_bookmarks s' = im_bookmarks s @ [e]" "im_planned s' = plan" "im_secrets s' = im_secrets s"
      using assms(1) q False by (fastforce simp: add_site_def Let_def split: sum.splits)
    have ok: "plan_ok target (im_planned s)" using assms(2) by (simp add: plan_well_def)
    have old: "recipient secrets (im_bookmarks s @ [e]) i f w" if "(i, f, w) \<in> set (im_planned s)" for i f w
      using assms(2) that recipient_append by (fastforce simp: plan_well_def)
    have "plan_ok target plan \<and> (\<forall>(i, f, w) \<in> set plan. recipient secrets (im_bookmarks s @ [e]) i f w)"
    proof (cases x)
      case None
      then show ?thesis using e ok old by auto
    next
      case (Some secret)
      then have p: "place_secret pr target secret ?flagged (im_planned s) (im_outcome s) = Inr (e, plan, out)" using e by simp
      note facts = place_secret_facts [OF p ok]
      obtain j where j: "site_scope r = Inr (is_scope secret)" "(j, secret) \<in> set secrets" using assms(3) Some by blast
      have "site_scope ?flagged = site_scope r"
        by (rule scope_of_record [OF q False]) (simp add: server_keys_def)
      then have "site_scope e = Inr (is_scope secret)" using facts(1) j(1) by (simp add: keeps_def)
      then have new: "recipient secrets (im_bookmarks s @ [e]) (text_of ?flagged ''id'') f w" if "of_secret secret f w" for f w
        unfolding recipient_def using keeps_id [OF facts(1)] j(2) that by (intro bexI [of _ e]) auto
      show ?thesis using facts(2,4) old new by blast
    qed
    then show ?thesis using assms(2) s' extends_append by (auto simp: plan_well_def)
  qed
qed

lemma import_site_well:
  assumes "import_site env target fresh r s = Inr s'" and "plan_well secrets target olds s"
  shows "plan_well secrets target olds s'"
proof -
  obtain x s1 where t: "take_secret r s = (x, s1)" by fastforce
  note taken = take_secret_well [OF t assms(2)]
  show ?thesis
  proof (cases "site_identity_key env r \<in> set (im_known_sites s1)")
    case True
    let ?s = "s1\<lparr>im_outcome := (im_outcome s1)\<lparr>si_skipped := Suc (si_skipped (im_outcome s1))\<rparr>\<rparr>"
    have well: "plan_well secrets target olds ?s" using taken(1) by (simp add: plan_well_def)
    show ?thesis
    proof (cases x)
      case None
      then show ?thesis using assms(1) t True well by (simp add: import_site_def Let_def)
    next
      case (Some secret)
      then have g: "give_to_known (se_protector env) target r secret ?s = Inr s'"
        using assms(1) t True by (simp add: import_site_def Let_def)
      then show ?thesis using give_to_known_well [OF g well] taken(2) [OF Some] by blast
    qed
  next
    case False
    then have "add_site (se_protector env) target fresh r (site_identity_key env r) x s1 = Inr s'"
      using assms(1) t by (simp add: import_site_def Let_def)
    then show ?thesis using add_site_well taken by blast
  qed
qed

lemma import_each_well:
  "import_each env target fresh rs s = Inr s' \<Longrightarrow> plan_well secrets target olds s \<Longrightarrow> plan_well secrets target olds s'"
  by (induction rs arbitrary: s) (auto simp: import_site_well split: sum.splits)

lemma plan_import_well:
  assumes "plan_import env target fresh sites secrets bookmarks local = Inr s"
  shows "plan_well secrets target bookmarks s"
proof -
  have "extends bookmarks bookmarks" unfolding extends_def
    by (intro exI [of _ bookmarks] exI [of _ "[]"]) (simp add: list.rel_refl)
  then show ?thesis using assms unfolding plan_import_def
    by (elim import_each_well) (intro import_folders_well, simp add: plan_well_def plan_ok_def)
qed

section \<open>Secrets in the vault\<close>

abbreviation "set_planned plan \<equiv> map (\<lambda>(i, field, val). SetSecret i field val) plan"
abbreviation "planned_keys plan \<equiv> map (\<lambda>(i, field, val). (i, field)) plan"
abbreviation "delete_planned keys \<equiv> map (\<lambda>(i, field). DeleteSecret i field) keys"

lemma set_planned_other:
  "\<forall>(i, f, w) \<in> set plan. secret_key i f \<noteq> k \<Longrightarrow> map_of (fold apply_update (set_planned plan) ss) k = map_of ss k"
  by (intro fold_updates_other) auto

lemma deleted_planned:
  "map_of (fold apply_update (delete_planned keys) ss) k
    = (if \<exists>(i, f) \<in> set keys. secret_key i f = k then None else map_of ss k)"
  by (induction keys arbitrary: ss) auto

lemma planned_apart:
  assumes "plan_ok target plan" and "get_key k v = Inr (Some s)" and "target = None \<or> target = Some v"
  shows "\<forall>(i, f, w) \<in> set plan. secret_key i f \<noteq> k"
  using assms by (fastforce simp: plan_ok_def get_secret_def)

lemma planned_saved:
  assumes "plan_ok target plan" and "target = None \<or> target = Some v"
    and "apply_secret_updates venv n (set_planned plan) v = (r, v')" and "get_key k v = Inr (Some s)"
  shows "get_key k v' = Inr (Some s)"
proof (cases r)
  case (Inl e)
  then show ?thesis using updates_refused assms(3,4) by metis
next
  case (Inr x)
  then obtain u where "va_state v = Some u" "va_state v' = Some (u\<lparr>un_secrets := fold apply_update (set_planned plan) (un_secrets u)\<rparr>)"
    using assms(3) by (auto elim: updates_done)
  then show ?thesis using assms(4) set_planned_other [OF planned_apart [OF assms(1,4,2)]] by (simp add: get_key_def)
qed

lemma planned_deleted:
  assumes "apply_secret_updates venv n (delete_planned (planned_keys plan)) v = (r, v')"
    and "get_key k v = Inr (Some s)" and "\<forall>(i, f, w) \<in> set plan. secret_key i f \<noteq> k"
  shows "get_key k v' = Inr (Some s)"
proof (cases r)
  case (Inl e)
  then show ?thesis using updates_refused assms(1,2) by metis
next
  case (Inr x)
  then obtain u where "va_state v = Some u"
    "va_state v' = Some (u\<lparr>un_secrets := fold apply_update (delete_planned (planned_keys plan)) (un_secrets u)\<rparr>)"
    using assms(1) by (auto elim: updates_done)
  then show ?thesis using assms(2,3) unfolding get_key_def by (force simp del: map_map simp: deleted_planned)
qed

lemma planned_undone:
  assumes "plan_ok target plan" and "target = None \<or> target = Some v"
    and "apply_secret_updates venv n (set_planned plan) v = (Inr (), v1)"
    and "apply_secret_updates venv' n' (delete_planned (planned_keys plan)) v1 = (Inr (), v2)"
  shows "get_key k v2 = get_key k v"
proof -
  let ?ss1 = "\<lambda>u. fold apply_update (set_planned plan) (un_secrets u)"
  obtain u where u: "va_state v = Some u" "va_state v1 = Some (u\<lparr>un_secrets := ?ss1 u\<rparr>)"
    by (rule updates_done [OF assms(3)])
  obtain u' where u': "va_state v1 = Some u'"
    "va_state v2 = Some (u'\<lparr>un_secrets := fold apply_update (delete_planned (planned_keys plan)) (un_secrets u')\<rparr>)"
    by (rule updates_done [OF assms(4)])
  have "u' = u\<lparr>un_secrets := ?ss1 u\<rparr>" using u(2) u'(1) by simp
  then have v2: "va_state v2 = Some (u\<lparr>un_secrets := fold apply_update (delete_planned (planned_keys plan)) (?ss1 u)\<rparr>)"
    using u'(2) by (simp del: map_map)
  show ?thesis
  proof (cases "\<forall>(i, f, w) \<in> set plan. secret_key i f \<noteq> k")
    case True
    then have "\<not> (\<exists>(i, f) \<in> set (planned_keys plan). secret_key i f = k)" by auto
    then show ?thesis using u(1) v2 set_planned_other [OF True] by (simp del: map_map add: get_key_def deleted_planned)
  next
    case False
    then obtain i f w where k: "(i, f, w) \<in> set plan" "secret_key i f = k" by auto
    then have "get_key k v = Inr None" using assms(1,2) by (fastforce simp: plan_ok_def get_secret_def)
    moreover have "\<exists>(i, f) \<in> set (planned_keys plan). secret_key i f = k" using k by force
    ultimately show ?thesis using u(1) v2 by (simp del: map_map add: get_key_def deleted_planned)
  qed
qed

section \<open>Undoing\<close>

lemma held_read:
  assumes "holds (se_codec env) name es st" and "\<not> io_no_folder io" "\<not> io_unreadable io name"
    and "read_entries env io name st = (rs, st1)"
  shows "rs = es \<and> st_folder st1 = st_folder st"
proof (cases "saved_value (se_codec env) (st_folder st) name = Some (json_of_entries es)")
  case True
  then show ?thesis using assms(4) saved_value_read [OF True _ assms(2,3), of is_entries "JArray []"] by (simp add: read_entries_def)
next
  case False
  then have "es = []" "read_file io (st_folder st) name = NoFile" "recover (se_codec env) io is_entries name st = None"
    using assms(1-3) by (auto simp: holds_def recover_def read_file_def)
  then show ?thesis using assms(4) by (auto simp: read_entries_def read_json_def Let_def note_issue_def is_missing_def split: prod.splits if_splits)
qed

lemma writable_readable: "ensure_writable c io name st = (Inr (), st') \<Longrightarrow> \<not> io_no_folder io \<Longrightarrow> \<not> io_unreadable io name"
  by (auto simp: ensure_writable_def read_file_def split: option.splits)

text \<open>Both files hold given entries, which a write of one of them does not change for the other.\<close>

definition hold_both :: "codec \<Rightarrow> json_map list \<Rightarrow> json_map list \<Rightarrow> store \<Rightarrow> bool" where
  "hold_both c bs ls st \<longleftrightarrow> holds c sites_file bs st \<and> holds c local_paths_file ls st"

lemma written_both:
  assumes "\<forall>v. cd_parse (se_codec env) (cd_render (se_codec env) v) = Some v" and "hold_both (se_codec env) bs ls st"
  shows "write_entries env io sites_file new st = (r, st') \<Longrightarrow> hold_both (se_codec env) (if is_Ok r then new else bs) ls st'"
    and "write_entries env io local_paths_file new st = (r, st') \<Longrightarrow> hold_both (se_codec env) bs (if is_Ok r then new else ls) st'"
proof -
  assume w: "write_entries env io sites_file new st = (r, st')"
  show "hold_both (se_codec env) (if is_Ok r then new else bs) ls st'"
    using assms(2) write_entries_holds [OF assms(1) disjI1 [OF refl] _ w] write_entries_other [OF _ w, of local_paths_file]
    unfolding hold_both_def by (metis (full_types))
next
  assume w: "write_entries env io local_paths_file new st = (r, st')"
  show "hold_both (se_codec env) bs (if is_Ok r then new else ls) st'"
    using assms(2) write_entries_holds [OF assms(1) disjI2 [OF refl] _ w] write_entries_other [OF _ w, of sites_file]
    unfolding hold_both_def by (metis (full_types))
qed

lemma changed_both:
  assumes "\<forall>v. cd_parse (se_codec env) (cd_render (se_codec env) v) = Some v" and "hold_both (se_codec env) bs ls st"
  shows "write_changed env io sites_file new bs st = (r, st') \<Longrightarrow>
      hold_both (se_codec env) (if is_Ok r then new else bs) ls st' \<and> (\<forall>b. r = Inr b \<longrightarrow> b = (if new = bs then None else Some bs))"
    and "write_changed env io local_paths_file new ls st = (r, st') \<Longrightarrow>
      hold_both (se_codec env) bs (if is_Ok r then new else ls) st' \<and> (\<forall>b. r = Inr b \<longrightarrow> b = (if new = ls then None else Some ls))"
  using assms(2) written_both [OF assms] by (fastforce simp: write_changed_def split: if_splits prod.splits sum.splits)+

lemma put_back_both:
  assumes "\<forall>v. cd_parse (se_codec env) (cd_render (se_codec env) v) = Some v" and "hold_both (se_codec env) new news st"
  shows "put_file_back env io sites_file b st = ([], st') \<Longrightarrow> b = (if new = bs then None else Some bs) \<Longrightarrow> hold_both (se_codec env) bs news st'"
    and "put_file_back env io local_paths_file b st = ([], st') \<Longrightarrow> b = (if news = ls then None else Some ls) \<Longrightarrow> hold_both (se_codec env) new ls st'"
  using assms(2) written_both [OF assms] by (fastforce simp: put_file_back_def split: if_splits prod.splits sum.splits)+

lemma rolled_back:
  assumes "\<forall>v. cd_parse (se_codec env) (cd_render (se_codec env) v) = Some v" and "hold_both (se_codec env) new news st"
    and "rollback_import env io venv nonce m st v = ([], st', v')"
    and "sm_bookmarks_before m = (if new = bs then None else Some bs)" and "sm_local_before m = (if news = ls then None else Some ls)"
  shows "hold_both (se_codec env) bs ls st'"
    and "if sm_vault_keys m = [] then v' = v else apply_secret_updates venv nonce (delete_planned (sm_vault_keys m)) v = (Inr (), v')"
proof -
  obtain st1 where s: "put_file_back env io sites_file (sm_bookmarks_before m) st = ([], st1)"
    "put_file_back env io local_paths_file (sm_local_before m) st1 = ([], st')"
    using assms(3) by (auto simp: rollback_import_def split: prod.splits)
  have "hold_both (se_codec env) bs news st1" by (rule put_back_both(1) [OF assms(1,2) s(1) assms(4)])
  then show "hold_both (se_codec env) bs ls st'" by (rule put_back_both(2) [OF assms(1) _ s(2) assms(5)])
  show "if sm_vault_keys m = [] then v' = v else apply_secret_updates venv nonce (delete_planned (sm_vault_keys m)) v = (Inr (), v')"
    using assms(3) by (auto simp: rollback_import_def split: prod.splits sum.splits if_splits)
qed

lemma committed_keeps:
  assumes "commit_import env io io' venv n1 n2 bs ls s st v = (r, st', v')" and "plan_ok target (im_planned s)"
    and "target = None \<or> target = Some v" and "get_key k v = Inr (Some x)"
  shows "get_key k v' = Inr (Some x)"
proof -
  obtain q v1 where p: "(if im_planned s = [] then (Inr (), v) else apply_secret_updates venv n1 (set_planned (im_planned s)) v) = (q, v1)"
    by fastforce
  have kept: "get_key k v1 = Inr (Some x)" using p assms(4) planned_saved [OF assms(2,3) _ assms(4)] by (auto split: if_splits)
  have apart: "\<forall>(i, f, w) \<in> set (im_planned s). secret_key i f \<noteq> k" by (rule planned_apart [OF assms(2,4,3)])
  have back_: "get_key k w = Inr (Some x)"
    if "rollback_import env io' venv n2 m a v1 = (l, b, w)" "sm_vault_keys m = planned_keys (im_planned s)" for m a l b w
    using that kept planned_deleted [OF _ kept apart]
    by (auto simp: rollback_import_def split: prod.splits sum.splits if_splits)
  show ?thesis
    using assms(1) p kept back_ by (fastforce simp: commit_import_def Let_def split: sum.splits prod.splits)
qed

lemma committed_undone:
  assumes "\<forall>v. cd_parse (se_codec env) (cd_render (se_codec env) v) = Some v" and "hold_both (se_codec env) bs ls st"
    and "commit_import env io io' venv n1 n2 bs ls s st v = (r, st1, v1)" and "plan_ok target (im_planned s)"
    and "target = None \<or> target = Some v"
  shows "r = Inr (out, m) \<Longrightarrow> rollback_import env io'' venv' n3 m st1 v1 = ([], st2, v2)
      \<Longrightarrow> hold_both (se_codec env) bs ls st2 \<and> get_key k v2 = get_key k v"
    and "r = Inr (out, m) \<Longrightarrow> hold_both (se_codec env) (im_bookmarks s) (im_local s) st1"
    and "r = Inl (e, []) \<Longrightarrow> hold_both (se_codec env) bs ls st1 \<and> get_key k v1 = get_key k v"
proof -
  obtain q w1 where p: "(if im_planned s = [] then (Inr (), v) else apply_secret_updates venv n1 (set_planned (im_planned s)) v) = (q, w1)"
    by fastforce
  have undone: "hold_both (se_codec env) bs ls b \<and> get_key k w2 = get_key k v"
    if "q = Inr ()" "rollback_import env io0 venv0 n m a w1 = ([], b, w2)" "sm_vault_keys m = planned_keys (im_planned s)"
      "hold_both (se_codec env) new news a" "sm_bookmarks_before m = (if new = bs then None else Some bs)"
      "sm_local_before m = (if news = ls then None else Some ls)" for io0 venv0 n m a b w2 new news
  proof -
    note rb = rolled_back [OF assms(1) that(4,2,5,6)]
    have "get_key k w2 = get_key k v"
    proof (cases "im_planned s = []")
      case True
      then show ?thesis using rb(2) that(3) p by auto
    next
      case False
      then have "apply_secret_updates venv n1 (set_planned (im_planned s)) v = (Inr (), w1)"
        "apply_secret_updates venv0 n (delete_planned (planned_keys (im_planned s))) w1 = (Inr (), w2)"
        using rb(2) that(1,3) p by (auto simp del: map_map)
      then show ?thesis using planned_undone [OF assms(4,5)] by blast
    qed
    then show ?thesis using rb(1) by simp
  qed
  let ?m = "\<lparr>sm_bookmarks_before = None, sm_local_before = None, sm_vault_keys = planned_keys (im_planned s)\<rparr>"
  obtain r1 a1 where w1: "write_changed env io sites_file (im_bookmarks s) bs st = (r1, a1)" by fastforce
  note c1 = changed_both(1) [OF assms(1,2) w1]
  obtain r2 a2 where w2: "write_changed env io local_paths_file (im_local s) ls a1 = (r2, a2)" by fastforce
  have c2: "hold_both (se_codec env) (im_bookmarks s) (if is_Ok r2 then im_local s else ls) a2
      \<and> (\<forall>b. r2 = Inr b \<longrightarrow> b = (if im_local s = ls then None else Some ls))" if "is_Ok r1"
  proof -
    have "hold_both (se_codec env) (im_bookmarks s) ls a1" using c1 that by simp
    then show ?thesis by (rule changed_both(2) [OF assms(1) _ w2])
  qed
  have won: "q = Inr () \<and> is_Ok r1 \<and> is_Ok r2 \<and> a2 = st1 \<and> w1 = v1
      \<and> m = ?m\<lparr>sm_bookmarks_before := if im_bookmarks s = bs then None else Some bs, sm_local_before := if im_local s = ls then None else Some ls\<rparr>"
    if "r = Inr (out, m)" for out m
    using assms(3) that p w1 w2 c1 c2 by (auto simp: commit_import_def Let_def split: sum.splits prod.splits)
  show "r = Inr (out, m) \<Longrightarrow> hold_both (se_codec env) (im_bookmarks s) (im_local s) st1"
    using won c2 by fastforce
  show "r = Inr (out, m) \<Longrightarrow> rollback_import env io'' venv' n3 m st1 v1 = ([], st2, v2)
      \<Longrightarrow> hold_both (se_codec env) bs ls st2 \<and> get_key k v2 = get_key k v"
    using won [of out m] c2 undone [of io'' venv' n3 m st1 st2 v2 "im_bookmarks s" "im_local s"] by simp
  assume r: "r = Inl (e, [])"
  show "hold_both (se_codec env) bs ls st1 \<and> get_key k v1 = get_key k v"
  proof (cases q)
    case (Inl x)
    then have "st1 = st" "v1 = w1" using assms(3) p by (simp_all add: commit_import_def)
    moreover have "get_key k w1 = get_key k v" using p Inl updates_refused by (auto split: if_splits)
    ultimately show ?thesis using assms(2) by simp
  next
    case q: (Inr x)
    show ?thesis
    proof (cases r1)
      case (Inl y)
      then have "rollback_import env io' venv n2 ?m a1 w1 = ([], st1, v1)"
        using assms(3) r p q w1 by (auto simp: commit_import_def Let_def split: prod.splits)
      then show ?thesis using undone [of io' venv n2 ?m a1 st1 v1 bs ls] q c1 Inl by simp
    next
      case (Inr b)
      then obtain y where y: "r2 = Inl y" using assms(3) r p q w1 w2 by (cases r2) (auto simp: commit_import_def Let_def split: prod.splits)
      then have "rollback_import env io' venv n2 (?m\<lparr>sm_bookmarks_before := b\<rparr>) a2 w1 = ([], st1, v1)"
        using assms(3) r p q w1 w2 Inr by (auto simp: commit_import_def Let_def split: prod.splits)
      then show ?thesis using undone [of io' venv n2 "?m\<lparr>sm_bookmarks_before := b\<rparr>" a2 st1 v1 "im_bookmarks s" ls] q c1 c2 Inr y by simp
    qed
  qed
qed

section \<open>Imports\<close>

lemma import_steps:
  assumes "files_ok (se_codec env) st" and "\<not> io_no_folder io"
    and "import_sites env io io' venv n1 n2 fresh sites secrets st v = (r, st', v')"
  obtains (stopped) e where "r = Inl (e, [])" "st_folder st' = st_folder st" "v' = v"
  | (went) bs ls s st1 where "hold_both (se_codec env) bs ls st" "st_folder st1 = st_folder st"
      "plan_import env (if is_configured v then Some v else None) fresh sites secrets bs ls = Inr s"
      "commit_import env io io' venv n1 n2 bs ls s st1 v = (r, st', v')"
proof -
  let ?c = "se_codec env"
  obtain bs ls where h: "holds ?c sites_file bs st" "holds ?c local_paths_file ls st" using assms(1) by (auto simp: files_ok_def)
  obtain x a1 where split: "ensure_storage_split env io st = (x, a1)" by fastforce
  have f1: "x = Inr ()" "st_folder a1 = st_folder st"
    using split_keeps [OF assms(1,2) split] split_folder [OF assms(1,2) split] by simp_all
  have h1: "holds ?c sites_file bs a1" "holds ?c local_paths_file ls a1" using holds_folder [OF f1(2)] h by simp_all
  obtain x2 x3 where w: "ensure_writable ?c io sites_file a1 = (x2, a1)" "ensure_writable ?c io local_paths_file a1 = (x3, a1)"
    using ensure_writable_holds [OF h1(1)] ensure_writable_holds [OF h1(2)] by (metis surj_pair)
  show thesis
  proof (cases "is_Ok x2 \<and> is_Ok x3")
    case False
    then have "\<exists>e. r = Inl (e, []) \<and> st' = a1 \<and> v' = v"
      using assms(3) split f1(1) w by (cases x2; cases x3) (auto simp: import_sites_def)
    then show ?thesis using stopped f1(2) by auto
  next
    case True
    then have ok: "x2 = Inr ()" "x3 = Inr ()" by (cases x2; cases x3; simp)+
    obtain rs a2 where r1: "read_entries env io sites_file a1 = (rs, a2)" by fastforce
    have e1: "rs = bs" "st_folder a2 = st_folder a1"
      using held_read [OF h1(1) assms(2) _ r1] writable_readable [OF w(1) [unfolded ok]] assms(2) by simp_all
    obtain rs2 a3 where r2: "read_entries env io local_paths_file a2 = (rs2, a3)" by fastforce
    have "holds ?c local_paths_file ls a2" using holds_folder [OF e1(2)] h1(2) by simp
    then have e2: "rs2 = ls" "st_folder a3 = st_folder a2"
      using held_read [OF _ assms(2) _ r2] writable_readable [OF w(2) [unfolded ok]] assms(2) by simp_all
    have f3: "st_folder a3 = st_folder st" using e2(2) e1(2) f1(2) by simp
    have "(\<exists>e. r = Inl (e, []) \<and> st' = a3 \<and> v' = v)
      \<or> (\<exists>s. plan_import env (if is_configured v then Some v else None) fresh sites secrets bs ls = Inr s
          \<and> commit_import env io io' venv n1 n2 bs ls s a3 v = (r, st', v'))"
      using assms(3) split f1(1) w ok r1 e1(1) r2 e2(1) by (auto simp: import_sites_def split: if_splits sum.splits)
    then show ?thesis using stopped went [OF _ f3] h f3 by (auto simp: hold_both_def)
  qed
qed

lemma planned_ok:
  assumes "plan_import env target fresh sites secrets bs ls = Inr s"
  shows "plan_ok target (im_planned s)" and "extends bs (im_bookmarks s)"
  using plan_import_well [OF assms] by (simp_all add: plan_well_def)

lemma find_keeps:
  "list_all2 keeps olds ys \<Longrightarrow> find (\<lambda>e. entry_id e = Some i) olds = Some e
     \<Longrightarrow> \<exists>e'. find (\<lambda>e. entry_id e = Some i) (ys @ zs) = Some e' \<and> keeps e e'"
proof (induction rule: list_all2_induct)
  case (Cons x xs y ys)
  have same: "entry_id y = entry_id x" using Cons.hyps(1) by (simp add: keeps_def)
  show ?case
  proof (cases "entry_id x = Some i")
    case True
    then have "e = x" using Cons.prems by simp
    then show ?thesis using True same Cons.hyps(1) by simp
  next
    case False
    then show ?thesis using same Cons.prems Cons.IH by simp
  qed
qed simp

lemma find_extends:
  "extends olds bs \<Longrightarrow> find (\<lambda>e. entry_id e = Some i) olds = Some e
     \<Longrightarrow> \<exists>e'. find (\<lambda>e. entry_id e = Some i) bs = Some e' \<and> keeps e e'"
  using find_keeps by (auto simp: extends_def)

lemma both_entry: "hold_both c bs ls st \<Longrightarrow> stored_entry c st i = find (\<lambda>e. entry_id e = Some i) bs"
  unfolding hold_both_def by (blast intro: holds_entry)

lemma both_folder: "hold_both c bs ls st \<Longrightarrow> st_folder st' = st_folder st \<Longrightarrow> hold_both c bs ls st'"
  unfolding hold_both_def using holds_folder [of st' st] by blast

text \<open>C25: However an import ends, the vault still gives every secret it gave, and when it is done every bookmark is
  still there, points where it did, and has the secrets it had.\<close>

theorem import_replaces_nothing:
  assumes "\<forall>v. cd_parse (se_codec env) (cd_render (se_codec env) v) = Some v" and "\<not> io_no_folder io"
    and "files_ok (se_codec env) st" and "import_sites env io io' venv n1 n2 fresh sites secrets st v = (r, st', v')"
  shows "(\<forall>k x. get_key k v = Inr (Some x) \<longrightarrow> get_key k v' = Inr (Some x))
    \<and> (is_Ok r \<longrightarrow> (\<forall>i e. stored_entry (se_codec env) st i = Some e \<longrightarrow>
         (\<exists>e'. stored_entry (se_codec env) st' i = Some e' \<and> site_scope e' = site_scope e
           \<and> (\<forall>(field, enc, plain) \<in> set secret_places. has_saved_secret e enc plain
                \<longrightarrow> get_str e' enc = get_str e enc \<and> get_str e' plain = get_str e plain))))"
  using assms(3,2,4)
proof (cases rule: import_steps)
  case (went bs ls s st1)
  let ?target = "if is_configured v then Some v else None"
  have target: "?target = None \<or> ?target = Some v" by simp
  note ok = planned_ok [OF went(3)]
  have held: "hold_both (se_codec env) bs ls st1" by (rule both_folder [OF went(1,2)])
  have "\<exists>e'. stored_entry (se_codec env) st' i = Some e' \<and> keeps e e'"
    if done_: "is_Ok r" "stored_entry (se_codec env) st i = Some e" for i e
  proof -
    obtain out m where "r = Inr (out, m)" using done_(1) by (cases r) auto
    then have "hold_both (se_codec env) (im_bookmarks s) (im_local s) st'"
      by (rule committed_undone(2) [OF assms(1) held went(4) ok(1) target])
    moreover have "find (\<lambda>e. entry_id e = Some i) bs = Some e" using done_(2) both_entry [OF went(1), of i] by simp
    then obtain e' where "find (\<lambda>e. entry_id e = Some i) (im_bookmarks s) = Some e'" "keeps e e'"
      using find_extends [OF ok(2)] by blast
    ultimately show ?thesis using both_entry [of "se_codec env" "im_bookmarks s" "im_local s" st' i] by auto
  qed
  moreover have "get_key k v' = Inr (Some x)" if "get_key k v = Inr (Some x)" for k x
    by (rule committed_keeps [OF went(4) ok(1) target that])
  ultimately show ?thesis unfolding keeps_def by (intro conjI allI impI) blast+
qed auto

text \<open>C26: A secret is planned only for the vault of a bookmark for the recipient the secret was saved for, and only
  where the vault has none.\<close>

theorem secrets_only_to_their_recipient:
  assumes "plan_import env target fresh sites secrets bookmarks local = Inr s" and "(i, field, w) \<in> set (im_planned s)"
  shows "(\<exists>v. target = Some v \<and> get_secret i field v = Inr None)
    \<and> (\<exists>e x. e \<in> set (im_bookmarks s) \<and> text_of e ''id'' = i \<and> x \<in> set (map snd secrets)
         \<and> site_scope e = Inr (is_scope x) \<and> of_secret x field w)"
proof -
  have plan: "recipient secrets (im_bookmarks s) i field w" "plan_ok target (im_planned s)"
    using plan_import_well [OF assms(1)] assms(2) by (auto simp: plan_well_def)
  have "\<exists>v. target = Some v \<and> get_secret i field v = Inr None" using plan(2) assms(2) by (auto simp: plan_ok_def)
  moreover obtain e j x where "e \<in> set (im_bookmarks s)" "text_of e ''id'' = i" "(j, x) \<in> set secrets"
    "site_scope e = Inr (is_scope x)" "of_secret x field w" using plan(1) by (auto simp: recipient_def)
  moreover have "x \<in> set (map snd secrets)" using calculation(4) by force
  ultimately show ?thesis by blast
qed

text \<open>C27: An import that was undone in full leaves the vault and both files as they were.\<close>

theorem undone_import_leaves_nothing:
  assumes "\<forall>v. cd_parse (se_codec env) (cd_render (se_codec env) v) = Some v" and "\<not> io_no_folder io"
    and "files_ok (se_codec env) st" and "import_sites env io io' venv n1 n2 fresh sites secrets st v = (r, st1, v1)"
    and "r = Inl (e, []) \<and> st2 = st1 \<and> v2 = v1 \<or> r = Inr (out, m) \<and> rollback_import env io'' venv' n3 m st1 v1 = ([], st2, v2)"
  shows "get_key k v2 = get_key k v
    \<and> (\<exists>bs ls. holds (se_codec env) sites_file bs st \<and> holds (se_codec env) sites_file bs st2
        \<and> holds (se_codec env) local_paths_file ls st \<and> holds (se_codec env) local_paths_file ls st2)"
  using assms(3,2,4)
proof (cases rule: import_steps)
  case (went bs ls s st0)
  have target: "(if is_configured v then Some v else None) = None \<or> (if is_configured v then Some v else None) = Some v" by simp
  have held: "hold_both (se_codec env) bs ls st0" by (rule both_folder [OF went(1,2)])
  note undone = committed_undone [OF assms(1) held went(4) planned_ok(1) [OF went(3)] target]
  have "hold_both (se_codec env) bs ls st2 \<and> get_key k v2 = get_key k v" using assms(5) undone(1,3) by blast
  then show ?thesis using went(1) by (auto simp: hold_both_def)
next
  case (stopped x)
  obtain bs ls where "hold_both (se_codec env) bs ls st" using assms(3) by (auto simp: files_ok_def hold_both_def)
  then show ?thesis using stopped assms(5) both_folder [of "se_codec env" bs ls st st2] by (auto simp: hold_both_def)
qed

section \<open>Witnesses\<close>

text \<open>The same bookmark comes back with its password, which the vault does not have yet.\<close>

definition toy_holding :: vault where
  "toy_holding = toy_filled\<lparr>va_state := Some \<lparr>un_secrets = [(secret_key ''1'' ''keyPassphrase'', ''kp'')], un_data_key = rn_key toy_random\<rparr>\<rparr>"

definition toy_brought :: "(string \<times> imported_secret) list" where
  "toy_brought = [(''1'', \<lparr>is_scope = (case site_scope (toy_entry []) of Inr x \<Rightarrow> x), is_password = Some ''pw'', is_key_passphrase = None\<rparr>)]"

abbreviation "refusing \<equiv> calm\<lparr>io_write := (\<lambda>_. Some StoreUnreadable)\<rparr>"
abbreviation "toy_plan \<equiv> [(''1'', ''password'', ''pw'')]"

lemma toy_holding_state: "is_configured toy_holding" "is_unlocked toy_holding" "get_key (secret_key ''1'' ''keyPassphrase'') toy_holding = Inr (Some ''kp'')"
  "get_key (secret_key ''1'' ''password'') toy_holding = Inr None"
  using toy_filled_state(2)
  by (simp_all add: toy_holding_def is_configured_def has_secrets_file_def is_unlocked_def get_key_def secret_keys_apart)

lemma toy_brought_scope:
  obtains y where "site_scope (toy_entry []) = Inr y"
    and "toy_brought = [(''1'', \<lparr>is_scope = y, is_password = Some ''pw'', is_key_passphrase = None\<rparr>)]"
  using toy_pieces_vault(3) [of "[]"] by (cases "site_scope (toy_entry [])") (simp_all add: toy_brought_def)

lemma toy_planned:
  obtains s where "plan_import toy_sites (Some toy_holding) fresh [toy_entry []] toy_brought [toy_entry []] [] = Inr s"
    and "im_bookmarks s = [al_put ''hasPassword'' (JBool True) (toy_entry [])]" and "im_local s = []" and "im_planned s = toy_plan"
proof -
  have e: "entry_id (toy_entry []) = Some ''1''" "\<not> is_folder (toy_entry [])" using toy_entry_simps(1,2) [of "[]"] by simp_all
  have i: "text_of (toy_entry []) ''id'' = ''1''" by code_simp
  obtain x where x: "toy_brought = [(''1'', x)]" "site_scope (toy_entry []) = Inr (is_scope x)" "is_password x = Some ''pw''" "is_key_passphrase x = None"
    by (rule toy_brought_scope) simp
  have sr: "same_recipient (is_scope x) [toy_entry []] = [0]" using e(2) x(2) by (simp add: same_recipient_def)
  have gs: "get_secret ''1'' ''password'' toy_holding = Inr None" using toy_holding_state(4) by (simp add: get_secret_def)
  let ?e = "toy_entry []"
  let ?s = "\<lparr>im_bookmarks = [?e], im_local = [], im_outcome = no_sites_imported, im_planned = [], im_folder_ids = [],
    im_known_folders = known_folders_of toy_sites [?e], im_known_sites = [site_identity_key toy_sites ?e], im_secrets = toy_brought, im_next = 0\<rparr>"
  have start: "plan_import toy_sites (Some toy_holding) fresh [?e] toy_brought [?e] [] = import_each toy_sites (Some toy_holding) fresh [?e] ?s"
    using e(2) by (simp add: plan_import_def)
  have took: "take_secret ?e ?s = (Some x, ?s\<lparr>im_secrets := []\<rparr>)" using e(1) x(2) by (simp add: take_secret_def al_del_def x(1) Let_def)
  let ?out = "no_sites_imported\<lparr>si_skipped := Suc (si_skipped no_sites_imported)\<rparr>"
  have placed: "place_secret (se_protector toy_sites) (Some toy_holding) x ?e [] ?out
    = Inr (al_put ''hasPassword'' (JBool True) ?e, toy_plan, ?out\<lparr>si_secrets_saved := Suc (si_secrets_saved ?out)\<rparr>)"
    using gs i x(3,4) by (simp add: place_secret_def import_fields_def nonempty_def)
  show thesis using that start took sr placed by (simp add: import_site_def give_to_known_def Let_def)
qed

lemma toy_refusing:
  "read_entries toy_sites refusing sites_file (toy_with e) = ([e], toy_with e)"
  "read_entries toy_sites refusing local_paths_file (toy_with e) = ([], toy_with e)"
  "n = sites_file \<or> n = local_paths_file \<Longrightarrow> ensure_writable unary_codec refusing n (toy_with e) = (Inr (), toy_with e)"
  "\<not> is_local_scope_entry e \<Longrightarrow> ensure_storage_split toy_sites refusing (toy_with e) = (Inr (), toy_with e)"
proof -
  show s: "read_entries toy_sites refusing sites_file (toy_with e) = ([e], toy_with e)"
    using saved_value_read [OF toy_with_saved, where fits = is_entries and io = refusing] by (simp add: read_entries_def toy_sites_def)
  show "read_entries toy_sites refusing local_paths_file (toy_with e) = ([], toy_with e)"
    using bookmark_files_apart
    by (simp add: read_entries_def read_json_def recover_def read_file_def toy_with_def is_missing_def Let_def)
  show "n = sites_file \<or> n = local_paths_file \<Longrightarrow> ensure_writable unary_codec refusing n (toy_with e) = (Inr (), toy_with e)"
    using toy_with_saved [of e] bookmark_files_apart
    by (auto simp: ensure_writable_def read_file_def saved_value_def toy_with_def split: option.splits sum.splits)
  show "\<not> is_local_scope_entry e \<Longrightarrow> ensure_storage_split toy_sites refusing (toy_with e) = (Inr (), toy_with e)"
    by (simp add: ensure_storage_split_def s)
qed

lemma refusing_refuses:
  assumes "ensure_writable unary_codec refusing sites_file st = (Inr (), st)"
  shows "\<exists>e st'. write_entries toy_sites refusing sites_file es st = (Inl e, st')"
proof -
  obtain q st' where w: "write_json unary_codec refusing is_entries sites_file (json_of_entries es) st = (q, st')" by fastforce
  then have "\<exists>x. q = Inl x" using assms
    by (auto simp: write_json_def write_json_unnamed_def publish_def Let_def split: sum.splits option.splits prod.splits if_splits)
  then show ?thesis using w by (auto simp: write_entries_def toy_codec_is)
qed

text \<open>The import that the bookmark file then refuses: the vault is put back.\<close>

lemma toy_refused_import:
  "\<exists>e st' v'. import_sites toy_sites refusing calm tenv [] [] fresh [toy_entry []] toy_brought (toy_with (toy_entry [])) toy_holding
    = (Inl (e, []), st', v')"
proof -
  let ?e = "toy_entry []" and ?us = "[SetSecret ''1'' ''password'' ''pw'']"
  have e: "\<not> is_local_scope_entry ?e" by (rule toy_entry_simps(3)) simp
  obtain s where s: "plan_import toy_sites (Some toy_holding) fresh [?e] toy_brought [?e] [] = Inr s"
    "im_bookmarks s = [al_put ''hasPassword'' (JBool True) ?e]" "im_local s = []" "im_planned s = toy_plan"
    by (rule toy_planned)
  have state: "va_state toy_holding = Some \<lparr>un_secrets = [(secret_key ''1'' ''keyPassphrase'', ''kp'')], un_data_key = rn_key toy_random\<rparr>"
    by (simp add: toy_holding_def)
  obtain v1 where v1: "apply_secret_updates tenv [] ?us toy_holding = (Inr (), v1)"
    "va_state v1 = Some \<lparr>un_secrets = fold apply_update ?us [(secret_key ''1'' ''keyPassphrase'', ''kp'')], un_data_key = rn_key toy_random\<rparr>"
    using toy_updates [OF state, of ?us "[]"] by (auto simp: secret_key_def)
  obtain v2 where v2: "apply_secret_updates tenv [] [DeleteSecret ''1'' ''password''] v1 = (Inr (), v2)"
    using toy_updates [OF v1(2), of "[DeleteSecret ''1'' ''password'']" "[]"] by (auto simp: al_del_def secret_key_def)
  obtain x st1 where w: "write_entries toy_sites refusing sites_file (im_bookmarks s) (toy_with ?e) = (Inl x, st1)"
    using refusing_refuses [OF toy_refusing(3)] by blast
  have "map_of (al_put ''hasPassword'' (JBool True) ?e) ''hasPassword'' \<noteq> map_of ?e ''hasPassword''" by (simp add: toy_entry_def)
  then have new: "im_bookmarks s \<noteq> [?e]" unfolding s(2) by (metis list.inject)
  have writing: "write_changed toy_sites refusing sites_file (im_bookmarks s) [?e] (toy_with ?e) = (Inl x, st1)"
    using new w by (simp add: write_changed_def)
  have "import_sites toy_sites refusing calm tenv [] [] fresh [?e] toy_brought (toy_with ?e) toy_holding
    = commit_import toy_sites refusing calm tenv [] [] [?e] [] s (toy_with ?e) toy_holding"
    using toy_holding_state(1,2) s(1) by (simp add: import_sites_def toy_refusing e toy_codec_is)
  also have "\<dots> = (Inl (x, []), st1, v2)"
    using v1(1) v2 writing by (simp add: commit_import_def s(4) rollback_import_def put_file_back_def)
  finally show ?thesis by blast
qed

theorem import_replaces_nothing_witness:
  "\<exists>r st' v'. import_sites toy_sites calm calm tenv [] [] (\<lambda>_. ''9'') [toy_entry []] toy_brought (toy_with (toy_entry [])) toy_holding
      = (r, st', v')
    \<and> get_key (secret_key ''1'' ''keyPassphrase'') v' = Inr (Some ''kp'')"
proof -
  obtain r st' v' where run: "import_sites toy_sites calm calm tenv [] [] (\<lambda>_. ''9'') [toy_entry []] toy_brought (toy_with (toy_entry []))
      toy_holding = (r, st', v')" by (metis prod_cases3)
  have "files_ok (se_codec toy_sites) (toy_with (toy_entry []))" by (rule toy_with_ok) simp
  from import_replaces_nothing [OF sites_lossless _ this run] show ?thesis using run toy_holding_state(3) by auto
qed

theorem secrets_only_to_their_recipient_witness:
  "\<exists>s. plan_import toy_sites (Some toy_holding) (\<lambda>_. ''9'') [toy_entry []] toy_brought [toy_entry []] [] = Inr s
    \<and> im_planned s = toy_plan \<and> (\<exists>e \<in> set (im_bookmarks s). text_of e ''id'' = ''1'')
    \<and> get_secret ''1'' ''password'' toy_holding = Inr None"
proof -
  obtain s where s: "plan_import toy_sites (Some toy_holding) (\<lambda>_. ''9'') [toy_entry []] toy_brought [toy_entry []] [] = Inr s"
    "im_planned s = toy_plan" by (rule toy_planned)
  then show ?thesis using secrets_only_to_their_recipient [OF s(1), of "''1''" "''password''" "''pw''"] by auto
qed

theorem undone_import_leaves_nothing_witness:
  "\<exists>e st' v'. import_sites toy_sites refusing calm tenv [] [] (\<lambda>_. ''9'') [toy_entry []] toy_brought (toy_with (toy_entry [])) toy_holding
      = (Inl (e, []), st', v')
    \<and> get_key (secret_key ''1'' ''password'') v' = Inr None"
proof -
  obtain e st' v' where run: "import_sites toy_sites refusing calm tenv [] [] (\<lambda>_. ''9'') [toy_entry []] toy_brought
      (toy_with (toy_entry [])) toy_holding = (Inl (e, []), st', v')" using toy_refused_import by blast
  have "files_ok (se_codec toy_sites) (toy_with (toy_entry []))" by (rule toy_with_ok) simp
  from undone_import_leaves_nothing [OF sites_lossless _ this run, of e st' v' _ _ _ tenv "[]" "secret_key ''1'' ''password''"]
  show ?thesis using run toy_holding_state(4) by auto
qed

end
